(* ===== verification/Prelude.thy ===== *)
theory Prelude
  imports Main "HOL-Library.Word" "HOL-Library.List_Lexorder"
begin

text \<open>
  The vocabulary every component of the development shares: Rust's fixed-width integers with
  their checked and saturating operations, the \<open>Result\<close> type with the question-mark operator,
  loops over slices that may stop early, sums of balances, and the storage maps whose keys the
  node keeps in lexicographic order.

  Integers are \<open>word\<close>s, so a bare \<open>+\<close> or \<open>*\<close> wraps around: the workspace's release profile
  (\<open>src/Cargo.toml\<close>, \<open>[profile.release]\<close>) does not turn overflow checks on. Every place where
  the source calls \<open>checked_*\<close>, \<open>saturating_*\<close>, \<open>unwrap\<close> or \<open>expect\<close> is written out.
\<close>

named_theorems res_simps \<open>equations that invert a successful \<open>Result\<close> computation\<close>
named_theorems checked_simps \<open>what a checked or saturating integer operation returns, read in nat\<close>

section \<open>Machine integers\<close>

type_synonym u8 = "8 word"
type_synonym u16 = "16 word"
type_synonym u32 = "32 word"
type_synonym u64 = "64 word"
type_synonym u128 = "128 word"

definition checked_add :: "'a::len word \<Rightarrow> 'a word \<Rightarrow> 'a word option" where
  "checked_add a b = (if unat a + unat b < 2 ^ LENGTH('a) then Some (a + b) else None)"

definition checked_sub :: "'a::len word \<Rightarrow> 'a word \<Rightarrow> 'a word option" where
  "checked_sub a b = (if unat b \<le> unat a then Some (a - b) else None)"

definition checked_mul :: "'a::len word \<Rightarrow> 'a word \<Rightarrow> 'a word option" where
  "checked_mul a b = (if unat a * unat b < 2 ^ LENGTH('a) then Some (a * b) else None)"

definition checked_div :: "'a::len word \<Rightarrow> 'a word \<Rightarrow> 'a word option" where
  "checked_div a b = (if b = 0 then None else Some (a div b))"

definition saturating_add :: "'a::len word \<Rightarrow> 'a word \<Rightarrow> 'a word" where
  "saturating_add a b = (case checked_add a b of Some c \<Rightarrow> c | None \<Rightarrow> - 1)"

definition saturating_sub :: "'a::len word \<Rightarrow> 'a word \<Rightarrow> 'a word" where
  "saturating_sub a b = (case checked_sub a b of Some c \<Rightarrow> c | None \<Rightarrow> 0)"

definition saturating_mul :: "'a::len word \<Rightarrow> 'a word \<Rightarrow> 'a word" where
  "saturating_mul a b = (case checked_mul a b of Some c \<Rightarrow> c | None \<Rightarrow> - 1)"

text \<open>\<open>u64::try_from\<close> of a \<open>u128\<close>.\<close>

definition try_u64 :: "u128 \<Rightarrow> u64 option" where
  "try_u64 x = (if unat x < 2 ^ 64 then Some (ucast x) else None)"

section \<open>Results\<close>

text \<open>
  \<open>Inl\<close> is \<open>Err\<close> and \<open>Inr\<close> is \<open>Ok\<close>. \<open>tri m k\<close> is \<open>m?\<close> followed by the rest \<open>k\<close> of the function,
  \<open>ensure b e k\<close> is Substrate's \<open>ensure!(b, e)\<close> followed by \<open>k\<close>, and \<open>ok_or\<close> is the method on
  \<open>Option\<close> (an \<open>unwrap\<close> is \<open>ok_or\<close> with the component's panic value).
\<close>

definition tri :: "'e + 'a \<Rightarrow> ('a \<Rightarrow> 'e + 'b) \<Rightarrow> 'e + 'b" where
  "tri m k = (case m of Inl e \<Rightarrow> Inl e | Inr x \<Rightarrow> k x)"

definition ensure :: "bool \<Rightarrow> 'e \<Rightarrow> 'e + 'b \<Rightarrow> 'e + 'b" where
  "ensure b e k = (if b then k else Inl e)"

definition ok_or :: "'a option \<Rightarrow> 'e \<Rightarrow> 'e + 'a" where
  "ok_or x e = (case x of None \<Rightarrow> Inl e | Some v \<Rightarrow> Inr v)"

definition map_err :: "('e \<Rightarrow> 'f) \<Rightarrow> 'e + 'a \<Rightarrow> 'f + 'a" where
  "map_err f m = (case m of Inl e \<Rightarrow> Inl (f e) | Inr x \<Rightarrow> Inr x)"

definition is_ok :: "'e + 'a \<Rightarrow> bool" where
  "is_ok m = (case m of Inl _ \<Rightarrow> False | Inr _ \<Rightarrow> True)"

text \<open>A \<open>for\<close> loop whose body may return early with an error.\<close>

fun try_fold :: "('s \<Rightarrow> 'x \<Rightarrow> 'e + 's) \<Rightarrow> 's \<Rightarrow> 'x list \<Rightarrow> 'e + 's" where
  "try_fold f s [] = Inr s"
| "try_fold f s (x # xs) = tri (f s x) (\<lambda>t. try_fold f t xs)"

text \<open>\<open>slice.get(i)\<close> and \<open>slice.windows(2)\<close>.\<close>

definition slice_get :: "'a list \<Rightarrow> nat \<Rightarrow> 'a option" where
  "slice_get xs i = (if i < length xs then Some (xs ! i) else None)"

definition windows2 :: "'a list \<Rightarrow> ('a \<times> 'a) list" where
  "windows2 xs = zip xs (tl xs)"

section \<open>Ordered storage\<close>

text \<open>
  Substrate's storage is a trie: iterating a map visits its raw keys in lexicographic order, and
  \<open>next_key k\<close> is the first key strictly after \<open>k\<close>. A map that the code iterates is kept as an
  association list in strictly increasing key order.
\<close>

type_synonym ('k, 'v) omap = "('k \<times> 'v) list"

fun om_get :: "('k::linorder, 'v) omap \<Rightarrow> 'k \<Rightarrow> 'v option" where
  "om_get [] k = None"
| "om_get ((a, b) # m) k = (if k = a then Some b else om_get m k)"

fun om_set :: "'k::linorder \<Rightarrow> 'v \<Rightarrow> ('k, 'v) omap \<Rightarrow> ('k, 'v) omap" where
  "om_set k v [] = [(k, v)]"
| "om_set k v ((a, b) # m) =
     (if k < a then (k, v) # (a, b) # m
      else if k = a then (k, v) # m
      else (a, b) # om_set k v m)"

fun om_remove :: "'k::linorder \<Rightarrow> ('k, 'v) omap \<Rightarrow> ('k, 'v) omap" where
  "om_remove k [] = []"
| "om_remove k ((a, b) # m) = (if k = a then m else (a, b) # om_remove k m)"

fun om_next :: "('k::linorder, 'v) omap \<Rightarrow> 'k \<Rightarrow> 'k option" where
  "om_next [] k = None"
| "om_next ((a, b) # m) k = (if k < a then Some a else om_next m k)"

definition om_keys :: "('k::linorder, 'v) omap \<Rightarrow> 'k set" where
  "om_keys m = fst ` set m"

definition om_wf :: "('k::linorder, 'v) omap \<Rightarrow> bool" where
  "om_wf m = sorted_wrt (<) (map fst m)"

section \<open>Lemmas on machine integers\<close>

lemma unat_less_2p: "unat (a :: 'a::len word) < 2 ^ LENGTH('a)"
  by (rule unsigned_less)

lemma unat_eqI: "unat a = unat b \<Longrightarrow> a = b"
  by (simp add: word_unat_eq_iff)

lemma unat_sum_list:
  "sum_list (map unat ws) < 2 ^ LENGTH('a) \<Longrightarrow> unat (sum_list (ws :: 'a::len word list)) = sum_list (map unat ws)"
proof (induction ws)
  case (Cons w ws)
  then have "unat w + unat (sum_list ws) < 2 ^ LENGTH('a)" by simp
  then show ?case using Cons by (simp add: unat_add_lem [THEN iffD1])
qed simp

lemma unat_max_word: "unat (- 1 :: 'a::len word) = 2 ^ LENGTH('a) - 1"
  by (simp add: unsigned_minus_1_eq_mask mask_eq_exp_minus_1)

lemma checked_add_Some [checked_simps]:
  "checked_add (a :: 'a::len word) b = Some c \<longleftrightarrow> unat c = unat a + unat b"
proof -
  have "unat a + unat b < 2 ^ LENGTH('a)" if "unat c = unat a + unat b"
    using that unat_less_2p [of c] by linarith
  then show ?thesis by (auto simp: checked_add_def unat_add_lem [THEN iffD1] intro!: unat_eqI)
qed

lemma checked_add_None [checked_simps]:
  "checked_add (a :: 'a::len word) b = None \<longleftrightarrow> 2 ^ LENGTH('a) \<le> unat a + unat b"
  by (auto simp: checked_add_def)

lemma checked_sub_Some [checked_simps]:
  "checked_sub a b = Some c \<longleftrightarrow> unat a = unat b + unat c"
  by (auto simp: checked_sub_def unat_sub word_le_nat_alt intro!: unat_eqI)

lemma checked_sub_None [checked_simps]: "checked_sub a b = None \<longleftrightarrow> unat a < unat b"
  by (auto simp: checked_sub_def)

lemma checked_mul_Some [checked_simps]:
  "checked_mul (a :: 'a::len word) b = Some c \<longleftrightarrow> unat c = unat a * unat b"
proof -
  have "unat a * unat b < 2 ^ LENGTH('a)" if "unat c = unat a * unat b"
    using that unat_less_2p [of c] by linarith
  then show ?thesis by (auto simp: checked_mul_def unat_mult_lem [THEN iffD1] intro!: unat_eqI)
qed

lemma checked_mul_None [checked_simps]:
  "checked_mul (a :: 'a::len word) b = None \<longleftrightarrow> 2 ^ LENGTH('a) \<le> unat a * unat b"
  by (auto simp: checked_mul_def)

lemma checked_div_Some [checked_simps]:
  "checked_div a b = Some c \<longleftrightarrow> b \<noteq> 0 \<and> unat c = unat a div unat b"
  by (auto simp: checked_div_def unat_div_distrib intro!: unat_eqI)

lemma checked_div_None [checked_simps]: "checked_div a b = None \<longleftrightarrow> b = 0"
  by (auto simp: checked_div_def)

lemma unat_saturating_add [checked_simps]:
  "unat (saturating_add (a :: 'a::len word) b) = min (unat a + unat b) (2 ^ LENGTH('a) - 1)"
proof (cases "checked_add a b")
  case None
  moreover from None have "2 ^ LENGTH('a) \<le> unat a + unat b"
    by (simp add: checked_simps)
  ultimately show ?thesis by (simp add: saturating_add_def unat_max_word)
next
  case (Some c)
  moreover from Some have "unat c = unat a + unat b"
    by (simp add: checked_simps)
  ultimately show ?thesis
    using unat_less_2p [of c] by (simp add: saturating_add_def)
qed

lemma unat_saturating_sub [checked_simps]: "unat (saturating_sub a b) = unat a - unat b"
  by (auto simp: saturating_sub_def checked_simps split: option.splits)

lemma unat_saturating_mul [checked_simps]:
  "unat (saturating_mul (a :: 'a::len word) b) = min (unat a * unat b) (2 ^ LENGTH('a) - 1)"
proof (cases "checked_mul a b")
  case None
  moreover from None have "2 ^ LENGTH('a) \<le> unat a * unat b"
    by (simp add: checked_simps)
  ultimately show ?thesis by (simp add: saturating_mul_def unat_max_word)
next
  case (Some c)
  moreover from Some have "unat c = unat a * unat b"
    by (simp add: checked_simps)
  ultimately show ?thesis
    using unat_less_2p [of c] by (simp add: saturating_mul_def)
qed

lemma try_u64_Some [checked_simps]: "try_u64 x = Some y \<longleftrightarrow> unat y = unat x"
proof -
  have "unat (ucast x :: u64) = unat x" if "unat x < 2 ^ 64"
    using that by (simp add: unsigned_ucast_eq take_bit_nat_eq_self)
  moreover have "unat y < 2 ^ 64"
    using unat_less_2p [of y] by simp
  ultimately show ?thesis
    by (auto simp: try_u64_def intro!: unat_eqI)
qed

lemma try_u64_None [checked_simps]: "try_u64 x = None \<longleftrightarrow> 2 ^ 64 \<le> unat x"
  by (auto simp: try_u64_def)

lemma unat_u64_to_u128 [simp]: "unat (ucast (a :: u64) :: u128) = unat a"
  using unat_less_2p [of a] by (simp add: unsigned_ucast_eq take_bit_nat_eq_self)

lemma unat_u32_to_u128 [simp]: "unat (ucast (a :: u32) :: u128) = unat a"
  using unat_less_2p [of a] by (simp add: unsigned_ucast_eq take_bit_nat_eq_self)

section \<open>Lemmas on results\<close>

lemma tri_simps [simp]: "tri (Inl e) k = Inl e" "tri (Inr x) k = k x"
  by (simp_all add: tri_def)

lemma tri_Inr [res_simps]: "tri m k = Inr y \<longleftrightarrow> (\<exists>x. m = Inr x \<and> k x = Inr y)"
  by (cases m) auto

lemma tri_Inl [res_simps]:
  "tri m k = Inl e \<longleftrightarrow> m = Inl e \<or> (\<exists>x. m = Inr x \<and> k x = Inl e)"
  by (cases m) auto

lemma ensure_simps [simp]: "ensure True e k = k" "ensure False e k = Inl e"
  by (simp_all add: ensure_def)

lemma ensure_Inr [res_simps]: "ensure b e k = Inr y \<longleftrightarrow> b \<and> k = Inr y"
  by (simp add: ensure_def)

lemma ensure_Inl [res_simps]: "ensure b e k = Inl f \<longleftrightarrow> (\<not> b \<and> f = e) \<or> (b \<and> k = Inl f)"
  by (auto simp: ensure_def)

lemma ok_or_simps [simp]: "ok_or None e = Inl e" "ok_or (Some x) e = Inr x"
  by (simp_all add: ok_or_def)

lemma ok_or_Inr [res_simps]: "ok_or x e = Inr y \<longleftrightarrow> x = Some y"
  by (cases x) auto

lemma ok_or_Inl [res_simps]: "ok_or x e = Inl f \<longleftrightarrow> x = None \<and> f = e"
  by (cases x) auto

lemma map_err_simps [simp]: "map_err f (Inl e) = Inl (f e)" "map_err f (Inr x) = Inr x"
  by (simp_all add: map_err_def)

lemma map_err_Inr [res_simps]: "map_err f m = Inr y \<longleftrightarrow> m = Inr y"
  by (cases m) auto

lemma map_err_Inl [res_simps]: "map_err f m = Inl g \<longleftrightarrow> (\<exists>e. m = Inl e \<and> g = f e)"
  by (cases m) auto

lemma is_ok_simps [simp]: "is_ok (Inl e) = False" "is_ok (Inr x) = True"
  by (simp_all add: is_ok_def)

lemma is_ok_iff: "is_ok m \<longleftrightarrow> (\<exists>x. m = Inr x)"
  by (cases m) auto

lemma try_fold_append:
  "try_fold f s (xs @ ys) = tri (try_fold f s xs) (\<lambda>t. try_fold f t ys)"
proof (induction xs arbitrary: s)
  case (Cons x xs)
  then show ?case by (cases "f s x") simp_all
qed simp

lemma try_fold_invariant:
  assumes "try_fold f s xs = Inr t" and "P s"
    and "\<And>s x t. x \<in> set xs \<Longrightarrow> P s \<Longrightarrow> f s x = Inr t \<Longrightarrow> P t"
  shows "P t"
  using assms
proof (induction xs arbitrary: s)
  case (Cons x xs)
  from Cons.prems(1) obtain u where u: "f s x = Inr u" and rest: "try_fold f u xs = Inr t"
    by (auto simp: res_simps)
  have "P u" using Cons.prems(2,3) u by auto
  with rest Cons.prems(3) show ?case by (auto intro: Cons.IH)
qed simp

lemma windows2_simps [simp]:
  "windows2 [] = []" "windows2 [x] = []" "windows2 (x # y # xs) = (x, y) # windows2 (y # xs)"
  by (simp_all add: windows2_def)

lemma length_windows2 [simp]: "length (windows2 xs) = length xs - 1"
  by (simp add: windows2_def)

section \<open>Lemmas on ordered storage\<close>

lemma om_wf_simps [simp]:
  "om_wf []" "om_wf ((k, v) # m) \<longleftrightarrow> (\<forall>a \<in> om_keys m. k < a) \<and> om_wf m"
  by (auto simp: om_wf_def om_keys_def)

lemma om_keys_simps [simp]:
  "om_keys [] = {}" "om_keys ((k, v) # m) = insert k (om_keys m)"
  by (simp_all add: om_keys_def)

lemma finite_om_keys [simp]: "finite (om_keys m)"
  by (simp add: om_keys_def)

lemma om_get_keys: "om_get m k \<noteq> None \<longleftrightarrow> k \<in> om_keys m"
  by (induction m k rule: om_get.induct) auto

lemma om_get_None: "om_get m k = None \<longleftrightarrow> k \<notin> om_keys m"
  using om_get_keys by blast

lemma om_keys_set [simp]: "om_keys (om_set k v m) = insert k (om_keys m)"
  by (induction k v m rule: om_set.induct) auto

lemma om_wf_set [simp]: "om_wf m \<Longrightarrow> om_wf (om_set k v m)"
  by (induction k v m rule: om_set.induct) auto

lemma om_get_set: "om_wf m \<Longrightarrow> om_get (om_set k v m) j = (if j = k then Some v else om_get m j)"
  by (induction k v m rule: om_set.induct) auto

lemma om_keys_remove: "om_wf m \<Longrightarrow> om_keys (om_remove k m) = om_keys m - {k}"
  by (induction k m rule: om_remove.induct) auto

lemma om_wf_remove [simp]: "om_wf m \<Longrightarrow> om_wf (om_remove k m)"
  by (induction k m rule: om_remove.induct) (auto simp: om_keys_remove)

lemma om_get_remove:
  "om_wf m \<Longrightarrow> om_get (om_remove k m) j = (if j = k then None else om_get m j)"
  by (induction k m rule: om_remove.induct) (auto simp: om_keys_remove om_get_None)

lemma om_next_Some:
  "om_wf m \<Longrightarrow> om_next m k = Some j \<longleftrightarrow> j \<in> om_keys m \<and> k < j \<and> (\<forall>i \<in> om_keys m. k < i \<longrightarrow> j \<le> i)"
proof (induction m k rule: om_next.induct)
  case (2 a b m k)
  show ?case
  proof (cases "k < a")
    case True
    with "2.prems" show ?thesis by (auto intro: antisym)
  next
    case False
    with 2 show ?thesis by auto
  qed
qed simp

lemma om_next_None: "om_next m k = None \<longleftrightarrow> (\<forall>i \<in> om_keys m. i \<le> k)"
  by (induction m k rule: om_next.induct) auto

end
