(* ===== verification/Primitives.thy ===== *)
theory Primitives
  imports Prelude
begin

unbundle bit_operations_syntax

text \<open>
  The types every pallet shares, from \<open>src/substrate/primitives\<close>: networks and coins, amounts and
  balances with their panicking arithmetic, bounded byte strings, system addresses, and the
  byte-string orders (big-endian keys and their lexicographic reversal) on which the sorted
  storage maps of the Dex and the validator sets rely.

  A \<open>Public\<close> key and a \<open>SeraiAddress\<close> are 32-byte arrays; both are the 256-bit word with these
  big-endian bytes, so the conversions between them are identities.
\<close>

section \<open>Networks and coins\<close>

datatype NetworkId = Serai | Bitcoin | Ethereum | Monero

datatype Coin = Serai | Bitcoin | Ether | Dai | Monero

fun NetworkId_coins :: "NetworkId \<Rightarrow> Coin list" where
  "NetworkId_coins NetworkId.Serai = [Coin.Serai]"
| "NetworkId_coins NetworkId.Bitcoin = [Coin.Bitcoin]"
| "NetworkId_coins NetworkId.Ethereum = [Coin.Ether, Coin.Dai]"
| "NetworkId_coins NetworkId.Monero = [Coin.Monero]"

definition NETWORKS :: "NetworkId list" where
  "NETWORKS = [NetworkId.Serai, NetworkId.Bitcoin, NetworkId.Ethereum, NetworkId.Monero]"

definition COINS :: "Coin list" where
  "COINS = [Coin.Serai, Coin.Bitcoin, Coin.Ether, Coin.Dai, Coin.Monero]"

definition native :: Coin where
  "native = Coin.Serai"

fun network :: "Coin \<Rightarrow> NetworkId" where
  "network Coin.Serai = NetworkId.Serai"
| "network Coin.Bitcoin = NetworkId.Bitcoin"
| "network Coin.Ether = NetworkId.Ethereum"
| "network Coin.Dai = NetworkId.Ethereum"
| "network Coin.Monero = NetworkId.Monero"

fun coin_name :: "Coin \<Rightarrow> string" where
  "coin_name Coin.Serai = ''Serai''"
| "coin_name Coin.Bitcoin = ''Bitcoin''"
| "coin_name Coin.Ether = ''Ether''"
| "coin_name Coin.Dai = ''Dai Stablecoin''"
| "coin_name Coin.Monero = ''Monero''"

fun coin_symbol :: "Coin \<Rightarrow> string" where
  "coin_symbol Coin.Serai = ''SRI''"
| "coin_symbol Coin.Bitcoin = ''BTC''"
| "coin_symbol Coin.Ether = ''ETH''"
| "coin_symbol Coin.Dai = ''DAI''"
| "coin_symbol Coin.Monero = ''XMR''"

fun decimals :: "Coin \<Rightarrow> nat" where
  "decimals Coin.Serai = 8"
| "decimals Coin.Bitcoin = 8"
| "decimals Coin.Ether = 8"
| "decimals Coin.Dai = 8"
| "decimals Coin.Monero = 12"

fun is_native :: "Coin \<Rightarrow> bool" where
  "is_native Coin.Serai = True"
| "is_native _ = False"

definition MAX_COINS_PER_NETWORK :: nat where
  "MAX_COINS_PER_NETWORK = 8"

text \<open>SCALE encodes a field-less enum as the index of its variant.\<close>

fun encode_NetworkId :: "NetworkId \<Rightarrow> u8 list" where
  "encode_NetworkId NetworkId.Serai = [0]"
| "encode_NetworkId NetworkId.Bitcoin = [1]"
| "encode_NetworkId NetworkId.Ethereum = [2]"
| "encode_NetworkId NetworkId.Monero = [3]"

fun encode_Coin :: "Coin \<Rightarrow> u8 list" where
  "encode_Coin Coin.Serai = [0]"
| "encode_Coin Coin.Bitcoin = [1]"
| "encode_Coin Coin.Ether = [2]"
| "encode_Coin Coin.Dai = [3]"
| "encode_Coin Coin.Monero = [4]"

record Network =
  Network_coins :: "Coin list"

datatype network_error = NoCoinsProvided | CoinsHaveDifferentNetworks | CoinsLengthExceeded

definition Network_new :: "Coin list \<Rightarrow> network_error + Network" where
  "Network_new coins =
     (case coins of
        [] \<Rightarrow> Inl NoCoinsProvided
      | first # rest \<Rightarrow>
          ensure (list_all (\<lambda>c. network c = network first) rest) CoinsHaveDifferentNetworks
            (ensure (length coins \<le> MAX_COINS_PER_NETWORK) CoinsLengthExceeded
              (Inr \<lparr>Network_coins = coins\<rparr>)))"

section \<open>Amounts and balances\<close>

type_synonym Amount = u64
type_synonym Public = "256 word"

text \<open>\<open>None\<close> is the panic of the \<open>unwrap\<close>.\<close>

definition Amount_add :: "Amount \<Rightarrow> Amount \<Rightarrow> Amount option" where
  "Amount_add a b = checked_add a b"

definition Amount_sub :: "Amount \<Rightarrow> Amount \<Rightarrow> Amount option" where
  "Amount_sub a b = checked_sub a b"

definition Amount_mul :: "Amount \<Rightarrow> Amount \<Rightarrow> Amount option" where
  "Amount_mul a b = checked_mul a b"

record Balance =
  bal_coin :: Coin
  bal_amount :: Amount

definition Balance_add :: "Balance \<Rightarrow> Amount \<Rightarrow> Balance option" where
  "Balance_add b a = map_option (\<lambda>x. \<lparr>bal_coin = bal_coin b, bal_amount = x\<rparr>) (Amount_add (bal_amount b) a)"

definition Balance_sub :: "Balance \<Rightarrow> Amount \<Rightarrow> Balance option" where
  "Balance_sub b a = map_option (\<lambda>x. \<lparr>bal_coin = bal_coin b, bal_amount = x\<rparr>) (Amount_sub (bal_amount b) a)"

definition Balance_mul :: "Balance \<Rightarrow> Amount \<Rightarrow> Balance option" where
  "Balance_mul b a = map_option (\<lambda>x. \<lparr>bal_coin = bal_coin b, bal_amount = x\<rparr>) (Amount_mul (bal_amount b) a)"

section \<open>Bounded byte strings\<close>

definition MAX_ADDRESS_LEN :: nat where
  "MAX_ADDRESS_LEN = 196"

definition MAX_DATA_LEN :: nat where
  "MAX_DATA_LEN = 512"

type_synonym ExternalAddress = "u8 list"
type_synonym Data = "u8 list"

definition ExternalAddress_new :: "u8 list \<Rightarrow> string + ExternalAddress" where
  "ExternalAddress_new bytes =
     ensure (length bytes \<le> MAX_ADDRESS_LEN) ''address length exceeds {MAX_ADDRESS_LEN}'' (Inr bytes)"

definition Data_new :: "u8 list \<Rightarrow> string + Data" where
  "Data_new bytes =
     ensure (length bytes \<le> MAX_DATA_LEN) ''data length exceeds {MAX_DATA_LEN}'' (Inr bytes)"

section \<open>Byte orders\<close>

text \<open>\<open>to_be_bytes\<close> and \<open>from_be_bytes\<close> of the integer types.\<close>

fun be_bytes :: "nat \<Rightarrow> nat \<Rightarrow> u8 list" where
  "be_bytes 0 x = []"
| "be_bytes (Suc n) x = be_bytes n (x div 256) @ [of_nat x]"

definition be_nat :: "u8 list \<Rightarrow> nat" where
  "be_nat bs = foldl (\<lambda>a b. a * 256 + unat b) 0 bs"

definition to_be_bytes :: "'a::len word \<Rightarrow> u8 list" where
  "to_be_bytes w = be_bytes (LENGTH('a) div 8) (unat w)"

definition from_be_bytes :: "u8 list \<Rightarrow> 'a::len word" where
  "from_be_bytes bs = of_nat (be_nat bs)"

definition reverse_lexicographic_order :: "u8 list \<Rightarrow> u8 list" where
  "reverse_lexicographic_order bytes = map (\<lambda>b. NOT b) bytes"

text \<open>
  The loop copies the name over 32 zero bytes; an index past the end and the final assertion are
  compile-time panics, since the function is only evaluated in constants.
\<close>

definition system_address :: "u8 list \<Rightarrow> Public option" where
  "system_address pallet =
     (if length pallet \<le> 32 \<and> list_ex (\<lambda>b. b \<noteq> 0) pallet
      then Some (from_be_bytes (pallet @ replicate (32 - length pallet) 0)) else None)"

definition ascii :: "string \<Rightarrow> u8 list" where
  "ascii s = map of_char s"

section \<open>Lemmas on byte orders\<close>

lemma length_be_bytes [simp]: "length (be_bytes n x) = n"
  by (induction n x rule: be_bytes.induct) auto

lemma be_nat_Nil [simp]: "be_nat [] = 0"
  by (simp add: be_nat_def)

lemma be_nat_snoc [simp]: "be_nat (bs @ [b]) = be_nat bs * 256 + unat b"
  by (simp add: be_nat_def)

lemma be_nat_Cons: "be_nat (b # bs) = unat b * 256 ^ length bs + be_nat bs"
proof (induction bs rule: rev_induct)
  case (snoc x xs)
  have "be_nat (b # xs @ [x]) = be_nat (b # xs) * 256 + unat x"
    using be_nat_snoc [of "b # xs" x] by simp
  with snoc show ?case by (simp add: algebra_simps)
qed (simp add: be_nat_def)

lemma be_nat_bound: "be_nat bs < 256 ^ length bs"
proof (induction bs rule: rev_induct)
  case (snoc x xs)
  have "unat x < 256" using unat_less_2p [of x] by simp
  then have "be_nat xs * 256 + unat x < (be_nat xs + 1) * 256" by simp
  also have "\<dots> \<le> 256 ^ length xs * 256" using snoc by (intro mult_le_mono1) simp
  finally show ?case by simp
qed simp

lemma be_nat_be_bytes: "be_nat (be_bytes n x) = x mod 256 ^ n"
proof (induction n x rule: be_bytes.induct)
  case (2 n x)
  have "unat (of_nat x :: u8) = x mod 256" by (simp add: unsigned_of_nat take_bit_eq_mod)
  with 2 show ?case by (simp add: mod_mult2_eq)
qed simp

lemma be_bytes_be_nat: "length bs = n \<Longrightarrow> be_bytes n (be_nat bs) = bs"
proof (induction n arbitrary: bs)
  case (Suc n)
  then obtain ys y where bs: "bs = ys @ [y]" by (cases bs rule: rev_cases) auto
  have "unat y < 256" using unat_less_2p [of y] by simp
  moreover from this have "(of_nat (be_nat ys * 256 + unat y) :: u8) = y"
  proof -
    have "(256 :: u8) = 0" by simp
    then have "x * (256 :: u8) = 0" for x by (simp only: mult_zero_right)
    then show ?thesis by simp
  qed
  ultimately show ?case using Suc by (simp add: bs)
qed simp

lemma from_to_be_bytes:
  assumes "LENGTH('a) = 8 * n"
  shows "from_be_bytes (to_be_bytes (w :: 'a::len word)) = w"
proof -
  have "(256 :: nat) ^ n = 2 ^ LENGTH('a)"
    using assms by (simp add: power_mult)
  then have "unat w mod 256 ^ (LENGTH('a) div 8) = unat w"
    using assms unat_less_2p [of w] by simp
  then show ?thesis by (simp add: from_be_bytes_def to_be_bytes_def be_nat_be_bytes)
qed

lemma to_from_be_bytes:
  assumes "LENGTH('a) = 8 * n" and "length bs = n"
  shows "to_be_bytes (from_be_bytes bs :: 'a::len word) = bs"
proof -
  have "be_nat bs < 2 ^ LENGTH('a)"
    using be_nat_bound [of bs] assms by (simp add: power_mult)
  then have "unat (from_be_bytes bs :: 'a word) = be_nat bs"
    by (simp add: from_be_bytes_def unsigned_of_nat take_bit_nat_eq_self)
  with assms show ?thesis by (simp add: to_be_bytes_def be_bytes_be_nat)
qed

lemma u64_be_bytes [simp]: "from_be_bytes (to_be_bytes (a :: u64)) = a"
  by (rule from_to_be_bytes [where n = 8]) simp

lemma length_to_be_bytes_u64 [simp]: "length (to_be_bytes (a :: u64)) = 8"
  by (simp add: to_be_bytes_def)

text \<open>On byte strings of one length, the lexicographic order is the order of the numbers.\<close>

lemma be_nat_less_iff: "length xs = length ys \<Longrightarrow> xs < ys \<longleftrightarrow> be_nat xs < be_nat ys"
proof (induction xs ys rule: list_induct2)
  case (Cons x xs y ys)
  let ?p = "256 ^ length ys :: nat"
  have bx: "be_nat xs < ?p" using be_nat_bound [of xs] Cons.hyps by simp
  have by': "be_nat ys < ?p" by (rule be_nat_bound)
  have step: "a * ?p + be_nat us < b * ?p + be_nat vs"
    if "a < b" and "be_nat us < ?p" for a b us vs
  proof -
    have "a * ?p + be_nat us < (a + 1) * ?p" using that by simp
    also have "\<dots> \<le> b * ?p" using that by (intro mult_le_mono1) simp
    finally show ?thesis by simp
  qed
  consider "x < y" | "x = y" | "y < x" by fastforce
  then show ?case
  proof cases
    case 1
    then show ?thesis using step [of "unat x" "unat y" xs ys] bx Cons.hyps
      by (simp add: be_nat_Cons word_less_nat_alt)
  next
    case 2
    then show ?thesis using Cons by (simp add: be_nat_Cons)
  next
    case 3
    then show ?thesis using step [of "unat y" "unat x" ys xs] by' Cons.hyps
      by (auto simp: be_nat_Cons word_less_nat_alt)
  qed
qed simp

lemma u64_be_bytes_less [simp]:
  "to_be_bytes (a :: u64) < to_be_bytes b \<longleftrightarrow> a < b"
proof -
  have "be_nat (to_be_bytes (x :: u64)) = unat x" for x
    using unat_less_2p [of x] by (simp add: to_be_bytes_def be_nat_be_bytes)
  then show ?thesis by (simp add: be_nat_less_iff word_less_nat_alt)
qed

lemma u64_be_bytes_eq [simp]: "to_be_bytes (a :: u64) = to_be_bytes b \<longleftrightarrow> a = b"
  by (metis u64_be_bytes)

lemma reverse_lexicographic_order_invol [simp]:
  "reverse_lexicographic_order (reverse_lexicographic_order bs) = bs"
  by (simp add: reverse_lexicographic_order_def comp_def)

lemma length_reverse_lexicographic_order [simp]:
  "length (reverse_lexicographic_order bs) = length bs"
  by (simp add: reverse_lexicographic_order_def)

lemma not_less_not_iff: "NOT (a :: 'a::len word) < NOT b \<longleftrightarrow> b < a"
proof -
  have "unat (NOT x) = 2 ^ LENGTH('a) - 1 - unat x" for x :: "'a word"
  proof -
    have "NOT x = - 1 - x" by (simp add: not_eq_complement)
    moreover have "x \<le> - 1" by simp
    ultimately show ?thesis by (simp add: unat_sub unat_max_word)
  qed
  moreover have "2 ^ LENGTH('a) - 1 - unat a < 2 ^ LENGTH('a) - 1 - unat b \<longleftrightarrow> unat b < unat a"
    using unat_less_2p [of a] unat_less_2p [of b] by linarith
  ultimately show ?thesis by (simp only: word_less_nat_alt)
qed

lemma reverse_lexicographic_order_less:
  "length xs = length ys \<Longrightarrow>
   reverse_lexicographic_order xs < reverse_lexicographic_order ys \<longleftrightarrow> ys < xs"
  by (induction xs ys rule: list_induct2)
     (auto simp: reverse_lexicographic_order_def not_less_not_iff)

section \<open>Lemmas on networks and coins\<close>

lemma in_NetworkId_coins [simp]: "c \<in> set (NetworkId_coins n) \<longleftrightarrow> network c = n"
  by (cases n; cases c) simp_all

lemma COINS_UNIV: "set COINS = UNIV"
  by (auto simp: COINS_def) (metis Coin.exhaust)

lemma NETWORKS_UNIV: "set NETWORKS = UNIV"
  by (auto simp: NETWORKS_def) (metis NetworkId.exhaust)

lemma encode_Coin_inject [simp]: "encode_Coin c = encode_Coin d \<longleftrightarrow> c = d"
  by (cases c; cases d) simp_all

lemma encode_NetworkId_inject [simp]: "encode_NetworkId c = encode_NetworkId d \<longleftrightarrow> c = d"
  by (cases c; cases d) simp_all

lemma unat_from_be_bytes:
  "length bs = LENGTH('a) div 8 \<Longrightarrow> 8 dvd LENGTH('a) \<Longrightarrow> unat (from_be_bytes bs :: 'a::len word) = be_nat bs"
proof -
  assume l: "length bs = LENGTH('a) div 8" "8 dvd LENGTH('a)"
  have "be_nat bs < 256 ^ length bs" by (rule be_nat_bound)
  also have "(256 :: nat) ^ length bs = 2 ^ (8 * length bs)" by (simp add: power_mult)
  also have "8 * length bs = LENGTH('a)" using l by simp
  finally show ?thesis by (simp add: from_be_bytes_def unat_of_nat take_bit_nat_eq_self)
qed

lemma system_address_large:
  assumes "system_address (b # bs) = Some a" and "b \<noteq> 0"
  shows "2 ^ 248 \<le> unat a"
proof -
  let ?cs = "bs @ replicate (31 - length bs) 0 :: u8 list"
  from assms have len: "length bs \<le> 31" and a: "a = from_be_bytes (b # ?cs)"
    by (auto simp: system_address_def split: if_splits)
  have "unat a = be_nat (b # ?cs)" using len unfolding a by (subst unat_from_be_bytes) simp_all
  also have "\<dots> \<ge> unat b * 256 ^ 31" using len by (simp add: be_nat_Cons)
  finally have "unat b * 256 ^ 31 \<le> unat a" .
  moreover have "1 \<le> unat b" using assms(2) by (simp add: unat_gt_0 Suc_le_eq)
  ultimately have "256 ^ 31 \<le> unat a" by (metis (no_types) mult_le_mono1 nat_mult_1 order_trans)
  then show ?thesis by simp
qed

end
