(* ===== verification/Coins.thy ===== *)
theory Coins
  imports Primitives
begin

text \<open>
  The coins pallet (\<open>src/substrate/coins\<close>): balances per account and coin, the supply of each coin,
  minting, burning, transfers, and the transaction-fee hooks. The pallet is instantiated twice by
  the runtime, once for the coins and once (\<open>Instance1\<close>) for the Dex's liquidity tokens, so its
  state is a record of its own and the instance is an argument where the code asks for it.

  \<open>T::AllowMint::is_allowed\<close> is the argument \<open>is_allowed\<close>; what \<open>ensure_signed\<close> of Substrate returns
  for the origin of a call is the argument \<open>signer\<close>. A call that errors leaves no state behind:
  Substrate rolls the storage of a failed call back.

  The lemmas show that the supply of every coin is the sum of its balances in every reachable
  state, that the panics of the burning paths are therefore unreachable, and that a transfer is
  exactly the transfer of an abstract ledger of natural numbers. The interface \<open>ledger\<close> is what
  the Dex and the validator sets rely on.
\<close>

section \<open>Data\<close>

record OutInstruction =
  oi_address :: ExternalAddress
  oi_data :: "Data option"

record OutInstructionWithBalance =
  oib_instruction :: OutInstruction
  oib_balance :: Balance

datatype Destination = Native Public | External OutInstruction

definition FEE_ACCOUNT :: Public where
  "FEE_ACCOUNT = (case system_address (ascii ''Coins-fees'') of Some a \<Rightarrow> a | None \<Rightarrow> 0)"

datatype CoinsError =
    AmountOverflowed
  | NotEnoughCoins
  | BurnWithInstructionNotAllowed
  | MintNotAllowed
  | Coins_BadOrigin
  | Coins_Panic

datatype CoinsEvent =
    Mint Public Balance
  | Burn Public Balance
  | BurnWithInstruction Public OutInstructionWithBalance
  | Transfer Public Public Balance

record coins_state =
  Balances :: "Public \<Rightarrow> Coin \<Rightarrow> u64 option"
  Supply :: "Coin \<Rightarrow> u64 option"
  CoinsEvents :: "CoinsEvent list"

definition coins_empty :: coins_state where
  "coins_empty = \<lparr>Balances = (\<lambda>_ _. None), Supply = (\<lambda>_. None), CoinsEvents = []\<rparr>"

section \<open>Operations\<close>

definition balance :: "coins_state \<Rightarrow> Public \<Rightarrow> Coin \<Rightarrow> Amount" where
  "balance s who coin = (case Balances s who coin of Some a \<Rightarrow> a | None \<Rightarrow> 0)"

definition coin_supply :: "coins_state \<Rightarrow> Coin \<Rightarrow> u64" where
  "coin_supply s coin = (case Supply s coin of Some a \<Rightarrow> a | None \<Rightarrow> 0)"

definition set_balance :: "coins_state \<Rightarrow> Public \<Rightarrow> Coin \<Rightarrow> u64 option \<Rightarrow> coins_state" where
  "set_balance s who coin v = s\<lparr>Balances := (Balances s)(who := (Balances s who)(coin := v))\<rparr>"

definition coins_deposit_event :: "coins_state \<Rightarrow> CoinsEvent \<Rightarrow> coins_state" where
  "coins_deposit_event s e = s\<lparr>CoinsEvents := CoinsEvents s @ [e]\<rparr>"

definition decrease_balance_internal :: "coins_state \<Rightarrow> Public \<Rightarrow> Balance \<Rightarrow> CoinsError + coins_state" where
  "decrease_balance_internal s sender b =
     tri (ok_or (checked_sub (balance s sender (bal_coin b)) (bal_amount b)) NotEnoughCoins)
       (\<lambda>new_amount.
          if new_amount = 0 then Inr (set_balance s sender (bal_coin b) None)
          else Inr (set_balance s sender (bal_coin b) (Some new_amount)))"

definition increase_balance_internal :: "coins_state \<Rightarrow> Public \<Rightarrow> Balance \<Rightarrow> CoinsError + coins_state" where
  "increase_balance_internal s to b =
     tri (ok_or (checked_add (balance s to (bal_coin b)) (bal_amount b)) AmountOverflowed)
       (\<lambda>new_amount. Inr (set_balance s to (bal_coin b) (Some new_amount)))"

definition mint :: "(Balance \<Rightarrow> bool) \<Rightarrow> coins_state \<Rightarrow> Public \<Rightarrow> Balance \<Rightarrow> CoinsError + coins_state" where
  "mint is_allowed s to b =
     ensure (is_allowed b) MintNotAllowed
       (tri (increase_balance_internal s to b)
         (\<lambda>s1. tri (ok_or (checked_add (coin_supply s1 (bal_coin b)) (bal_amount b)) AmountOverflowed)
           (\<lambda>new_supply.
              Inr (coins_deposit_event (s1\<lparr>Supply := (Supply s1)(bal_coin b \<mapsto> new_supply)\<rparr>) (Mint to b)))))"

definition burn_internal :: "coins_state \<Rightarrow> Public \<Rightarrow> Balance \<Rightarrow> CoinsError + coins_state" where
  "burn_internal s sender b =
     (if bal_amount b = 0 then Inr s
      else tri (decrease_balance_internal s sender b)
        (\<lambda>s1. tri (ok_or (checked_sub (coin_supply s1 (bal_coin b)) (bal_amount b)) Coins_Panic)
          (\<lambda>new_supply. Inr (s1\<lparr>Supply := (Supply s1)(bal_coin b \<mapsto> new_supply)\<rparr>))))"

definition transfer_internal :: "coins_state \<Rightarrow> Public \<Rightarrow> Public \<Rightarrow> Balance \<Rightarrow> CoinsError + coins_state" where
  "transfer_internal s sender to b =
     tri (decrease_balance_internal s sender b)
       (\<lambda>s1. tri (increase_balance_internal s1 to b)
         (\<lambda>s2. Inr (coins_deposit_event s2 (Transfer sender to b))))"

definition transfer :: "coins_state \<Rightarrow> Public option \<Rightarrow> Public \<Rightarrow> Balance \<Rightarrow> CoinsError + coins_state" where
  "transfer s signer to b =
     tri (ok_or signer Coins_BadOrigin) (\<lambda>sender. transfer_internal s sender to b)"

definition burn :: "coins_state \<Rightarrow> Public option \<Rightarrow> Balance \<Rightarrow> CoinsError + coins_state" where
  "burn s signer b =
     tri (ok_or signer Coins_BadOrigin)
       (\<lambda>sender. tri (burn_internal s sender b) (\<lambda>s1. Inr (coins_deposit_event s1 (Burn sender b))))"

definition burn_with_instruction ::
  "bool \<Rightarrow> coins_state \<Rightarrow> Public option \<Rightarrow> OutInstructionWithBalance \<Rightarrow> CoinsError + coins_state" where
  "burn_with_instruction liquidity_tokens_instance s signer instruction =
     ensure (bal_coin (oib_balance instruction) \<noteq> Coin.Serai) BurnWithInstructionNotAllowed
       (ensure (\<not> liquidity_tokens_instance) BurnWithInstructionNotAllowed
         (tri (ok_or signer Coins_BadOrigin)
           (\<lambda>sender. tri (burn_internal s sender (oib_balance instruction))
             (\<lambda>s1. Inr (coins_deposit_event s1 (BurnWithInstruction sender instruction))))))"

definition coins_genesis_build ::
  "(coins_state \<Rightarrow> Balance \<Rightarrow> bool) \<Rightarrow> (Public \<times> Balance) list \<Rightarrow> CoinsError + coins_state" where
  "coins_genesis_build is_allowed accounts =
     try_fold
       (\<lambda>s (account, b). map_err (\<lambda>_. Coins_Panic) (mint (is_allowed s) s account b))
       (coins_empty\<lparr>Supply := foldl (\<lambda>m c. m(c \<mapsto> 0)) (Supply coins_empty) COINS\<rparr>)
       accounts"

definition coins_on_initialize :: "coins_state \<Rightarrow> CoinsError + coins_state" where
  "coins_on_initialize s =
     map_err (\<lambda>_. Coins_Panic)
       (burn_internal s FEE_ACCOUNT
         \<lparr>bal_coin = Coin.Serai, bal_amount = balance s FEE_ACCOUNT Coin.Serai\<rparr>)"

datatype TransactionValidityError = InvalidPayment

definition withdraw_fee ::
  "coins_state \<Rightarrow> Public \<Rightarrow> u64 \<Rightarrow> TransactionValidityError + u64 option \<times> coins_state" where
  "withdraw_fee s who fee =
     (if fee = 0 then Inr (None, s)
      else case transfer_internal s who FEE_ACCOUNT \<lparr>bal_coin = Coin.Serai, bal_amount = fee\<rparr> of
          Inl _ \<Rightarrow> Inl InvalidPayment
        | Inr t \<Rightarrow> Inr (Some fee, t))"

definition correct_and_deposit_fee ::
  "coins_state \<Rightarrow> Public \<Rightarrow> u64 \<Rightarrow> u64 option \<Rightarrow> TransactionValidityError + coins_state" where
  "correct_and_deposit_fee s who corrected_fee already_withdrawn =
     (case already_withdrawn of
        None \<Rightarrow> Inr s
      | Some paid \<Rightarrow>
          map_err (\<lambda>_. InvalidPayment)
            (transfer_internal s FEE_ACCOUNT who
              \<lparr>bal_coin = Coin.Serai, bal_amount = saturating_sub paid corrected_fee\<rparr>))"

section \<open>Reachable states and the abstract ledger\<close>

text \<open>One step of the pallet: an extrinsic, a hook, or a call from another pallet.\<close>

inductive coins_step :: "coins_state \<Rightarrow> coins_state \<Rightarrow> bool" where
  step_mint: "mint is_allowed s to b = Inr t \<Longrightarrow> coins_step s t"
| step_burn: "burn s signer b = Inr t \<Longrightarrow> coins_step s t"
| step_burn_with_instruction: "burn_with_instruction lp s signer i = Inr t \<Longrightarrow> coins_step s t"
| step_transfer: "transfer s signer to b = Inr t \<Longrightarrow> coins_step s t"
| step_transfer_internal: "transfer_internal s sender to b = Inr t \<Longrightarrow> coins_step s t"
| step_on_initialize: "coins_on_initialize s = Inr t \<Longrightarrow> coins_step s t"
| step_withdraw_fee: "withdraw_fee s who fee = Inr (paid, t) \<Longrightarrow> coins_step s t"
| step_correct_fee: "correct_and_deposit_fee s who fee paid = Inr t \<Longrightarrow> coins_step s t"

inductive coins_reachable :: "coins_state \<Rightarrow> bool" where
  genesis: "coins_genesis_build is_allowed accounts = Inr s \<Longrightarrow> coins_reachable s"
| step: "coins_reachable s \<Longrightarrow> coins_step s t \<Longrightarrow> coins_reachable t"

text \<open>What an account holds and what was issued, as natural numbers.\<close>

definition holds :: "coins_state \<Rightarrow> Public \<Rightarrow> Coin \<Rightarrow> nat" where
  "holds s who coin = unat (balance s who coin)"

definition issued :: "coins_state \<Rightarrow> Coin \<Rightarrow> nat" where
  "issued s coin = unat (coin_supply s coin)"

definition supply_sound :: "coins_state \<Rightarrow> bool" where
  "supply_sound s = (\<forall>coin. (\<Sum>who\<in>UNIV. holds s who coin) = issued s coin)"

text \<open>The abstract ledger: amounts that an account gains or loses.\<close>

definition moved :: "Public \<Rightarrow> Balance \<Rightarrow> Public \<Rightarrow> Coin \<Rightarrow> nat" where
  "moved a b who coin = (if who = a \<and> coin = bal_coin b then unat (bal_amount b) else 0)"

definition ledger_transfer ::
  "(Public \<Rightarrow> Coin \<Rightarrow> nat) \<Rightarrow> Public \<Rightarrow> Public \<Rightarrow> Balance \<Rightarrow> (Public \<Rightarrow> Coin \<Rightarrow> nat) option" where
  "ledger_transfer l sender to b =
     (if unat (bal_amount b) \<le> l sender (bal_coin b)
      then Some (\<lambda>who coin. l who coin - moved sender b who coin + moved to b who coin)
      else None)"

section \<open>The interface clients rely on\<close>

text \<open>
  A ledger: what each account holds, what was issued, a transfer, and an invariant under which the
  transfer cannot overflow. \<open>gains\<close> and \<open>loses\<close> say which amount of which coin an account receives
  and gives up.
\<close>

locale ledger =
  fixes held :: "'s \<Rightarrow> Public \<Rightarrow> Coin \<Rightarrow> nat"
    and total :: "'s \<Rightarrow> Coin \<Rightarrow> nat"
    and move :: "'s \<Rightarrow> Public \<Rightarrow> Public \<Rightarrow> Balance \<Rightarrow> 'e + 's"
    and inv :: "'s \<Rightarrow> bool"
  assumes move_ok: "inv s \<Longrightarrow> is_ok (move s f t b) \<longleftrightarrow> unat (bal_amount b) \<le> held s f (bal_coin b)"
    and held_move: "move s f t b = Inr s' \<Longrightarrow>
      held s' a c + moved f b a c = held s a c + moved t b a c"
    and move_enough: "move s f t b = Inr s' \<Longrightarrow> unat (bal_amount b) \<le> held s f (bal_coin b)"
    and total_move: "move s f t b = Inr s' \<Longrightarrow> total s' = total s"
    and inv_move: "inv s \<Longrightarrow> move s f t b = Inr s' \<Longrightarrow> inv s'"
    and held_le_total: "inv s \<Longrightarrow> held s a c \<le> total s c"
begin

lemma held_move_other:
  "move s f t b = Inr s' \<Longrightarrow> a \<noteq> f \<Longrightarrow> a \<noteq> t \<Longrightarrow> held s' a c = held s a c"
  using held_move [of s f t b s' a c] by (simp add: moved_def)

lemma held_move_coin:
  "move s f t b = Inr s' \<Longrightarrow> c \<noteq> bal_coin b \<Longrightarrow> held s' a c = held s a c"
  using held_move [of s f t b s' a c] by (simp add: moved_def)

lemma held_move_self: "move s f f b = Inr s' \<Longrightarrow> held s' a c = held s a c"
  using held_move [of s f f b s' a c] by simp

lemma held_move_from:
  "move s f t b = Inr s' \<Longrightarrow> f \<noteq> t \<Longrightarrow>
   held s' f (bal_coin b) = held s f (bal_coin b) - unat (bal_amount b)"
  using held_move [of s f t b s' f "bal_coin b"] by (simp add: moved_def)

lemma held_move_to:
  "move s f t b = Inr s' \<Longrightarrow> f \<noteq> t \<Longrightarrow>
   held s' t (bal_coin b) = held s t (bal_coin b) + unat (bal_amount b)"
  using held_move [of s f t b s' t "bal_coin b"] by (simp add: moved_def)

lemma move_succeeds:
  assumes "inv s" and "unat (bal_amount b) \<le> held s f (bal_coin b)"
  obtains s' where "move s f t b = Inr s'" and "inv s'"
  using assms move_ok [of s f t b] inv_move by (auto simp: is_ok_iff)

lemma moves_invariant:
  "try_fold (\<lambda>s (f, t, b). move s f t b) s ms = Inr s' \<Longrightarrow> inv s \<Longrightarrow> inv s' \<and> total s' = total s"
  by (rule try_fold_invariant [where P = "\<lambda>u. inv u \<and> total u = total s"])
     (auto simp: inv_move total_move)

end

section \<open>Lemmas on the operations\<close>

lemma coin_supply_upd [simp]:
  "coin_supply (s\<lparr>Supply := (Supply s)(c \<mapsto> x)\<rparr>) d = (if d = c then x else coin_supply s d)"
  "coin_supply (s\<lparr>CoinsEvents := es\<rparr>) d = coin_supply s d"
  "coin_supply (set_balance s a c v) d = coin_supply s d"
  "coin_supply (coins_deposit_event s e) d = coin_supply s d"
  by (simp_all add: coin_supply_def set_balance_def coins_deposit_event_def)

lemma balance_upd [simp]:
  "balance (s\<lparr>Supply := m\<rparr>) a c = balance s a c"
  "balance (coins_deposit_event s e) a c = balance s a c"
  "balance (set_balance s a c v) a' c' =
     (if a' = a \<and> c' = c then (case v of Some x \<Rightarrow> x | None \<Rightarrow> 0) else balance s a' c')"
  by (simp_all add: balance_def set_balance_def coins_deposit_event_def)

lemma decrease_ok:
  assumes "decrease_balance_internal s sender b = Inr t"
  shows "holds s who coin = holds t who coin + moved sender b who coin"
    and "issued t coin = issued s coin"
    and "unat (bal_amount b) \<le> holds s sender (bal_coin b)"
  using assms
  by (auto simp: decrease_balance_internal_def res_simps checked_simps holds_def issued_def moved_def
      split: if_splits)

lemma decrease_iff:
  "is_ok (decrease_balance_internal s sender b) \<longleftrightarrow> unat (bal_amount b) \<le> holds s sender (bal_coin b)"
  by (simp add: decrease_balance_internal_def is_ok_def tri_def ok_or_def checked_sub_def holds_def)

lemma decrease_Inl: "decrease_balance_internal s sender b = Inl e \<Longrightarrow> e = NotEnoughCoins"
  by (auto simp: decrease_balance_internal_def res_simps split: if_splits)

lemma increase_ok:
  assumes "increase_balance_internal s to b = Inr t"
  shows "holds t who coin = holds s who coin + moved to b who coin"
    and "issued t coin = issued s coin"
  using assms
  by (auto simp: increase_balance_internal_def res_simps checked_simps holds_def issued_def moved_def)

lemma increase_iff:
  "is_ok (increase_balance_internal s to b) \<longleftrightarrow> holds s to (bal_coin b) + unat (bal_amount b) < 2 ^ 64"
  by (simp add: increase_balance_internal_def is_ok_def tri_def ok_or_def checked_add_def holds_def)

lemma sum_moved: "(\<Sum>who\<in>UNIV. moved a b who coin) = (if coin = bal_coin b then unat (bal_amount b) else 0)"
  by (simp add: moved_def sum.delta)

lemma supply_sound_bound:
  assumes "supply_sound s"
  shows "holds s who coin \<le> issued s coin"
proof -
  have "holds s who coin \<le> (\<Sum>a\<in>UNIV. holds s a coin)"
    by (rule member_le_sum) simp_all
  with assms show ?thesis by (simp add: supply_sound_def)
qed

lemma issued_bound: "issued s coin < 2 ^ 64"
  using unat_less_2p [of "coin_supply s coin"] by (simp add: issued_def)

lemma mint_ok:
  assumes "mint is_allowed s to b = Inr t"
  shows "is_allowed b"
    and "holds t who coin = holds s who coin + moved to b who coin"
    and "issued t coin = issued s coin + (if coin = bal_coin b then unat (bal_amount b) else 0)"
  using assms
  by (auto simp: mint_def res_simps checked_simps holds_def issued_def
      dest: increase_ok [unfolded holds_def issued_def])

lemma burn_internal_ok:
  assumes "burn_internal s sender b = Inr t"
  shows "holds s who coin = holds t who coin + moved sender b who coin"
    and "issued s coin = issued t coin + (if coin = bal_coin b then unat (bal_amount b) else 0)"
proof -
  have "(holds s who coin = holds t who coin + moved sender b who coin) \<and>
      (issued s coin = issued t coin + (if coin = bal_coin b then unat (bal_amount b) else 0))"
  proof (cases "bal_amount b = 0")
    case True
    with assms show ?thesis by (simp add: burn_internal_def moved_def)
  next
    case False
    with assms obtain s1 x where d: "decrease_balance_internal s sender b = Inr s1"
      and x: "unat (coin_supply s1 (bal_coin b)) = unat (bal_amount b) + unat x"
      and t: "t = s1\<lparr>Supply := (Supply s1)(bal_coin b \<mapsto> x)\<rparr>"
      by (auto simp: burn_internal_def res_simps checked_simps)
    from x show ?thesis
      using decrease_ok(1) [OF d, of who coin] decrease_ok(2) [OF d, of coin]
      by (auto simp: t holds_def issued_def)
  qed
  then show "holds s who coin = holds t who coin + moved sender b who coin"
    and "issued s coin = issued t coin + (if coin = bal_coin b then unat (bal_amount b) else 0)"
    by simp_all
qed

lemma transfer_internal_ok:
  assumes "transfer_internal s sender to b = Inr t"
  shows "holds t who coin + moved sender b who coin = holds s who coin + moved to b who coin"
    and "issued t coin = issued s coin"
    and "unat (bal_amount b) \<le> holds s sender (bal_coin b)"
proof -
  from assms obtain s1 s2 where d: "decrease_balance_internal s sender b = Inr s1"
    and i: "increase_balance_internal s1 to b = Inr s2"
    and t: "t = coins_deposit_event s2 (Transfer sender to b)"
    by (auto simp: transfer_internal_def res_simps)
  have [simp]: "holds t = holds s2" "issued t = issued s2"
    by (auto simp: t holds_def issued_def fun_eq_iff)
  show "holds t who coin + moved sender b who coin = holds s who coin + moved to b who coin"
    using decrease_ok(1) [OF d] increase_ok(1) [OF i] by simp
  show "issued t coin = issued s coin"
    using decrease_ok(2) [OF d] increase_ok(2) [OF i] by simp
  show "unat (bal_amount b) \<le> holds s sender (bal_coin b)"
    using decrease_ok(3) [OF d] .
qed

lemmas coins_effects = mint_ok burn_internal_ok transfer_internal_ok

lemma FEE_ACCOUNT_large: "2 ^ 248 \<le> unat FEE_ACCOUNT"
proof -
  have "ascii ''Coins-fees'' = 67 # map of_char ''oins-fees''" by (simp add: ascii_def)
  moreover obtain a where "system_address (ascii ''Coins-fees'') = Some a"
    by (simp add: system_address_def ascii_def)
  ultimately show ?thesis using system_address_large [of 67 "map of_char ''oins-fees''" a]
    by (simp add: FEE_ACCOUNT_def)
qed

lemma FEE_ACCOUNT_ne: "unat x < 2 ^ 248 \<Longrightarrow> FEE_ACCOUNT \<noteq> x"
  using FEE_ACCOUNT_large by auto

subsection \<open>The supply is the sum of the balances\<close>

lemma supply_sound_mint: "supply_sound s \<Longrightarrow> mint is_allowed s to b = Inr t \<Longrightarrow> supply_sound t"
  by (simp add: supply_sound_def mint_ok sum.distrib sum_moved)

lemma supply_sound_burn_internal:
  assumes "supply_sound s" and "burn_internal s sender b = Inr t"
  shows "supply_sound t"
  unfolding supply_sound_def
proof
  fix coin
  have "(\<Sum>a\<in>UNIV. holds s a coin) = (\<Sum>a\<in>UNIV. holds t a coin) + (if coin = bal_coin b then unat (bal_amount b) else 0)"
    by (simp add: burn_internal_ok(1) [OF assms(2)] sum.distrib sum_moved)
  then show "(\<Sum>a\<in>UNIV. holds t a coin) = issued t coin"
    using assms(1) burn_internal_ok(2) [OF assms(2), of coin] by (simp add: supply_sound_def)
qed

lemma supply_sound_transfer_internal:
  assumes "supply_sound s" and "transfer_internal s sender to b = Inr t"
  shows "supply_sound t"
  unfolding supply_sound_def
proof
  fix coin
  have "(\<Sum>a\<in>UNIV. holds t a coin + moved sender b a coin) = (\<Sum>a\<in>UNIV. holds s a coin + moved to b a coin)"
    by (simp add: transfer_internal_ok(1) [OF assms(2)])
  then show "(\<Sum>a\<in>UNIV. holds t a coin) = issued t coin"
    using assms(1) transfer_internal_ok(2) [OF assms(2), of coin]
    by (simp add: supply_sound_def sum.distrib sum_moved)
qed

lemma event_simps [simp]:
  "holds (coins_deposit_event s e) = holds s" "issued (coins_deposit_event s e) = issued s"
  by (auto simp: holds_def issued_def fun_eq_iff)

lemma supply_sound_event [simp]: "supply_sound (coins_deposit_event s e) = supply_sound s"
  by (simp add: supply_sound_def holds_def issued_def)

lemmas supply_sound_ops =
  supply_sound_mint supply_sound_burn_internal supply_sound_transfer_internal

lemma supply_sound_step: "coins_step s t \<Longrightarrow> supply_sound s \<Longrightarrow> supply_sound t"
proof (induction rule: coins_step.induct)
  case (step_withdraw_fee s who fee paid t)
  then show ?case
    by (auto simp: withdraw_fee_def split: if_splits sum.splits intro: supply_sound_ops)
next
  case (step_correct_fee s who fee paid t)
  then show ?case
    by (auto simp: correct_and_deposit_fee_def res_simps split: option.splits intro: supply_sound_ops)
qed (auto simp: burn_def burn_with_instruction_def transfer_def coins_on_initialize_def res_simps
      intro: supply_sound_ops)

lemma supply_sound_genesis:
  assumes "coins_genesis_build is_allowed accounts = Inr s"
  shows "supply_sound s"
  using assms unfolding coins_genesis_build_def
proof (rule try_fold_invariant [where P = supply_sound])
  show "supply_sound (coins_empty\<lparr>Supply := foldl (\<lambda>m c. m(c \<mapsto> 0)) (Supply coins_empty) COINS\<rparr>)"
    by (auto simp: supply_sound_def holds_def issued_def balance_def coin_supply_def coins_empty_def
        COINS_def)
qed (auto simp: res_simps split: prod.splits intro: supply_sound_mint)

lemma coins_reachable_supply_sound: "coins_reachable s \<Longrightarrow> supply_sound s"
  by (induction rule: coins_reachable.induct) (auto intro: supply_sound_genesis supply_sound_step)

subsection \<open>Under the invariant nothing overflows\<close>

lemma transfer_internal_iff:
  assumes "supply_sound s"
  shows "is_ok (transfer_internal s sender to b) \<longleftrightarrow> unat (bal_amount b) \<le> holds s sender (bal_coin b)"
proof (cases "decrease_balance_internal s sender b")
  case (Inl e)
  then have "\<not> unat (bal_amount b) \<le> holds s sender (bal_coin b)"
    using decrease_iff [of s sender b] by simp
  with Inl show ?thesis by (simp add: transfer_internal_def)
next
  case (Inr s1)
  let ?c = "bal_coin b"
  have "(\<Sum>a\<in>UNIV. holds s1 a ?c) + unat (bal_amount b) = issued s ?c"
    using assms [unfolded supply_sound_def, rule_format, of ?c]
    by (simp add: decrease_ok(1) [OF Inr] sum.distrib sum_moved)
  moreover have "holds s1 to ?c \<le> (\<Sum>a\<in>UNIV. holds s1 a ?c)"
    by (rule member_le_sum) simp_all
  ultimately have "holds s1 to ?c + unat (bal_amount b) < 2 ^ 64"
    using issued_bound [of s ?c] by linarith
  then have "is_ok (increase_balance_internal s1 to b)"
    by (simp add: increase_iff)
  with Inr show ?thesis
    using decrease_ok(3) [OF Inr] by (auto simp: transfer_internal_def is_ok_iff)
qed

lemma transfer_internal_Inl:
  assumes "supply_sound s" and "transfer_internal s sender to b = Inl e"
  shows "e = NotEnoughCoins"
proof -
  have "\<not> is_ok (decrease_balance_internal s sender b)"
    using assms transfer_internal_iff [of s sender to b] by (simp add: decrease_iff)
  then show ?thesis
    using assms(2) decrease_Inl
    by (cases "decrease_balance_internal s sender b") (auto simp: transfer_internal_def)
qed

lemma burn_internal_iff:
  assumes "supply_sound s"
  shows "is_ok (burn_internal s sender b) \<longleftrightarrow> unat (bal_amount b) \<le> holds s sender (bal_coin b)"
proof (cases "decrease_balance_internal s sender b")
  case (Inl e)
  then have "\<not> unat (bal_amount b) \<le> holds s sender (bal_coin b)"
    using decrease_iff [of s sender b] by simp
  moreover from this have "bal_amount b \<noteq> 0" by auto
  ultimately show ?thesis using Inl by (simp add: burn_internal_def)
next
  case (Inr s1)
  have enough: "unat (bal_amount b) \<le> holds s sender (bal_coin b)"
    using decrease_ok(3) [OF Inr] .
  also have "\<dots> \<le> issued s1 (bal_coin b)"
    using supply_sound_bound [OF assms] decrease_ok(2) [OF Inr] by simp
  finally have "unat (bal_amount b) \<le> unat (coin_supply s1 (bal_coin b))"
    by (simp add: issued_def)
  then show ?thesis
    using enough Inr by (simp add: burn_internal_def checked_sub_def)
qed

lemma holds_FEE_after_on_initialize:
  "coins_on_initialize s = Inr t \<Longrightarrow> holds t FEE_ACCOUNT Coin.Serai = 0"
  using burn_internal_ok(1) [of s FEE_ACCOUNT _ t FEE_ACCOUNT Coin.Serai]
  by (fastforce simp: coins_on_initialize_def res_simps moved_def holds_def)

interpretation cl: ledger holds issued transfer_internal supply_sound
  by unfold_locales
     (auto simp: transfer_internal_iff transfer_internal_ok supply_sound_bound
       intro: supply_sound_transfer_internal)

text \<open>A genesis with one endowed account, on which the properties below are evaluated.\<close>

lemma genesis_example:
  "\<exists>s. coins_genesis_build (\<lambda>_ _. True) [(7, \<lparr>bal_coin = Coin.Serai, bal_amount = 100\<rparr>)] = Inr s \<and>
     coins_reachable s \<and> balance s 7 Coin.Serai = 100 \<and> coin_supply s Coin.Serai = 100"
proof -
  let ?g = "coins_genesis_build (\<lambda>_ _. True) [(7, \<lparr>bal_coin = Coin.Serai, bal_amount = 100\<rparr>)]"
  have "\<exists>s. ?g = Inr s \<and> balance s 7 Coin.Serai = 100 \<and> coin_supply s Coin.Serai = 100"
    by (simp add: coins_genesis_build_def mint_def increase_balance_internal_def checked_add_def
        coins_empty_def COINS_def balance_def [of "coins_empty\<lparr>Supply := _\<rparr>"]
        balance_def [of "\<lparr>Balances = _, Supply = _, CoinsEvents = _\<rparr>"]
        coin_supply_def [of "\<lparr>Balances = _, Supply = _, CoinsEvents = _\<rparr>"])
  then show ?thesis using coins_reachable.genesis by blast
qed

section \<open>Properties\<close>

text \<open>
  C5: in every state the coins pallet can reach from a genesis, by any sequence of mints, burns,
  transfers, fee hooks and block starts, the supply recorded for every coin is exactly the sum of
  all accounts' balances of that coin.
\<close>

theorem coins_supply_is_sum_of_balances:
  "coins_reachable s \<Longrightarrow> (\<Sum>who\<in>UNIV. unat (balance s who coin)) = unat (coin_supply s coin)"
  using coins_reachable_supply_sound [of s] by (simp add: supply_sound_def holds_def issued_def)

theorem coins_supply_is_sum_of_balances_witness:
  "\<exists>s. coins_reachable s \<and> coin_supply s Coin.Serai = 100 \<and>
     (\<Sum>who\<in>UNIV. unat (balance s who Coin.Serai)) = unat (coin_supply s Coin.Serai)"
  using genesis_example coins_supply_is_sum_of_balances by blast

text \<open>
  C26: a transfer of the pallet refines the transfer of an abstract ledger of natural numbers.
  In every reachable state it fails exactly when the sender holds less than the amount, with
  \<open>NotEnoughCoins\<close> and never with an overflow, and otherwise the balances change as the ledger's do
  while every supply stays, also when sender and recipient are the same account.
\<close>

theorem transfer_refines_ledger:
  "coins_reachable s \<Longrightarrow>
   (case transfer_internal s sender to b of
      Inl e \<Rightarrow> e = NotEnoughCoins \<and> ledger_transfer (holds s) sender to b = None
    | Inr t \<Rightarrow> ledger_transfer (holds s) sender to b = Some (holds t) \<and> coin_supply t = coin_supply s)"
proof -
  assume "coins_reachable s"
  then have sound: "supply_sound s" by (rule coins_reachable_supply_sound)
  show ?thesis
  proof (cases "transfer_internal s sender to b")
    case (Inl e)
    then show ?thesis
      using transfer_internal_Inl [OF sound Inl] transfer_internal_iff [OF sound, of sender to b]
      by (simp add: ledger_transfer_def)
  next
    case (Inr t)
    have "holds s who coin - moved sender b who coin + moved to b who coin = holds t who coin" for who coin
      using transfer_internal_ok(1) [OF Inr, of who coin] transfer_internal_ok(3) [OF Inr]
      by (auto simp: moved_def)
    moreover have "coin_supply t = coin_supply s"
      using transfer_internal_ok(2) [OF Inr] by (auto simp: issued_def intro!: unat_eqI)
    ultimately show ?thesis
      using Inr transfer_internal_ok(3) [OF Inr] by (simp add: ledger_transfer_def)
  qed
qed

theorem transfer_refines_ledger_witness:
  "\<exists>s. coins_reachable s \<and> balance s 7 Coin.Serai = 100 \<and>
     (case transfer_internal s 7 8 \<lparr>bal_coin = Coin.Serai, bal_amount = 60\<rparr> of
        Inl e \<Rightarrow> False
      | Inr t \<Rightarrow> balance t 7 Coin.Serai = 40 \<and> balance t 8 Coin.Serai = 60) \<and>
     transfer_internal s 7 8 \<lparr>bal_coin = Coin.Serai, bal_amount = 101\<rparr> = Inl NotEnoughCoins"
proof -
  obtain s where s: "coins_reachable s" "balance s 7 Coin.Serai = 100" "coin_supply s Coin.Serai = 100"
    using genesis_example by blast
  have others: "holds s 8 Coin.Serai = 0"
  proof -
    have "holds s 7 Coin.Serai + holds s 8 Coin.Serai \<le> (\<Sum>who\<in>UNIV. holds s who Coin.Serai)"
      using sum_mono2 [of UNIV "{7, 8}" "\<lambda>who. holds s who Coin.Serai"] by simp
    then show ?thesis
      using coins_reachable_supply_sound [OF s(1)] s(2,3)
      by (simp add: supply_sound_def holds_def issued_def)
  qed
  let ?b = "\<lparr>bal_coin = Coin.Serai, bal_amount = 60\<rparr>"
  have l: "ledger_transfer (holds s) 7 8 ?b =
      Some (\<lambda>who coin. holds s who coin - moved 7 ?b who coin + moved 8 ?b who coin)"
    using s(2) by (simp add: ledger_transfer_def holds_def)
  obtain t where t: "transfer_internal s 7 8 ?b = Inr t"
    and ht: "holds t = (\<lambda>who coin. holds s who coin - moved 7 ?b who coin + moved 8 ?b who coin)"
    using transfer_refines_ledger [OF s(1), of 7 8 ?b] l
    by (auto split: sum.splits)
  have "unat (balance t 7 Coin.Serai) = 40" "unat (balance t 8 Coin.Serai) = 60"
    using fun_cong [OF fun_cong [OF ht], of 7 Coin.Serai] fun_cong [OF fun_cong [OF ht], of 8 Coin.Serai]
      s(2) others
    by (simp_all add: holds_def moved_def)
  then have "balance t 7 Coin.Serai = 40" "balance t 8 Coin.Serai = 60"
    by (auto intro!: unat_eqI)
  moreover have "transfer_internal s 7 8 \<lparr>bal_coin = Coin.Serai, bal_amount = 101\<rparr> = Inl NotEnoughCoins"
    using transfer_refines_ledger [OF s(1), of 7 8 "\<lparr>bal_coin = Coin.Serai, bal_amount = 101\<rparr>"] s(2)
    by (auto simp: ledger_transfer_def holds_def split: sum.splits)
  ultimately show ?thesis using s t by auto
qed

text \<open>
  The block-start hook never panics in a reachable state: it burns exactly the fees collected,
  leaving the fee account without SRI, every other balance unchanged, and the SRI supply lowered by
  the amount burned.
\<close>

theorem on_initialize_burns_fees:
  "coins_reachable s \<Longrightarrow>
   \<exists>t. coins_on_initialize s = Inr t \<and> balance t FEE_ACCOUNT Coin.Serai = 0 \<and>
     (\<forall>who coin. (who, coin) \<noteq> (FEE_ACCOUNT, Coin.Serai) \<longrightarrow> balance t who coin = balance s who coin) \<and>
     unat (coin_supply t Coin.Serai) + unat (balance s FEE_ACCOUNT Coin.Serai) = unat (coin_supply s Coin.Serai)"
proof -
  assume "coins_reachable s"
  then have sound: "supply_sound s" by (rule coins_reachable_supply_sound)
  let ?b = "\<lparr>bal_coin = Coin.Serai, bal_amount = balance s FEE_ACCOUNT Coin.Serai\<rparr>"
  obtain t where t: "burn_internal s FEE_ACCOUNT ?b = Inr t"
    using burn_internal_iff [OF sound, of FEE_ACCOUNT ?b] by (auto simp: is_ok_iff holds_def)
  have "coins_on_initialize s = Inr t" by (simp add: coins_on_initialize_def t)
  then have "holds t FEE_ACCOUNT Coin.Serai = 0" by (rule holds_FEE_after_on_initialize)
  moreover have "holds t who coin = holds s who coin" if "(who, coin) \<noteq> (FEE_ACCOUNT, Coin.Serai)" for who coin
    using burn_internal_ok(1) [OF t, of who coin] that by (auto simp: moved_def)
  ultimately show ?thesis
    using t burn_internal_ok(2) [OF t, of Coin.Serai]
    by (auto simp: coins_on_initialize_def holds_def issued_def unat_0_iff intro: unat_eqI)
qed

theorem on_initialize_burns_fees_witness:
  "\<exists>s t. coins_reachable s \<and> coin_supply s Coin.Serai = 100 \<and> coins_on_initialize s = Inr t \<and>
     balance t FEE_ACCOUNT Coin.Serai = 0"
  using genesis_example on_initialize_burns_fees by blast

end
