(* ===== verification/Dex_Oracle.thy ===== *)
theory Dex_Oracle
  imports Coins "HOL-Library.Multiset"
begin

text \<open>
  The state of the Dex pallet (\<open>src/substrate/dex/pallet\<close>) and its price oracle: a moving window of
  spot prices per coin, kept as a multiset in two storage maps that the trie orders by big-endian
  and by inverted big-endian keys, together with the current median and its position.

  The runtime's state is one extensible record. The Dex adds its storage to the two instances of
  the coins pallet; the pallets that are configured on top of the Dex extend it further.
  \<open>None\<close> is the panic of an \<open>unwrap\<close>.

  The lemmas show that after every insertion and removal the stored median is the middle element of
  the sorted window, that its stored position is the number of smaller prices, and that no
  \<open>unwrap\<close> is hit.
\<close>

section \<open>State\<close>

datatype DexEvent =
    PoolCreated Coin Public
  | LiquidityAdded Public Public Coin u64 u64 u64
  | LiquidityRemoved Public Public Coin u64 u64 u64
  | SwapExecuted Public Public "Coin list" u64 u64

record dex_rt =
  block_number :: u64
  coins :: coins_state
  LiquidityTokens :: coins_state
  Pools :: "Coin \<Rightarrow> bool"
  SpotPriceForBlock :: "u64 \<Rightarrow> Coin \<Rightarrow> Amount option"
  SpotPrices :: "Coin \<Rightarrow> (u8 list, u16) omap"
  ReverseSpotPrices :: "Coin \<Rightarrow> (u8 list, unit) omap"
  SpotPricesLength :: "Coin \<Rightarrow> u16 option"
  CurrentMedianPosition :: "Coin \<Rightarrow> u16 option"
  MedianPrice :: "Coin \<Rightarrow> Amount option"
  SecurityOracleValue :: "Coin \<Rightarrow> Amount option"
  DexEvents :: "DexEvent list"

section \<open>The median\<close>

text \<open>The key an iterator yields is decoded as \<open>[u8; 8]\<close>.\<close>

definition read_price :: "u8 list \<Rightarrow> Amount option" where
  "read_price key = (if length key = 8 then Some (from_be_bytes key) else None)"

definition next_price :: "(u8 list, u16) omap \<Rightarrow> Amount \<Rightarrow> Amount option" where
  "next_price m median = Option.bind (om_next m (to_be_bytes median)) read_price"

definition previous_price :: "(u8 list, unit) omap \<Rightarrow> Amount \<Rightarrow> Amount option" where
  "previous_price r median =
     Option.bind (om_next r (reverse_lexicographic_order (to_be_bytes median)))
       (\<lambda>key. read_price (reverse_lexicographic_order key))"

text \<open>
  The two loops of \<open>restore_median\<close>. Each iteration moves to a strictly larger, or strictly
  smaller, stored price.
\<close>

lemma om_next_in_keys: "om_next m k = Some j \<Longrightarrow> k < j \<and> j \<in> om_keys m"
  by (induction m k rule: om_next.induct) (auto split: if_splits)

lemma next_price_SomeD:
  assumes "next_price m p = Some q"
  shows "p < q" and "to_be_bytes q \<in> om_keys m"
proof -
  from assms obtain k where k: "om_next m (to_be_bytes p) = Some k" "length k = 8" "q = from_be_bytes k"
    by (auto simp: next_price_def read_price_def bind_eq_Some_conv split: if_splits)
  then have "to_be_bytes q = k" by (simp add: to_from_be_bytes [where n = 8])
  with k om_next_in_keys [OF k(1)] show "p < q" "to_be_bytes q \<in> om_keys m"
    by (auto simp flip: u64_be_bytes_less)
qed

lemma previous_price_SomeD:
  assumes "previous_price r p = Some q"
  shows "q < p" and "reverse_lexicographic_order (to_be_bytes q) \<in> om_keys r"
proof -
  let ?rv = reverse_lexicographic_order
  from assms obtain k where k: "om_next r (?rv (to_be_bytes p)) = Some k" "length k = 8"
      "q = from_be_bytes (?rv k)"
    by (auto simp: previous_price_def read_price_def bind_eq_Some_conv split: if_splits)
  then have q: "?rv (to_be_bytes q) = k" by (simp add: to_from_be_bytes [where n = 8])
  then have "?rv (to_be_bytes p) < ?rv (to_be_bytes q)" "?rv (to_be_bytes q) \<in> om_keys r"
    using om_next_in_keys [OF k(1)] by simp_all
  then show "q < p" "?rv (to_be_bytes q) \<in> om_keys r"
    by (simp_all add: reverse_lexicographic_order_less)
qed

function restore_up ::
  "(u8 list, u16) omap \<Rightarrow> u16 \<Rightarrow> u16 \<Rightarrow> Amount \<Rightarrow> (u16 \<times> Amount) option" where
  "restore_up m target_median_pos current_median_pos current_median =
     (if current_median_pos < target_median_pos then
        (case om_get m (to_be_bytes current_median) of
           None \<Rightarrow> None
         | Some presences \<Rightarrow>
             if current_median_pos + presences > target_median_pos
             then Some (current_median_pos, current_median)
             else (case next_price m current_median of
                 None \<Rightarrow> None
               | Some p \<Rightarrow> restore_up m target_median_pos (current_median_pos + presences) p))
      else Some (current_median_pos, current_median))"
  by pat_completeness auto
termination
proof (relation "measure (\<lambda>(m, t, pos, p). card {k \<in> om_keys m. to_be_bytes p < k})")
  fix m t pos p q presences
  assume q: "next_price m p = Some q"
  have "{k \<in> om_keys m. to_be_bytes q < k} \<subset> {k \<in> om_keys m. to_be_bytes p < k}"
    using next_price_SomeD [OF q] less_trans [of "to_be_bytes p" "to_be_bytes q"] by auto
  then show "((m, t, pos + presences, q), m, t, pos, p)
      \<in> measure (\<lambda>(m, t, pos, p). card {k \<in> om_keys m. to_be_bytes p < k})"
    by (auto intro!: psubset_card_mono)
qed simp

function restore_down ::
  "(u8 list, u16) omap \<Rightarrow> (u8 list, unit) omap \<Rightarrow> u16 \<Rightarrow> u16 \<Rightarrow> Amount \<Rightarrow> (u16 \<times> Amount) option" where
  "restore_down m r target_median_pos current_median_pos current_median =
     (if current_median_pos > target_median_pos then
        (case previous_price r current_median of
           None \<Rightarrow> None
         | Some p \<Rightarrow>
             (case om_get m (to_be_bytes p) of
                None \<Rightarrow> None
              | Some presences \<Rightarrow>
                  if current_median_pos - presences \<le> target_median_pos
                  then Some (current_median_pos - presences, p)
                  else restore_down m r target_median_pos (current_median_pos - presences) p))
      else Some (current_median_pos, current_median))"
  by pat_completeness auto
termination
proof (relation "measure (\<lambda>(m, r, t, pos, p).
    card {k \<in> om_keys r. reverse_lexicographic_order (to_be_bytes p) < k})")
  fix m r t pos p q presences
  assume q: "previous_price (r :: (u8 list, unit) omap) p = Some q"
  let ?rv = "\<lambda>p :: Amount. reverse_lexicographic_order (to_be_bytes p)"
  have "?rv p < ?rv q" using previous_price_SomeD(1) [OF q] by (simp add: reverse_lexicographic_order_less)
  then have "{k \<in> om_keys r. ?rv q < k} \<subset> {k \<in> om_keys r. ?rv p < k}"
    using previous_price_SomeD(2) [OF q] less_trans [of "?rv p" "?rv q"] by auto
  then show "((m, r, t, pos - presences, q), m, r, t, pos, p)
      \<in> measure (\<lambda>(m, r, t, pos, p). card {k \<in> om_keys r. reverse_lexicographic_order (to_be_bytes p) < k})"
    by (auto intro!: psubset_card_mono)
qed simp

declare restore_up.simps [simp del] restore_down.simps [simp del]

definition restore_median ::
  "'a dex_rt_scheme \<Rightarrow> Coin \<Rightarrow> u16 \<Rightarrow> Amount \<Rightarrow> u16 \<Rightarrow> 'a dex_rt_scheme option" where
  "restore_median s coin current_median_pos current_median len =
     (let target_median_pos = len div 2 in
      Option.bind (restore_up (SpotPrices s coin) target_median_pos current_median_pos current_median)
        (\<lambda>(pos, median).
           Option.bind (restore_down (SpotPrices s coin) (ReverseSpotPrices s coin) target_median_pos pos median)
             (\<lambda>(pos, median).
                Some (s\<lparr>CurrentMedianPosition := (CurrentMedianPosition s)(coin \<mapsto> pos),
                        MedianPrice := (MedianPrice s)(coin \<mapsto> median)\<rparr>))))"

definition insert_into_median ::
  "'a dex_rt_scheme \<Rightarrow> Coin \<Rightarrow> Amount \<Rightarrow> 'a dex_rt_scheme option" where
  "insert_into_median s coin amount =
     (let new_quantity_of_presences =
            (case om_get (SpotPrices s coin) (to_be_bytes amount) of Some n \<Rightarrow> n | None \<Rightarrow> 0) + 1;
          s1 = s\<lparr>SpotPrices := (SpotPrices s)
                   (coin := om_set (to_be_bytes amount) new_quantity_of_presences (SpotPrices s coin))\<rparr>;
          s2 = (if new_quantity_of_presences = 1
                then s1\<lparr>ReverseSpotPrices := (ReverseSpotPrices s1)
                       (coin := om_set (reverse_lexicographic_order (to_be_bytes amount)) ()
                                  (ReverseSpotPrices s1 coin))\<rparr>
                else s1);
          new_length = (case SpotPricesLength s2 coin of Some n \<Rightarrow> n | None \<Rightarrow> 0) + 1;
          s3 = s2\<lparr>SpotPricesLength := (SpotPricesLength s2)(coin \<mapsto> new_length)\<rparr>
      in case MedianPrice s3 coin of
           None \<Rightarrow> Some (s3\<lparr>MedianPrice := (MedianPrice s3)(coin \<mapsto> amount),
                           CurrentMedianPosition := (CurrentMedianPosition s3)(coin \<mapsto> 0)\<rparr>)
         | Some current_median \<Rightarrow>
             Option.bind (CurrentMedianPosition s3 coin)
               (\<lambda>pos. restore_median s3 coin (if amount < current_median then pos + 1 else pos)
                        current_median new_length))"

definition remove_from_median ::
  "'a dex_rt_scheme \<Rightarrow> Coin \<Rightarrow> Amount \<Rightarrow> 'a dex_rt_scheme option" where
  "remove_from_median s coin amount =
     Option.bind (MedianPrice s coin) (\<lambda>current_median.
     Option.bind (CurrentMedianPosition s coin) (\<lambda>pos0.
     let current_median_pos = (if amount < current_median then pos0 - 1 else pos0) in
     Option.bind (om_get (SpotPrices s coin) (to_be_bytes amount)) (\<lambda>presences.
     let new_quantity_of_presences = presences - 1 in
     Option.bind
       (if new_quantity_of_presences = 0 then
          (let s1 = s\<lparr>SpotPrices := (SpotPrices s)
                        (coin := om_remove (to_be_bytes amount) (SpotPrices s coin)),
                      ReverseSpotPrices := (ReverseSpotPrices s)
                        (coin := om_remove (reverse_lexicographic_order (to_be_bytes amount))
                                   (ReverseSpotPrices s coin))\<rparr>
           in if amount = current_median
              then map_option (\<lambda>p. (s1, p)) (next_price (SpotPrices s1 coin) amount)
              else Some (s1, current_median))
        else
          Some (s\<lparr>SpotPrices := (SpotPrices s)
                    (coin := om_set (to_be_bytes amount) new_quantity_of_presences (SpotPrices s coin))\<rparr>,
                current_median))
       (\<lambda>(s2, current_median).
     Option.bind (SpotPricesLength s2 coin) (\<lambda>len.
     let new_length = len - 1 in
     restore_median (s2\<lparr>SpotPricesLength := (SpotPricesLength s2)(coin \<mapsto> new_length)\<rparr>)
       coin current_median_pos current_median new_length)))))"

section \<open>What the storage represents\<close>

text \<open>How many prices of the window are below \<open>v\<close>.\<close>

definition below :: "Amount list \<Rightarrow> Amount \<Rightarrow> nat" where
  "below ps v = length (filter (\<lambda>x. x < v) ps)"

text \<open>\<open>window_repr m r ps\<close>: the two maps hold the multiset of the prices \<open>ps\<close>.\<close>

definition window_repr :: "(u8 list, u16) omap \<Rightarrow> (u8 list, unit) omap \<Rightarrow> Amount list \<Rightarrow> bool" where
  "window_repr m r ps =
     (om_wf m \<and> om_wf r \<and> length ps < 2 ^ 16 \<and>
      om_keys m = to_be_bytes ` set ps \<and>
      (\<forall>p \<in> set ps. om_get m (to_be_bytes p) = Some (of_nat (count (mset ps) p))) \<and>
      om_keys r = (\<lambda>p. reverse_lexicographic_order (to_be_bytes p)) ` set ps)"

text \<open>
  \<open>oracle_repr s coin ps\<close>: the oracle of \<open>coin\<close> holds the window \<open>ps\<close>, its length, its median (the
  middle element of the sorted window, the higher one when there are two) and the median's
  position.
\<close>

definition median_of :: "Amount list \<Rightarrow> Amount" where
  "median_of ps = sort ps ! (length ps div 2)"

definition oracle_repr :: "'a dex_rt_scheme \<Rightarrow> Coin \<Rightarrow> Amount list \<Rightarrow> bool" where
  "oracle_repr s coin ps =
     (window_repr (SpotPrices s coin) (ReverseSpotPrices s coin) ps \<and>
      (case SpotPricesLength s coin of Some n \<Rightarrow> n | None \<Rightarrow> 0) = of_nat (length ps) \<and>
      (if ps = [] then MedianPrice s coin = None
       else SpotPricesLength s coin \<noteq> None \<and> MedianPrice s coin = Some (median_of ps) \<and>
            CurrentMedianPosition s coin = Some (of_nat (below ps (median_of ps)))))"

section \<open>Lemmas on windows\<close>

lemma below_split:
  "(\<forall>x \<in> set ps. x < q \<longleftrightarrow> x < p \<or> x = p) \<Longrightarrow> below ps q = below ps p + count (mset ps) p"
  by (induction ps) (auto simp: below_def)

lemma below_le: "below ps v + count (mset ps) v \<le> length ps"
  by (induction ps) (auto simp: below_def)

lemma below_upper:
  assumes "below ps p + count (mset ps) p < length ps"
  shows "\<exists>x \<in> set ps. p < x"
proof (rule ccontr)
  assume "\<not> (\<exists>x \<in> set ps. p < x)"
  then have "\<forall>x \<in> set ps. x \<le> p" by auto
  then have "below ps p + count (mset ps) p = length ps"
    by (induction ps) (auto simp: below_def)
  with assms show False by simp
qed

lemma below_lower: "0 < below ps p \<Longrightarrow> \<exists>x \<in> set ps. x < p"
  by (auto simp: below_def filter_empty_conv)

lemma sorted_split:
  "sorted xs \<Longrightarrow> xs = filter (\<lambda>x. x < v) xs @ replicate (count (mset xs) v) v @ filter (\<lambda>x. v < x) xs"
proof (induction xs)
  case (Cons a xs)
  consider "a < v" | "a = v" | "v < a" by fastforce
  then show ?case
  proof cases
    case 1
    then have "a \<noteq> v" "\<not> v < a" by auto
    with Cons 1 show ?thesis by simp
  next
    case 2
    with Cons.prems have none: "filter (\<lambda>x. x < v) xs = []" by (auto simp: filter_empty_conv)
    with Cons 2 show ?thesis by simp
  next
    case 3
    with Cons.prems have "filter (\<lambda>x. x < v) xs = []" "filter (\<lambda>x. v < x) xs = xs" "v \<notin> set xs"
      by (auto simp: filter_empty_conv filter_id_conv)
    moreover from this have "count (mset xs) v = 0" by (simp add: count_mset_0_iff)
    ultimately show ?thesis using 3 by auto
  qed
qed simp

lemma sort_nth:
  assumes "below ps v \<le> i" and "i < below ps v + count (mset ps) v"
  shows "sort ps ! i = v"
proof -
  let ?xs = "sort ps"
  obtain lo hi where split: "?xs = lo @ replicate (count (mset ps) v) v @ hi"
    and lo: "lo = filter (\<lambda>x. x < v) ?xs"
    using sorted_split [of ?xs v] by simp
  have "size (mset lo) = size (filter_mset (\<lambda>x. x < v) (mset ps))"
    by (simp add: lo)
  then have "length lo = below ps v"
    by (simp add: below_def flip: mset_filter)
  moreover from this assms have "i - length lo < count (mset ps) v" by linarith
  ultimately show ?thesis using assms by (simp add: split nth_append)
qed

lemma median_in: "ps \<noteq> [] \<Longrightarrow> median_of ps \<in> set ps"
  using nth_mem [of "length ps div 2" "sort ps"] by (simp add: median_of_def)

lemma sorted_below_nth: "sorted xs \<Longrightarrow> i < length xs \<Longrightarrow> length (filter (\<lambda>x. x < xs ! i) xs) \<le> i"
proof -
  assume "sorted xs" "i < length xs"
  then have "{j. j < length xs \<and> xs ! j < xs ! i} \<subseteq> {..<i}"
    by (auto simp: not_less dest: sorted_nth_mono)
  then have "card {j. j < length xs \<and> xs ! j < xs ! i} \<le> card {..<i}"
    by (intro card_mono) simp_all
  then show ?thesis by (simp add: length_filter_conv_card)
qed

lemma below_median: "ps \<noteq> [] \<Longrightarrow> below ps (median_of ps) \<le> length ps div 2"
proof -
  assume "ps \<noteq> []"
  then have "length (filter (\<lambda>x. x < median_of ps) (sort ps)) \<le> length ps div 2"
    using sorted_below_nth [of "sort ps" "length ps div 2"] by (simp add: median_of_def)
  moreover have "length (filter (\<lambda>x. x < median_of ps) (sort ps)) = below ps (median_of ps)"
    unfolding below_def by (rule mset_eq_length) simp
  ultimately show ?thesis by simp
qed

lemma of_nat_u16 [simp]: "n < 2 ^ 16 \<Longrightarrow> unat (of_nat n :: u16) = n"
  by (simp add: unsigned_of_nat take_bit_nat_eq_self)

lemma count_u16:
  assumes "length (ps :: Amount list) < 2 ^ 16"
  shows "unat (of_nat (count (mset ps) p) :: u16) = count (mset ps) p"
  using assms below_le [of ps p] by (intro of_nat_u16) linarith

lemma next_price_repr:
  assumes "window_repr m r ps" and "\<exists>x \<in> set ps. p < x"
  obtains q where "next_price m p = Some q" and "q \<in> set ps" and "p < q"
    and "below ps q = below ps p + count (mset ps) p"
proof -
  from assms(2) obtain x where x: "x \<in> set ps" "p < x" by blast
  have wf: "om_wf m" and keys: "om_keys m = to_be_bytes ` set ps"
    using assms(1) by (auto simp: window_repr_def)
  have "om_next m (to_be_bytes p) \<noteq> None"
    using x by (auto simp: om_next_None keys not_le)
  then obtain k where k: "om_next m (to_be_bytes p) = Some k" by auto
  then obtain q where q: "q \<in> set ps" "k = to_be_bytes q"
    using om_next_in_keys keys by blast
  with k have np: "next_price m p = Some q"
    by (simp add: next_price_def read_price_def)
  have lt: "p < q" using next_price_SomeD(1) [OF np] .
  have "q \<le> y" if "y \<in> set ps" "p < y" for y
    using k om_next_Some [OF wf] that q keys by (auto simp flip: not_less)
  then have "x < q \<longleftrightarrow> x < p \<or> x = p" if "x \<in> set ps" for x
    using lt that by (cases x p rule: linorder_cases) (auto dest: leD)
  then have "below ps q = below ps p + count (mset ps) p"
    by (intro below_split) blast
  with np q lt show ?thesis by (intro that)
qed

lemma previous_price_repr:
  assumes "window_repr m r ps" and "\<exists>x \<in> set ps. x < p"
  obtains q where "previous_price r p = Some q" and "q \<in> set ps" and "q < p"
    and "below ps p = below ps q + count (mset ps) q"
proof -
  let ?rv = "\<lambda>p :: Amount. reverse_lexicographic_order (to_be_bytes p)"
  from assms(2) obtain x where x: "x \<in> set ps" "x < p" by blast
  have wf: "om_wf r" and keys: "om_keys r = ?rv ` set ps"
    using assms(1) by (auto simp: window_repr_def)
  have rv: "?rv a < ?rv b \<longleftrightarrow> b < a" for a b
    by (simp add: reverse_lexicographic_order_less)
  have "om_next r (?rv p) \<noteq> None"
    using x by (auto simp: om_next_None keys not_le rv)
  then obtain k where k: "om_next r (?rv p) = Some k" by auto
  then obtain q where q: "q \<in> set ps" "k = ?rv q"
    using om_next_in_keys keys by blast
  with k have np: "previous_price r p = Some q"
    by (simp add: previous_price_def read_price_def)
  have lt: "q < p" using previous_price_SomeD(1) [OF np] .
  have "y \<le> q" if "y \<in> set ps" "y < p" for y
    using k om_next_Some [OF wf] that q keys by (auto simp: rv simp flip: not_less)
  then have "x < p \<longleftrightarrow> x < q \<or> x = q" if "x \<in> set ps" for x
    using lt that by (cases x q rule: linorder_cases) (auto dest: leD)
  then have "below ps p = below ps q + count (mset ps) q"
    by (intro below_split) blast
  with np q lt show ?thesis by (intro that)
qed

section \<open>Restoring the median\<close>

lemma restore_up_correct:
  assumes "window_repr m r ps" and "p \<in> set ps" and "unat pos = below ps p" and "unat target < length ps"
  shows "\<exists>pos' p'. restore_up m target pos p = Some (pos', p') \<and> p' \<in> set ps \<and> unat pos' = below ps p' \<and>
    (unat target < unat pos' \<or> unat target < below ps p' + count (mset ps) p') \<and>
    (unat pos' \<le> unat target \<or> (pos', p') = (pos, p))"
  using assms
proof (induction m target pos p rule: restore_up.induct)
  case (1 m target pos p)
  have len: "length ps < 2 ^ 16" and get: "om_get m (to_be_bytes p) = Some (of_nat (count (mset ps) p))"
    using "1.prems" by (auto simp: window_repr_def)
  show ?case
  proof (cases "pos < target")
    case False
    have "below ps p < below ps p + count (mset ps) p" using "1.prems"(2) by simp
    moreover have "\<not> unat pos < unat target" using False by (simp add: word_less_nat_alt)
    ultimately have "unat target < below ps p + count (mset ps) p"
      using "1.prems"(3) by linarith
    with False "1.prems" show ?thesis
      by (simp add: restore_up.simps [of m target pos p])
  next
    case True
    let ?n = "of_nat (count (mset ps) p) :: u16"
    have sum: "unat (pos + ?n) = below ps p + count (mset ps) p"
      using below_le [of ps p] len "1.prems"(3) count_u16 [OF len, of p]
      by (subst unat_add_lem [THEN iffD1]) auto
    show ?thesis
    proof (cases "pos + ?n > target")
      case gt: True
      with True sum "1.prems" show ?thesis
        by (simp add: restore_up.simps [of m target pos p] get word_less_nat_alt)
    next
      case False
      then have "below ps p + count (mset ps) p < length ps"
        using sum "1.prems"(4) by (simp add: word_less_nat_alt)
      then obtain q where q: "next_price m p = Some q" "q \<in> set ps"
          "below ps q = below ps p + count (mset ps) p"
        using next_price_repr [OF "1.prems"(1) below_upper] by metis
      have "unat (pos + ?n) \<le> unat target"
        using False by (simp add: word_less_nat_alt)
      moreover have "restore_up m target pos p = restore_up m target (pos + ?n) q"
        using True False q(1) by (simp add: restore_up.simps [of m target pos p] get)
      moreover have "unat (pos + ?n) = below ps q" using sum q(3) by simp
      ultimately show ?thesis
        using "1.IH" [OF True get False q(1) "1.prems"(1) q(2) _ "1.prems"(4)] by auto
    qed
  qed
qed

lemma restore_down_correct:
  assumes "window_repr m r ps" and "p \<in> set ps" and "unat pos = below ps p"
    and "unat target < unat pos \<or> unat target < below ps p + count (mset ps) p"
  shows "\<exists>pos' p'. restore_down m r target pos p = Some (pos', p') \<and> p' \<in> set ps \<and>
    unat pos' = below ps p' \<and> unat pos' \<le> unat target \<and> unat target < below ps p' + count (mset ps) p'"
  using assms
proof (induction m r target pos p rule: restore_down.induct)
  case (1 m r target pos p)
  show ?case
  proof (cases "pos > target")
    case False
    with "1.prems" show ?thesis
      by (auto simp: restore_down.simps [of m r target pos p] word_less_nat_alt)
  next
    case True
    then have pos: "unat target < unat pos" by (simp add: word_less_nat_alt)
    then obtain q where q: "previous_price r p = Some q" "q \<in> set ps"
        "below ps p = below ps q + count (mset ps) q"
      using previous_price_repr [OF "1.prems"(1) below_lower] "1.prems"(3) by (metis gr_zeroI not_less0)
    have len: "length ps < 2 ^ 16" and get: "om_get m (to_be_bytes q) = Some (of_nat (count (mset ps) q))"
      using "1.prems"(1) q(2) by (auto simp: window_repr_def)
    let ?n = "of_nat (count (mset ps) q) :: u16"
    have diff: "unat (pos - ?n) = below ps q"
      using q(3) "1.prems"(3) count_u16 [OF len, of q] by (subst unat_sub) (auto simp: word_le_nat_alt)
    show ?thesis
    proof (cases "pos - ?n \<le> target")
      case le: True
      with True q diff pos "1.prems"(3) show ?thesis
        by (simp add: restore_down.simps [of m r target pos p] get word_le_nat_alt)
    next
      case False
      then have "unat target < unat (pos - ?n)" by (simp add: not_le word_less_nat_alt)
      moreover have "restore_down m r target pos p = restore_down m r target (pos - ?n) q"
        using True False q(1) by (simp add: restore_down.simps [of m r target pos p] get)
      ultimately show ?thesis
        using "1.IH" [OF True q(1) get False "1.prems"(1) q(2) diff] by auto
    qed
  qed
qed

lemma restore_median_correct:
  assumes "window_repr (SpotPrices s coin) (ReverseSpotPrices s coin) ps" and "p \<in> set ps"
    and "unat pos = below ps p" and "SpotPricesLength s coin = Some len" and "len = of_nat (length ps)"
  shows "\<exists>t. restore_median s coin pos p len = Some t \<and> oracle_repr t coin ps"
proof -
  let ?target = "len div 2"
  have ne: "ps \<noteq> []" using assms(2) by auto
  have "length ps < 2 ^ 16" using assms(1) by (simp add: window_repr_def)
  then have target: "unat ?target = length ps div 2"
    using assms(5) by (simp add: unat_div_distrib)
  then have lt: "unat ?target < length ps" using ne by simp
  obtain pos1 p1 where up: "restore_up (SpotPrices s coin) ?target pos p = Some (pos1, p1)"
      "p1 \<in> set ps" "unat pos1 = below ps p1"
      "unat ?target < unat pos1 \<or> unat ?target < below ps p1 + count (mset ps) p1"
    using restore_up_correct [OF assms(1-3) lt] by blast
  obtain pos2 p2 where down:
      "restore_down (SpotPrices s coin) (ReverseSpotPrices s coin) ?target pos1 p1 = Some (pos2, p2)"
      "unat pos2 = below ps p2" "unat pos2 \<le> unat ?target" "unat ?target < below ps p2 + count (mset ps) p2"
    using restore_down_correct [OF assms(1) up(2-4)] by blast
  have med: "median_of ps = p2"
    unfolding median_of_def using down target by (intro sort_nth) auto
  have "of_nat (unat pos2) = pos2" by simp
  then have "pos2 = of_nat (below ps p2)" using down(2) by simp
  then show ?thesis
    using assms ne up(1) down(1) med by (auto simp: restore_median_def oracle_repr_def Let_def)
qed

section \<open>Insertion and removal\<close>

lemma window_repr_insert:
  assumes w: "window_repr m r ps" and len: "Suc (length ps) < 2 ^ 16"
    and n: "n = (case om_get m (to_be_bytes a) of Some n \<Rightarrow> n | None \<Rightarrow> 0) + 1"
  shows "window_repr (om_set (to_be_bytes a) n m)
    (if n = 1 then om_set (reverse_lexicographic_order (to_be_bytes a)) () r else r) (ps @ [a])"
proof -
  let ?rv = "\<lambda>p :: Amount. reverse_lexicographic_order (to_be_bytes p)"
  have wf: "om_wf m" "om_wf r" and keys: "om_keys m = to_be_bytes ` set ps" "om_keys r = ?rv ` set ps"
    and get: "\<And>p. p \<in> set ps \<Longrightarrow> om_get m (to_be_bytes p) = Some (of_nat (count (mset ps) p))"
    using w by (auto simp: window_repr_def)
  have nc: "n = of_nat (count (mset ps) a + 1)"
  proof (cases "a \<in> set ps")
    case True
    with get [OF True] n show ?thesis by simp
  next
    case False
    then have "om_get m (to_be_bytes a) = None" using keys by (auto simp: om_get_None)
    moreover have c0: "count (mset ps) a = 0" using False by (simp add: count_mset_0_iff)
    ultimately show ?thesis unfolding n c0 by simp
  qed
  have "count (mset ps) a + 1 < 2 ^ 16"
    using below_le [of ps a] len by linarith
  then have "unat n = count (mset ps) a + 1" unfolding nc by (rule of_nat_u16)
  then have "n = 1 \<longleftrightarrow> count (mset ps) a + 1 = 1" by (simp only: word_unat_eq_iff unat_1)
  then have n1: "n = 1 \<longleftrightarrow> a \<notin> set ps" by (simp only: add_cancel_left_left count_mset_0_iff)
  show ?thesis
    unfolding window_repr_def
  proof (intro conjI)
    show "om_wf (om_set (to_be_bytes a) n m)" using wf by simp
    show "om_wf (if n = 1 then om_set (?rv a) () r else r)" using wf by simp
    show "length (ps @ [a]) < 2 ^ 16" using len by simp
    show "om_keys (om_set (to_be_bytes a) n m) = to_be_bytes ` set (ps @ [a])" using keys by simp
    show "\<forall>p \<in> set (ps @ [a]). om_get (om_set (to_be_bytes a) n m) (to_be_bytes p) =
        Some (of_nat (count (mset (ps @ [a])) p))"
      using get by (auto simp: om_get_set [OF wf(1)] nc)
    show "om_keys (if n = 1 then om_set (?rv a) () r else r) = ?rv ` set (ps @ [a])"
      using keys(2) n1 by auto
  qed
qed

lemma window_repr_remove:
  assumes w: "window_repr m r ps" and a: "a \<in> set ps" and m0: "om_get m (to_be_bytes a) = Some n"
  shows "window_repr
    (if n - 1 = 0 then om_remove (to_be_bytes a) m else om_set (to_be_bytes a) (n - 1) m)
    (if n - 1 = 0 then om_remove (reverse_lexicographic_order (to_be_bytes a)) r else r) (remove1 a ps)"
    and "n - 1 = 0 \<longleftrightarrow> a \<notin> set (remove1 a ps)"
proof -
  let ?rv = "\<lambda>p :: Amount. reverse_lexicographic_order (to_be_bytes p)"
  have wf: "om_wf m" "om_wf r" and keys: "om_keys m = to_be_bytes ` set ps" "om_keys r = ?rv ` set ps"
    and get: "\<And>p. p \<in> set ps \<Longrightarrow> om_get m (to_be_bytes p) = Some (of_nat (count (mset ps) p))"
    and len: "length ps < 2 ^ 16"
    using w by (auto simp: window_repr_def)
  have inj: "inj ?rv" by (rule injI) (metis reverse_lexicographic_order_invol u64_be_bytes)
  let ?qs = "remove1 a ps"
  have "0 < count (mset ps) a" using a by simp
  then obtain k where k: "count (mset ps) a = Suc k" using gr0_implies_Suc by blast
  have kq: "count (mset ?qs) a = k" by (simp add: k)
  have n: "n - 1 = of_nat k" using m0 get [OF a] by (auto simp: k)
  have kb: "k < 2 ^ 16" using below_le [of ps a] len k by linarith
  then have "n - 1 = 0 \<longleftrightarrow> k = 0" unfolding n by (simp only: word_unat_eq_iff of_nat_u16 unat_0)
  then show n0: "n - 1 = 0 \<longleftrightarrow> a \<notin> set ?qs" by (simp only: count_mset_0_iff flip: kq)
  have cnt: "count (mset ?qs) p = count (mset ps) p" if "p \<noteq> a" for p
    using that by simp
  have lenq: "length ?qs < 2 ^ 16" using len by (auto simp: length_remove1)
  show "window_repr (if n - 1 = 0 then om_remove (to_be_bytes a) m else om_set (to_be_bytes a) (n - 1) m)
    (if n - 1 = 0 then om_remove (?rv a) r else r) ?qs"
  proof (cases "n - 1 = 0")
    case True
    then have "a \<notin> set ?qs" using n0 by blast
    then have "x \<in> set ?qs \<longleftrightarrow> x \<in> set ps - {a}" for x by (cases "x = a") simp_all
    then have set_qs: "set ?qs = set ps - {a}" by blast
    have "om_get (om_remove (to_be_bytes a) m) (to_be_bytes p) = Some (of_nat (count (mset ?qs) p))"
      if "p \<in> set ?qs" for p
      using that get [of p] cnt [of p] by (simp add: set_qs om_get_remove [OF wf(1)])
    moreover have "om_keys (om_remove (?rv a) r) = ?rv ` set ?qs"
      unfolding om_keys_remove [OF wf(2)] keys(2) set_qs using inj by (simp add: image_set_diff)
    moreover have "om_keys (om_remove (to_be_bytes a) m) = to_be_bytes ` set ?qs"
      unfolding om_keys_remove [OF wf(1)] keys(1) set_qs by auto
    ultimately show ?thesis
      using True wf lenq by (simp add: window_repr_def)
  next
    case False
    then have "a \<in> set ?qs" using n0 by blast
    then have "x \<in> set ?qs \<longleftrightarrow> x \<in> set ps" for x using a by (cases "x = a") simp_all
    then have set_qs: "set ?qs = set ps" by blast
    have "om_get (om_set (to_be_bytes a) (n - 1) m) (to_be_bytes p) = Some (of_nat (count (mset ?qs) p))"
      if "p \<in> set ?qs" for p
      using that get [of p] cnt [of p] n kq by (cases "p = a") (simp_all add: set_qs om_get_set [OF wf(1)])
    moreover have "om_keys (om_set (to_be_bytes a) (n - 1) m) = to_be_bytes ` set ?qs"
      using a by (auto simp: set_qs keys(1))
    ultimately show ?thesis
      using False wf lenq keys(2) by (simp add: window_repr_def set_qs)
  qed
qed

lemma insert_into_median_correct:
  assumes r: "oracle_repr s coin ps" and len: "Suc (length ps) < 2 ^ 16"
  shows "\<exists>t. insert_into_median s coin a = Some t \<and> oracle_repr t coin (ps @ [a])"
proof -
  define n where "n = (case om_get (SpotPrices s coin) (to_be_bytes a) of Some n \<Rightarrow> n | None \<Rightarrow> 0) + 1"
  define m' where "m' = om_set (to_be_bytes a) n (SpotPrices s coin)"
  define r' where "r' = (if n = 1 then om_set (reverse_lexicographic_order (to_be_bytes a)) () (ReverseSpotPrices s coin)
            else ReverseSpotPrices s coin)"
  define l where "l = (case SpotPricesLength s coin of Some n \<Rightarrow> n | None \<Rightarrow> 0) + 1"
  define s3 where "s3 = s\<lparr>SpotPrices := (SpotPrices s)(coin := m'),
    ReverseSpotPrices := (ReverseSpotPrices s)(coin := r'), SpotPricesLength := (SpotPricesLength s)(coin \<mapsto> l)\<rparr>"
  have s3 [simp]: "SpotPrices s3 coin = m'" "ReverseSpotPrices s3 coin = r'" "SpotPricesLength s3 coin = Some l"
    "MedianPrice s3 = MedianPrice s" "CurrentMedianPosition s3 = CurrentMedianPosition s"
    by (simp_all add: s3_def)
  have w: "window_repr m' r' (ps @ [a])"
    unfolding m'_def r'_def using r len by (intro window_repr_insert) (auto simp: oracle_repr_def n_def)
  have l: "l = of_nat (length (ps @ [a]))"
    using r by (simp add: oracle_repr_def l_def)
  have ins: "insert_into_median s coin a =
      (case MedianPrice s3 coin of
         None \<Rightarrow> Some (s3\<lparr>MedianPrice := (MedianPrice s3)(coin \<mapsto> a),
                         CurrentMedianPosition := (CurrentMedianPosition s3)(coin \<mapsto> 0)\<rparr>)
       | Some p \<Rightarrow> Option.bind (CurrentMedianPosition s3 coin)
           (\<lambda>pos. restore_median s3 coin (if a < p then pos + 1 else pos) p l))"
    unfolding insert_into_median_def Let_def n_def [symmetric] s3_def m'_def r'_def l_def
    by (cases "n = 1") (simp_all cong: option.case_cong)
  show ?thesis
  proof (cases "ps = []")
    case True
    then have "MedianPrice s coin = None" using r by (simp add: oracle_repr_def)
    with ins w l True show ?thesis
      by (auto simp: oracle_repr_def median_of_def below_def)
  next
    case False
    let ?p = "median_of ps"
    let ?pos = "of_nat (below ps ?p) :: u16"
    have med: "MedianPrice s coin = Some ?p" "CurrentMedianPosition s coin = Some ?pos"
      using r False by (simp_all add: oracle_repr_def)
    have "Suc (below ps ?p) < 2 ^ 16" using below_le [of ps ?p] len by linarith
    then have "unat (if a < ?p then ?pos + 1 else ?pos) = below (ps @ [a]) ?p"
      using of_nat_u16 [of "Suc (below ps ?p)"] by (simp add: below_def add.commute)
    then have "\<exists>t. restore_median s3 coin (if a < ?p then ?pos + 1 else ?pos) ?p l = Some t \<and> oracle_repr t coin (ps @ [a])"
      using w l median_in [OF False] by (intro restore_median_correct) simp_all
    then show ?thesis by (simp add: ins med)
  qed
qed

lemma remove_from_median_correct:
  assumes r: "oracle_repr s coin ps" and len: "3 \<le> length ps" and a: "a \<in> set ps"
  shows "\<exists>t. remove_from_median s coin a = Some t \<and> oracle_repr t coin (remove1 a ps)"
proof -
  let ?qs = "remove1 a ps"
  define p where "p = median_of ps"
  define pos where "pos = (of_nat (below ps p) :: u16)"
  have ne: "ps \<noteq> []" using len by auto
  have w: "window_repr (SpotPrices s coin) (ReverseSpotPrices s coin) ps"
    and med: "MedianPrice s coin = Some p" "CurrentMedianPosition s coin = Some pos"
    using r ne by (simp_all add: oracle_repr_def p_def pos_def)
  from r ne obtain l where l: "SpotPricesLength s coin = Some l" "l = of_nat (length ps)"
    by (auto simp: oracle_repr_def)
  from w a obtain n where n: "om_get (SpotPrices s coin) (to_be_bytes a) = Some n"
    by (auto simp: window_repr_def)
  note w' = window_repr_remove(1) [OF w a n] and gone = window_repr_remove(2) [OF w a n]
  have lenq: "Suc (length ?qs) = length ps" using a ne by (simp add: length_remove1)
  have "length ps < 2 ^ 16" using w by (simp add: window_repr_def)
  then have upos: "unat pos = below ps p"
    using below_le [of ps p] unfolding pos_def by (intro of_nat_u16) linarith
  have belowq: "below ?qs v = below ps v - (if a < v then 1 else 0)" for v
    using a by (simp add: below_def filter_remove1 length_remove1)
  have posq: "unat (if a < p then pos - 1 else pos) = below ?qs p"
  proof (cases "a < p")
    case True
    then have "below ps p \<noteq> 0" using a by (auto simp: below_def filter_empty_conv)
    then have "1 \<le> pos" using upos by (simp add: word_le_nat_alt)
    with True upos show ?thesis by (simp add: unat_sub belowq)
  qed (simp add: upos belowq)
  have l1: "l - 1 = of_nat (length ?qs)" using l(2) by (simp flip: lenq)
  show ?thesis
  proof (cases "n - 1 = 0")
    case False
    define s2 where "s2 = s\<lparr>SpotPrices := (SpotPrices s)(coin := om_set (to_be_bytes a) (n - 1) (SpotPrices s coin)),
      SpotPricesLength := (SpotPricesLength s)(coin \<mapsto> l - 1)\<rparr>"
    have "p \<in> set ?qs" using False gone median_in [OF ne] by (cases "a = p") (auto simp: p_def)
    then have "\<exists>t. restore_median s2 coin (if a < p then pos - 1 else pos) p (l - 1) = Some t \<and> oracle_repr t coin ?qs"
      using w' False posq l1 by (intro restore_median_correct) (simp_all add: s2_def)
    then show ?thesis using False by (simp add: remove_from_median_def Let_def med n l s2_def)
  next
    case True
    define m' where "m' = om_remove (to_be_bytes a) (SpotPrices s coin)"
    define r' where "r' = om_remove (reverse_lexicographic_order (to_be_bytes a)) (ReverseSpotPrices s coin)"
    define s2 where "s2 = s\<lparr>SpotPrices := (SpotPrices s)(coin := m'),
      ReverseSpotPrices := (ReverseSpotPrices s)(coin := r'),
      SpotPricesLength := (SpotPricesLength s)(coin \<mapsto> l - 1)\<rparr>"
    have wq: "window_repr m' r' ?qs" using w' True by (simp add: m'_def r'_def)
    show ?thesis
    proof (cases "a = p")
      case False
      then have "p \<in> set ?qs" using median_in [OF ne] by (simp add: p_def)
      then have "\<exists>t. restore_median s2 coin (if a < p then pos - 1 else pos) p (l - 1) = Some t \<and> oracle_repr t coin ?qs"
        using wq posq l1 by (intro restore_median_correct) (simp_all add: s2_def)
      then show ?thesis using True False by (simp add: remove_from_median_def Let_def med n l s2_def m'_def r'_def)
    next
      case eq: True
      have c0: "count (mset ?qs) a = 0" by (rule count_mset_0_iff [THEN iffD2, OF gone [THEN iffD1, OF True]])
      moreover have "below ?qs a < length ?qs"
      proof -
        have "below ps a \<le> length ps div 2" unfolding eq p_def by (rule below_median [OF ne])
        moreover have "below ?qs a = below ps a" by (simp add: belowq)
        ultimately show ?thesis using len lenq by linarith
      qed
      ultimately have "below ?qs a + count (mset ?qs) a < length ?qs" by linarith
      then obtain q where q: "next_price m' a = Some q" "q \<in> set ?qs"
          "below ?qs q = below ?qs a + count (mset ?qs) a"
        by (rule next_price_repr [OF wq below_upper])
      have "unat pos = below ?qs q"
        unfolding q(3) c0 using posq eq by (simp only: less_irrefl if_False add_0_right)
      then have "\<exists>t. restore_median s2 coin pos q (l - 1) = Some t \<and> oracle_repr t coin ?qs"
        using wq l1 q(2) by (intro restore_median_correct) (simp_all add: s2_def)
      then show ?thesis
        using True q(1) by (simp add: remove_from_median_def Let_def med n l s2_def m'_def r'_def flip: eq)
    qed
  qed
qed

end
