(* ===== verification/Dex_Pricing.thy ===== *)
theory Dex_Pricing
  imports Dex
begin

text \<open>
  What the pricing functions of the Dex compute, read in natural numbers: when they overflow, and the
  inequalities behind the constant product.
\<close>

section \<open>Lemmas on pricing\<close>

text \<open>The share of an input that is traded, in thousandths.\<close>

definition kept :: "dex_config \<Rightarrow> nat" where
  "kept cfg = 1000 - unat (LPFee cfg)"

lemma unat_kept: "unat (LPFee cfg) \<le> 1000 \<Longrightarrow> unat (1000 - ucast (LPFee cfg) :: u128) = kept cfg"
  by (subst unat_sub) (simp_all add: kept_def word_le_nat_alt)

lemma u64_product: "unat (a :: u64) * unat (b :: u64) < 2 ^ 128"
proof -
  have "unat a < 2 ^ 64" "unat b < 2 ^ 64"
    using unat_less_2p [of a] unat_less_2p [of b] by simp_all
  then have "unat a * unat b < 2 ^ 64 * 2 ^ 64" by (rule mult_strict_mono) simp_all
  then show ?thesis by simp
qed

lemma mul_div_Inr: "mul_div a b c = Inr r \<longleftrightarrow> c \<noteq> 0 \<and> unat r = unat a * unat b div unat c"
proof -
  obtain p where p: "checked_mul (ucast a :: u128) (ucast b) = Some p" "unat p = unat a * unat b"
    using u64_product [of a b] checked_mul_None [of "ucast a :: u128" "ucast b"]
    by (cases "checked_mul (ucast a :: u128) (ucast b)") (auto simp: checked_simps)
  have "ucast c = (0 :: u128) \<longleftrightarrow> c = 0"
    by (simp add: word_unat_eq_iff)
  moreover have "unat (p div ucast c) = unat a * unat b div unat c"
    by (simp add: unat_div_distrib p(2))
  ultimately show ?thesis
    by (auto simp: mul_div_def Let_def p res_simps checked_simps)
qed

lemma get_amount_out_nat:
  assumes "unat (LPFee cfg) \<le> 1000" and "get_amount_out cfg a ri ro = Inr b"
  shows "unat ri \<noteq> 0" and "unat ro \<noteq> 0"
    and "unat b = unat a * kept cfg * unat ro div (unat ri * 1000 + unat a * kept cfg)"
  using assms
  by (auto simp: get_amount_out_def Let_def res_simps checked_simps unat_kept word_unat_eq_iff)

lemma get_amount_in_nat:
  assumes "unat (LPFee cfg) \<le> 1000" and "get_amount_in cfg b ri ro = Inr a"
  shows "unat ri \<noteq> 0" and "unat b < unat ro" and "kept cfg \<noteq> 0"
    and "unat a = unat ri * unat b * 1000 div ((unat ro - unat b) * kept cfg) + 1"
  using assms
  by (auto simp: get_amount_in_def Let_def res_simps checked_simps unat_kept word_unat_eq_iff
      word_le_nat_alt not_le)


lemma product_out:
  fixes a b ri ro g :: nat
  assumes "ri \<noteq> 0" and "ro \<noteq> 0" and "g \<le> 1000" and b: "b = a * g * ro div (ri * 1000 + a * g)"
  shows "b < ro" and "ri * ro \<le> (ri + a) * (ro - b)"
proof -
  let ?d = "ri * 1000 + a * g"
  have "a * g * ro < ?d * ro" using assms(1,2) by simp
  then show lt: "b < ro" unfolding b by (rule less_mult_imp_div_less [OF order_less_le_trans]) (simp add: mult.commute)
  have "b * ?d \<le> a * g * ro" unfolding b by (rule div_times_less_eq_dividend)
  moreover have "b * a * (1000 - g) \<le> ro * a * (1000 - g)" using lt by simp
  ultimately have "b * ?d + b * a * (1000 - g) \<le> a * g * ro + ro * a * (1000 - g)" by (rule add_mono)
  moreover have "b * ?d + b * a * (1000 - g) = 1000 * (b * (ri + a))"
  proof -
    have "b * a * g + b * a * (1000 - g) = b * a * 1000"
      using assms(3) by (metis add_mult_distrib2 le_add_diff_inverse)
    then show ?thesis by (simp add: algebra_simps)
  qed
  moreover have "a * g * ro + ro * a * (1000 - g) = 1000 * (a * ro)"
  proof -
    have "a * ro * g + a * ro * (1000 - g) = a * ro * 1000"
      using assms(3) by (metis add_mult_distrib2 le_add_diff_inverse)
    then show ?thesis by (simp add: algebra_simps)
  qed
  ultimately have "b * (ri + a) \<le> a * ro" by simp
  moreover obtain k where k: "ro = b + k" using lt less_imp_add_positive by blast
  ultimately show "ri * ro \<le> (ri + a) * (ro - b)" by (simp add: algebra_simps)
qed

lemma product_in:
  fixes a b ri ro g :: nat
  assumes "b < ro" and "0 < g" and a: "a = ri * b * 1000 div ((ro - b) * g) + 1"
  shows "ri * b * 1000 \<le> a * g * (ro - b)"
proof -
  let ?d = "(ro - b) * g"
  have "0 < ?d" using assms by simp
  then have "ri * b * 1000 < ?d + ri * b * 1000 div ?d * ?d" by (rule dividend_less_div_times)
  also have "\<dots> = a * ?d" unfolding a by simp
  finally show ?thesis by (simp only: mult_ac less_imp_le)
qed

lemma product_in_keeps:
  fixes a b ri ro g :: nat
  assumes "b < ro" and "g \<le> 1000" and "ri * b * 1000 \<le> a * g * (ro - b)"
  shows "ri * ro \<le> (ri + a) * (ro - b)"
proof -
  have "a * g * (ro - b) \<le> a * 1000 * (ro - b)" using assms(2) by simp
  with assms(3) have "ri * b * 1000 \<le> (a * (ro - b)) * 1000" by (simp add: algebra_simps)
  then have "ri * b \<le> a * (ro - b)" by simp
  moreover obtain k where k: "ro = b + k" using assms(1) less_imp_add_positive by blast
  ultimately show ?thesis by (simp add: algebra_simps)
qed

lemma get_amount_out_total:
  assumes "unat (LPFee cfg) \<le> 1000" and "ri \<noteq> 0" and "ro \<noteq> 0"
  shows "if unat a * kept cfg * unat ro < 2 ^ 128 then is_ok (get_amount_out cfg a ri ro)
    else get_amount_out cfg a ri ro = Inl Overflow"
proof -
  let ?a = "ucast a :: u128" and ?ri = "ucast ri :: u128" and ?ro = "ucast ro :: u128"
  have nz: "?ri \<noteq> 0" "?ro \<noteq> 0" "unat ri \<noteq> 0" "unat ro \<noteq> 0"
    using assms(2,3) by (simp_all add: word_unat_eq_iff)
  have "kept cfg \<le> 1000" by (simp add: kept_def)
  have ab: "unat a < 2 ^ 64" "unat ri < 2 ^ 64"
    using unat_less_2p [of a] unat_less_2p [of ri] by simp_all
  have "unat a * kept cfg \<le> 2 ^ 64 * 1000" using ab \<open>kept cfg \<le> 1000\<close> by (intro mult_le_mono) simp_all
  then have small: "unat a * kept cfg < 2 ^ 128" "unat ri * 1000 + unat a * kept cfg < 2 ^ 128"
    using ab by simp_all
  obtain f where f: "checked_mul ?a (1000 - ucast (LPFee cfg)) = Some f" "unat f = unat a * kept cfg"
    using small(1) by (cases "checked_mul ?a (1000 - ucast (LPFee cfg))")
      (auto simp: checked_simps unat_kept [OF assms(1)])
  obtain sc where sc: "checked_mul ?ri 1000 = Some sc" "unat sc = unat ri * 1000"
    using ab(2) by (cases "checked_mul ?ri 1000") (auto simp: checked_simps)
  obtain d where d: "checked_add sc f = Some d" "unat d = unat ri * 1000 + unat a * kept cfg"
    using small(2) by (cases "checked_add sc f") (auto simp: checked_simps sc f)
  have dnz: "d \<noteq> 0" using d(2) nz(3) by auto
  show ?thesis
  proof (cases "unat a * kept cfg * unat ro < 2 ^ 128")
    case False
    then have "checked_mul f ?ro = None" by (simp add: checked_simps f)
    with False nz(1,2) f(1) show ?thesis by (simp add: get_amount_out_def Let_def)
  next
    case True
    then obtain n where n: "checked_mul f ?ro = Some n" "unat n = unat a * kept cfg * unat ro"
      by (cases "checked_mul f ?ro") (auto simp: checked_simps f)
    have "unat (n div d) < unat ro"
      using product_out(1) [OF nz(3,4) \<open>kept cfg \<le> 1000\<close> refl] by (simp add: unat_div_distrib n d)
    then have "unat (n div d) < 2 ^ 64" using unat_less_2p [of ro] by simp
    then obtain b where "try_u64 (n div d) = Some b" by (auto simp: try_u64_def)
    with True nz(1,2) f(1) sc(1) d(1) n(1) dnz show ?thesis
      by (simp add: get_amount_out_def Let_def checked_div_def)
  qed
qed

end
