(* ===== verification/Dex_Swaps.thy ===== *)
theory Dex_Swaps
  imports Dex_Pricing
begin

text \<open>
  Swaps: which paths are valid, which transfers a swap makes, and why no swap lowers the product of
  the reserves of any pool. The two ways of pricing a hop, by its input and by its output, are two
  instances of one interface.
\<close>

section \<open>The interface of a price\<close>

text \<open>
  A price relates an input, an output and the two reserves of a pool; it never empties the pool
  and never lowers the product of the reserves.
\<close>

locale constant_product =
  fixes quoted :: "u64 \<Rightarrow> u64 \<Rightarrow> u64 \<Rightarrow> u64 \<Rightarrow> bool"
  assumes quoted_less: "quoted a b ri ro \<Longrightarrow> unat b < unat ro"
    and quoted_product: "quoted a b ri ro \<Longrightarrow> unat ri * unat ro \<le> (unat ri + unat a) * (unat ro - unat b)"

text \<open>Every hop of a path is priced at the reserves of the state before the swap.\<close>

fun path_quoted ::
  "(u64 \<Rightarrow> u64 \<Rightarrow> u64 \<Rightarrow> u64 \<Rightarrow> bool) \<Rightarrow> dex_config \<Rightarrow> 'a dex_rt_scheme \<Rightarrow> Coin list \<Rightarrow> u64 list \<Rightarrow> bool" where
  "path_quoted q cfg s (c1 # c2 # cs) (a # b # as) =
     ((case get_reserves cfg s c1 c2 of Inl _ \<Rightarrow> False | Inr (ri, ro) \<Rightarrow> q a b ri ro) \<and>
      path_quoted q cfg s (c2 # cs) (b # as))"
| "path_quoted q cfg s [c] [a] = True"
| "path_quoted q cfg s _ _ = False"

text \<open>The two prices of the Dex: of a given input and of a given output.\<close>

definition exact_in_price :: "dex_config \<Rightarrow> u64 \<Rightarrow> u64 \<Rightarrow> u64 \<Rightarrow> u64 \<Rightarrow> bool" where
  "exact_in_price cfg a b ri ro = (unat (LPFee cfg) \<le> 1000 \<and> get_amount_out cfg a ri ro = Inr b)"

definition exact_out_price :: "dex_config \<Rightarrow> u64 \<Rightarrow> u64 \<Rightarrow> u64 \<Rightarrow> u64 \<Rightarrow> bool" where
  "exact_out_price cfg a b ri ro = (unat (LPFee cfg) \<le> 1000 \<and> get_amount_in cfg b ri ro = Inr a)"

text \<open>The product of the reserves of a coin's pool.\<close>

definition pool_product :: "dex_config \<Rightarrow> 'a dex_rt_scheme \<Rightarrow> Coin \<Rightarrow> nat" where
  "pool_product cfg s coin =
     holds (coins s) (get_pool_account cfg coin) Coin.Serai * holds (coins s) (get_pool_account cfg coin) coin"

text \<open>Pool accounts do not collide with each other, nor with an account \<open>who\<close>.\<close>

definition pools_distinct :: "dex_config \<Rightarrow> bool" where
  "pools_distinct cfg = inj (get_pool_account cfg)"

definition not_a_pool :: "dex_config \<Rightarrow> Public \<Rightarrow> bool" where
  "not_a_pool cfg who = (\<forall>coin. who \<noteq> get_pool_account cfg coin)"

section \<open>Lemmas on transfers and paths\<close>

lemma dex_transfer_Inr:
  "dex_transfer s f t b = Inr u \<longleftrightarrow> (\<exists>c. transfer_internal (coins s) f t b = Inr c \<and> u = s\<lparr>coins := c\<rparr>)"
  by (auto simp: dex_transfer_def res_simps)

lemma is_ok_dex_transfer: "is_ok (dex_transfer s f t b) = is_ok (transfer_internal (coins s) f t b)"
  by (cases "transfer_internal (coins s) f t b") (simp_all add: dex_transfer_def)

interpretation dl: ledger "\<lambda>s :: 'a dex_rt_scheme. holds (coins s)" "\<lambda>s. issued (coins s)"
    dex_transfer "\<lambda>s. supply_sound (coins s)"
proof unfold_locales
  fix s s' :: "'a dex_rt_scheme" and f t a :: Public and b :: Balance and c :: Coin
  show "supply_sound (coins s) \<Longrightarrow>
      is_ok (dex_transfer s f t b) = (unat (bal_amount b) \<le> holds (coins s) f (bal_coin b))"
    by (simp add: is_ok_dex_transfer cl.move_ok)
  assume "dex_transfer s f t b = Inr s'"
  then obtain c' where c': "transfer_internal (coins s) f t b = Inr c'" "s' = s\<lparr>coins := c'\<rparr>"
    by (auto simp: dex_transfer_Inr)
  from c' show "holds (coins s') a c + moved f b a c = holds (coins s) a c + moved t b a c"
    and "unat (bal_amount b) \<le> holds (coins s) f (bal_coin b)"
    and "issued (coins s') = issued (coins s)"
    and "supply_sound (coins s) \<Longrightarrow> supply_sound (coins s')"
    by (simp_all add: cl.held_move [OF c'(1)] cl.move_enough [OF c'(1)] cl.total_move [OF c'(1)]
        cl.inv_move [OF _ c'(1)])
qed (rule cl.held_le_total)

lemma get_pool_id_Inr:
  "get_pool_id c1 c2 = Inr p \<longleftrightarrow>
   p \<noteq> Coin.Serai \<and> (c1 = Coin.Serai \<and> c2 = p \<or> c2 = Coin.Serai \<and> c1 = p)"
  by (auto simp: get_pool_id_def ensure_def)

lemma validate_swap_path_Inr:
  assumes "validate_swap_path cfg path = Inr u"
  obtains (one) c1 c2 p where "path = [c1, c2]" and "get_pool_id c1 c2 = Inr p"
    | (two) a b where "path = [a, Coin.Serai, b]" and "a \<noteq> Coin.Serai" and "b \<noteq> Coin.Serai" and "a \<noteq> b"
proof -
  from assms have "2 \<le> length path" by (simp add: validate_swap_path_def res_simps)
  then obtain c1 c2 rest where path: "path = c1 # c2 # rest"
    by (metis One_nat_def Suc_1 Suc_le_length_iff)
  show ?thesis
  proof (cases rest)
    case Nil
    with assms path show ?thesis
      by (auto simp: validate_swap_path_def res_simps intro: one)
  next
    case (Cons c3 rest')
    show ?thesis
    proof (cases rest')
      case Nil
      with assms path Cons show ?thesis
        by (auto simp: validate_swap_path_def res_simps get_pool_id_Inr split: if_splits intro: two)
    next
      case (Cons c4 rest'')
      with assms path \<open>rest = c3 # rest'\<close> show ?thesis
        by (auto simp: validate_swap_path_def res_simps get_pool_id_Inr split: if_splits)
    qed
  qed
qed

lemma slice_get_Cons [simp]:
  "slice_get (x # xs) 0 = Some x" "slice_get (x # xs) (Suc n) = slice_get xs n" "slice_get [] n = None"
  by (simp_all add: slice_get_def)

lemma do_swap_one:
  assumes "do_swap cfg s sender [a, b] [c1, c2] send_to = Inr t" and "get_pool_id c1 c2 = Inr p"
  obtains s1 s2 where "dex_transfer s sender (get_pool_account cfg p) \<lparr>bal_coin = c1, bal_amount = a\<rparr> = Inr s1"
    and "dex_transfer s1 (get_pool_account cfg p) send_to \<lparr>bal_coin = c2, bal_amount = b\<rparr> = Inr s2"
    and "coins t = coins s2"
  using assms
  by (auto simp: do_swap_def do_swap_hop_def dex_deposit_event_def Let_def res_simps numeral_2_eq_2)

lemma do_swap_two:
  assumes "do_swap cfg s sender [a, m, b] [c1, Coin.Serai, c3] send_to = Inr t"
    and "c1 \<noteq> Coin.Serai" and "c3 \<noteq> Coin.Serai"
  obtains s1 s2 s3 where
      "dex_transfer s sender (get_pool_account cfg c1) \<lparr>bal_coin = c1, bal_amount = a\<rparr> = Inr s1"
    and "dex_transfer s1 (get_pool_account cfg c1) (get_pool_account cfg c3)
          \<lparr>bal_coin = Coin.Serai, bal_amount = m\<rparr> = Inr s2"
    and "dex_transfer s2 (get_pool_account cfg c3) send_to \<lparr>bal_coin = c3, bal_amount = b\<rparr> = Inr s3"
    and "coins t = coins s3"
  using assms
  by (auto simp: do_swap_def do_swap_hop_def dex_deposit_event_def Let_def res_simps get_pool_id_Inr
      numeral_2_eq_2)

lemma get_reserves_Inr:
  "get_reserves cfg s c1 c2 = Inr (r1, r2) \<longleftrightarrow>
   (\<exists>p. get_pool_id c1 c2 = Inr p \<and> r1 = get_balance s (get_pool_account cfg p) c1 \<and>
      r2 = get_balance s (get_pool_account cfg p) c2 \<and> r1 \<noteq> 0 \<and> r2 \<noteq> 0)"
  by (auto simp: get_reserves_def res_simps Let_def)

lemma get_amounts_out_quoted:
  assumes "get_amounts_out cfg s a path = Inr amounts" and "validate_swap_path cfg path = Inr u"
    and "unat (LPFee cfg) \<le> 1000"
  shows "path_quoted (exact_in_price cfg) cfg s path amounts" and "hd amounts = a"
  using assms(2)
  by (cases rule: validate_swap_path_Inr;
      use assms(1,3) in \<open>auto simp: get_amounts_out_def exact_in_price_def res_simps split: prod.splits\<close>)+

lemma get_amounts_in_quoted:
  assumes "get_amounts_in cfg s b path = Inr amounts" and "validate_swap_path cfg path = Inr u"
    and "unat (LPFee cfg) \<le> 1000"
  shows "path_quoted (exact_out_price cfg) cfg s path amounts" and "last amounts = b"
  using assms(2)
  by (cases rule: validate_swap_path_Inr;
      use assms(1,3) in \<open>auto simp: get_amounts_in_def exact_out_price_def res_simps split: prod.splits\<close>)+

lemma path_quoted_one:
  assumes "path_quoted q cfg s [c1, c2] amounts" and "get_pool_id c1 c2 = Inr p"
  obtains a b where "amounts = [a, b]"
    and "q a b (get_balance s (get_pool_account cfg p) c1) (get_balance s (get_pool_account cfg p) c2)"
  using assms
  by (cases "(q, cfg, s, [c1, c2], amounts)" rule: path_quoted.cases;
      cases "tl (tl amounts)")
     (auto simp: get_reserves_def Let_def split: sum.splits if_splits)

lemma path_quoted_two:
  assumes "path_quoted q cfg s [c1, Coin.Serai, c3] amounts" and "c1 \<noteq> Coin.Serai" and "c3 \<noteq> Coin.Serai"
  obtains a m b where "amounts = [a, m, b]"
    and "q a m (get_balance s (get_pool_account cfg c1) c1) (get_balance s (get_pool_account cfg c1) Coin.Serai)"
    and "q m b (get_balance s (get_pool_account cfg c3) Coin.Serai) (get_balance s (get_pool_account cfg c3) c3)"
proof -
  from assms(1) obtain a m as where am: "amounts = a # m # as"
    and q: "case get_reserves cfg s c1 Coin.Serai of Inl _ \<Rightarrow> False | Inr (ri, ro) \<Rightarrow> q a m ri ro"
    and rest: "path_quoted q cfg s [Coin.Serai, c3] (m # as)"
    by (cases "(q, cfg, s, [c1, Coin.Serai, c3], amounts)" rule: path_quoted.cases) auto
  have "get_pool_id Coin.Serai c3 = Inr c3" using assms(3) by (simp add: get_pool_id_Inr)
  from path_quoted_one [OF rest this] obtain b where "m # as = [m, b]"
    and "q m b (get_balance s (get_pool_account cfg c3) Coin.Serai) (get_balance s (get_pool_account cfg c3) c3)"
    by auto
  moreover have "get_pool_id c1 Coin.Serai = Inr c1" using assms(2) by (simp add: get_pool_id_Inr)
  then have "q a m (get_balance s (get_pool_account cfg c1) c1) (get_balance s (get_pool_account cfg c1) Coin.Serai)"
    using q by (simp add: get_reserves_def Let_def split: if_splits)
  ultimately show ?thesis using am that by simp
qed

lemma unat_get_balance: "unat (get_balance s who coin) = holds (coins s) who coin"
  by (simp add: get_balance_def holds_def)

lemma not_a_pool_ne: "not_a_pool cfg who \<Longrightarrow> who \<noteq> get_pool_account cfg c"
  "not_a_pool cfg who \<Longrightarrow> get_pool_account cfg c \<noteq> who"
  by (auto simp: not_a_pool_def)

lemma pools_distinct_iff [simp]:
  "pools_distinct cfg \<Longrightarrow> get_pool_account cfg c = get_pool_account cfg d \<longleftrightarrow> c = d"
  by (auto simp: pools_distinct_def inj_eq)

section \<open>No swap lowers a product\<close>

context constant_product
begin

lemma exchange:
  assumes "quoted a b ri ro" and "unat ri + unat a \<le> hi" and "unat ro \<le> ho + unat b"
  shows "unat ri * unat ro \<le> hi * ho"
proof -
  have "unat ro - unat b \<le> ho" using assms(3) by simp
  then have "(unat ri + unat a) * (unat ro - unat b) \<le> hi * ho" using assms(2) by (rule mult_le_mono [rotated])
  then show ?thesis using quoted_product [OF assms(1)] by (rule order_trans [rotated])
qed

lemma do_swap_one_product:
  assumes "do_swap cfg s sender amounts [c1, c2] send_to = Inr t" and pid: "get_pool_id c1 c2 = Inr p"
    and "path_quoted quoted cfg s [c1, c2] amounts"
    and dist: "pools_distinct cfg" and sep: "not_a_pool cfg sender"
  shows "pool_product cfg s c \<le> pool_product cfg t c"
proof -
  let ?P = "get_pool_account cfg"
  obtain a b where am: "amounts = [a, b]" and q: "quoted a b (get_balance s (?P p) c1) (get_balance s (?P p) c2)"
    by (rule path_quoted_one [OF assms(3) pid])
  obtain s1 s2 where s1: "dex_transfer s sender (?P p) \<lparr>bal_coin = c1, bal_amount = a\<rparr> = Inr s1"
    and s2: "dex_transfer s1 (?P p) send_to \<lparr>bal_coin = c2, bal_amount = b\<rparr> = Inr s2"
    and t: "coins t = coins s2"
    by (rule do_swap_one [OF assms(1) [unfolded am] pid])
  note ne = not_a_pool_ne [OF sep]
  have move: "holds (coins s) (?P c) x + moved (?P p) \<lparr>bal_coin = c1, bal_amount = a\<rparr> (?P c) x \<le>
      holds (coins t) (?P c) x + moved (?P p) \<lparr>bal_coin = c2, bal_amount = b\<rparr> (?P c) x" for x
    using dl.held_move [OF s1, of "?P c" x] dl.held_move [OF s2, of "?P c" x] ne
    by (simp add: t moved_def)
  show ?thesis
  proof (cases "c = p")
    case False
    then show ?thesis using move dist by (simp add: pool_product_def moved_def mult_le_mono)
  next
    case True
    have "c1 \<noteq> c2" using pid by (auto simp: get_pool_id_Inr)
    then have "holds (coins s) (?P p) c1 + unat a \<le> holds (coins t) (?P p) c1"
      and "holds (coins s) (?P p) c2 \<le> holds (coins t) (?P p) c2 + unat b"
      using move [of c1] move [of c2] True by (simp_all add: moved_def)
    from exchange [OF q, unfolded unat_get_balance, OF this] pid True show ?thesis
      by (auto simp: pool_product_def get_pool_id_Inr mult.commute)
  qed
qed

lemma do_swap_two_product:
  assumes "do_swap cfg s sender amounts [c1, Coin.Serai, c3] send_to = Inr t"
    and ne3: "c1 \<noteq> Coin.Serai" "c3 \<noteq> Coin.Serai" "c1 \<noteq> c3"
    and "path_quoted quoted cfg s [c1, Coin.Serai, c3] amounts"
    and dist: "pools_distinct cfg" and sep: "not_a_pool cfg sender"
  shows "pool_product cfg s c \<le> pool_product cfg t c"
proof -
  let ?P = "get_pool_account cfg"
  let ?B = "\<lambda>x n. \<lparr>bal_coin = x, bal_amount = n\<rparr> :: Balance"
  obtain a m b where am: "amounts = [a, m, b]"
    and q1: "quoted a m (get_balance s (?P c1) c1) (get_balance s (?P c1) Coin.Serai)"
    and q2: "quoted m b (get_balance s (?P c3) Coin.Serai) (get_balance s (?P c3) c3)"
    by (rule path_quoted_two [OF assms(5) ne3(1,2)])
  obtain s1 s2 s3 where s1: "dex_transfer s sender (?P c1) (?B c1 a) = Inr s1"
    and s2: "dex_transfer s1 (?P c1) (?P c3) (?B Coin.Serai m) = Inr s2"
    and s3: "dex_transfer s2 (?P c3) send_to (?B c3 b) = Inr s3" and t: "coins t = coins s3"
    by (rule do_swap_two [OF assms(1) [unfolded am] ne3(1,2)])
  note ne = not_a_pool_ne [OF sep]
  have move: "holds (coins s) (?P c) x + moved (?P c1) (?B c1 a) (?P c) x + moved (?P c3) (?B Coin.Serai m) (?P c) x \<le>
      holds (coins t) (?P c) x + moved (?P c1) (?B Coin.Serai m) (?P c) x + moved (?P c3) (?B c3 b) (?P c) x" for x
    using dl.held_move [OF s1, of "?P c" x] dl.held_move [OF s2, of "?P c" x]
      dl.held_move [OF s3, of "?P c" x] ne
    by (simp add: t moved_def)
  consider "c = c1" | "c = c3" | "c \<noteq> c1" "c \<noteq> c3" by blast
  then show ?thesis
  proof cases
    case 1
    then have "holds (coins s) (?P c1) c1 + unat a \<le> holds (coins t) (?P c1) c1"
      and "holds (coins s) (?P c1) Coin.Serai \<le> holds (coins t) (?P c1) Coin.Serai + unat m"
      using move [of c1] move [of Coin.Serai] ne3 dist by (simp_all add: moved_def)
    from exchange [OF q1, unfolded unat_get_balance, OF this] 1 show ?thesis
      by (simp add: pool_product_def mult.commute)
  next
    case 2
    then have "holds (coins s) (?P c3) Coin.Serai + unat m \<le> holds (coins t) (?P c3) Coin.Serai"
      and "holds (coins s) (?P c3) c3 \<le> holds (coins t) (?P c3) c3 + unat b"
      using move [of c3] move [of Coin.Serai] ne3 dist by (simp_all add: moved_def)
    from exchange [OF q2, unfolded unat_get_balance, OF this] 2 show ?thesis
      by (simp add: pool_product_def mult.commute)
  next
    case 3
    then show ?thesis using move dist by (simp add: pool_product_def moved_def mult_le_mono)
  qed
qed

lemma do_swap_product:
  assumes swap: "do_swap cfg s sender amounts path send_to = Inr t"
    and valid: "validate_swap_path cfg path = Inr u"
    and quoted: "path_quoted quoted cfg s path amounts"
    and sep: "pools_distinct cfg" "not_a_pool cfg sender"
  shows "pool_product cfg s c \<le> pool_product cfg t c"
  using valid
proof (cases rule: validate_swap_path_Inr)
  case (one c1 c2 p)
  then show ?thesis using do_swap_one_product [of cfg s sender amounts c1 c2 send_to t p c] swap quoted sep by simp
next
  case (two a b)
  then show ?thesis using do_swap_two_product [of cfg s sender amounts a b send_to t c] swap quoted sep by simp
qed

end

lemma kept_le: "kept cfg \<le> 1000"
  by (simp add: kept_def)

interpretation by_input: constant_product "exact_in_price cfg" for cfg
proof
  fix a b ri ro assume "exact_in_price cfg a b ri ro"
  then have "unat (LPFee cfg) \<le> 1000" "get_amount_out cfg a ri ro = Inr b" by (simp_all add: exact_in_price_def)
  note nat = get_amount_out_nat [OF this]
  show "unat b < unat ro" and "unat ri * unat ro \<le> (unat ri + unat a) * (unat ro - unat b)"
    using product_out [OF nat(1,2) kept_le nat(3)] by simp_all
qed

interpretation by_output: constant_product "exact_out_price cfg" for cfg
proof
  fix a b ri ro assume "exact_out_price cfg a b ri ro"
  then have "unat (LPFee cfg) \<le> 1000" "get_amount_in cfg b ri ro = Inr a" by (simp_all add: exact_out_price_def)
  note nat = get_amount_in_nat [OF this]
  show "unat b < unat ro" by (rule nat(2))
  show "unat ri * unat ro \<le> (unat ri + unat a) * (unat ro - unat b)"
    using product_in_keeps [OF nat(2) kept_le product_in [OF nat(2) _ nat(4)]] nat(3) by simp
qed

lemma swap_exact_keeps_product:
  assumes "swap_exact_tokens_for_tokens cfg s signer path a m send_to = Inr t" and "unat (LPFee cfg) \<le> 1000"
    and "pools_distinct cfg" and "\<And>who. signer = Some who \<Longrightarrow> not_a_pool cfg who"
  shows "pool_product cfg s c \<le> pool_product cfg t c"
  using assms
  by (auto simp: swap_exact_tokens_for_tokens_def do_swap_exact_tokens_for_tokens_def res_simps split: prod.splits
      intro!: by_input.do_swap_product get_amounts_out_quoted)

lemma swap_for_exact_keeps_product:
  assumes "swap_tokens_for_exact_tokens cfg s signer path a m send_to = Inr t" and "unat (LPFee cfg) \<le> 1000"
    and "pools_distinct cfg" and "\<And>who. signer = Some who \<Longrightarrow> not_a_pool cfg who"
  shows "pool_product cfg s c \<le> pool_product cfg t c"
  using assms
  by (auto simp: swap_tokens_for_exact_tokens_def do_swap_tokens_for_exact_tokens_def res_simps split: prod.splits
      intro!: by_output.do_swap_product get_amounts_in_quoted)

end
