(* ===== verification/Dex_Example.thy ===== *)
theory Dex_Example
  imports Dex_Swaps
begin

text \<open>
  A concrete configuration and state of the Dex, on which properties are evaluated: the runtime's
  fee and limits, a short price window, an injective stand-in for the hash and the integer
  square root; a bitcoin pool with reserves, and an endowed account 100.
\<close>

fun isqrt :: "nat \<Rightarrow> nat \<Rightarrow> nat" where
  "isqrt 0 n = 0"
| "isqrt (Suc k) n = (let r = 2 * isqrt k (n div 4) in if (r + 1) * (r + 1) \<le> n then r + 1 else r)"

lemma isqrt_le: "isqrt k n * isqrt k n \<le> n"
proof (induction k n rule: isqrt.induct)
  case (2 k n)
  have "4 * (isqrt k (n div 4) * isqrt k (n div 4)) \<le> 4 * (n div 4)" using "2.IH" by simp
  also have "\<dots> \<le> n" by simp
  finally show ?case by (simp add: Let_def)
qed simp

definition example_sqrt :: "u128 \<Rightarrow> u128" where
  "example_sqrt x = of_nat (isqrt 64 (unat x))"

definition example_cfg :: dex_config where
  "example_cfg = \<lparr>LPFee = 3, MintMinLiquidity = 10000, MaxSwapPathLength = 3, MedianPriceWindowLength = 2,
     blake2_256 = (\<lambda>bs. replicate 31 0 @ bs), integer_sqrt = example_sqrt, pools_order = COINS\<rparr>"

lemma example_cfg_simps [simp]:
  "LPFee example_cfg = 3" "MintMinLiquidity example_cfg = 10000" "MaxSwapPathLength example_cfg = 3"
  "MedianPriceWindowLength example_cfg = 2" "pools_order example_cfg = COINS"
  by (simp_all add: example_cfg_def)

lemma example_pool_account [simp]:
  "get_pool_account example_cfg Coin.Serai = 0" "get_pool_account example_cfg Coin.Bitcoin = 1"
  "get_pool_account example_cfg Coin.Ether = 2" "get_pool_account example_cfg Coin.Dai = 3"
  "get_pool_account example_cfg Coin.Monero = 4"
  by code_simp+

lemma example_integer_sqrt: "unat (integer_sqrt example_cfg x) * unat (integer_sqrt example_cfg x) \<le> unat x"
proof -
  have "isqrt 64 (unat x) \<le> isqrt 64 (unat x) * isqrt 64 (unat x)" by (rule le_square)
  also have "\<dots> \<le> unat x" by (rule isqrt_le)
  finally have "isqrt 64 (unat x) < 2 ^ 128" using unat_less_2p [of x] by simp
  then have "unat (of_nat (isqrt 64 (unat x)) :: u128) = isqrt 64 (unat x)"
    by (simp add: unat_of_nat take_bit_nat_eq_self)
  then show ?thesis by (simp add: example_cfg_def example_sqrt_def isqrt_le)
qed

lemma example_pools_distinct [simp]: "pools_distinct example_cfg"
proof -
  have "c = d" if "get_pool_account example_cfg c = get_pool_account example_cfg d" for c d
    using that by (cases c; cases d) simp_all
  then show ?thesis unfolding pools_distinct_def inj_def by blast
qed

lemma example_not_a_pool: "not_a_pool example_cfg who \<longleftrightarrow> who \<notin> {0, 1, 2, 3, 4}"
proof -
  have "(\<forall>c. who \<noteq> get_pool_account example_cfg c) \<longleftrightarrow> (\<forall>c \<in> set COINS. who \<noteq> get_pool_account example_cfg c)"
    using COINS_UNIV by simp
  then show ?thesis by (auto simp: not_a_pool_def COINS_def)
qed

definition example_coins :: coins_state where
  "example_coins = \<lparr>
     Balances = (\<lambda>_ _. None)
       (1 := [Coin.Serai \<mapsto> 400000, Coin.Bitcoin \<mapsto> 100000],
        3 := [Coin.Serai \<mapsto> 200000, Coin.Dai \<mapsto> 800000],
        100 := [Coin.Serai \<mapsto> 1000000, Coin.Bitcoin \<mapsto> 1000000]),
     Supply = [Coin.Serai \<mapsto> 1600000, Coin.Bitcoin \<mapsto> 1100000, Coin.Dai \<mapsto> 800000],
     CoinsEvents = []\<rparr>"

definition example_shares :: coins_state where
  "example_shares = \<lparr>
     Balances = (\<lambda>_ _. None)
       (1 := [Coin.Bitcoin \<mapsto> 10000], 3 := [Coin.Dai \<mapsto> 10000],
        100 := [Coin.Bitcoin \<mapsto> 190000, Coin.Dai \<mapsto> 390000]),
     Supply = [Coin.Bitcoin \<mapsto> 200000, Coin.Dai \<mapsto> 400000],
     CoinsEvents = []\<rparr>"

definition example_dex :: dex_rt where
  "example_dex = \<lparr>block_number = 1, coins = example_coins, LiquidityTokens = example_shares,
     Pools = (\<lambda>c. c = Coin.Bitcoin \<or> c = Coin.Dai),
     SpotPriceForBlock = (\<lambda>_ _. None), SpotPrices = (\<lambda>_. []), ReverseSpotPrices = (\<lambda>_. []),
     SpotPricesLength = (\<lambda>_. None), CurrentMedianPosition = (\<lambda>_. None), MedianPrice = (\<lambda>_. None),
     SecurityOracleValue = (\<lambda>_. None), DexEvents = []\<rparr>"

text \<open>A ledger whose balances are zero outside a finite set is sound when that set adds up.\<close>

lemma supply_sound_finite:
  assumes "finite A" and "\<And>who coin. who \<notin> A \<Longrightarrow> holds s who coin = 0"
    and "\<And>coin. (\<Sum>who\<in>A. holds s who coin) = issued s coin"
  shows "supply_sound s"
  unfolding supply_sound_def
proof
  fix coin
  have "(\<Sum>who\<in>UNIV. holds s who coin) = (\<Sum>who\<in>A. holds s who coin)"
    using assms(1,2) by (intro sum.mono_neutral_right) auto
  with assms(3) show "(\<Sum>who\<in>UNIV. holds s who coin) = issued s coin" by simp
qed

lemma example_coins_sound [simp]: "supply_sound example_coins"
proof (rule supply_sound_finite [of "{1, 3, 100}"])
  show "(\<Sum>who\<in>{1, 3, 100}. holds example_coins who coin) = issued example_coins coin" for coin
    by (cases coin) (simp_all add: holds_def issued_def balance_def coin_supply_def example_coins_def)
qed (simp_all add: holds_def balance_def example_coins_def)

lemma example_shares_sound [simp]: "supply_sound example_shares"
proof (rule supply_sound_finite [of "{1, 3, 100}"])
  show "(\<Sum>who\<in>{1, 3, 100}. holds example_shares who coin) = issued example_shares coin" for coin
    by (cases coin) (simp_all add: holds_def issued_def balance_def coin_supply_def example_shares_def)
qed (simp_all add: holds_def balance_def example_shares_def)

lemmas dex_eval =
  example_dex_def example_coins_def example_shares_def balance_def coin_supply_def get_balance_def
  get_pool_id_def get_reserves_def get_amount_out_def get_amount_in_def get_amounts_out_def get_amounts_in_def
  mul_div_def quote_def checked_add_def checked_sub_def checked_mul_def checked_div_def
  saturating_sub_def saturating_add_def try_u64_def validate_swap_path_def

lemmas dex_ops_eval =
  swap_exact_tokens_for_tokens_def do_swap_exact_tokens_for_tokens_def
  swap_tokens_for_exact_tokens_def do_swap_tokens_for_exact_tokens_def do_swap_def do_swap_hop_def
  dex_transfer_def transfer_internal_def decrease_balance_internal_def increase_balance_internal_def
  set_balance_def coins_deposit_event_def dex_deposit_event_def slice_get_def

lemma example_dex_simps [simp]:
  "coins example_dex = example_coins" "LiquidityTokens example_dex = example_shares"
  by (simp_all add: example_dex_def)

lemma example_reserves:
  "holds example_coins 1 Coin.Serai = 400000" "holds example_coins 1 Coin.Bitcoin = 100000"
  "holds example_shares 1 Coin.Bitcoin = 10000" "issued example_shares Coin.Bitcoin = 200000"
  by (simp_all add: holds_def issued_def dex_eval)

lemma example_swaps_succeed:
  "is_ok (swap_exact_tokens_for_tokens example_cfg example_dex (Some 100) [Coin.Bitcoin, Coin.Serai] 1000 1 100)"
  "is_ok (swap_tokens_for_exact_tokens example_cfg example_dex (Some 100) [Coin.Bitcoin, Coin.Serai, Coin.Dai] 500 1000 101)"
  by (simp_all add: dex_ops_eval dex_eval)

lemma example_spot_price: "spot_price example_cfg example_dex Coin.Bitcoin = 400000000"
  by (simp add: spot_price_def accuracy_increase_def native_def dex_eval)

end
