(* ===== verification/Dex_Hooks.thy ===== *)
theory Dex_Hooks
  imports Dex_Example
begin

text \<open>
  The hooks of the Dex: the block-end hook that moves the price window, and the new-session hook.
  The lemmas show that the block-end hook never hits an \<open>unwrap\<close>, that every pool's oracle then
  holds exactly the last prices, and that it touches nothing but the oracle.
\<close>

section \<open>What the oracle leaves alone\<close>

definition same_ledgers :: "'a dex_rt_scheme \<Rightarrow> 'a dex_rt_scheme \<Rightarrow> bool" where
  "same_ledgers s t =
     (block_number t = block_number s \<and> coins t = coins s \<and> LiquidityTokens t = LiquidityTokens s \<and>
      Pools t = Pools s \<and> DexEvents t = DexEvents s \<and> dex_rt.more t = dex_rt.more s)"

definition same_oracle :: "Coin \<Rightarrow> 'a dex_rt_scheme \<Rightarrow> 'a dex_rt_scheme \<Rightarrow> bool" where
  "same_oracle c s t =
     (SpotPrices t c = SpotPrices s c \<and> ReverseSpotPrices t c = ReverseSpotPrices s c \<and>
      SpotPricesLength t c = SpotPricesLength s c \<and> CurrentMedianPosition t c = CurrentMedianPosition s c \<and>
      MedianPrice t c = MedianPrice s c \<and> SecurityOracleValue t c = SecurityOracleValue s c \<and>
      (\<forall>n. SpotPriceForBlock t n c = SpotPriceForBlock s n c))"

text \<open>\<open>t\<close> differs from \<open>s\<close> at most in the oracle of \<open>coin\<close>.\<close>

definition oracle_only :: "Coin \<Rightarrow> 'a dex_rt_scheme \<Rightarrow> 'a dex_rt_scheme \<Rightarrow> bool" where
  "oracle_only coin s t = (same_ledgers s t \<and> (\<forall>c. c \<noteq> coin \<longrightarrow> same_oracle c s t))"

text \<open>The window moves without touching the stored block prices and the security value.\<close>

definition prices_only :: "Coin \<Rightarrow> 'a dex_rt_scheme \<Rightarrow> 'a dex_rt_scheme \<Rightarrow> bool" where
  "prices_only coin s t =
     (oracle_only coin s t \<and> SpotPriceForBlock t = SpotPriceForBlock s \<and>
      SecurityOracleValue t = SecurityOracleValue s)"

lemmas frame_defs = prices_only_def oracle_only_def same_oracle_def same_ledgers_def

lemma same_ledgers_refl [simp]: "same_ledgers s s"
  by (simp add: same_ledgers_def)

lemma same_ledgers_trans: "same_ledgers s t \<Longrightarrow> same_ledgers t u \<Longrightarrow> same_ledgers s u"
  by (simp add: same_ledgers_def)

lemma oracle_only_trans: "oracle_only coin s t \<Longrightarrow> oracle_only coin t u \<Longrightarrow> oracle_only coin s u"
  by (simp add: oracle_only_def same_oracle_def same_ledgers_def)

lemma restore_median_frame:
  "restore_median s coin pos med len = Some t \<Longrightarrow> prices_only coin s t"
  by (auto simp: restore_median_def Let_def bind_eq_Some_conv frame_defs)

lemma prices_only_trans: "prices_only coin s t \<Longrightarrow> prices_only coin t u \<Longrightarrow> prices_only coin s u"
  by (simp add: frame_defs)

lemma insert_into_median_frame:
  assumes "insert_into_median s coin a = Some t"
  shows "prices_only coin s t"
proof -
  define n where "n = (case om_get (SpotPrices s coin) (to_be_bytes a) of Some n \<Rightarrow> n | None \<Rightarrow> 0) + 1"
  define l where "l = (case SpotPricesLength s coin of Some n \<Rightarrow> n | None \<Rightarrow> 0) + 1"
  define r where "r = (if n = 1
    then om_set (reverse_lexicographic_order (to_be_bytes a)) () (ReverseSpotPrices s coin)
    else ReverseSpotPrices s coin)"
  define u where "u = s\<lparr>SpotPrices := (SpotPrices s)(coin := om_set (to_be_bytes a) n (SpotPrices s coin)),
    ReverseSpotPrices := (ReverseSpotPrices s)(coin := r), SpotPricesLength := (SpotPricesLength s)(coin \<mapsto> l)\<rparr>"
  have u: "prices_only coin s u" by (simp add: frame_defs u_def)
  have "insert_into_median s coin a =
    (case MedianPrice s coin of
       None \<Rightarrow> Some (u\<lparr>MedianPrice := (MedianPrice u)(coin \<mapsto> a),
                      CurrentMedianPosition := (CurrentMedianPosition u)(coin \<mapsto> 0)\<rparr>)
     | Some med \<Rightarrow> Option.bind (CurrentMedianPosition s coin)
         (\<lambda>pos. restore_median u coin (if a < med then pos + 1 else pos) med l))"
    by (simp add: insert_into_median_def Let_def u_def r_def n_def l_def cong: option.case_cong)
  with assms have "t = u\<lparr>MedianPrice := (MedianPrice u)(coin \<mapsto> a),
                      CurrentMedianPosition := (CurrentMedianPosition u)(coin \<mapsto> 0)\<rparr> \<or>
      (\<exists>p m. restore_median u coin p m l = Some t)"
    by (auto simp: bind_eq_Some_conv split: option.splits)
  then have "prices_only coin u t"
    by (auto simp: frame_defs dest: restore_median_frame)
  with u show ?thesis by (rule prices_only_trans)
qed

lemma remove_from_median_frame:
  assumes "remove_from_median s coin a = Some t"
  shows "prices_only coin s t"
proof -
  from assms obtain med pos n u med' where
    u: "(if n - 1 = 0 then
          (let s1 = s\<lparr>SpotPrices := (SpotPrices s)(coin := om_remove (to_be_bytes a) (SpotPrices s coin)),
                      ReverseSpotPrices := (ReverseSpotPrices s)
                        (coin := om_remove (reverse_lexicographic_order (to_be_bytes a)) (ReverseSpotPrices s coin))\<rparr>
           in if a = med then map_option (\<lambda>p. (s1, p)) (next_price (SpotPrices s1 coin) a) else Some (s1, med))
        else Some (s\<lparr>SpotPrices := (SpotPrices s)(coin := om_set (to_be_bytes a) (n - 1) (SpotPrices s coin))\<rparr>, med))
       = Some (u, med')"
    and t: "\<exists>len. restore_median (u\<lparr>SpotPricesLength := (SpotPricesLength u)(coin \<mapsto> len)\<rparr>)
        coin pos med' len = Some t"
    unfolding remove_from_median_def Let_def bind_eq_Some_conv split_paired_Ex prod.case by blast
  from u have "prices_only coin s u"
    by (simp add: Let_def frame_defs split: if_splits) auto
  moreover from t have "prices_only coin u t"
    by (auto dest!: restore_median_frame simp: frame_defs)
  ultimately show ?thesis by (rule prices_only_trans)
qed

lemma finalize_coin_Some:
  assumes "finalize_coin cfg n s coin = Some t"
  obtains s1 s2 len s4 where
      "s1 = s\<lparr>SpotPriceForBlock := (SpotPriceForBlock s)(n := (SpotPriceForBlock s n)(coin \<mapsto> spot_price cfg s coin))\<rparr>"
    and "insert_into_median s1 coin (spot_price cfg s coin) = Some s2"
    and "(if MedianPriceWindowLength cfg < len
          then Option.bind (SpotPriceForBlock s2 (n - ucast (MedianPriceWindowLength cfg)) coin)
            (remove_from_median (s2\<lparr>SpotPriceForBlock := (SpotPriceForBlock s2)
               (n - ucast (MedianPriceWindowLength cfg) :=
                  (SpotPriceForBlock s2 (n - ucast (MedianPriceWindowLength cfg)))(coin := None))\<rparr>) coin)
          else Some s2) = Some s4"
    and "t = (if (case SecurityOracleValue s4 coin of None \<Rightarrow> 0 | Some p \<Rightarrow> p)
                < (case MedianPrice s4 coin of None \<Rightarrow> 0 | Some p \<Rightarrow> p)
              then s4\<lparr>SecurityOracleValue := (SecurityOracleValue s4)
                (coin \<mapsto> (case MedianPrice s4 coin of None \<Rightarrow> 0 | Some p \<Rightarrow> p))\<rparr> else s4)"
  using assms unfolding finalize_coin_def Let_def bind_eq_Some_conv option.inject by blast

lemma finalize_coin_frame:
  assumes "finalize_coin cfg n s coin = Some t"
  shows "oracle_only coin s t"
  using assms
proof (cases rule: finalize_coin_Some)
  case (1 s1 s2 len s4)
  have "oracle_only coin s s1" by (simp add: 1(1) frame_defs)
  moreover have "oracle_only coin s1 s2"
    using insert_into_median_frame [OF 1(2)] by (simp add: prices_only_def)
  moreover have "oracle_only coin s2 s4"
  proof (cases "MedianPriceWindowLength cfg < len")
    case True
    with 1(3) show ?thesis
      by (auto simp: bind_eq_Some_conv frame_defs dest!: remove_from_median_frame)
  next
    case False
    with 1(3) show ?thesis by (simp add: frame_defs)
  qed
  moreover have "oracle_only coin s4 t" by (simp add: 1(4) frame_defs)
  ultimately show ?thesis by (blast intro: oracle_only_trans)
qed

section \<open>The price window\<close>

text \<open>The number of a block, as storage keys have it.\<close>

definition blk :: "nat \<Rightarrow> u64" where
  "blk k = of_nat k"

text \<open>
  \<open>price_window cfg s n coin ps\<close>: before block \<open>n\<close> ends, the oracle of \<open>coin\<close> holds the prices \<open>ps\<close>
  of the blocks just before \<open>n\<close>, at most as many as the window is long.
\<close>

definition price_window :: "dex_config \<Rightarrow> 'a dex_rt_scheme \<Rightarrow> nat \<Rightarrow> Coin \<Rightarrow> Amount list \<Rightarrow> bool" where
  "price_window cfg s n coin ps =
     (oracle_repr s coin ps \<and> length ps \<le> unat (MedianPriceWindowLength cfg) \<and> length ps \<le> n \<and>
      (\<forall>i < length ps. SpotPriceForBlock s (blk (n - length ps + i)) coin = Some (ps ! i)))"

text \<open>The window after one more price.\<close>

definition slide :: "dex_config \<Rightarrow> Amount list \<Rightarrow> Amount \<Rightarrow> Amount list" where
  "slide cfg ps p = (if length ps < unat (MedianPriceWindowLength cfg) then ps else tl ps) @ [p]"

lemma oracle_repr_cong:
  assumes "SpotPrices t coin = SpotPrices s coin" and "ReverseSpotPrices t coin = ReverseSpotPrices s coin"
    and "SpotPricesLength t coin = SpotPricesLength s coin"
    and "CurrentMedianPosition t coin = CurrentMedianPosition s coin" and "MedianPrice t coin = MedianPrice s coin"
  shows "oracle_repr t coin ps = oracle_repr s coin ps"
  using assms by (simp add: oracle_repr_def)

lemma price_window_cong: "same_oracle coin s t \<Longrightarrow> price_window cfg t n coin ps = price_window cfg s n coin ps"
  by (simp add: price_window_def same_oracle_def oracle_repr_def)

lemma oracle_repr_length: "oracle_repr s coin ps \<Longrightarrow> ps \<noteq> [] \<Longrightarrow> SpotPricesLength s coin = Some (of_nat (length ps))"
  by (auto simp: oracle_repr_def)

lemma oracle_repr_median: "oracle_repr s coin ps \<Longrightarrow> ps \<noteq> [] \<Longrightarrow> MedianPrice s coin = Some (median_of ps)"
  by (auto simp: oracle_repr_def)

lemma oracle_repr_SpotPriceForBlock [simp]:
  "oracle_repr (s\<lparr>SpotPriceForBlock := x\<rparr>) coin ps = oracle_repr s coin ps"
  "oracle_repr (s\<lparr>SecurityOracleValue := y\<rparr>) coin ps = oracle_repr s coin ps"
  by (simp_all add: oracle_repr_def)

lemma unat_blk: "i \<le> unat (n :: u64) \<Longrightarrow> unat (blk i) = i"
  using unat_less_2p [of n] by (simp add: blk_def unat_of_nat take_bit_nat_eq_self)

lemma blk_eq:
  "i \<le> unat n \<Longrightarrow> (blk i = n) = (i = unat n)"
  "i \<le> unat n \<Longrightarrow> (n = blk i) = (i = unat n)"
  "i \<le> unat n \<Longrightarrow> j \<le> unat n \<Longrightarrow> (blk i = blk j) = (i = j)"
  using unat_blk [of i n] unat_blk [of j n] by (auto simp: word_unat_eq_iff)

lemma blk_unat [simp]: "blk (unat n) = n"
  by (simp add: blk_def)

lemma tl_append_new: "ps \<noteq> [] \<Longrightarrow> remove1 (ps ! 0) (ps @ [p]) = tl ps @ [p]"
  by (cases ps) simp_all

text \<open>The window grows until it is full.\<close>

lemma finalize_coin_grow:
  assumes w: "price_window cfg s (unat n) coin ps" and full: "length ps < unat (MedianPriceWindowLength cfg)"
    and p: "p = spot_price cfg s coin"
  obtains s4 where "price_window cfg s4 (Suc (unat n)) coin (ps @ [p])"
    and "SecurityOracleValue s4 = SecurityOracleValue s"
    and "finalize_coin cfg n s coin = Some (if (case SecurityOracleValue s coin of None \<Rightarrow> 0 | Some v \<Rightarrow> v) < median_of (ps @ [p])
        then s4\<lparr>SecurityOracleValue := (SecurityOracleValue s4)(coin \<mapsto> median_of (ps @ [p]))\<rparr> else s4)"
proof -
  define s1 where "s1 = s\<lparr>SpotPriceForBlock := (SpotPriceForBlock s)(n := (SpotPriceForBlock s n)(coin \<mapsto> p))\<rparr>"
  have len: "Suc (length ps) < 2 ^ 16" using full unat_less_2p [of "MedianPriceWindowLength cfg"] by simp
  have "oracle_repr s1 coin ps" using w by (simp add: s1_def price_window_def)
  then obtain s2 where s2: "insert_into_median s1 coin p = Some s2" and r2: "oracle_repr s2 coin (ps @ [p])"
    using insert_into_median_correct len by blast
  have fr: "SpotPriceForBlock s2 = SpotPriceForBlock s1" "SecurityOracleValue s2 = SecurityOracleValue s"
    using insert_into_median_frame [OF s2] by (simp_all add: prices_only_def s1_def)
  have l2: "SpotPricesLength s2 coin = Some (of_nat (Suc (length ps)))"
    using oracle_repr_length [OF r2] by simp
  have not_over: "\<not> MedianPriceWindowLength cfg < of_nat (Suc (length ps))"
    using full len by (simp only: word_less_nat_alt of_nat_u16)
  have med: "MedianPrice s2 coin = Some (median_of (ps @ [p]))" by (rule oracle_repr_median [OF r2]) simp
  have "price_window cfg s2 (Suc (unat n)) coin (ps @ [p])"
    using w full r2 by (auto simp: price_window_def fr s1_def nth_append blk_eq [of _ n] less_Suc_eq)
  then show ?thesis
    using that fr(2)
    by (simp add: finalize_coin_def p [symmetric] s1_def [symmetric] s2 l2 not_over med fr del: of_nat_Suc)
qed

text \<open>A full window drops its oldest price.\<close>

lemma finalize_coin_slide:
  assumes w: "price_window cfg s (unat n) coin ps" and full: "length ps = unat (MedianPriceWindowLength cfg)"
    and W: "2 \<le> length ps" "Suc (length ps) < 2 ^ 16"
    and p: "p = spot_price cfg s coin"
  obtains s4 where "price_window cfg s4 (Suc (unat n)) coin (tl ps @ [p])"
    and "SecurityOracleValue s4 = SecurityOracleValue s"
    and "finalize_coin cfg n s coin = Some (if (case SecurityOracleValue s coin of None \<Rightarrow> 0 | Some v \<Rightarrow> v) < median_of (tl ps @ [p])
        then s4\<lparr>SecurityOracleValue := (SecurityOracleValue s4)(coin \<mapsto> median_of (tl ps @ [p]))\<rparr> else s4)"
proof -
  define old where "old = n - ucast (MedianPriceWindowLength cfg)"
  have le: "length ps \<le> unat n" using w by (simp add: price_window_def)
  have ne: "ps \<noteq> []" using W by auto
  have old: "old = blk (unat n - length ps)"
    using le full by (simp add: old_def blk_def of_nat_diff)
  have old_n: "old \<noteq> n" using le W by (simp add: old blk_eq)
  define s1 where "s1 = s\<lparr>SpotPriceForBlock := (SpotPriceForBlock s)(n := (SpotPriceForBlock s n)(coin \<mapsto> p))\<rparr>"
  have "oracle_repr s1 coin ps" using w by (simp add: s1_def price_window_def)
  then obtain s2 where s2: "insert_into_median s1 coin p = Some s2" and r2: "oracle_repr s2 coin (ps @ [p])"
    using insert_into_median_correct W(2) by blast
  have fr2: "SpotPriceForBlock s2 = SpotPriceForBlock s1" "SecurityOracleValue s2 = SecurityOracleValue s"
    using insert_into_median_frame [OF s2] by (simp_all add: prices_only_def s1_def)
  have l2: "SpotPricesLength s2 coin = Some (of_nat (Suc (length ps)))"
    using oracle_repr_length [OF r2] by simp
  have over: "MedianPriceWindowLength cfg < of_nat (Suc (length ps))"
    using full W(2) by (simp only: word_less_nat_alt of_nat_u16)
  have "SpotPriceForBlock s (blk (unat n - length ps + 0)) coin = Some (ps ! 0)"
    using w ne unfolding price_window_def by blast
  then have price: "SpotPriceForBlock s2 old coin = Some (ps ! 0)"
    using old_n by (simp add: fr2 s1_def old)
  define s3 where "s3 = s2\<lparr>SpotPriceForBlock := (SpotPriceForBlock s2)(old := (SpotPriceForBlock s2 old)(coin := None))\<rparr>"
  have "oracle_repr s3 coin (ps @ [p])" using r2 by (simp add: s3_def)
  moreover have "ps ! 0 \<in> set (ps @ [p])" using ne by simp
  ultimately obtain s4 where s4: "remove_from_median s3 coin (ps ! 0) = Some s4"
    and "oracle_repr s4 coin (remove1 (ps ! 0) (ps @ [p]))"
    using remove_from_median_correct [of s3 coin "ps @ [p]"] W(1) by auto
  then have r4: "oracle_repr s4 coin (tl ps @ [p])" by (simp only: tl_append_new [OF ne])
  have fr4: "SpotPriceForBlock s4 = SpotPriceForBlock s3" "SecurityOracleValue s4 = SecurityOracleValue s"
    using remove_from_median_frame [OF s4] fr2 by (simp_all add: prices_only_def s3_def)
  have med: "MedianPrice s4 coin = Some (median_of (tl ps @ [p]))" by (rule oracle_repr_median [OF r4]) simp
  have "SpotPriceForBlock s4 (blk (Suc (unat n) - length ps + i)) coin = Some ((tl ps @ [p]) ! i)"
    if i: "i < length ps" for i
  proof (cases "Suc i = length ps")
    case True
    then have "Suc (unat n) - length ps + i = unat n" "i = length (tl ps)" using le by auto
    then show ?thesis using old_n by (simp add: fr4 fr2 s3_def s1_def nth_append)
  next
    case False
    then have k: "Suc (unat n) - length ps + i = unat n - length ps + Suc i" "i < length (tl ps)"
      and ltn: "unat n - length ps + Suc i < unat n" and i': "Suc i < length ps" using le i by auto
    have "blk (unat n - length ps + Suc i) \<noteq> n" "blk (unat n - length ps + Suc i) \<noteq> old"
      using ltn by (simp_all add: old blk_eq [of _ n])
    moreover have "SpotPriceForBlock s (blk (unat n - length ps + Suc i)) coin = Some (ps ! Suc i)"
      using w i' unfolding price_window_def by blast
    ultimately show ?thesis using k by (simp add: fr4 fr2 s3_def s1_def nth_append nth_tl)
  qed
  then have "price_window cfg s4 (Suc (unat n)) coin (tl ps @ [p])"
    using full W le r4 ne by (simp add: price_window_def)
  then show ?thesis
    using that fr4(2)
    by (simp add: finalize_coin_def p [symmetric] s1_def [symmetric] s2 l2 over old_def [symmetric] price
        s3_def [symmetric] s4 med fr4 del: of_nat_Suc)
qed

text \<open>The security value only rises between sessions.\<close>

definition raise :: "Amount option \<Rightarrow> Amount \<Rightarrow> Amount option" where
  "raise v m = (if (case v of None \<Rightarrow> 0 | Some x \<Rightarrow> x) < m then Some m else v)"

lemma price_window_SecurityOracleValue [simp]:
  "price_window cfg (s\<lparr>SecurityOracleValue := y\<rparr>) n coin ps = price_window cfg s n coin ps"
  by (simp add: price_window_def)

lemma finalize_coin_window:
  assumes w: "price_window cfg s (unat n) coin ps"
    and W: "2 \<le> unat (MedianPriceWindowLength cfg)" "Suc (unat (MedianPriceWindowLength cfg)) < 2 ^ 16"
  shows "\<exists>t. finalize_coin cfg n s coin = Some t \<and>
      price_window cfg t (Suc (unat n)) coin (slide cfg ps (spot_price cfg s coin)) \<and>
      SecurityOracleValue t coin = raise (SecurityOracleValue s coin) (median_of (slide cfg ps (spot_price cfg s coin)))"
proof (cases "length ps < unat (MedianPriceWindowLength cfg)")
  case True
  define m where "m = median_of (ps @ [spot_price cfg s coin])"
  have sl: "slide cfg ps (spot_price cfg s coin) = ps @ [spot_price cfg s coin]" using True by (simp add: slide_def)
  obtain s4 where "price_window cfg s4 (Suc (unat n)) coin (ps @ [spot_price cfg s coin])"
    and "SecurityOracleValue s4 = SecurityOracleValue s"
    and "finalize_coin cfg n s coin = Some (if (case SecurityOracleValue s coin of None \<Rightarrow> 0 | Some v \<Rightarrow> v) < m
        then s4\<lparr>SecurityOracleValue := (SecurityOracleValue s4)(coin \<mapsto> m)\<rparr> else s4)"
    unfolding m_def by (rule finalize_coin_grow [OF w True refl])
  then show ?thesis unfolding sl m_def [symmetric] by (simp add: raise_def)
next
  case False
  then have full: "length ps = unat (MedianPriceWindowLength cfg)" using w by (simp add: price_window_def)
  with W have len: "2 \<le> length ps" "Suc (length ps) < 2 ^ 16" by simp_all
  define m where "m = median_of (tl ps @ [spot_price cfg s coin])"
  have sl: "slide cfg ps (spot_price cfg s coin) = tl ps @ [spot_price cfg s coin]" using False by (simp add: slide_def)
  obtain s4 where "price_window cfg s4 (Suc (unat n)) coin (tl ps @ [spot_price cfg s coin])"
    and "SecurityOracleValue s4 = SecurityOracleValue s"
    and "finalize_coin cfg n s coin = Some (if (case SecurityOracleValue s coin of None \<Rightarrow> 0 | Some v \<Rightarrow> v) < m
        then s4\<lparr>SecurityOracleValue := (SecurityOracleValue s4)(coin \<mapsto> m)\<rparr> else s4)"
    unfolding m_def by (rule finalize_coin_slide [OF w full len refl])
  then show ?thesis unfolding sl m_def [symmetric] by (simp add: raise_def)
qed

lemma spot_price_cong: "coins t = coins s \<Longrightarrow> spot_price cfg t coin = spot_price cfg s coin"
  by (simp add: spot_price_def get_reserves_def get_balance_def)

lemma finalize_coins_window:
  assumes W: "2 \<le> unat (MedianPriceWindowLength cfg)" "Suc (unat (MedianPriceWindowLength cfg)) < 2 ^ 16"
    and "distinct cs" and "\<forall>c \<in> set cs. price_window cfg s (unat n) c (ps c)"
  shows "\<exists>t. finalize_coins cfg n s cs = Some t \<and> same_ledgers s t \<and> (\<forall>c. c \<notin> set cs \<longrightarrow> same_oracle c s t) \<and>
      (\<forall>c \<in> set cs. price_window cfg t (Suc (unat n)) c (slide cfg (ps c) (spot_price cfg s c)) \<and>
         SecurityOracleValue t c = raise (SecurityOracleValue s c) (median_of (slide cfg (ps c) (spot_price cfg s c))))"
  using assms(3,4)
proof (induction cs arbitrary: s)
  case Nil
  then show ?case by (simp add: same_oracle_def)
next
  case (Cons c cs)
  obtain u where u: "finalize_coin cfg n s c = Some u"
    and wu: "price_window cfg u (Suc (unat n)) c (slide cfg (ps c) (spot_price cfg s c))"
    and su: "SecurityOracleValue u c = raise (SecurityOracleValue s c) (median_of (slide cfg (ps c) (spot_price cfg s c)))"
    using finalize_coin_window [OF _ W, of s n c "ps c"] Cons.prems by auto
  have fr: "same_ledgers s u" and others: "\<And>d. d \<noteq> c \<Longrightarrow> same_oracle d s u"
    using finalize_coin_frame [OF u] by (auto simp: oracle_only_def)
  have sp: "spot_price cfg u d = spot_price cfg s d" for d
    using fr by (auto simp: same_ledgers_def intro: spot_price_cong)
  have "\<forall>d \<in> set cs. price_window cfg u (unat n) d (ps d)"
    using Cons.prems price_window_cong [OF others] by (metis distinct.simps(2) list.set_intros(2))
  from Cons.IH [OF _ this] Cons.prems obtain t where t: "finalize_coins cfg n u cs = Some t" "same_ledgers u t"
    and out: "\<And>d. d \<notin> set cs \<Longrightarrow> same_oracle d u t"
    and ins: "\<And>d. d \<in> set cs \<Longrightarrow> price_window cfg t (Suc (unat n)) d (slide cfg (ps d) (spot_price cfg s d)) \<and>
         SecurityOracleValue t d = raise (SecurityOracleValue u d) (median_of (slide cfg (ps d) (spot_price cfg s d)))"
    by (auto simp: sp)
  have c: "same_oracle c u t" using out Cons.prems by simp
  have "SecurityOracleValue u d = SecurityOracleValue s d" if "d \<in> set cs" for d
    using others [of d] that Cons.prems by (auto simp: same_oracle_def)
  moreover have "same_oracle d s t" if "d \<notin> set (c # cs)" for d
    using others [of d] out [of d] that by (simp add: same_oracle_def)
  moreover have "same_ledgers s t" using fr t(2) by (rule same_ledgers_trans)
  moreover have "SecurityOracleValue t c = SecurityOracleValue u c" using c by (simp add: same_oracle_def)
  ultimately show ?case using u t ins wu su price_window_cong [OF c] by simp
qed

lemma dex_on_finalize_frame:
  assumes "dex_on_finalize cfg s n = Some t"
  shows "same_ledgers s t"
proof -
  have "finalize_coins cfg n s cs = Some t \<Longrightarrow> same_ledgers s t" for cs
  proof (induction cs arbitrary: s)
    case (Cons c cs)
    then obtain u where "finalize_coin cfg n s c = Some u" "finalize_coins cfg n u cs = Some t"
      by (auto simp: bind_eq_Some_conv)
    with Cons.IH show ?case
      using finalize_coin_frame same_ledgers_trans by (fastforce simp: oracle_only_def)
  qed simp
  from this [OF assms [unfolded dex_on_finalize_def]] show ?thesis .
qed

lemma on_new_session_frame: "same_ledgers s (on_new_session s net)"
  unfolding on_new_session_def
  by (cases net) (simp_all add: same_ledgers_def)

lemma on_new_session_value:
  "SecurityOracleValue (on_new_session s net) c =
     (if network c = net then MedianPrice s c else SecurityOracleValue s c)"
  unfolding on_new_session_def
  by (cases net; cases c) simp_all

section \<open>Properties\<close>

text \<open>
  C16: the block-end hook of the Dex never panics and keeps the price oracle exact. Suppose every
  pool's oracle holds the prices of the blocks before block \<open>n\<close>. Then the hook returns, and
  afterwards every pool's oracle holds the window moved by one block: the new spot price is
  appended and, once the window is full, the oldest price is dropped. The stored median is the
  middle element of the sorted window, and the security value is raised to it when it was lower.
  Balances, supplies, pools and the oracles of coins without a pool are unchanged.
\<close>

theorem on_finalize_keeps_window:
  assumes "2 \<le> unat (MedianPriceWindowLength cfg)" and "Suc (unat (MedianPriceWindowLength cfg)) < 2 ^ 16"
    and "distinct (pools_order cfg)" and "set (pools_order cfg) = UNIV"
    and "\<And>coin. Pools s coin \<Longrightarrow> price_window cfg s (unat n) coin (ps coin)"
  shows "\<exists>t. dex_on_finalize cfg s n = Some t \<and> same_ledgers s t \<and>
    (\<forall>coin. Pools s coin \<longrightarrow>
         price_window cfg t (unat n + 1) coin (slide cfg (ps coin) (spot_price cfg s coin)) \<and>
         MedianPrice t coin = Some (median_of (slide cfg (ps coin) (spot_price cfg s coin))) \<and>
         SecurityOracleValue t coin =
           raise (SecurityOracleValue s coin) (median_of (slide cfg (ps coin) (spot_price cfg s coin)))) \<and>
    (\<forall>coin. \<not> Pools s coin \<longrightarrow> same_oracle coin s t)"
proof -
  let ?cs = "filter (Pools s) (pools_order cfg)"
  have "distinct ?cs" "\<forall>c \<in> set ?cs. price_window cfg s (unat n) c (ps c)" using assms(3,5) by simp_all
  from finalize_coins_window [OF assms(1,2) this] obtain t where
    t: "finalize_coins cfg n s ?cs = Some t" "same_ledgers s t" "\<forall>c. \<not> Pools s c \<longrightarrow> same_oracle c s t"
    and w: "\<forall>c. Pools s c \<longrightarrow> price_window cfg t (Suc (unat n)) c (slide cfg (ps c) (spot_price cfg s c)) \<and>
       SecurityOracleValue t c = raise (SecurityOracleValue s c) (median_of (slide cfg (ps c) (spot_price cfg s c)))"
    using assms(4) by auto
  moreover have "MedianPrice t c = Some (median_of (slide cfg (ps c) (spot_price cfg s c)))" if "Pools s c" for c
    using w that by (auto simp: price_window_def slide_def intro!: oracle_repr_median)
  ultimately show ?thesis by (auto simp: dex_on_finalize_def)
qed

text \<open>Three blocks from a fresh oracle: the window of length two fills and then moves.\<close>

theorem on_finalize_keeps_window_witness:
  "\<exists>t1 t2 t3. dex_on_finalize example_cfg example_dex 1 = Some t1 \<and> dex_on_finalize example_cfg t1 2 = Some t2 \<and>
     dex_on_finalize example_cfg t2 3 = Some t3 \<and>
     price_window example_cfg t3 4 Coin.Bitcoin [400000000, 400000000] \<and> MedianPrice t3 Coin.Bitcoin = Some 400000000"
proof -
  let ?p = "spot_price example_cfg example_dex"
  have conf: "distinct COINS" "set COINS = UNIV" by (simp_all add: COINS_UNIV) (simp add: COINS_def)
  have "price_window example_cfg example_dex 1 c []" for c
    by (simp add: price_window_def oracle_repr_def window_repr_def example_dex_def)
  then obtain t1 where t1: "dex_on_finalize example_cfg example_dex 1 = Some t1" "same_ledgers example_dex t1"
    and w1': "\<And>c. Pools example_dex c \<Longrightarrow> price_window example_cfg t1 (Suc (Suc 0)) c [?p c]"
    using on_finalize_keeps_window [of example_cfg example_dex 1 "\<lambda>_. []"] conf
    by (auto simp: slide_def)
  note w1 = w1' [folded numeral_2_eq_2]
  have p1: "spot_price example_cfg t1 c = ?p c" "Pools t1 = Pools example_dex" for c
    using t1(2) by (auto simp: same_ledgers_def intro: spot_price_cong)
  obtain t2 where t2: "dex_on_finalize example_cfg t1 2 = Some t2" "same_ledgers t1 t2"
    and w2: "\<And>c. Pools example_dex c \<Longrightarrow> price_window example_cfg t2 3 c [?p c, ?p c]"
    using on_finalize_keeps_window [of example_cfg t1 2 "\<lambda>c. [?p c]"] conf w1
    by (auto simp: slide_def p1)
  have p2: "spot_price example_cfg t2 c = ?p c" "Pools t2 = Pools example_dex" for c
    using t2(2) p1 by (auto simp: same_ledgers_def intro: spot_price_cong [THEN trans])
  obtain t3 where "dex_on_finalize example_cfg t2 3 = Some t3"
    and "\<And>c. Pools example_dex c \<Longrightarrow> price_window example_cfg t3 4 c [?p c, ?p c] \<and>
        MedianPrice t3 c = Some (median_of [?p c, ?p c])"
    using on_finalize_keeps_window [of example_cfg t2 3 "\<lambda>c. [?p c, ?p c]"] conf w2
    by (auto simp: slide_def p2)
  then have "dex_on_finalize example_cfg t2 3 = Some t3"
    and "price_window example_cfg t3 4 Coin.Bitcoin [?p Coin.Bitcoin, ?p Coin.Bitcoin]"
    and "MedianPrice t3 Coin.Bitcoin = Some (median_of [?p Coin.Bitcoin, ?p Coin.Bitcoin])"
    by (simp_all add: example_dex_def)
  then show ?thesis
    using t1(1) t2(1) by (auto simp: example_spot_price median_of_def)
qed

end
