(* ===== verification/Dex_Shares.thy ===== *)
theory Dex_Shares
  imports Dex_Hooks
begin

text \<open>
  What a share of a pool is worth. Every operation of the runtime that reaches the Dex, the coins or
  the liquidity tokens is a step; the lemmas show that no sequence of steps lowers the product of a
  pool's reserves relative to the square of its shares. So no swap, deposit, withdrawal, donation or
  burn takes value from the holders of a pool's shares.
\<close>

section \<open>Steps\<close>

text \<open>
  One step, on a runtime state. Extrinsics are signed by an account that is not a pool's: a pool's
  account is a hash that nobody holds a key of.
\<close>

inductive dex_step :: "dex_config \<Rightarrow> 'a dex_rt_scheme \<Rightarrow> 'a dex_rt_scheme \<Rightarrow> bool" for cfg where
  ds_swap_exact: "swap_exact_tokens_for_tokens cfg s (Some who) path a m send_to = Inr t \<Longrightarrow>
    not_a_pool cfg who \<Longrightarrow> dex_step cfg s t"
| ds_swap_for_exact: "swap_tokens_for_exact_tokens cfg s (Some who) path a m send_to = Inr t \<Longrightarrow>
    not_a_pool cfg who \<Longrightarrow> dex_step cfg s t"
| ds_add_liquidity: "add_liquidity cfg s (Some who) coin cd sd cm sm mint_to = Inr t \<Longrightarrow>
    not_a_pool cfg who \<Longrightarrow> dex_step cfg s t"
| ds_remove_liquidity: "remove_liquidity cfg s (Some who) coin l cm sm withdraw_to = Inr t \<Longrightarrow>
    not_a_pool cfg who \<Longrightarrow> dex_step cfg s t"
| ds_create_pool: "create_pool cfg s coin = Inr t \<Longrightarrow> dex_step cfg s t"
| ds_on_finalize: "dex_on_finalize cfg s n = Some t \<Longrightarrow> dex_step cfg s t"
| ds_new_session: "dex_step cfg s (on_new_session s net)"
| ds_mint: "mint is_allowed (coins s) to b = Inr c \<Longrightarrow> dex_step cfg s (s\<lparr>coins := c\<rparr>)"
| ds_burn: "burn (coins s) (Some who) b = Inr c \<Longrightarrow> not_a_pool cfg who \<Longrightarrow> dex_step cfg s (s\<lparr>coins := c\<rparr>)"
| ds_burn_with_instruction: "burn_with_instruction False (coins s) (Some who) i = Inr c \<Longrightarrow>
    not_a_pool cfg who \<Longrightarrow> dex_step cfg s (s\<lparr>coins := c\<rparr>)"
| ds_transfer: "transfer (coins s) (Some who) to b = Inr c \<Longrightarrow> not_a_pool cfg who \<Longrightarrow>
    dex_step cfg s (s\<lparr>coins := c\<rparr>)"
| ds_on_initialize: "coins_on_initialize (coins s) = Inr c \<Longrightarrow> dex_step cfg s (s\<lparr>coins := c\<rparr>)"
| ds_withdraw_fee: "withdraw_fee (coins s) who fee = Inr (paid, c) \<Longrightarrow> not_a_pool cfg who \<Longrightarrow>
    dex_step cfg s (s\<lparr>coins := c\<rparr>)"
| ds_correct_fee: "correct_and_deposit_fee (coins s) who fee paid = Inr c \<Longrightarrow> dex_step cfg s (s\<lparr>coins := c\<rparr>)"
| ds_share_transfer: "transfer (LiquidityTokens s) (Some who) to b = Inr l \<Longrightarrow> not_a_pool cfg who \<Longrightarrow>
    dex_step cfg s (s\<lparr>LiquidityTokens := l\<rparr>)"
| ds_share_burn: "lp_burn s (Some who) b = Inr t \<Longrightarrow> not_a_pool cfg who \<Longrightarrow> dex_step cfg s t"

inductive dex_steps :: "dex_config \<Rightarrow> 'a dex_rt_scheme \<Rightarrow> 'a dex_rt_scheme \<Rightarrow> bool" for cfg where
  no_steps: "dex_steps cfg s s"
| one_more: "dex_steps cfg s t \<Longrightarrow> dex_step cfg t u \<Longrightarrow> dex_steps cfg s u"

definition dex_config_ok :: "dex_config \<Rightarrow> bool" where
  "dex_config_ok cfg = (unat (LPFee cfg) \<le> 1000 \<and> pools_distinct cfg \<and> not_a_pool cfg FEE_ACCOUNT)"

text \<open>A pool whose account holds shares, as it does since its first deposit.\<close>

definition shares_of :: "'a dex_rt_scheme \<Rightarrow> Coin \<Rightarrow> nat" where
  "shares_of s coin = issued (LiquidityTokens s) coin"

definition pool_live :: "dex_config \<Rightarrow> 'a dex_rt_scheme \<Rightarrow> Coin \<Rightarrow> bool" where
  "pool_live cfg s coin =
     (supply_sound (LiquidityTokens s) \<and> 0 < holds (LiquidityTokens s) (get_pool_account cfg coin) coin)"

text \<open>A share of the pool of \<open>coin\<close> is worth at least as much in \<open>t\<close> as in \<open>s\<close>.\<close>

definition share_value_le :: "dex_config \<Rightarrow> Coin \<Rightarrow> 'a dex_rt_scheme \<Rightarrow> 'a dex_rt_scheme \<Rightarrow> bool" where
  "share_value_le cfg coin s t =
     (pool_product cfg s coin * (shares_of t coin)\<^sup>2 \<le> pool_product cfg t coin * (shares_of s coin)\<^sup>2)"

lemma pool_live_shares: "pool_live cfg s coin \<Longrightarrow> 0 < shares_of s coin"
  using supply_sound_bound [of "LiquidityTokens s" "get_pool_account cfg coin" coin]
  by (simp add: pool_live_def shares_of_def)

lemma share_value_le_trans:
  assumes "share_value_le cfg coin s t" and "share_value_le cfg coin t u" and "0 < shares_of t coin"
  shows "share_value_le cfg coin s u"
proof -
  let ?k = "\<lambda>s. pool_product cfg s coin" and ?L = "\<lambda>s. (shares_of s coin)\<^sup>2"
  have "?k s * ?L t * ?L u \<le> ?k t * ?L s * ?L u" using assms(1) by (simp add: share_value_le_def)
  also have "\<dots> \<le> ?k u * ?L t * ?L s" using assms(2) by (simp add: share_value_le_def mult.commute mult.left_commute)
  finally have "?k s * ?L u * ?L t \<le> ?k u * ?L s * ?L t" by (simp only: mult_ac)
  then show ?thesis using assms(3) by (simp add: share_value_le_def)
qed

text \<open>Steps that keep the shares and do not lower the reserves.\<close>

lemma share_value_le_reserves:
  assumes "\<And>x. holds (coins s) (get_pool_account cfg coin) x \<le> holds (coins t) (get_pool_account cfg coin) x"
    and "shares_of t coin \<le> shares_of s coin"
  shows "share_value_le cfg coin s t"
  using assms by (auto simp: share_value_le_def pool_product_def power2_eq_square intro!: mult_le_mono)

lemma share_value_le_product:
  assumes "pool_product cfg s coin \<le> pool_product cfg t coin" and "LiquidityTokens t = LiquidityTokens s"
  shows "share_value_le cfg coin s t"
  using assms by (simp add: share_value_le_def shares_of_def)

lemma share_value_le_sides:
  assumes "\<And>x. x = Coin.Serai \<or> x = coin \<Longrightarrow>
      holds (coins s) (get_pool_account cfg coin) x * shares_of t coin
      \<le> holds (coins t) (get_pool_account cfg coin) x * shares_of s coin"
  shows "share_value_le cfg coin s t"
proof -
  let ?h = "\<lambda>s x. holds (coins s) (get_pool_account cfg coin) x" and ?L = "\<lambda>s. shares_of s coin"
  have "(?h s Coin.Serai * ?L t) * (?h s coin * ?L t) \<le> (?h t Coin.Serai * ?L s) * (?h t coin * ?L s)"
    by (rule mult_le_mono [OF assms assms]) simp_all
  then show ?thesis by (simp add: share_value_le_def pool_product_def power2_eq_square mult_ac)
qed

section \<open>Deposits and withdrawals\<close>

lemma do_swap_frame:
  assumes "do_swap cfg s sender amounts path send_to = Inr t"
  shows "LiquidityTokens t = LiquidityTokens s"
proof -
  have hop: "LiquidityTokens u' = LiquidityTokens u"
    if "do_swap_hop cfg amounts path send_to u x = Inr u'" for u u' :: "'a dex_rt_scheme" and x path
    using that
    by (auto simp: do_swap_hop_def dex_transfer_def Let_def res_simps split: prod.splits)
  have fold: "LiquidityTokens u' = LiquidityTokens u"
    if "try_fold (do_swap_hop cfg amounts path send_to) u xs = Inr u'" for u u' :: "'a dex_rt_scheme" and xs path
    using that by (rule try_fold_invariant [where P = "\<lambda>v. LiquidityTokens v = LiquidityTokens u"])
      (auto dest: hop)
  from assms show ?thesis
    by (auto simp: do_swap_def dex_transfer_def dex_deposit_event_def Let_def res_simps split: list.splits
        dest!: hop fold)
qed

lemma swap_frame:
  "swap_exact_tokens_for_tokens cfg s signer path a m send_to = Inr t \<Longrightarrow> LiquidityTokens t = LiquidityTokens s"
  "swap_tokens_for_exact_tokens cfg s signer path a m send_to = Inr t \<Longrightarrow> LiquidityTokens t = LiquidityTokens s"
  by (auto simp: swap_exact_tokens_for_tokens_def do_swap_exact_tokens_for_tokens_def
      swap_tokens_for_exact_tokens_def do_swap_tokens_for_exact_tokens_def res_simps split: prod.splits
      dest: do_swap_frame)

lemma add_liquidity_Inr:
  assumes "add_liquidity cfg s (Some who) coin cd sd cm sm mint_to = Inr t"
  obtains a1 a2 lp s1 s2 l1 l2 where
      "coin \<noteq> Coin.Serai"
    and "dex_transfer s who (get_pool_account cfg coin) \<lparr>bal_coin = Coin.Serai, bal_amount = a1\<rparr> = Inr s1"
    and "dex_transfer s1 who (get_pool_account cfg coin) \<lparr>bal_coin = coin, bal_amount = a2\<rparr> = Inr s2"
    and "coins t = coins s2"
    and "mint (\<lambda>_. True) l1 mint_to \<lparr>bal_coin = coin, bal_amount = lp\<rparr> = Inr l2"
    and "LiquidityTokens t = l2"
    and "if coin_supply (LiquidityTokens s) coin = 0
      then mint (\<lambda>_. True) (LiquidityTokens s) (get_pool_account cfg coin)
        \<lparr>bal_coin = coin, bal_amount = MintMinLiquidity cfg\<rparr> = Inr l1
      else l1 = LiquidityTokens s \<and>
        (\<exists>b1 b2. lp = min b1 b2 \<and>
          mul_div a1 (coin_supply (LiquidityTokens s) coin) (get_balance s (get_pool_account cfg coin) Coin.Serai) = Inr b1 \<and>
          mul_div a2 (coin_supply (LiquidityTokens s) coin) (get_balance s (get_pool_account cfg coin) coin) = Inr b2)"
proof -
  have LT: "LiquidityTokens v = LiquidityTokens u" if "dex_transfer u f g b = Inr v"
    for u v :: "'a dex_rt_scheme" and f g b
    using that by (auto simp: dex_transfer_def res_simps)
  let ?P = "get_pool_account cfg coin" and ?L = "coin_supply (LiquidityTokens s) coin"
  from assms obtain a1 a2 s1 s2 lp s3 s4 where c: "coin \<noteq> Coin.Serai"
    and s1: "dex_transfer s who ?P \<lparr>bal_coin = Coin.Serai, bal_amount = a1\<rparr> = Inr s1"
    and s2: "dex_transfer s1 who ?P \<lparr>bal_coin = coin, bal_amount = a2\<rparr> = Inr s2"
    and ite: "(if coin_supply (LiquidityTokens s2) coin = 0 then
            tri (calc_lp_amount_for_zero_supply cfg a1 a2) (\<lambda>lp.
            tri (lp_mint s2 ?P \<lparr>bal_coin = coin, bal_amount = MintMinLiquidity cfg\<rparr>) (\<lambda>s3. Inr (lp, s3)))
          else
            tri (mul_div a1 (coin_supply (LiquidityTokens s2) coin) (get_balance s ?P Coin.Serai)) (\<lambda>side1.
            tri (mul_div a2 (coin_supply (LiquidityTokens s2) coin) (get_balance s ?P coin)) (\<lambda>side2.
            Inr (min side1 side2, s2)))) = Inr (lp, s3)"
    and s4: "lp_mint s3 mint_to \<lparr>bal_coin = coin, bal_amount = lp\<rparr> = Inr s4"
    and t: "coins t = coins s4" "LiquidityTokens t = LiquidityTokens s4"
    unfolding add_liquidity_def Let_def tri_Inr ensure_Inr ok_or_Inr map_err_Inr split_paired_Ex prod.case
    by (auto simp: get_pool_id_Inr dex_deposit_event_def)
  have LT2: "LiquidityTokens s2 = LiquidityTokens s" using LT [OF s1] LT [OF s2] by simp
  have s4': "mint (\<lambda>_. True) (LiquidityTokens s3) mint_to \<lparr>bal_coin = coin, bal_amount = lp\<rparr> = Inr (LiquidityTokens t)"
    and cs: "coins t = coins s2"
    using s4 ite by (auto simp: lp_mint_def res_simps t split: if_splits)
  show ?thesis
    by (rule that [OF c s1 s2 cs s4' refl])
      (use ite LT2 in \<open>auto simp: lp_mint_def res_simps split: if_splits\<close>)
qed

lemma remove_liquidity_Inr:
  assumes "remove_liquidity cfg s (Some who) coin l cm sm withdraw_to = Inr t"
  obtains a1 a2 s1 s2 s3 where
      "coin \<noteq> Coin.Serai"
    and "mul_div l (get_balance s (get_pool_account cfg coin) Coin.Serai) (coin_supply (LiquidityTokens s) coin) = Inr a1"
    and "mul_div l (get_balance s (get_pool_account cfg coin) coin) (coin_supply (LiquidityTokens s) coin) = Inr a2"
    and "lp_burn s (Some who) \<lparr>bal_coin = coin, bal_amount = l\<rparr> = Inr s1"
    and "dex_transfer s1 (get_pool_account cfg coin) withdraw_to \<lparr>bal_coin = Coin.Serai, bal_amount = a1\<rparr> = Inr s2"
    and "dex_transfer s2 (get_pool_account cfg coin) withdraw_to \<lparr>bal_coin = coin, bal_amount = a2\<rparr> = Inr s3"
    and "coins t = coins s3" and "LiquidityTokens t = LiquidityTokens s1"
proof -
  have LT: "LiquidityTokens v = LiquidityTokens u" if "dex_transfer u f g b = Inr v"
    for u v :: "'a dex_rt_scheme" and f g b
    using that by (auto simp: dex_transfer_def res_simps)
  show ?thesis
    using assms
    by (auto simp: remove_liquidity_def dex_deposit_event_def Let_def res_simps get_pool_id_Inr LT intro: that)
qed

lemma mul_div_le: "mul_div a b c = Inr r \<Longrightarrow> unat r * unat c \<le> unat a * unat b"
  by (simp add: mul_div_Inr div_times_less_eq_dividend)

lemma deposit_side:
  fixes r a l L h :: nat
  assumes "l * r \<le> a * L" and "h = r + a"
  shows "r * (L + l) \<le> h * L"
  using assms by (simp add: algebra_simps)

lemma withdrawal_side:
  fixes r a l L h M :: nat
  assumes "a * L \<le> l * r" and "r \<le> h + a" and "L = M + l"
  shows "r * M \<le> h * L"
proof -
  have "r * L \<le> (h + a) * L" using assms(2) by simp
  also have "\<dots> \<le> h * L + l * r" using assms(1) by (simp add: algebra_simps)
  finally have "r * M + r * l \<le> h * L + l * r" using assms(3) by (simp add: algebra_simps)
  then show ?thesis by (simp add: algebra_simps)
qed

lemma add_liquidity_value:
  assumes add: "add_liquidity cfg s (Some who) coin cd sd cm sm mint_to = Inr t"
    and ok: "dex_config_ok cfg" "not_a_pool cfg who" and live: "0 < shares_of s c"
  shows "share_value_le cfg c s t"
  using add
proof (cases rule: add_liquidity_Inr)
  case (1 a1 a2 lp s1 s2 l1 l2)
  let ?P = "get_pool_account cfg"
  note ne = not_a_pool_ne [OF ok(2)]
  have held: "holds (coins t) (?P c) x = holds (coins s) (?P c) x
      + moved (?P coin) \<lparr>bal_coin = Coin.Serai, bal_amount = a1\<rparr> (?P c) x
      + moved (?P coin) \<lparr>bal_coin = coin, bal_amount = a2\<rparr> (?P c) x" for x
    using dl.held_move [OF 1(2), of "?P c" x] dl.held_move [OF 1(3), of "?P c" x] ne 1(4)
    by (simp add: moved_def)
  show ?thesis
  proof (cases "c = coin")
    case True
    have nz: "coin_supply (LiquidityTokens s) coin \<noteq> 0"
      using live True by (auto simp: shares_of_def issued_def)
    with 1(7) obtain b1 b2 where b: "lp = min b1 b2" "l1 = LiquidityTokens s"
      "mul_div a1 (coin_supply (LiquidityTokens s) coin) (get_balance s (?P coin) Coin.Serai) = Inr b1"
      "mul_div a2 (coin_supply (LiquidityTokens s) coin) (get_balance s (?P coin) coin) = Inr b2"
      by auto
    have "unat lp \<le> unat b1" "unat lp \<le> unat b2" by (simp_all add: b(1) min_def word_le_nat_alt)
    then have "unat lp * holds (coins s) (?P c) Coin.Serai \<le> unat a1 * shares_of s c"
      "unat lp * holds (coins s) (?P c) c \<le> unat a2 * shares_of s c"
      using mul_div_le [OF b(3)] mul_div_le [OF b(4)] True
      by (auto simp: unat_get_balance shares_of_def issued_def intro: order_trans [OF mult_le_mono1])
    moreover have "shares_of t c = shares_of s c + unat lp"
      using mint_ok(3) [OF 1(5), of c] 1(6) b(2) True by (simp add: shares_of_def)
    moreover have "holds (coins t) (?P c) Coin.Serai = holds (coins s) (?P c) Coin.Serai + unat a1"
      "holds (coins t) (?P c) c = holds (coins s) (?P c) c + unat a2"
      using held True 1(1) by (simp_all add: moved_def)
    ultimately show ?thesis by (auto intro!: share_value_le_sides intro: deposit_side)
  next
    case False
    have "shares_of t c = shares_of s c"
      using mint_ok(3) [OF 1(5), of c] 1(6,7) False
      by (auto simp: shares_of_def dest: mint_ok(3) [of _ _ _ _ _ c] split: if_splits)
    then show ?thesis using held False ok(1)
      by (intro share_value_le_reserves) (simp_all add: moved_def dex_config_ok_def)
  qed
qed

lemma remove_liquidity_value:
  assumes remove: "remove_liquidity cfg s (Some who) coin l cm sm withdraw_to = Inr t"
    and ok: "dex_config_ok cfg" "not_a_pool cfg who"
  shows "share_value_le cfg c s t"
  using remove
proof (cases rule: remove_liquidity_Inr)
  case (1 a1 a2 s1 s2 s3)
  let ?P = "get_pool_account cfg"
  from 1(4) obtain l' where burn: "burn_internal (LiquidityTokens s) who \<lparr>bal_coin = coin, bal_amount = l\<rparr> = Inr l'"
    and s1: "coins s1 = coins s" "issued (LiquidityTokens s1) = issued l'"
    by (auto simp: lp_burn_def burn_def res_simps)
  have held: "holds (coins s) (?P c) x \<le> holds (coins t) (?P c) x
      + moved (?P coin) \<lparr>bal_coin = Coin.Serai, bal_amount = a1\<rparr> (?P c) x
      + moved (?P coin) \<lparr>bal_coin = coin, bal_amount = a2\<rparr> (?P c) x" for x
    using dl.held_move [OF 1(5), of "?P c" x] dl.held_move [OF 1(6), of "?P c" x] 1(7) s1 by simp
  have shares: "shares_of s c = shares_of t c + (if c = coin then unat l else 0)"
    using burn_internal_ok(2) [OF burn, of c] by (simp add: shares_of_def 1(8) s1)
  show ?thesis
  proof (cases "c = coin")
    case True
    have "unat a1 * shares_of s c \<le> unat l * holds (coins s) (?P c) Coin.Serai"
      "unat a2 * shares_of s c \<le> unat l * holds (coins s) (?P c) c"
      using mul_div_le [OF 1(2)] mul_div_le [OF 1(3)] True
      by (simp_all add: unat_get_balance shares_of_def issued_def)
    moreover have "holds (coins s) (?P c) Coin.Serai \<le> holds (coins t) (?P c) Coin.Serai + unat a1"
      "holds (coins s) (?P c) c \<le> holds (coins t) (?P c) c + unat a2"
      using held [of Coin.Serai] held [of c] True 1(1) by (simp_all add: moved_def)
    moreover have "shares_of s c = shares_of t c + unat l" using shares True by simp
    ultimately show ?thesis by (auto intro!: share_value_le_sides intro: withdrawal_side)
  next
    case False
    then show ?thesis using held shares ok(1)
      by (intro share_value_le_reserves) (simp_all add: moved_def dex_config_ok_def)
  qed
qed

section \<open>Every step\<close>

text \<open>An operation of the coins pallet by an account that is not a pool takes nothing from a pool.\<close>

lemma coins_op_held:
  assumes "not_a_pool cfg who"
  shows "transfer_internal s who to b = Inr t \<Longrightarrow> holds s (get_pool_account cfg c) x \<le> holds t (get_pool_account cfg c) x"
    and "burn_internal s who b = Inr t \<Longrightarrow> holds s (get_pool_account cfg c) x = holds t (get_pool_account cfg c) x"
    and "mint is_allowed s to b = Inr t \<Longrightarrow> holds s (get_pool_account cfg c) x \<le> holds t (get_pool_account cfg c) x"
  using transfer_internal_ok(1) [of s who to b t "get_pool_account cfg c" x]
    burn_internal_ok(1) [of s who b t "get_pool_account cfg c" x] mint_ok(2) [of is_allowed s to b t]
    not_a_pool_ne [OF assms]
  by (auto simp: moved_def)

lemma same_ledgers_value: "same_ledgers s t \<Longrightarrow> share_value_le cfg c s t"
  "same_ledgers s t \<Longrightarrow> pool_live cfg s c \<Longrightarrow> pool_live cfg t c"
  by (simp_all add: same_ledgers_def share_value_le_def shares_of_def pool_product_def pool_live_def)

lemma create_pool_frame: "create_pool cfg s coin = Inr t \<Longrightarrow> coins t = coins s \<and> LiquidityTokens t = LiquidityTokens s"
  by (auto simp: create_pool_def dex_deposit_event_def Let_def res_simps)

lemma coins_step_value:
  assumes "\<And>x. holds (coins s) (get_pool_account cfg c) x \<le> holds d (get_pool_account cfg c) x"
  shows "share_value_le cfg c s (s\<lparr>coins := d\<rparr>)"
  using assms by (intro share_value_le_reserves) (simp_all add: shares_of_def)

lemma dex_step_value:
  assumes "dex_step cfg s t" and ok: "dex_config_ok cfg" and live: "0 < shares_of s c"
  shows "share_value_le cfg c s t"
proof -
  have fee: "not_a_pool cfg FEE_ACCOUNT" "unat (LPFee cfg) \<le> 1000" "pools_distinct cfg"
    using ok by (simp_all add: dex_config_ok_def)
  from assms(1) show ?thesis
  proof cases
    case (ds_swap_exact who path a m send_to)
    then show ?thesis
      using swap_exact_keeps_product [OF ds_swap_exact(1) fee(2,3)] swap_frame(1) [OF ds_swap_exact(1)]
      by (simp add: share_value_le_product)
  next
    case (ds_swap_for_exact who path a m send_to)
    then show ?thesis
      using swap_for_exact_keeps_product [OF ds_swap_for_exact(1) fee(2,3)] swap_frame(2) [OF ds_swap_for_exact(1)]
      by (simp add: share_value_le_product)
  next
    case (ds_create_pool coin)
    then show ?thesis using create_pool_frame by (intro share_value_le_reserves) (fastforce simp: shares_of_def)+
  next
    case (ds_share_transfer who to b l)
    then show ?thesis
      using transfer_internal_ok(2) [of "LiquidityTokens s" who to b l c]
      by (auto simp: transfer_def shares_of_def intro!: share_value_le_reserves)
  next
    case (ds_share_burn who b)
    then show ?thesis
      using burn_internal_ok(2) [of "LiquidityTokens s" who b _ c]
      by (auto simp: lp_burn_def burn_def shares_of_def res_simps intro!: share_value_le_reserves)
  qed (use ok live fee in \<open>auto intro: add_liquidity_value remove_liquidity_value same_ledgers_value
      dex_on_finalize_frame on_new_session_frame intro!: coins_step_value
      simp: burn_def burn_with_instruction_def transfer_def coins_on_initialize_def withdraw_fee_def
        correct_and_deposit_fee_def res_simps coins_op_held split: if_splits option.splits sum.splits\<close>)
qed

lemma share_transfer_live:
  assumes "not_a_pool cfg who" and "pool_live cfg s c" and "transfer_internal (LiquidityTokens s) who to b = Inr l"
  shows "pool_live cfg (t\<lparr>LiquidityTokens := l\<rparr>) c"
  using assms coins_op_held(1) [OF assms(1,3), of c c]
  by (auto simp: pool_live_def intro: supply_sound_ops)

lemma lp_burn_live:
  assumes "not_a_pool cfg who" and "pool_live cfg s c" and "lp_burn s (Some who) b = Inr t"
  shows "pool_live cfg t c"
proof -
  from assms(3) obtain l where l: "burn_internal (LiquidityTokens s) who b = Inr l"
    and t: "LiquidityTokens t = coins_deposit_event l (Burn who b)"
    by (auto simp: lp_burn_def burn_def res_simps)
  show ?thesis
    using assms(2) coins_op_held(2) [OF assms(1) l, of c c] supply_sound_burn_internal [OF _ l]
    by (simp add: pool_live_def t)
qed

lemma mint_kept:
  assumes "mint is_allowed l to b = Inr l'" and "supply_sound l \<and> 0 < holds l who c"
  shows "supply_sound l' \<and> 0 < holds l' who c"
  using assms mint_ok(2) [OF assms(1), of who c] by (auto intro: supply_sound_mint)

lemma pool_live_cong: "LiquidityTokens t = LiquidityTokens s \<Longrightarrow> pool_live cfg t c = pool_live cfg s c"
  by (simp add: pool_live_def)

lemma pool_live_coins [simp]: "pool_live cfg (s\<lparr>coins := d\<rparr>) c = pool_live cfg s c"
  by (simp add: pool_live_def)

lemma dex_step_live:
  assumes "dex_step cfg s t" and live: "pool_live cfg s c"
  shows "pool_live cfg t c"
  using assms(1)
proof cases
  case (ds_add_liquidity who coin cd sd cm sm mint_to)
  from this(1) show ?thesis
  proof (cases rule: add_liquidity_Inr)
    case (1 a1 a2 lp s1 s2 l1 l2)
    have "supply_sound l1 \<and> 0 < holds l1 (get_pool_account cfg c) c"
      using 1(7) live by (auto simp: pool_live_def split: if_splits dest: mint_kept)
    from mint_kept [OF 1(5) this] show ?thesis by (simp add: pool_live_def 1(6))
  qed
next
  case (ds_remove_liquidity who coin l cm sm withdraw_to)
  from this(1) show ?thesis
  proof (cases rule: remove_liquidity_Inr)
    case (1 a1 a2 s1 s2 s3)
    from lp_burn_live [OF ds_remove_liquidity(2) live 1(4)] show ?thesis by (simp add: pool_live_cong [OF 1(8)])
  qed
next
  case (ds_swap_exact who path a m send_to)
  from pool_live_cong [OF swap_frame(1) [OF this(1)]] live show ?thesis by simp
next
  case (ds_swap_for_exact who path a m send_to)
  from pool_live_cong [OF swap_frame(2) [OF this(1)]] live show ?thesis by simp
next
  case (ds_create_pool coin)
  from create_pool_frame [OF this] live show ?thesis by (simp add: pool_live_def)
qed (use live in \<open>auto simp: transfer_def intro: share_transfer_live lp_burn_live same_ledgers_value(2)
    dex_on_finalize_frame on_new_session_frame\<close>)

lemma dex_steps_value:
  assumes "dex_steps cfg s t" and "dex_config_ok cfg" and "pool_live cfg s c"
  shows "pool_live cfg t c \<and> share_value_le cfg c s t"
  using assms
proof (induction rule: dex_steps.induct)
  case (no_steps s)
  then show ?case by (simp add: share_value_le_def)
next
  case (one_more s t u)
  then have "pool_live cfg t c" "share_value_le cfg c s t" by simp_all
  moreover have "pool_live cfg u c" "share_value_le cfg c t u"
    using one_more calculation dex_step_live dex_step_value pool_live_shares by blast+
  ultimately show ?case using share_value_le_trans pool_live_shares by blast
qed

section \<open>Properties\<close>

text \<open>
  C2: no sequence of operations takes value from the holders of a pool's shares. Along any sequence
  of swaps in both directions, deposits, withdrawals, mints, burns, transfers, fee payments and
  block hooks, the product of a pool's two reserves never falls relative to the square of the
  number of its shares, and the pool keeps shares that nobody can burn. The fee is at most
  1000 thousandths, the accounts of the pools and of the fees are distinct, and the pool has
  received its first deposit.
\<close>

theorem share_value_never_falls:
  assumes "dex_steps cfg s t" and "dex_config_ok cfg" and "pool_live cfg s coin"
  shows "pool_product cfg s coin * (shares_of t coin)\<^sup>2 \<le> pool_product cfg t coin * (shares_of s coin)\<^sup>2 \<and>
    0 < shares_of t coin"
  using dex_steps_value [OF assms] pool_live_shares by (auto simp: share_value_le_def)

theorem share_value_never_falls_witness:
  "\<exists>t. swap_exact_tokens_for_tokens example_cfg example_dex (Some 100) [Coin.Bitcoin, Coin.Serai] 1000 1 100 = Inr t \<and>
     dex_steps example_cfg example_dex t \<and>
     (400000 * 100000) * (shares_of t Coin.Bitcoin)\<^sup>2 \<le> pool_product example_cfg t Coin.Bitcoin * 200000\<^sup>2"
proof -
  obtain t where t: "swap_exact_tokens_for_tokens example_cfg example_dex (Some 100) [Coin.Bitcoin, Coin.Serai] 1000 1 100 = Inr t"
    using example_swaps_succeed(1) by (auto simp: is_ok_iff)
  have "not_a_pool example_cfg 100" "dex_config_ok example_cfg"
    by (simp_all add: dex_config_ok_def example_not_a_pool FEE_ACCOUNT_ne)
  moreover from t have "dex_steps example_cfg example_dex t"
    using \<open>not_a_pool example_cfg 100\<close> by (intro one_more [OF no_steps] ds_swap_exact)
  moreover have "pool_live example_cfg example_dex Coin.Bitcoin"
    by (simp add: pool_live_def example_reserves)
  ultimately show ?thesis
    using share_value_never_falls [of example_cfg example_dex t Coin.Bitcoin] t
    by (simp add: pool_product_def [of _ example_dex] shares_of_def [of example_dex] example_reserves)
qed

end
