(* ===== verification/Dex_Quotes.thy ===== *)
theory Dex_Quotes
  imports Dex_Shares
begin

text \<open>
  What a trader is promised: quotes are consistent with each other, only sensible paths are
  accepted, and a swap moves exactly the quoted amounts within the trader's limit.
\<close>

section \<open>Lemmas on quotes\<close>

lemma quote_covers:
  fixes a b ri ro g :: nat
  assumes "b < ro" and "0 < ri" and "ri * b * 1000 \<le> a * g * (ro - b)"
  shows "b \<le> a * g * ro div (ri * 1000 + a * g)"
proof -
  have "b * (ri * 1000 + a * g) \<le> a * g * (ro - b) + a * g * b"
    using assms(3) by (simp add: algebra_simps)
  also have "\<dots> = a * g * ro" using assms(1) by (simp flip: add_mult_distrib2)
  finally show ?thesis using assms(2) by (simp add: less_eq_div_iff_mult_less_eq)
qed

lemma quote_round_trip:
  assumes fee: "unat (LPFee cfg) \<le> 1000" and a: "get_amount_in cfg b ri ro = Inr a"
  shows "if unat a * kept cfg * unat ro < 2 ^ 128
    then \<exists>b'. get_amount_out cfg a ri ro = Inr b' \<and> b \<le> b'
    else get_amount_out cfg a ri ro = Inl Overflow"
proof -
  note nat = get_amount_in_nat [OF fee a]
  have nz: "ri \<noteq> 0" "ro \<noteq> 0" using nat(1,2) by auto
  note total = get_amount_out_total [OF fee nz, of a]
  have "b \<le> b'" if "get_amount_out cfg a ri ro = Inr b'" for b'
    using quote_covers [OF nat(2) _ product_in [OF nat(2) _ nat(4)]] nat(1,3)
      get_amount_out_nat(3) [OF fee that] by (simp add: word_le_nat_alt)
  with total show ?thesis by (auto simp: is_ok_iff split: if_splits)
qed

section \<open>Lemmas on the movements of a swap\<close>

lemma do_swap_moves:
  assumes swap: "do_swap cfg s sender amounts path send_to = Inr t"
    and valid: "validate_swap_path cfg path = Inr u" and q: "path_quoted q cfg s path amounts"
    and who: "not_a_pool cfg who"
  shows "holds (coins t) who c + moved sender \<lparr>bal_coin = hd path, bal_amount = hd amounts\<rparr> who c =
      holds (coins s) who c + moved send_to \<lparr>bal_coin = last path, bal_amount = last amounts\<rparr> who c"
    and "issued (coins t) = issued (coins s)"
    and "supply_sound (coins s) \<Longrightarrow> supply_sound (coins t)"
    and "amounts \<noteq> []"
proof -
  note ne = not_a_pool_ne [OF who]
  from valid have "(holds (coins t) who c + moved sender \<lparr>bal_coin = hd path, bal_amount = hd amounts\<rparr> who c =
      holds (coins s) who c + moved send_to \<lparr>bal_coin = last path, bal_amount = last amounts\<rparr> who c) \<and>
    issued (coins t) = issued (coins s) \<and> (supply_sound (coins s) \<longrightarrow> supply_sound (coins t)) \<and> amounts \<noteq> []"
  proof (cases rule: validate_swap_path_Inr)
    case (one c1 c2 p)
    obtain a b where am: "amounts = [a, b]" by (rule path_quoted_one [OF q [unfolded one(1)] one(2)])
    obtain s1 s2 where m: "dex_transfer s sender (get_pool_account cfg p) \<lparr>bal_coin = c1, bal_amount = a\<rparr> = Inr s1"
      "dex_transfer s1 (get_pool_account cfg p) send_to \<lparr>bal_coin = c2, bal_amount = b\<rparr> = Inr s2" and t: "coins t = coins s2"
      by (rule do_swap_one [OF swap [unfolded am one(1)] one(2)])
    show ?thesis
      using dl.held_move [OF m(1), of who c] dl.held_move [OF m(2), of who c] ne
        dl.total_move [OF m(1)] dl.total_move [OF m(2)] dl.inv_move [OF _ m(1)] dl.inv_move [OF _ m(2)]
      by (simp add: t am one(1) moved_def)
  next
    case (two x y)
    obtain a m b where am: "amounts = [a, m, b]" by (rule path_quoted_two [OF q [unfolded two(1)] two(2,3)])
    obtain s1 s2 s3 where m: "dex_transfer s sender (get_pool_account cfg x) \<lparr>bal_coin = x, bal_amount = a\<rparr> = Inr s1"
      "dex_transfer s1 (get_pool_account cfg x) (get_pool_account cfg y) \<lparr>bal_coin = Coin.Serai, bal_amount = m\<rparr> = Inr s2"
      "dex_transfer s2 (get_pool_account cfg y) send_to \<lparr>bal_coin = y, bal_amount = b\<rparr> = Inr s3" and t: "coins t = coins s3"
      by (rule do_swap_two [OF swap [unfolded am two(1)] two(2,3)])
    show ?thesis
      using dl.held_move [OF m(1), of who c] dl.held_move [OF m(2), of who c] dl.held_move [OF m(3), of who c] ne
        dl.total_move [OF m(1)] dl.total_move [OF m(2)] dl.total_move [OF m(3)]
        dl.inv_move [OF _ m(1)] dl.inv_move [OF _ m(2)] dl.inv_move [OF _ m(3)]
      by (simp add: t am two(1) moved_def)
  qed
  then show "holds (coins t) who c + moved sender \<lparr>bal_coin = hd path, bal_amount = hd amounts\<rparr> who c =
      holds (coins s) who c + moved send_to \<lparr>bal_coin = last path, bal_amount = last amounts\<rparr> who c"
    and "issued (coins t) = issued (coins s)" and "supply_sound (coins s) \<Longrightarrow> supply_sound (coins t)"
    and "amounts \<noteq> []"
    by auto
qed

section \<open>Properties\<close>

text \<open>
  C29: paying the quoted price is always enough. When \<open>get_amount_in\<close> quotes the input \<open>a\<close> for an
  output \<open>b\<close>, selling \<open>a\<close> at the same reserves buys at least \<open>b\<close>; the only other outcome is the
  overflow error, exactly when the product of the input, the kept share and the reserve does not
  fit in 128 bits.
\<close>

theorem quoted_input_buys_output:
  assumes "unat (LPFee cfg) \<le> 1000" and "get_amount_in cfg b ri ro = Inr a"
  shows "if unat a * (1000 - unat (LPFee cfg)) * unat ro < 2 ^ 128
    then \<exists>b'. get_amount_out cfg a ri ro = Inr b' \<and> b \<le> b'
    else get_amount_out cfg a ri ro = Inl Overflow"
  using quote_round_trip [OF assms] by (simp add: kept_def)

theorem quoted_input_buys_output_witness:
  "get_amount_in example_cfg 3948 100000 400000 = Inr 1000 \<and> (\<exists>b'. get_amount_out example_cfg 1000 100000 400000 = Inr b' \<and> 3948 \<le> b')"
proof -
  have a: "get_amount_in example_cfg 3948 100000 400000 = Inr 1000"
    by (simp add: get_amount_in_def checked_mul_def checked_sub_def checked_div_def checked_add_def try_u64_def)
  then show ?thesis using quoted_input_buys_output [OF _ a] by simp
qed

text \<open>
  The accepted paths are exactly the direct swap between SRI and another coin, in either
  direction, and the swap of one coin for another through SRI. Every other path is rejected:
  shorter ones, longer ones, those with repeated coins and those that skip SRI.
\<close>

theorem valid_paths:
  assumes "2 \<le> MaxSwapPathLength cfg"
  shows "is_ok (validate_swap_path cfg path) \<longleftrightarrow>
    (\<exists>coin. coin \<noteq> Coin.Serai \<and> (path = [coin, Coin.Serai] \<or> path = [Coin.Serai, coin])) \<or>
    (\<exists>coin1 coin2. coin1 \<noteq> Coin.Serai \<and> coin2 \<noteq> Coin.Serai \<and> coin1 \<noteq> coin2 \<and> path = [coin1, Coin.Serai, coin2])"
proof
  assume "is_ok (validate_swap_path cfg path)"
  then obtain u where "validate_swap_path cfg path = Inr u" by (auto simp: is_ok_iff)
  then show "(\<exists>coin. coin \<noteq> Coin.Serai \<and> (path = [coin, Coin.Serai] \<or> path = [Coin.Serai, coin])) \<or>
    (\<exists>coin1 coin2. coin1 \<noteq> Coin.Serai \<and> coin2 \<noteq> Coin.Serai \<and> coin1 \<noteq> coin2 \<and> path = [coin1, Coin.Serai, coin2])"
    by (cases rule: validate_swap_path_Inr) (auto simp: get_pool_id_Inr)
next
  assume "(\<exists>coin. coin \<noteq> Coin.Serai \<and> (path = [coin, Coin.Serai] \<or> path = [Coin.Serai, coin])) \<or>
    (\<exists>coin1 coin2. coin1 \<noteq> Coin.Serai \<and> coin2 \<noteq> Coin.Serai \<and> coin1 \<noteq> coin2 \<and> path = [coin1, Coin.Serai, coin2])"
  then show "is_ok (validate_swap_path cfg path)"
    using assms by (auto simp: validate_swap_path_def get_pool_id_def)
qed

theorem valid_paths_witness:
  "is_ok (validate_swap_path example_cfg [Coin.Bitcoin, Coin.Serai, Coin.Dai]) \<and>
   \<not> is_ok (validate_swap_path example_cfg [Coin.Bitcoin, Coin.Dai])"
  using valid_paths [of example_cfg "[Coin.Bitcoin, Coin.Serai, Coin.Dai]"]
    valid_paths [of example_cfg "[Coin.Bitcoin, Coin.Dai]"] by simp

text \<open>
  C27: a swap of an exact input moves exactly the amounts quoted. A swap that succeeds was quoted by
  \<open>get_amounts_out\<close>; the sender pays \<open>amount_in\<close> of the first coin of the path, the recipient
  receives the last amount of that quote in the last coin, which is at least the limit the sender
  set; every account that is not a pool otherwise keeps all its balances, and no supply changes.
\<close>

theorem swap_exact_moves:
  assumes "swap_exact_tokens_for_tokens cfg s (Some sender) path amount_in amount_out_min send_to = Inr t"
    and "unat (LPFee cfg) \<le> 1000"
  shows "\<exists>amounts. get_amounts_out cfg s amount_in path = Inr amounts \<and> amount_out_min \<le> last amounts \<and> (\<forall>who coin. not_a_pool cfg who \<longrightarrow>
      issued (coins t) coin = issued (coins s) coin \<and>
      holds (coins t) who coin + moved sender \<lparr>bal_coin = hd path, bal_amount = amount_in\<rparr> who coin =
      holds (coins s) who coin + moved send_to \<lparr>bal_coin = last path, bal_amount = last amounts\<rparr> who coin)"
proof -
  from assms(1) obtain amounts u where v: "validate_swap_path cfg path = Inr u"
    and am: "get_amounts_out cfg s amount_in path = Inr amounts" and "amount_out_min \<le> last amounts"
    and swap: "do_swap cfg s sender amounts path send_to = Inr t"
    by (auto simp: swap_exact_tokens_for_tokens_def do_swap_exact_tokens_for_tokens_def res_simps split: prod.splits if_splits)
  with do_swap_moves(1,2) [OF swap v get_amounts_out_quoted(1) [OF am v assms(2)]]
    get_amounts_out_quoted(2) [OF am v assms(2)]
  show ?thesis by (intro exI [of _ amounts]) auto
qed

theorem swap_exact_moves_witness:
  "\<exists>t. swap_exact_tokens_for_tokens example_cfg example_dex (Some 100) [Coin.Bitcoin, Coin.Serai] 1000 1 100 = Inr t \<and>
     get_amounts_out example_cfg example_dex 1000 [Coin.Bitcoin, Coin.Serai] = Inr [1000, 3948] \<and>
     holds (coins t) 100 Coin.Bitcoin = 999000 \<and> holds (coins t) 100 Coin.Serai = 1003948"
proof -
  obtain t where t: "swap_exact_tokens_for_tokens example_cfg example_dex (Some 100) [Coin.Bitcoin, Coin.Serai] 1000 1 100 = Inr t"
    using example_swaps_succeed(1) by (auto simp: is_ok_iff)
  have q: "get_amounts_out example_cfg example_dex 1000 [Coin.Bitcoin, Coin.Serai] = Inr [1000, 3948]"
    by (simp add: dex_eval)
  have "holds example_coins 100 Coin.Bitcoin = 1000000" "holds example_coins 100 Coin.Serai = 1000000"
    by (simp_all add: holds_def dex_eval)
  moreover have m: "holds (coins t) who coin + moved 100 \<lparr>bal_coin = Coin.Bitcoin, bal_amount = 1000\<rparr> who coin =
      holds example_coins who coin + moved 100 \<lparr>bal_coin = Coin.Serai, bal_amount = 3948\<rparr> who coin" if "not_a_pool example_cfg who" for who coin
    using swap_exact_moves [OF t] q that by (auto simp: word_le_nat_alt)
  ultimately show ?thesis
    using t q m [of 100 Coin.Bitcoin] m [of 100 Coin.Serai] by (auto simp: example_not_a_pool moved_def)
qed

text \<open>
  C28: a swap for an exact output delivers exactly that output. The recipient receives \<open>amount_out\<close>
  of the last coin of the path, the sender pays an input of the first coin that is at most the
  limit the sender set; every account that is not a pool otherwise keeps all its balances, and no
  supply changes.
\<close>

theorem swap_for_exact_moves:
  assumes "swap_tokens_for_exact_tokens cfg s (Some sender) path amount_out amount_in_max send_to = Inr t"
    and "unat (LPFee cfg) \<le> 1000"
  shows "\<exists>amount_in. amount_in \<le> amount_in_max \<and> (\<forall>who coin. not_a_pool cfg who \<longrightarrow>
      issued (coins t) coin = issued (coins s) coin \<and>
      holds (coins t) who coin + moved sender \<lparr>bal_coin = hd path, bal_amount = amount_in\<rparr> who coin =
      holds (coins s) who coin + moved send_to \<lparr>bal_coin = last path, bal_amount = amount_out\<rparr> who coin)"
proof -
  from assms(1) obtain amounts u where v: "validate_swap_path cfg path = Inr u"
    and am: "get_amounts_in cfg s amount_out path = Inr amounts" and "hd amounts \<le> amount_in_max"
    and swap: "do_swap cfg s sender amounts path send_to = Inr t"
    by (auto simp: swap_tokens_for_exact_tokens_def do_swap_tokens_for_exact_tokens_def res_simps split: prod.splits if_splits)
  with do_swap_moves(1,2) [OF swap v get_amounts_in_quoted(1) [OF am v assms(2)]]
    get_amounts_in_quoted(2) [OF am v assms(2)]
  show ?thesis by (intro exI [of _ "hd amounts"]) auto
qed

theorem swap_for_exact_moves_witness:
  "\<exists>t. swap_tokens_for_exact_tokens example_cfg example_dex (Some 100) [Coin.Bitcoin, Coin.Serai, Coin.Dai] 500 1000 101 = Inr t \<and>
     holds (coins t) 101 Coin.Dai = 500 \<and> 999000 \<le> holds (coins t) 100 Coin.Bitcoin"
proof -
  obtain t where t: "swap_tokens_for_exact_tokens example_cfg example_dex (Some 100) [Coin.Bitcoin, Coin.Serai, Coin.Dai] 500 1000 101 = Inr t"
    using example_swaps_succeed(2) by (auto simp: is_ok_iff)
  have "holds example_coins 100 Coin.Bitcoin = 1000000" "holds example_coins 101 Coin.Dai = 0"
    by (simp_all add: holds_def dex_eval)
  moreover obtain a :: u64 where "unat a \<le> 1000" and
    m: "\<And>who coin. not_a_pool example_cfg who \<Longrightarrow>
      holds (coins t) who coin + moved 100 \<lparr>bal_coin = Coin.Bitcoin, bal_amount = a\<rparr> who coin =
      holds example_coins who coin + moved 101 \<lparr>bal_coin = Coin.Dai, bal_amount = 500\<rparr> who coin"
    using swap_for_exact_moves [OF t] by (auto simp: word_le_nat_alt)
  ultimately show ?thesis
    using t m [of 100 Coin.Bitcoin] m [of 101 Coin.Dai] by (auto simp: example_not_a_pool moved_def)
qed

end
