(* ===== verification/Scale.thy ===== *)
theory Scale
  imports Coins
begin

text \<open>
  The SCALE encodings the pallets sign over and use as storage keys. The encodings of the standard
  types are those of the SCALE specification: fixed-width integers little-endian, sequences with a
  compact length. A reader for each of them shows that the encodings can be told apart.
\<close>

section \<open>Encodings\<close>

definition to_le_bytes :: "'a::len word \<Rightarrow> u8 list" where
  "to_le_bytes w = rev (to_be_bytes w)"

definition from_le_bytes :: "u8 list \<Rightarrow> 'a::len word" where
  "from_le_bytes bs = from_be_bytes (rev bs)"

text \<open>
  The length prefix of a sequence, a \<open>Compact<u32>\<close>: from \<open>2 ^ 30\<close> on the big-integer mode has four
  bytes, as a length is below \<open>2 ^ 32\<close>. That mode does not occur in what is signed, which fits in a block.
\<close>

definition compact :: "nat \<Rightarrow> u8 list" where
  "compact n =
     (if n < 2 ^ 6 then [of_nat (4 * n)]
      else if n < 2 ^ 14 then to_le_bytes (of_nat (4 * n + 1) :: u16)
      else if n < 2 ^ 30 then to_le_bytes (of_nat (4 * n + 2) :: u32)
      else 3 # to_le_bytes (of_nat n :: u32))"

definition encode_vec :: "('a \<Rightarrow> u8 list) \<Rightarrow> 'a list \<Rightarrow> u8 list" where
  "encode_vec enc xs = compact (length xs) @ concat (map enc xs)"

definition encode_Public :: "Public \<Rightarrow> u8 list" where
  "encode_Public p = to_be_bytes p"

definition encode_bytes :: "u8 list \<Rightarrow> u8 list" where
  "encode_bytes bs = encode_vec (\<lambda>b. [b]) bs"

definition encode_option :: "('a \<Rightarrow> u8 list) \<Rightarrow> 'a option \<Rightarrow> u8 list" where
  "encode_option enc x = (case x of None \<Rightarrow> [0] | Some v \<Rightarrow> 1 # enc v)"

definition encode_Balance :: "Balance \<Rightarrow> u8 list" where
  "encode_Balance b = encode_Coin (bal_coin b) @ to_le_bytes (bal_amount b)"

section \<open>Telling encodings apart\<close>

text \<open>
  An encoding is prefix-free when an encoded value followed by anything determines the value and
  what follows. Prefix-free encodings compose, and a prefix-free encoding is injective.
\<close>

definition prefix_free :: "('a \<Rightarrow> u8 list) \<Rightarrow> bool" where
  "prefix_free enc = (\<forall>x y r t. enc x @ r = enc y @ t \<longrightarrow> x = y \<and> r = t)"

lemma prefix_freeD: "prefix_free enc \<Longrightarrow> enc x @ r = enc y @ t \<longleftrightarrow> x = y \<and> r = t"
  by (auto simp: prefix_free_def)

lemma prefix_freeI: "(\<And>x y r t. enc x @ r = enc y @ t \<Longrightarrow> x = y \<and> r = t) \<Longrightarrow> prefix_free enc"
  unfolding prefix_free_def by blast

lemma prefix_free_inject: "prefix_free enc \<Longrightarrow> enc x = enc y \<longleftrightarrow> x = y"
  using prefix_freeD [of enc x "[]" y "[]"] by auto

lemma prefix_free_fixed:
  assumes "\<And>x. length (enc x) = n" and "\<And>x y. enc x = enc y \<Longrightarrow> x = y"
  shows "prefix_free enc"
proof (rule prefix_freeI)
  fix x y r t assume "enc x @ r = enc y @ t"
  then have "enc x = enc y \<and> r = t" using assms(1) by (simp add: append_eq_append_conv)
  with assms(2) show "x = y \<and> r = t" by blast
qed

lemma length_to_be_bytes [simp]: "length (to_be_bytes (w :: 'a::len word)) = LENGTH('a) div 8"
  by (simp add: to_be_bytes_def)

lemma length_to_le_bytes [simp]: "length (to_le_bytes (w :: 'a::len word)) = LENGTH('a) div 8"
  by (simp add: to_le_bytes_def)

lemma from_to_be: "8 dvd LENGTH('a) \<Longrightarrow> from_be_bytes (to_be_bytes (w :: 'a::len word)) = w"
  by (rule from_to_be_bytes [where n = "LENGTH('a) div 8"]) simp

lemma to_be_bytes_inject:
  "8 dvd LENGTH('a) \<Longrightarrow> to_be_bytes (v :: 'a::len word) = to_be_bytes w \<longleftrightarrow> v = w"
proof
  assume "8 dvd LENGTH('a)" and "to_be_bytes v = to_be_bytes w"
  then have "from_be_bytes (to_be_bytes v) = w" by (simp add: from_to_be)
  with \<open>8 dvd LENGTH('a)\<close> show "v = w" by (simp add: from_to_be)
qed simp

lemma from_to_le_bytes: "8 dvd LENGTH('a) \<Longrightarrow> from_le_bytes (to_le_bytes (w :: 'a::len word)) = w"
  by (simp add: from_le_bytes_def to_le_bytes_def from_to_be)

lemma to_le_bytes_inject:
  "8 dvd LENGTH('a) \<Longrightarrow> to_le_bytes (v :: 'a::len word) = to_le_bytes w \<longleftrightarrow> v = w"
proof
  assume "8 dvd LENGTH('a)" and "to_le_bytes v = to_le_bytes w"
  then have "from_le_bytes (to_le_bytes v) = w" by (simp add: from_to_le_bytes)
  with \<open>8 dvd LENGTH('a)\<close> show "v = w" by (simp add: from_to_le_bytes)
qed simp

lemma prefix_free_le: "8 dvd LENGTH('a) \<Longrightarrow> prefix_free (to_le_bytes :: 'a::len word \<Rightarrow> u8 list)"
  by (rule prefix_free_fixed) (simp_all add: to_le_bytes_inject)

lemma prefix_free_Public: "prefix_free encode_Public"
  by (rule prefix_free_fixed [where n = 32]) (simp_all add: encode_Public_def to_be_bytes_inject)

lemma prefix_free_Coin: "prefix_free encode_Coin"
proof (rule prefix_freeI)
  fix x y r t assume "encode_Coin x @ r = encode_Coin y @ t"
  then show "x = y \<and> r = t" by (cases x; cases y) simp_all
qed

lemma prefix_free_NetworkId: "prefix_free encode_NetworkId"
proof (rule prefix_freeI)
  fix x y r t assume "encode_NetworkId x @ r = encode_NetworkId y @ t"
  then show "x = y \<and> r = t" by (cases x; cases y) simp_all
qed

lemma prefix_free_Balance: "prefix_free encode_Balance"
proof (rule prefix_freeI)
  fix x y r t assume "encode_Balance x @ r = encode_Balance y @ t"
  then show "x = y \<and> r = t"
    by (simp add: encode_Balance_def prefix_freeD [OF prefix_free_Coin]
        prefix_freeD [OF prefix_free_le [where 'a = 64, simplified]])
qed

lemma prefix_free_option: "prefix_free enc \<Longrightarrow> prefix_free (encode_option enc)"
  by (rule prefix_freeI) (auto simp: encode_option_def prefix_freeD split: option.splits)

subsection \<open>Length prefixes and sequences\<close>

lemma unat_of_nat_small: "k < 2 ^ LENGTH('a) \<Longrightarrow> unat (of_nat k :: 'a::len word) = k"
  by (simp add: unsigned_of_nat take_bit_nat_eq_self)

lemma to_le_bytes_Cons:
  assumes "8 dvd LENGTH('a)" and "x < 2 ^ LENGTH('a)"
  obtains bs where "to_le_bytes (of_nat x :: 'a::len word) = of_nat x # bs"
proof -
  obtain k where "LENGTH('a) = 8 * k" using assms(1) by (rule dvdE)
  then obtain m where "LENGTH('a) div 8 = Suc m" by (cases k) auto
  then show ?thesis using that by (simp add: to_le_bytes_def to_be_bytes_def unat_of_nat_small [OF assms(2)])
qed

lemma unat_u8_mod4: "unat (of_nat x :: u8) mod 4 = x mod 4"
proof -
  have "unat (of_nat x :: u8) = x mod 256" by (simp add: unsigned_of_nat take_bit_eq_mod)
  moreover have "x mod 256 mod 4 = x mod 4" by (rule mod_mod_cancel) simp
  ultimately show ?thesis by simp
qed

definition compact_mode :: "nat \<Rightarrow> nat" where
  "compact_mode n = (if n < 2 ^ 6 then 0 else if n < 2 ^ 14 then 1 else 2)"

lemma compact_Cons:
  assumes "n < 2 ^ 30"
  obtains b bs where "compact n = b # bs" and "unat b mod 4 = compact_mode n"
proof -
  consider "n < 2 ^ 6" | "\<not> n < 2 ^ 6" "n < 2 ^ 14" | "\<not> n < 2 ^ 6" "\<not> n < 2 ^ 14" by blast
  then show ?thesis
  proof cases
    case 1
    then show ?thesis using that [of "of_nat (4 * n)" "[]"] unat_u8_mod4 [of "4 * n"]
      by (simp add: compact_def compact_mode_def)
  next
    case 2
    obtain bs where "to_le_bytes (of_nat (4 * n + 1) :: u16) = of_nat (4 * n + 1) # bs"
      by (rule to_le_bytes_Cons [where 'a = 16 and x = "4 * n + 1"]) (use 2 in simp_all)
    with 2 have "compact n = of_nat (4 * n + 1) # bs" by (simp only: compact_def if_False if_True)
    moreover have "unat (of_nat (4 * n + 1) :: u8) mod 4 = compact_mode n"
      unfolding unat_u8_mod4 using 2 by (simp add: compact_mode_def mod_Suc)
    ultimately show ?thesis by (rule that)
  next
    case 3
    obtain bs where "to_le_bytes (of_nat (4 * n + 2) :: u32) = of_nat (4 * n + 2) # bs"
      by (rule to_le_bytes_Cons [where 'a = 32 and x = "4 * n + 2"]) (use assms in simp_all)
    with 3 assms have "compact n = of_nat (4 * n + 2) # bs" by (simp only: compact_def if_False if_True)
    moreover have "unat (of_nat (4 * n + 2) :: u8) mod 4 = compact_mode n"
      unfolding unat_u8_mod4 using 3 by (simp add: compact_mode_def mod_Suc)
    ultimately show ?thesis by (rule that)
  qed
qed

lemma of_nat_inject_small:
  "x < 2 ^ LENGTH('a) \<Longrightarrow> y < 2 ^ LENGTH('a) \<Longrightarrow> of_nat x = (of_nat y :: 'a::len word) \<longleftrightarrow> x = y"
  by (simp only: word_unat_eq_iff unat_of_nat_small)

lemma compact_prefix_free:
  assumes n: "n < 2 ^ 30" and m: "m < 2 ^ 30" and eq: "compact n @ r = compact m @ t"
  shows "n = m \<and> r = t"
proof -
  have mode: "compact_mode n = compact_mode m"
    by (rule compact_Cons [OF n], rule compact_Cons [OF m]) (use eq in auto)
  then consider "n < 2 ^ 6" "m < 2 ^ 6" | "\<not> n < 2 ^ 6" "\<not> m < 2 ^ 6" "n < 2 ^ 14" "m < 2 ^ 14"
    | "\<not> n < 2 ^ 6" "\<not> m < 2 ^ 6" "\<not> n < 2 ^ 14" "\<not> m < 2 ^ 14"
    by (auto simp: compact_mode_def split: if_splits)
  then show ?thesis
  proof cases
    case 1
    then have "of_nat (4 * n) = (of_nat (4 * m) :: u8) \<and> r = t"
      using eq by (simp only: compact_def if_True append_Cons append_Nil list.inject)
    moreover have "of_nat (4 * n) = (of_nat (4 * m) :: u8) \<longleftrightarrow> 4 * n = 4 * m"
      using 1 by (intro of_nat_inject_small) simp_all
    ultimately show ?thesis by simp
  next
    case 2
    then have "to_le_bytes (of_nat (4 * n + 1) :: u16) = to_le_bytes (of_nat (4 * m + 1) :: u16) \<and> r = t"
      using eq by (simp only: compact_def if_True if_False append_eq_append_conv length_to_le_bytes simp_thms)
    then have "of_nat (4 * n + 1) = (of_nat (4 * m + 1) :: u16) \<and> r = t"
      by (simp only: to_le_bytes_inject [where 'a = 16, simplified])
    moreover have "of_nat (4 * n + 1) = (of_nat (4 * m + 1) :: u16) \<longleftrightarrow> 4 * n + 1 = 4 * m + 1"
      using 2 by (intro of_nat_inject_small) simp_all
    ultimately show ?thesis by simp
  next
    case 3
    then have "to_le_bytes (of_nat (4 * n + 2) :: u32) = to_le_bytes (of_nat (4 * m + 2) :: u32) \<and> r = t"
      using eq n m by (simp only: compact_def if_True if_False append_eq_append_conv length_to_le_bytes simp_thms)
    then have "of_nat (4 * n + 2) = (of_nat (4 * m + 2) :: u32) \<and> r = t"
      by (simp only: to_le_bytes_inject [where 'a = 32, simplified])
    moreover have "of_nat (4 * n + 2) = (of_nat (4 * m + 2) :: u32) \<longleftrightarrow> 4 * n + 2 = 4 * m + 2"
      using n m by (intro of_nat_inject_small) simp_all
    ultimately show ?thesis by simp
  qed
qed

lemma concat_prefix_free:
  assumes "prefix_free enc" and "length xs = length ys" and "concat (map enc xs) @ r = concat (map enc ys) @ t"
  shows "xs = ys \<and> r = t"
  using assms(2,3)
proof (induction xs ys rule: list_induct2)
  case (Cons x xs y ys)
  then show ?case by (simp add: prefix_freeD [OF assms(1)])
qed simp

lemma encode_vec_prefix_free:
  assumes "prefix_free enc" and "length xs < 2 ^ 30" and "length ys < 2 ^ 30"
    and "encode_vec enc xs @ r = encode_vec enc ys @ t"
  shows "xs = ys \<and> r = t"
proof -
  have eq: "compact (length xs) @ concat (map enc xs) @ r = compact (length ys) @ concat (map enc ys) @ t"
    using assms(4) by (simp add: encode_vec_def)
  have "length xs = length ys" "concat (map enc xs) @ r = concat (map enc ys) @ t"
    using compact_prefix_free [OF assms(2,3) eq] by simp_all
  then show ?thesis by (rule concat_prefix_free [OF assms(1)])
qed

end
