(* ===== verification/Validator_Sets.thy ===== *)
theory Validator_Sets
  imports Dex_Quotes Scale
begin

text \<open>
  The validator-sets pallet (\<open>src/substrate/validator-sets\<close>): stake allocations per network, the
  selection of the validators of a session and their key shares, the handover between sessions,
  queued deallocations, slashing of Serai validators, and the limit on minted coins that the stake
  secures.

  The state extends the Dex's. What the pallet uses of code outside the repository is a field of
  the configuration: the BLAKE2 hash, MuSig key aggregation, signature verification, and Babe's
  change of authorities. Babe's authorities are part of the state. A result \<open>None\<close> or the error
  \<open>VS_Panic\<close> is a panic. Bare arithmetic wraps, as in the release profile.
\<close>

section \<open>Primitives\<close>

definition MAX_KEY_SHARES_PER_SET :: u32 where
  "MAX_KEY_SHARES_PER_SET = 150"

definition MAX_KEY_LEN :: u32 where
  "MAX_KEY_LEN = 96"

type_synonym Session = u32

record ValidatorSet =
  vs_session :: Session
  vs_network :: NetworkId

text \<open>A Ristretto key and a key on the external network.\<close>

type_synonym ExternalKey = "u8 list"
type_synonym KeyPair = "Public \<times> ExternalKey"
type_synonym Signature = "u8 list"

text \<open>
  Code outside the repository. \<open>enact_epoch_change current now next session\<close> is the list of Babe's
  authorities after the call; \<open>verify key message signature\<close> is sr25519 verification.
\<close>

record vs_config =
  blake2_128 :: "u8 list \<Rightarrow> u8 list"
  valid_point :: "Public \<Rightarrow> bool"
  dkg_musig_key :: "u8 list \<Rightarrow> Public list \<Rightarrow> Public option"
  verify :: "Public \<Rightarrow> u8 list \<Rightarrow> Signature \<Rightarrow> bool"
  enact_epoch_change ::
    "(Public \<times> u64) list \<Rightarrow> (Public \<times> u64) list \<Rightarrow> (Public \<times> u64) list \<Rightarrow> u32 option \<Rightarrow> (Public \<times> u64) list"

definition encode_ValidatorSet :: "ValidatorSet \<Rightarrow> u8 list" where
  "encode_ValidatorSet vset = to_le_bytes (vs_session vset) @ encode_NetworkId (vs_network vset)"

definition encode_KeyPair :: "KeyPair \<Rightarrow> u8 list" where
  "encode_KeyPair = (\<lambda>(key, external). encode_Public key @ encode_bytes external)"

definition musig_context :: "ValidatorSet \<Rightarrow> u8 list" where
  "musig_context vset = ascii ''ValidatorSets-musig_key'' @ encode_ValidatorSet vset"

text \<open>
  The message's points are represented by their encodings: \<open>valid_point\<close> says which encodings
  decode, and \<open>dkg_musig_key\<close> aggregates them under a context.
\<close>

definition musig_key :: "vs_config \<Rightarrow> ValidatorSet \<Rightarrow> Public list \<Rightarrow> Public option" where
  "musig_key cfg vset set_keys =
     (if list_all (valid_point cfg) set_keys then dkg_musig_key cfg (musig_context vset) set_keys else None)"

definition set_keys_message :: "ValidatorSet \<Rightarrow> Public list \<Rightarrow> KeyPair \<Rightarrow> u8 list" where
  "set_keys_message vset removed_participants key_pair =
     ascii ''ValidatorSets-set_keys'' @ encode_ValidatorSet vset @ encode_vec encode_Public removed_participants @
     encode_KeyPair key_pair"

definition report_slashes_message :: "ValidatorSet \<Rightarrow> (Public \<times> u32) list \<Rightarrow> u8 list" where
  "report_slashes_message vset slashes =
     ascii ''ValidatorSets-report_slashes'' @ encode_ValidatorSet vset @
     encode_vec (\<lambda>(key, points). encode_Public key @ to_le_bytes points) slashes"

text \<open>The loop counts down the validators from the last, round after round.\<close>

definition decrement_share :: "(Public \<times> u64) list \<Rightarrow> nat \<Rightarrow> (Public \<times> u64) list" where
  "decrement_share validators i =
     (let j = length validators - (i mod length validators + 1) in
      validators[j := (fst (validators ! j), snd (validators ! j) - 1)])"

definition amortize_excess_key_shares :: "(Public \<times> u64) list \<Rightarrow> (Public \<times> u64) list" where
  "amortize_excess_key_shares validators =
     (let total_key_shares = sum_list (map snd validators);
          excess = saturating_sub total_key_shares (ucast MAX_KEY_SHARES_PER_SET) in
      foldl decrement_share validators [0..<unat excess])"

text \<open>\<open>None\<close> is the division by zero.\<close>

definition post_amortization_key_shares_for_top_validator :: "nat \<Rightarrow> u64 \<Rightarrow> u64 \<Rightarrow> u64 option" where
  "post_amortization_key_shares_for_top_validator validators top_shares key_shares =
     map_option (\<lambda>reduction. top_shares - reduction)
       (checked_div (saturating_sub key_shares (ucast MAX_KEY_SHARES_PER_SET)) (of_nat validators))"

section \<open>State\<close>

datatype VSEvent =
    NewSet ValidatorSet
  | ParticipantRemoved ValidatorSet Public
  | KeyGen ValidatorSet KeyPair
  | AcceptedHandover ValidatorSet
  | SetRetired ValidatorSet
  | AllocationIncreased Public NetworkId Amount
  | AllocationDecreased Public NetworkId Amount "Session option"
  | DeallocationClaimed Public NetworkId Session

datatype VSError =
    NonExistentValidatorSet
  | InsufficientAllocation
  | NotEnoughAllocated
  | AllocationWouldRemoveFaultTolerance
  | AllocationWouldPreventFaultTolerance
  | DeallocationWouldRemoveParticipant
  | DeallocationWouldRemoveFaultTolerance
  | NonExistentDeallocation
  | AlreadyGeneratedKeys
  | BadSignature
  | NonExistentValidator
  | DeallocationWouldRemoveEconomicSecurity
  | VS_Coins CoinsError
  | VS_BadOrigin
  | VS_Panic

record vs_rt = dex_rt +
  CurrentSession :: "NetworkId \<Rightarrow> Session option"
  AllocationPerKeyShare :: "NetworkId \<Rightarrow> Amount option"
  Participants :: "NetworkId \<Rightarrow> (Public \<times> u64) list option"
  InSet :: "NetworkId \<Rightarrow> (Public, u64) omap"
  TotalAllocatedStake :: "NetworkId \<Rightarrow> Amount option"
  Allocations :: "NetworkId \<Rightarrow> Public \<Rightarrow> Amount option"
  SortedAllocations :: "(u8 list, unit) omap"
  PendingDeallocations :: "NetworkId \<Rightarrow> Public \<Rightarrow> (u8 list, Amount) omap"
  Keys :: "ValidatorSet \<Rightarrow> KeyPair option"
  PendingSlashReport :: "NetworkId \<Rightarrow> Public option"
  SeraiDisabledIndices :: "(u8 list, Public) omap"
  BabeAuthorities :: "(Public \<times> u64) list"
  GrandpaSessions :: "(bool \<times> u32 \<times> (Public \<times> u64) list) list"
  VSEvents :: "VSEvent list"

definition vs_deposit_event :: "'a vs_rt_scheme \<Rightarrow> VSEvent \<Rightarrow> 'a vs_rt_scheme" where
  "vs_deposit_event s e = s\<lparr>VSEvents := VSEvents s @ [e]\<rparr>"

section \<open>Sessions and sets\<close>

definition session :: "'a vs_rt_scheme \<Rightarrow> NetworkId \<Rightarrow> Session option" where
  "session s net = CurrentSession s net"

definition latest_decided_session :: "'a vs_rt_scheme \<Rightarrow> NetworkId \<Rightarrow> Session option" where
  "latest_decided_session s net =
     (if net = NetworkId.Serai then map_option (\<lambda>n. n + 1) (session s net) else session s net)"

definition in_active_serai_set :: "'a vs_rt_scheme \<Rightarrow> Public \<Rightarrow> bool" where
  "in_active_serai_set s account = (account \<in> set (map fst (BabeAuthorities s)))"

definition in_latest_decided_set :: "'a vs_rt_scheme \<Rightarrow> NetworkId \<Rightarrow> Public \<Rightarrow> bool" where
  "in_latest_decided_set s net account = (om_get (InSet s net) account \<noteq> None)"

definition in_active_set :: "'a vs_rt_scheme \<Rightarrow> NetworkId \<Rightarrow> Public \<Rightarrow> bool" where
  "in_active_set s net account =
     (if net = NetworkId.Serai then in_active_serai_set s account else om_get (InSet s net) account \<noteq> None)"

definition in_set :: "'a vs_rt_scheme \<Rightarrow> NetworkId \<Rightarrow> Public \<Rightarrow> bool" where
  "in_set s net account =
     (if om_get (InSet s net) account \<noteq> None then True
      else if net = NetworkId.Serai then in_active_serai_set s account
      else False)"

section \<open>Sorted allocations\<close>

text \<open>The raw storage key, without the constant prefix of the map.\<close>

definition sorted_allocation_key :: "vs_config \<Rightarrow> NetworkId \<Rightarrow> Public \<Rightarrow> Amount \<Rightarrow> u8 list" where
  "sorted_allocation_key cfg net key amount =
     (let amount = reverse_lexicographic_order (to_be_bytes amount);
          hash = take 16 (blake2_128 cfg (encode_NetworkId net @ amount @ encode_Public key) @ replicate 16 0) in
      encode_NetworkId net @ amount @ hash @ encode_Public key)"

definition recover_amount_from_sorted_allocation_key :: "u8 list \<Rightarrow> Amount" where
  "recover_amount_from_sorted_allocation_key key =
     (let start_pos = length key - (8 + 16 + 32) in
      from_be_bytes (map (\<lambda>b. NOT b) (take 8 (drop start_pos key))))"

definition recover_key_from_sorted_allocation_key :: "u8 list \<Rightarrow> Public" where
  "recover_key_from_sorted_allocation_key key = from_be_bytes (drop (length key - 32) key)"

text \<open>Returns if this validator already had an allocation set.\<close>

definition set_allocation ::
  "vs_config \<Rightarrow> 'a vs_rt_scheme \<Rightarrow> NetworkId \<Rightarrow> Public \<Rightarrow> Amount \<Rightarrow> bool \<times> 'a vs_rt_scheme" where
  "set_allocation cfg s net key amount =
     (let prior = Allocations s net key;
          s1 = s\<lparr>Allocations := (Allocations s)(net := (Allocations s net)(key := None))\<rparr>;
          s2 = (case prior of
                  Some old \<Rightarrow> s1\<lparr>SortedAllocations := om_remove (sorted_allocation_key cfg net key old) (SortedAllocations s1)\<rparr>
                | None \<Rightarrow> s1);
          s3 = (if amount \<noteq> 0 then
                  s2\<lparr>Allocations := (Allocations s2)(net := (Allocations s2 net)(key \<mapsto> amount)),
                     SortedAllocations := om_set (sorted_allocation_key cfg net key amount) () (SortedAllocations s2)\<rparr>
                else s2)
      in (prior \<noteq> None, s3))"

text \<open>The items an iterator yields from the raw key \<open>last\<close> on.\<close>

function sorted_allocations_from ::
  "(u8 list, unit) omap \<Rightarrow> u8 list \<Rightarrow> u8 list \<Rightarrow> (Public \<times> Amount) list" where
  "sorted_allocations_from m pre lst =
     (case om_next m lst of
        None \<Rightarrow> []
      | Some nxt \<Rightarrow>
          if take (length pre) nxt \<noteq> pre then []
          else (recover_key_from_sorted_allocation_key nxt, recover_amount_from_sorted_allocation_key nxt)
                 # sorted_allocations_from m pre nxt)"
  by pat_completeness auto
termination
proof (relation "measure (\<lambda>(m, pre, lst). card {k \<in> om_keys m. lst < k})")
  fix m :: "(u8 list, unit) omap" and pre lst nxt
  assume "om_next m lst = Some nxt"
  then have "lst < nxt" "nxt \<in> om_keys m" using om_next_in_keys by blast+
  then have "{k \<in> om_keys m. nxt < k} \<subset> {k \<in> om_keys m. lst < k}" by auto
  then show "((m, pre, nxt), m, pre, lst) \<in> measure (\<lambda>(m, pre, lst). card {k \<in> om_keys m. lst < k})"
    by (auto intro!: psubset_card_mono)
qed simp

declare sorted_allocations_from.simps [simp del]

definition sorted_allocations_iter :: "'a vs_rt_scheme \<Rightarrow> NetworkId \<Rightarrow> (Public \<times> Amount) list" where
  "sorted_allocations_iter s net =
     (let pre = encode_NetworkId net in sorted_allocations_from (SortedAllocations s) pre pre)"

text \<open>The loop of \<open>new_set\<close>: the participants with their key shares, and their total stake.\<close>

fun select_participants ::
  "u64 \<Rightarrow> (Public \<times> Amount) list \<Rightarrow> u64 \<Rightarrow> u64 \<Rightarrow> (Public \<times> u64) list \<Rightarrow> ((Public \<times> u64) list \<times> u64) option" where
  "select_participants per [] key_shares total_stake participants = Some (participants, total_stake)"
| "select_participants per ((key, amount) # rest) key_shares total_stake participants =
     (if key_shares < ucast MAX_KEY_SHARES_PER_SET then
        Option.bind (checked_div amount per) (\<lambda>shares.
        let these_key_shares = min shares (ucast MAX_KEY_SHARES_PER_SET) in
        select_participants per rest (key_shares + these_key_shares) (total_stake + amount)
          (participants @ [(key, these_key_shares)]))
      else Some (participants, total_stake))"

definition new_set :: "'a vs_rt_scheme \<Rightarrow> NetworkId \<Rightarrow> 'a vs_rt_scheme option" where
  "new_set s net =
     (let new_session = (case CurrentSession s net of None \<Rightarrow> 0 | Some n \<Rightarrow> n + 1);
          s1 = s\<lparr>CurrentSession := (CurrentSession s)(net \<mapsto> new_session)\<rparr> in
      if length (InSet s1 net) > unat MAX_KEY_SHARES_PER_SET then None
      else let s2 = s1\<lparr>InSet := (InSet s1)(net := [])\<rparr> in
        Option.bind (AllocationPerKeyShare s2 net) (\<lambda>allocation_per_key_share.
        Option.bind (select_participants allocation_per_key_share (sorted_allocations_iter s2 net) 0 0 [])
          (\<lambda>(selected, total_stake).
        let participants = amortize_excess_key_shares selected;
            s3 = s2\<lparr>InSet := (InSet s2)
                   (net := foldl (\<lambda>m (key, shares). om_set key shares m) (InSet s2 net) participants)\<rparr>;
            s4 = s3\<lparr>TotalAllocatedStake := (TotalAllocatedStake s3)(net \<mapsto> total_stake)\<rparr>;
            s5 = vs_deposit_event s4 (NewSet \<lparr>vs_session = new_session, vs_network = net\<rparr>) in
        if length participants > unat MAX_KEY_SHARES_PER_SET then None
        else Some (s5\<lparr>Participants := (Participants s5)(net \<mapsto> participants)\<rparr>))))"

definition vs_account :: Public where
  "vs_account = (case system_address (ascii ''ValidatorSets'') of Some a \<Rightarrow> a | None \<Rightarrow> 0)"

text \<open>The loop of \<open>is_bft\<close> over the sorted allocations: the number of validators, the top one's
  key shares and their sum.\<close>

fun count_key_shares ::
  "u64 \<Rightarrow> (Public \<times> Amount) list \<Rightarrow> nat \<Rightarrow> u64 option \<Rightarrow> u64 \<Rightarrow> (nat \<times> u64 option \<times> u64) option" where
  "count_key_shares per [] validators_len top_shares key_shares = Some (validators_len, top_shares, key_shares)"
| "count_key_shares per ((_, amount) # rest) validators_len top_shares key_shares =
     Option.bind (checked_div amount per) (\<lambda>shares.
     let validators_len = validators_len + 1;
         key_shares = key_shares + shares;
         top_shares = (if top_shares = None then Some key_shares else top_shares) in
     if key_shares > ucast MAX_KEY_SHARES_PER_SET then Some (validators_len, top_shares, key_shares)
     else count_key_shares per rest validators_len top_shares key_shares)"

definition is_bft :: "'a vs_rt_scheme \<Rightarrow> NetworkId \<Rightarrow> bool option" where
  "is_bft s net =
     Option.bind (AllocationPerKeyShare s net) (\<lambda>per.
     Option.bind (count_key_shares per (sorted_allocations_iter s net) 0 None 0) (\<lambda>(validators_len, top_shares, key_shares).
     case top_shares of
       None \<Rightarrow> Some False
     | Some top_shares \<Rightarrow>
         Option.bind (post_amortization_key_shares_for_top_validator validators_len top_shares key_shares) (\<lambda>top_shares.
         Some (top_shares * 3 < min key_shares (ucast MAX_KEY_SHARES_PER_SET)))))"

section \<open>Allocations\<close>

definition required_stake :: "'a dex_rt_scheme \<Rightarrow> Balance \<Rightarrow> u64" where
  "required_stake s b =
     (let sri_per_coin = (case SecurityOracleValue s (bal_coin b) of Some p \<Rightarrow> p | None \<Rightarrow> 0);
          accuracy = accuracy_increase (bal_coin b);
          total_coin_value =
            (case try_u64 ((ucast (bal_amount b) :: u128) * ucast sri_per_coin div accuracy) of
               Some v \<Rightarrow> v | None \<Rightarrow> - 1);
          required = saturating_mul total_coin_value 3 div 2 in
      saturating_add required (total_coin_value div 5))"

definition required_stake_for_network :: "'a dex_rt_scheme \<Rightarrow> NetworkId \<Rightarrow> u64" where
  "required_stake_for_network s net =
     foldl (\<lambda>total coin. total + required_stake s \<lparr>bal_coin = coin, bal_amount = coin_supply (coins s) coin\<rparr>)
       0 (NetworkId_coins net)"

definition is_allowed :: "'a vs_rt_scheme \<Rightarrow> Balance \<Rightarrow> bool" where
  "is_allowed s b =
     (let current_required = required_stake_for_network s (network (bal_coin b));
          new_required = current_required + required_stake s b;
          staked = (case TotalAllocatedStake s (network (bal_coin b)) of Some a \<Rightarrow> a | None \<Rightarrow> 0) in
      staked \<ge> new_required)"

text \<open>Neither changed by \<open>set_allocation\<close> nor read before it: the fault tolerance before and after.\<close>

definition lost_bft :: "bool option \<Rightarrow> 'a vs_rt_scheme \<Rightarrow> NetworkId \<Rightarrow> VSError \<Rightarrow> VSError + unit" where
  "lost_bft was_bft s net err =
     (case was_bft of
        None \<Rightarrow> Inr ()
      | Some was \<Rightarrow>
          if was then tri (ok_or (is_bft s net) VS_Panic) (\<lambda>still. if \<not> still then Inl err else Inr ())
          else Inr ())"

definition increase_allocation ::
  "vs_config \<Rightarrow> 'a vs_rt_scheme \<Rightarrow> NetworkId \<Rightarrow> Public \<Rightarrow> Amount \<Rightarrow> VSError + 'a vs_rt_scheme" where
  "increase_allocation cfg s net account amount =
     (let old_allocation = (case Allocations s net account of Some a \<Rightarrow> a | None \<Rightarrow> 0);
          new_allocation = old_allocation + amount in
      tri (ok_or (AllocationPerKeyShare s net) VS_Panic) (\<lambda>per.
      ensure (\<not> new_allocation < per) InsufficientAllocation (
      tri (ok_or (checked_div old_allocation per) VS_Panic) (\<lambda>old_shares.
      tri (ok_or (checked_div new_allocation per) VS_Panic) (\<lambda>new_shares.
      tri (if old_shares < new_shares then tri (ok_or (is_bft s net) VS_Panic) (\<lambda>b. Inr (Some b)) else Inr None)
        (\<lambda>was_bft.
      let s1 = snd (set_allocation cfg s net account new_allocation);
          s2 = vs_deposit_event s1 (AllocationIncreased account net amount) in
      tri (lost_bft was_bft s2 net AllocationWouldRemoveFaultTolerance) (\<lambda>_.
      ensure (\<not> new_shares \<ge> ucast (MAX_KEY_SHARES_PER_SET div 3)) AllocationWouldPreventFaultTolerance (
      Inr (if om_get (InSet s2 net) account \<noteq> None
           then s2\<lparr>TotalAllocatedStake := (TotalAllocatedStake s2)
                    (net \<mapsto> (case TotalAllocatedStake s2 net of Some a \<Rightarrow> a | None \<Rightarrow> 0) + amount)\<rparr>
           else s2)))))))))"

definition session_to_unlock_on_for_current_set :: "'a vs_rt_scheme \<Rightarrow> NetworkId \<Rightarrow> Session option" where
  "session_to_unlock_on_for_current_set s net =
     Option.bind (session s net) (\<lambda>to_unlock_on.
     let to_unlock_on = to_unlock_on + 1;
         to_unlock_on = (if net = NetworkId.Serai then to_unlock_on + 1 else to_unlock_on);
         to_unlock_on = to_unlock_on + 1 in
     Some to_unlock_on)"

definition pending_deallocation :: "'a vs_rt_scheme \<Rightarrow> NetworkId \<Rightarrow> Public \<Rightarrow> Session \<Rightarrow> Amount option" where
  "pending_deallocation s net account n = om_get (PendingDeallocations s net account) (to_le_bytes n)"

definition set_pending_deallocations ::
  "'a vs_rt_scheme \<Rightarrow> NetworkId \<Rightarrow> Public \<Rightarrow> (u8 list, Amount) omap \<Rightarrow> 'a vs_rt_scheme" where
  "set_pending_deallocations s net account m =
     s\<lparr>PendingDeallocations := (PendingDeallocations s)(net := (PendingDeallocations s net)(account := m))\<rparr>"

definition decrease_allocation ::
  "vs_config \<Rightarrow> 'a vs_rt_scheme \<Rightarrow> NetworkId \<Rightarrow> Public \<Rightarrow> Amount \<Rightarrow> VSError + bool \<times> 'a vs_rt_scheme" where
  "decrease_allocation cfg s net account amount =
     tri (ok_or (TotalAllocatedStake s net) VS_Panic) (\<lambda>total.
     tri (ok_or (checked_sub total amount) NotEnoughAllocated) (\<lambda>new_total_staked.
     ensure (\<not> new_total_staked < required_stake_for_network s net) DeallocationWouldRemoveEconomicSecurity (
     tri (ok_or (Allocations s net account) NonExistentValidator) (\<lambda>old_allocation.
     tri (ok_or (checked_sub old_allocation amount) NotEnoughAllocated) (\<lambda>new_allocation.
     tri (ok_or (AllocationPerKeyShare s net) VS_Panic) (\<lambda>per.
     ensure (\<not> (new_allocation \<noteq> 0 \<and> new_allocation < per)) DeallocationWouldRemoveParticipant (
     tri (ok_or (checked_div old_allocation per) VS_Panic) (\<lambda>old_shares.
     tri (ok_or (checked_div new_allocation per) VS_Panic) (\<lambda>new_shares.
     tri (if old_shares > new_shares then tri (ok_or (is_bft s net) VS_Panic) (\<lambda>b. Inr (Some b)) else Inr None)
       (\<lambda>was_bft.
     let s1 = snd (set_allocation cfg s net account new_allocation) in
     tri (lost_bft was_bft s1 net DeallocationWouldRemoveFaultTolerance) (\<lambda>_.
     if \<not> in_set s1 net account then
       Inr (True, vs_deposit_event s1 (AllocationDecreased account net amount None))
     else
       tri (ok_or (session_to_unlock_on_for_current_set s1 net) VS_Panic) (\<lambda>to_unlock_on.
       let existing = (case pending_deallocation s1 net account to_unlock_on of Some a \<Rightarrow> a | None \<Rightarrow> 0);
           s2 = set_pending_deallocations s1 net account
                  (om_set (to_le_bytes to_unlock_on) (existing + amount) (PendingDeallocations s1 net account)) in
       Inr (False, vs_deposit_event s2 (AllocationDecreased account net amount (Some to_unlock_on)))))))))))))))"

definition handover_completed :: "'a vs_rt_scheme \<Rightarrow> NetworkId \<Rightarrow> Session \<Rightarrow> bool" where
  "handover_completed s net queried =
     (case session s net of
        None \<Rightarrow> False
      | Some current_session \<Rightarrow>
          if current_session = 0 then True
          else if current_session < queried then False
          else if current_session = queried then
            net = NetworkId.Serai \<or> Keys s \<lparr>vs_session = current_session - 1, vs_network = net\<rparr> = None
          else True)"

definition take_deallocatable_amount ::
  "'a vs_rt_scheme \<Rightarrow> NetworkId \<Rightarrow> Session \<Rightarrow> Public \<Rightarrow> Amount option \<times> 'a vs_rt_scheme" where
  "take_deallocatable_amount s net n key =
     (if \<not> handover_completed s net n then (None, s)
      else (pending_deallocation s net key n,
            set_pending_deallocations s net key (om_remove (to_le_bytes n) (PendingDeallocations s net key))))"

section \<open>Rotation\<close>

fun new_sessions :: "'a vs_rt_scheme \<Rightarrow> NetworkId list \<Rightarrow> 'a vs_rt_scheme option" where
  "new_sessions s [] = Some s"
| "new_sessions s (net # rest) =
     (case session s net of
        None \<Rightarrow> new_sessions s rest
      | Some current_session \<Rightarrow>
          if net = NetworkId.Serai \<or> handover_completed s net current_session then
            Option.bind (new_set s net) (\<lambda>s1. new_sessions (on_new_session s1 net) rest)
          else new_sessions s rest)"

definition new_session :: "'a vs_rt_scheme \<Rightarrow> 'a vs_rt_scheme option" where
  "new_session s = new_sessions s NETWORKS"

definition retire_set :: "'a vs_rt_scheme \<Rightarrow> ValidatorSet \<Rightarrow> 'a vs_rt_scheme option" where
  "retire_set s vset =
     (let s1 = (if PendingSlashReport s (vs_network vset) \<noteq> None
                then vs_deposit_event s (SetRetired \<lparr>vs_session = vs_session vset - 1, vs_network = vs_network vset\<rparr>)
                else s) in
      Option.bind
        (if vs_network vset \<noteq> NetworkId.Serai then
           map_option (\<lambda>keys. s1\<lparr>Keys := (Keys s1)(vset := None),
                                 PendingSlashReport := (PendingSlashReport s1)(vs_network vset \<mapsto> fst keys)\<rparr>)
             (Keys s1 vset)
         else Some s1)
        (\<lambda>s2. Some (vs_deposit_event s2
           (AcceptedHandover \<lparr>vs_session = vs_session vset + 1, vs_network = vs_network vset\<rparr>))))"

fun index_of :: "'a list \<Rightarrow> 'a \<Rightarrow> nat option" where
  "index_of [] x = None"
| "index_of (y # ys) x = (if y = x then Some 0 else map_option Suc (index_of ys x))"

definition disable_serai_validator :: "'a vs_rt_scheme \<Rightarrow> Public \<Rightarrow> (bool \<times> 'a vs_rt_scheme) option" where
  "disable_serai_validator s validator =
     (case index_of (map fst (BabeAuthorities s)) validator of
        Some index \<Rightarrow>
          if index < 2 ^ 32 then
            let s1 = s\<lparr>SeraiDisabledIndices :=
                     om_set (to_le_bytes (of_nat index :: u32)) validator (SeraiDisabledIndices s)\<rparr> in
            Option.bind (session s1 NetworkId.Serai) (\<lambda>n.
            Some (True, vs_deposit_event s1
              (ParticipantRemoved \<lparr>vs_session = n, vs_network = NetworkId.Serai\<rparr> validator)))
          else None
      | None \<Rightarrow> Some (False, s))"

fun disable_serai_validators :: "'a vs_rt_scheme \<Rightarrow> Public list \<Rightarrow> 'a vs_rt_scheme option" where
  "disable_serai_validators s [] = Some s"
| "disable_serai_validators s (v # vs) =
     Option.bind (disable_serai_validator s v) (\<lambda>(_, s1). disable_serai_validators s1 vs)"

definition rotate_session :: "vs_config \<Rightarrow> 'a vs_rt_scheme \<Rightarrow> 'a vs_rt_scheme option" where
  "rotate_session cfg s =
     Option.bind (Participants s NetworkId.Serai) (\<lambda>now_validators.
     Option.bind (session s NetworkId.Serai) (\<lambda>prior_serai_session.
     Option.bind (retire_set s \<lparr>vs_session = prior_serai_session, vs_network = NetworkId.Serai\<rparr>) (\<lambda>s1.
     Option.bind (new_session s1) (\<lambda>s2.
     let n = prior_serai_session + 1 in
     Option.bind (Participants s2 NetworkId.Serai) (\<lambda>next_validators.
     let s3 = s2\<lparr>BabeAuthorities := enact_epoch_change cfg (BabeAuthorities s2) now_validators next_validators (Some n),
                 GrandpaSessions := GrandpaSessions s2 @ [(True, n, now_validators)]\<rparr>;
         disabled = map snd (SeraiDisabledIndices s3) in
     disable_serai_validators (s3\<lparr>SeraiDisabledIndices := []\<rparr>) disabled)))))"

definition vs_on_initialize :: "vs_config \<Rightarrow> 'a vs_rt_scheme \<Rightarrow> bool \<Rightarrow> 'a vs_rt_scheme option" where
  "vs_on_initialize cfg s should_end_session = (if should_end_session then rotate_session cfg s else Some s)"

definition genesis_allocate ::
  "vs_config \<Rightarrow> NetworkId \<Rightarrow> Amount \<Rightarrow> 'a vs_rt_scheme option \<Rightarrow> Public \<Rightarrow> 'a vs_rt_scheme option" where
  "genesis_allocate cfg net stake s participant =
     Option.bind s (\<lambda>s. case set_allocation cfg s net participant stake of (had, t) \<Rightarrow> if had then None else Some t)"

definition genesis_network ::
  "vs_config \<Rightarrow> Public list \<Rightarrow> 'a vs_rt_scheme option \<Rightarrow> NetworkId \<times> Amount \<Rightarrow> 'a vs_rt_scheme option" where
  "genesis_network cfg participants s = (\<lambda>(net, stake).
     Option.bind s (\<lambda>s.
     Option.bind (foldl (genesis_allocate cfg net stake)
       (Some (s\<lparr>AllocationPerKeyShare := (AllocationPerKeyShare s)(net \<mapsto> stake)\<rparr>)) participants)
     (\<lambda>t. new_set t net)))"

definition vs_genesis_build ::
  "vs_config \<Rightarrow> 'a vs_rt_scheme \<Rightarrow> (NetworkId \<times> Amount) list \<Rightarrow> Public list \<Rightarrow> 'a vs_rt_scheme option" where
  "vs_genesis_build cfg s networks participants = foldl (genesis_network cfg participants) (Some s) networks"

end
