(* ===== verification/Validator_Sets_Calls.thy ===== *)
theory Validator_Sets_Calls
  imports Validator_Sets
begin

text \<open>
  The validator-sets pallet, continued: slashing, the extrinsics, the validation of unsigned
  transactions and the interfaces to Babe and Grandpa.
\<close>

section \<open>Slashing\<close>

definition can_slash_serai_validator :: "'a vs_rt_scheme \<Rightarrow> Public \<Rightarrow> bool" where
  "can_slash_serai_validator s validator =
     (validator \<in> set (map fst (BabeAuthorities s)) \<or> PendingDeallocations s NetworkId.Serai validator \<noteq> [])"

definition slash_serai_validator :: "vs_config \<Rightarrow> 'a vs_rt_scheme \<Rightarrow> Public \<Rightarrow> 'a vs_rt_scheme option" where
  "slash_serai_validator cfg s validator =
     (let net = NetworkId.Serai;
          allocation = (case Allocations s net validator of Some a \<Rightarrow> a | None \<Rightarrow> 0);
          s1 = snd (set_allocation cfg s net validator 0) in
      Option.bind (session_to_unlock_on_for_current_set s1 net) (\<lambda>to_unlock_on.
      let pending = (case pending_deallocation s1 net validator to_unlock_on of Some a \<Rightarrow> a | None \<Rightarrow> 0);
          s2 = set_pending_deallocations s1 net validator
                 (om_remove (to_le_bytes to_unlock_on) (PendingDeallocations s1 net validator));
          allocation = allocation + pending in
      Option.bind
        (if om_get (InSet s2 net) validator \<noteq> None then
           Option.bind (TotalAllocatedStake s2 net) (\<lambda>current_staked.
           Option.bind (Amount_sub current_staked allocation) (\<lambda>remaining.
           Some (s2\<lparr>TotalAllocatedStake := (TotalAllocatedStake s2)(net \<mapsto> remaining)\<rparr>)))
         else Some s2)
        (\<lambda>s3.
      let allocation = allocation + sum_list (map snd (PendingDeallocations s3 net validator));
          s4 = set_pending_deallocations s3 net validator [] in
      case burn (coins s4) (Some vs_account) \<lparr>bal_coin = Coin.Serai, bal_amount = allocation\<rparr> of
        Inl _ \<Rightarrow> None
      | Inr c \<Rightarrow> Some (s4\<lparr>coins := c\<rparr>))))"

section \<open>Extrinsics\<close>

text \<open>\<open>signer\<close> is the account that signed, or \<open>None\<close> for an unsigned origin.\<close>

definition set_keys ::
  "'a vs_rt_scheme \<Rightarrow> Public option \<Rightarrow> NetworkId \<Rightarrow> Public list \<Rightarrow> KeyPair \<Rightarrow> Signature \<Rightarrow> VSError + 'a vs_rt_scheme" where
  "set_keys s signer net removed_participants key_pair signature =
     ensure (signer = None) VS_BadOrigin (
     tri (ok_or (session s net) VS_Panic) (\<lambda>n.
     let vset = \<lparr>vs_session = n, vs_network = net\<rparr>;
         s1 = s\<lparr>Keys := (Keys s)(vset \<mapsto> key_pair)\<rparr>;
         s2 = foldl (\<lambda>s removed. vs_deposit_event s (ParticipantRemoved vset removed)) s1 removed_participants in
     Inr (vs_deposit_event s2 (KeyGen vset key_pair))))"

definition report_slashes ::
  "'a vs_rt_scheme \<Rightarrow> Public option \<Rightarrow> NetworkId \<Rightarrow> (Public \<times> u32) list \<Rightarrow> Signature \<Rightarrow> VSError + 'a vs_rt_scheme" where
  "report_slashes s signer net slashes signature =
     ensure (signer = None) VS_BadOrigin (
     tri (ok_or (session s net) VS_Panic) (\<lambda>n.
     Inr (vs_deposit_event s (SetRetired \<lparr>vs_session = n - 1, vs_network = net\<rparr>))))"

definition vs_transfer :: "'a vs_rt_scheme \<Rightarrow> Public \<Rightarrow> Public \<Rightarrow> Amount \<Rightarrow> VSError + 'a vs_rt_scheme" where
  "vs_transfer s sender to amount =
     tri (map_err VS_Coins (transfer_internal (coins s) sender to \<lparr>bal_coin = Coin.Serai, bal_amount = amount\<rparr>))
       (\<lambda>c. Inr (s\<lparr>coins := c\<rparr>))"

definition allocate ::
  "vs_config \<Rightarrow> 'a vs_rt_scheme \<Rightarrow> Public option \<Rightarrow> NetworkId \<Rightarrow> Amount \<Rightarrow> VSError + 'a vs_rt_scheme" where
  "allocate cfg s signer net amount =
     tri (ok_or signer VS_BadOrigin) (\<lambda>validator.
     tri (vs_transfer s validator vs_account amount) (\<lambda>s1.
     increase_allocation cfg s1 net validator amount))"

definition deallocate ::
  "vs_config \<Rightarrow> 'a vs_rt_scheme \<Rightarrow> Public option \<Rightarrow> NetworkId \<Rightarrow> Amount \<Rightarrow> VSError + 'a vs_rt_scheme" where
  "deallocate cfg s signer net amount =
     tri (ok_or signer VS_BadOrigin) (\<lambda>account.
     tri (decrease_allocation cfg s net account amount) (\<lambda>(can_immediately_deallocate, s1).
     if can_immediately_deallocate then vs_transfer s1 vs_account account amount else Inr s1))"

definition claim_deallocation ::
  "'a vs_rt_scheme \<Rightarrow> Public option \<Rightarrow> NetworkId \<Rightarrow> Session \<Rightarrow> VSError + 'a vs_rt_scheme" where
  "claim_deallocation s signer net n =
     tri (ok_or signer VS_BadOrigin) (\<lambda>account.
     case take_deallocatable_amount s net n account of
       (None, _) \<Rightarrow> Inl NonExistentDeallocation
     | (Some amount, s1) \<Rightarrow>
         tri (vs_transfer s1 vs_account account amount) (\<lambda>s2.
         Inr (vs_deposit_event s2 (DeallocationClaimed account net n))))"

section \<open>Unsigned transactions\<close>

datatype VSCall =
    Call_set_keys NetworkId "Public list" KeyPair Signature
  | Call_report_slashes NetworkId "(Public \<times> u32) list" Signature
  | Call_allocate NetworkId Amount
  | Call_deallocate NetworkId Amount
  | Call_claim_deallocation NetworkId Session

datatype InvalidTransaction =
    Invalid_Custom nat
  | Invalid_Stale
  | Invalid_BadProof
  | Invalid_Call
  | Invalid_Future
  | Invalid_ExhaustsResources
  | Invalid_Panic

text \<open>The transaction's tag, and for how long it stays valid.\<close>

record ValidTransaction =
  provides :: "nat \<times> ValidatorSet"
  longevity :: u64

text \<open>The loop over the participants: all key shares, the signers and their key shares.\<close>

fun count_signers ::
  "(Public, u64) omap \<Rightarrow> Public list \<Rightarrow> Public list \<Rightarrow> u64 \<Rightarrow> Public list \<Rightarrow> u64 \<Rightarrow> (u64 \<times> Public list \<times> u64) option" where
  "count_signers in_set_shares removed [] all_key_shares signers signing_key_shares =
     Some (all_key_shares, signers, signing_key_shares)"
| "count_signers in_set_shares removed (participant # rest) all_key_shares signers signing_key_shares =
     Option.bind (om_get in_set_shares participant) (\<lambda>shares.
     if participant \<in> set removed
     then count_signers in_set_shares removed rest (all_key_shares + shares) signers signing_key_shares
     else count_signers in_set_shares removed rest (all_key_shares + shares) (signers @ [participant])
            (signing_key_shares + shares))"

definition validate_set_keys ::
  "vs_config \<Rightarrow> 'a vs_rt_scheme \<Rightarrow> NetworkId \<Rightarrow> Public list \<Rightarrow> KeyPair \<Rightarrow> Signature
   \<Rightarrow> InvalidTransaction + ValidTransaction" where
  "validate_set_keys cfg s net removed_participants key_pair signature =
     ensure (net \<noteq> NetworkId.Serai) (Invalid_Custom 0) (
     tri (ok_or (session s net) (Invalid_Custom 1)) (\<lambda>current_session.
     let vset = \<lparr>vs_session = current_session, vs_network = net\<rparr> in
     ensure (Keys s vset = None) Invalid_Stale (
     ensure (latest_decided_session s net = Some current_session) Invalid_Panic (
     ensure (distinct removed_participants) (Invalid_Custom 2) (
     tri (ok_or (Participants s net) Invalid_Panic) (\<lambda>participants.
     tri (ok_or (count_signers (InSet s net) removed_participants (map fst participants) 0 [] 0) Invalid_Panic)
       (\<lambda>(all_key_shares, signers, signing_key_shares).
     let f = all_key_shares - signing_key_shares in
     ensure (\<not> signing_key_shares < 2 * f + 1) (Invalid_Custom 3) (
     tri (ok_or (musig_key cfg vset signers) Invalid_Panic) (\<lambda>key.
     ensure (verify cfg key (set_keys_message vset removed_participants key_pair) signature) Invalid_BadProof (
     Inr \<lparr>provides = (0, vset), longevity = - 1\<rparr>))))))))))"

definition validate_report_slashes ::
  "vs_config \<Rightarrow> 'a vs_rt_scheme \<Rightarrow> NetworkId \<Rightarrow> (Public \<times> u32) list \<Rightarrow> Signature
   \<Rightarrow> InvalidTransaction + ValidTransaction \<times> 'a vs_rt_scheme" where
  "validate_report_slashes cfg s net slashes signature =
     ensure (net \<noteq> NetworkId.Serai) (Invalid_Custom 0) (
     tri (ok_or (PendingSlashReport s net) Invalid_Stale) (\<lambda>key.
     let s1 = s\<lparr>PendingSlashReport := (PendingSlashReport s)(net := None)\<rparr> in
     tri (ok_or (session s1 net) Invalid_Panic) (\<lambda>n.
     let vset = \<lparr>vs_session = n - 1, vs_network = net\<rparr> in
     ensure (verify cfg key (report_slashes_message vset slashes) signature) Invalid_BadProof (
     Inr (\<lparr>provides = (1, vset), longevity = ucast MAX_KEY_SHARES_PER_SET\<rparr>, s1)))))"

fun vs_validate_unsigned ::
  "vs_config \<Rightarrow> 'a vs_rt_scheme \<Rightarrow> VSCall \<Rightarrow> InvalidTransaction + ValidTransaction \<times> 'a vs_rt_scheme" where
  "vs_validate_unsigned cfg s (Call_set_keys net removed key_pair signature) =
     tri (validate_set_keys cfg s net removed key_pair signature) (\<lambda>v. Inr (v, s))"
| "vs_validate_unsigned cfg s (Call_report_slashes net slashes signature) =
     validate_report_slashes cfg s net slashes signature"
| "vs_validate_unsigned cfg s _ = Inl Invalid_Call"

definition vs_pre_dispatch :: "vs_config \<Rightarrow> 'a vs_rt_scheme \<Rightarrow> VSCall \<Rightarrow> InvalidTransaction + 'a vs_rt_scheme" where
  "vs_pre_dispatch cfg s call = tri (vs_validate_unsigned cfg s call) (\<lambda>(_, t). Inr t)"

section \<open>Interfaces to Babe and Grandpa\<close>

text \<open>A membership proof is the key it is about.\<close>

definition MembershipProof_session :: "'a vs_rt_scheme \<Rightarrow> Public \<Rightarrow> u32 option" where
  "MembershipProof_session s proof_key =
     map_option (\<lambda>current. if proof_key \<in> set (map fst (BabeAuthorities s)) then current else current - 1)
       (session s NetworkId.Serai)"

definition MembershipProof_validator_count :: "'a vs_rt_scheme \<Rightarrow> u32 option" where
  "MembershipProof_validator_count s =
     (if length (BabeAuthorities s) < 2 ^ 32 then Some (of_nat (length (BabeAuthorities s))) else None)"

definition prove :: "Public \<Rightarrow> Public option" where
  "prove key = Some key"

definition check_proof :: "'a vs_rt_scheme \<Rightarrow> Public \<Rightarrow> Public \<Rightarrow> Public option" where
  "check_proof s validator proof_key =
     (if validator \<noteq> proof_key then None
      else if \<not> can_slash_serai_validator s validator then None
      else Some validator)"

definition report_offence :: "vs_config \<Rightarrow> 'a vs_rt_scheme \<Rightarrow> Public \<Rightarrow> 'a vs_rt_scheme option" where
  "report_offence cfg s offender =
     Option.bind (slash_serai_validator cfg s offender) (\<lambda>s1.
     map_option snd (disable_serai_validator s1 offender))"

definition is_known_offence :: "'a vs_rt_scheme \<Rightarrow> Public list \<Rightarrow> bool" where
  "is_known_offence s offenders = list_all (\<lambda>offender. \<not> can_slash_serai_validator s offender) offenders"

text \<open>\<open>i\<close> is the index Babe finds in the digests.\<close>

definition find_author :: "'a vs_rt_scheme \<Rightarrow> u32 option \<Rightarrow> Public option option" where
  "find_author s found =
     (case found of
        None \<Rightarrow> Some None
      | Some i \<Rightarrow> map_option Some (slice_get (map fst (BabeAuthorities s)) (unat i)))"

definition is_disabled :: "'a vs_rt_scheme \<Rightarrow> u32 \<Rightarrow> bool" where
  "is_disabled s i = (om_get (SeraiDisabledIndices s) (to_le_bytes i) \<noteq> None)"

end
