(* ===== verification/In_Instructions.thy ===== *)
theory In_Instructions
  imports Validator_Sets_Calls
begin

text \<open>
  The in-instructions pallet (\<open>src/substrate/in-instructions\<close>): batches of instructions which the
  validator sets of external networks sign, their validation and their execution.

  The state extends the validator-sets pallet's. An instruction that fails leaves the state as it
  was, since it runs in a storage transaction of its own. An invalid batch leaves the state as it
  was too: the block builder discards what the validation wrote. A panic inside an instruction is
  not caught and ends the call with \<open>II_Panic\<close>.
\<close>

section \<open>Primitives\<close>

definition MAX_BATCH_SIZE :: nat where
  "MAX_BATCH_SIZE = 25000"

definition IN_INSTRUCTION_EXECUTOR :: Public where
  "IN_INSTRUCTION_EXECUTOR = (case system_address (ascii ''InInstructions-executor'') of Some a \<Rightarrow> a | None \<Rightarrow> 0)"

text \<open>The 32 bytes of a block hash, as those of a key.\<close>

type_synonym BlockHash = "256 word"

datatype OutAddress = OutAddress_Serai Public | OutAddress_External ExternalAddress

fun OutAddress_is_native :: "OutAddress \<Rightarrow> bool" where
  "OutAddress_is_native (OutAddress_Serai _) = True"
| "OutAddress_is_native (OutAddress_External _) = False"

fun as_native :: "OutAddress \<Rightarrow> Public option" where
  "as_native (OutAddress_Serai addr) = Some addr"
| "as_native (OutAddress_External _) = None"

fun as_external :: "OutAddress \<Rightarrow> ExternalAddress option" where
  "as_external (OutAddress_External addr) = Some addr"
| "as_external (OutAddress_Serai _) = None"

datatype DexCall = SwapAndAddLiquidity Public | Swap Balance OutAddress

datatype InInstruction = InInstruction_Transfer Public | InInstruction_Dex DexCall

record RefundableInInstruction =
  ri_origin :: "ExternalAddress option"
  ri_instruction :: InInstruction

record InInstructionWithBalance =
  ib_instruction :: InInstruction
  ib_balance :: Balance

record Batch =
  batch_network :: NetworkId
  batch_id :: u32
  batch_block :: BlockHash
  batch_instructions :: "InInstructionWithBalance list"

record SignedBatch =
  sb_batch :: Batch
  sb_signature :: Signature

datatype Shorthand =
    Shorthand_Raw RefundableInInstruction
  | Shorthand_Swap "ExternalAddress option" Coin Amount OutInstruction
  | Shorthand_SwapAndAddLiquidity "ExternalAddress option" Amount Amount Public

definition Shorthand_transfer :: "ExternalAddress option \<Rightarrow> Public \<Rightarrow> Shorthand" where
  "Shorthand_transfer org address =
     Shorthand_Raw \<lparr>ri_origin = org, ri_instruction = InInstruction_Transfer address\<rparr>"

text \<open>\<open>None\<close> is the panic of \<open>todo!()\<close>.\<close>

fun try_from_Shorthand :: "Shorthand \<Rightarrow> RefundableInInstruction option" where
  "try_from_Shorthand (Shorthand_Raw instruction) = Some instruction"
| "try_from_Shorthand (Shorthand_Swap _ _ _ _) = None"
| "try_from_Shorthand (Shorthand_SwapAndAddLiquidity _ _ _ _) = None"

subsection \<open>Encodings\<close>

fun encode_OutAddress :: "OutAddress \<Rightarrow> u8 list" where
  "encode_OutAddress (OutAddress_Serai a) = 0 # encode_Public a"
| "encode_OutAddress (OutAddress_External a) = 1 # encode_bytes a"

fun encode_DexCall :: "DexCall \<Rightarrow> u8 list" where
  "encode_DexCall (SwapAndAddLiquidity a) = 0 # encode_Public a"
| "encode_DexCall (Swap b out) = 1 # encode_Balance b @ encode_OutAddress out"

fun encode_InInstruction :: "InInstruction \<Rightarrow> u8 list" where
  "encode_InInstruction (InInstruction_Transfer a) = 0 # encode_Public a"
| "encode_InInstruction (InInstruction_Dex call) = 1 # encode_DexCall call"

definition encode_InInstructionWithBalance :: "InInstructionWithBalance \<Rightarrow> u8 list" where
  "encode_InInstructionWithBalance i = encode_InInstruction (ib_instruction i) @ encode_Balance (ib_balance i)"

definition encode_Batch :: "Batch \<Rightarrow> u8 list" where
  "encode_Batch b =
     encode_NetworkId (batch_network b) @ to_le_bytes (batch_id b) @ encode_Public (batch_block b) @
     encode_vec encode_InInstructionWithBalance (batch_instructions b)"

definition batch_message :: "Batch \<Rightarrow> u8 list" where
  "batch_message b = ascii ''InInstructions-batch'' @ encode_Batch b"

section \<open>State\<close>

datatype IIEvent =
    BatchEvent NetworkId u32 BlockHash "u8 list"
  | InstructionFailure NetworkId u32 u32
  | HaltEvent NetworkId

datatype IIError =
    InvalidAddressForCoin
  | II_Coins CoinsError
  | II_Dex DexError
  | II_BadOrigin
  | II_Panic

record ii_rt = vs_rt +
  LastBatch :: "NetworkId \<Rightarrow> u32 option"
  LastBatchBlock :: "NetworkId \<Rightarrow> u64 option"
  Halted :: "NetworkId \<Rightarrow> unit option"
  LatestNetworkBlock :: "NetworkId \<Rightarrow> BlockHash option"
  IIEvents :: "IIEvent list"

definition ii_deposit_event :: "'a ii_rt_scheme \<Rightarrow> IIEvent \<Rightarrow> 'a ii_rt_scheme" where
  "ii_deposit_event s e = s\<lparr>IIEvents := IIEvents s @ [e]\<rparr>"

section \<open>Instructions\<close>

text \<open>What the pallet calls of the coins and Dex pallets, on the shared state.\<close>

definition ii_mint :: "'a vs_rt_scheme \<Rightarrow> Public \<Rightarrow> Balance \<Rightarrow> IIError + 'a vs_rt_scheme" where
  "ii_mint s to b = tri (map_err II_Coins (mint (is_allowed s) (coins s) to b)) (\<lambda>c. Inr (s\<lparr>coins := c\<rparr>))"

definition ii_transfer :: "'a vs_rt_scheme \<Rightarrow> Public \<Rightarrow> Public \<Rightarrow> Balance \<Rightarrow> IIError + 'a vs_rt_scheme" where
  "ii_transfer s sender to b =
     tri (map_err II_Coins (transfer_internal (coins s) sender to b)) (\<lambda>c. Inr (s\<lparr>coins := c\<rparr>))"

definition ii_swap ::
  "dex_config \<Rightarrow> 'a vs_rt_scheme \<Rightarrow> Coin list \<Rightarrow> u64 \<Rightarrow> u64 \<Rightarrow> Public \<Rightarrow> IIError + 'a vs_rt_scheme" where
  "ii_swap cfg s path amount_in amount_out_min send_to =
     ensure (length path \<le> MaxSwapPathLength cfg) II_Panic (
     map_err II_Dex
       (swap_exact_tokens_for_tokens cfg s (Some IN_INSTRUCTION_EXECUTOR) path amount_in amount_out_min send_to))"

text \<open>Sending the executor's whole balance of a coin, unless it has none.\<close>

definition send_leftovers :: "'a vs_rt_scheme \<Rightarrow> Public \<Rightarrow> Coin \<Rightarrow> Amount \<Rightarrow> IIError + 'a vs_rt_scheme" where
  "send_leftovers s address coin amount =
     (if amount \<noteq> 0 then ii_transfer s IN_INSTRUCTION_EXECUTOR address \<lparr>bal_coin = coin, bal_amount = amount\<rparr>
      else Inr s)"

definition execute_swap_and_add_liquidity ::
  "dex_config \<Rightarrow> 'a vs_rt_scheme \<Rightarrow> Public \<Rightarrow> Balance \<Rightarrow> IIError + 'a vs_rt_scheme" where
  "execute_swap_and_add_liquidity cfg s address b =
     (let coin = bal_coin b in
      tri (ii_mint s IN_INSTRUCTION_EXECUTOR b) (\<lambda>s1.
      let half = bal_amount b div 2 in
      tri (ii_swap cfg s1 [coin, Coin.Serai] half 1 IN_INSTRUCTION_EXECUTOR) (\<lambda>s2.
      let sri_amount = balance (coins s2) IN_INSTRUCTION_EXECUTOR Coin.Serai in
      tri (map_err II_Dex
             (add_liquidity cfg s2 (Some IN_INSTRUCTION_EXECUTOR) coin half sri_amount 1 1 address)) (\<lambda>s3.
      let coin_balance = balance (coins s3) IN_INSTRUCTION_EXECUTOR coin;
          sri_balance = balance (coins s3) IN_INSTRUCTION_EXECUTOR Coin.Serai in
      tri (send_leftovers s3 address coin coin_balance) (\<lambda>s4.
      send_leftovers s4 address Coin.Serai sri_balance)))))"

definition execute_swap ::
  "dex_config \<Rightarrow> 'a vs_rt_scheme \<Rightarrow> Balance \<Rightarrow> OutAddress \<Rightarrow> Balance \<Rightarrow> IIError + 'a vs_rt_scheme" where
  "execute_swap cfg s out_balance out_address b =
     (let send_to_external = \<not> OutAddress_is_native out_address;
          native_coin = is_native (bal_coin out_balance) in
      ensure (\<not> (native_coin \<and> send_to_external)) InvalidAddressForCoin (
      tri (ii_mint s IN_INSTRUCTION_EXECUTOR b) (\<lambda>s1.
      let path = [bal_coin b, Coin.Serai] @ (if \<not> native_coin then [bal_coin out_balance] else []) in
      tri (if send_to_external then Inr IN_INSTRUCTION_EXECUTOR else ok_or (as_native out_address) II_Panic) (\<lambda>send_to.
      tri (ii_swap cfg s1 path (bal_amount b) (bal_amount out_balance) send_to) (\<lambda>s2.
      if send_to_external then
        let coin_balance = balance (coins s2) IN_INSTRUCTION_EXECUTOR (bal_coin out_balance) in
        tri (ok_or (as_external out_address) II_Panic) (\<lambda>address.
        tri (map_err II_Coins (burn_with_instruction False (coins s2) (Some IN_INSTRUCTION_EXECUTOR)
               \<lparr>oib_instruction = \<lparr>oi_address = address, oi_data = None\<rparr>,
                oib_balance = \<lparr>bal_coin = bal_coin out_balance, bal_amount = coin_balance\<rparr>\<rparr>))
          (\<lambda>c. Inr (s2\<lparr>coins := c\<rparr>)))
      else Inr s2)))))"

fun execute_instruction ::
  "dex_config \<Rightarrow> 'a vs_rt_scheme \<Rightarrow> InInstruction \<Rightarrow> Balance \<Rightarrow> IIError + 'a vs_rt_scheme" where
  "execute_instruction cfg s (InInstruction_Transfer address) b = ii_mint s address b"
| "execute_instruction cfg s (InInstruction_Dex (SwapAndAddLiquidity address)) b =
     execute_swap_and_add_liquidity cfg s address b"
| "execute_instruction cfg s (InInstruction_Dex (Swap out_balance out_address)) b =
     execute_swap cfg s out_balance out_address b"

definition execute :: "dex_config \<Rightarrow> 'a vs_rt_scheme \<Rightarrow> InInstructionWithBalance \<Rightarrow> IIError + 'a vs_rt_scheme" where
  "execute cfg s instruction = execute_instruction cfg s (ib_instruction instruction) (ib_balance instruction)"

text \<open>The errors which stand for a panic of the code.\<close>

definition ii_panics :: "IIError \<Rightarrow> bool" where
  "ii_panics e = (e \<in> {II_Panic, II_Coins Coins_Panic, II_Dex Dex_Panic, II_Dex (Dex_Coins Coins_Panic)})"

definition halt :: "'a ii_rt_scheme \<Rightarrow> NetworkId \<Rightarrow> 'a ii_rt_scheme" where
  "halt s net = ii_deposit_event (s\<lparr>Halted := (Halted s)(net \<mapsto> ())\<rparr>) (HaltEvent net)"

section \<open>Batches\<close>

text \<open>The loop over the instructions, from the index \<open>i\<close> on.\<close>

fun execute_instructions ::
  "dex_config \<Rightarrow> NetworkId \<Rightarrow> u32 \<Rightarrow> 'a ii_rt_scheme \<Rightarrow> nat \<Rightarrow> InInstructionWithBalance list
   \<Rightarrow> IIError + 'a ii_rt_scheme" where
  "execute_instructions cfg net n s i [] = Inr s"
| "execute_instructions cfg net n s i (instruction # rest) =
     (case execute cfg s instruction of
        Inr t \<Rightarrow> execute_instructions cfg net n t (i + 1) rest
      | Inl e \<Rightarrow>
          if ii_panics e \<or> \<not> i < 2 ^ 32 then Inl II_Panic
          else execute_instructions cfg net n (ii_deposit_event s (InstructionFailure net n (of_nat i))) (i + 1) rest)"

definition execute_batch ::
  "dex_config \<Rightarrow> 'a ii_rt_scheme \<Rightarrow> Public option \<Rightarrow> SignedBatch \<Rightarrow> IIError + 'a ii_rt_scheme" where
  "execute_batch cfg s signer sbatch =
     ensure (signer = None) II_BadOrigin (
     let batch = sb_batch sbatch;
         s1 = s\<lparr>LatestNetworkBlock := (LatestNetworkBlock s)(batch_network batch \<mapsto> batch_block batch)\<rparr>;
         s2 = ii_deposit_event s1 (BatchEvent (batch_network batch) (batch_id batch) (batch_block batch)
                (blake2_256 cfg (encode_vec encode_InInstructionWithBalance (batch_instructions batch)))) in
     execute_instructions cfg (batch_network batch) (batch_id batch) s2 0 (batch_instructions batch))"

definition keys_for_network ::
  "'a vs_rt_scheme \<Rightarrow> NetworkId \<Rightarrow> InvalidTransaction + Session \<times> Public option \<times> Public option" where
  "keys_for_network s net =
     tri (ok_or (session s net) Invalid_BadProof) (\<lambda>n.
     let latest = map_option fst (Keys s \<lparr>vs_session = n, vs_network = net\<rparr>);
         prior = (if n \<noteq> 0 then map_option fst (Keys s \<lparr>vs_session = n - 1, vs_network = net\<rparr>) else None) in
     ensure (\<not> (prior = None \<and> latest = None)) Invalid_BadProof (
     Inr (n, prior, latest)))"

definition signed_by :: "vs_config \<Rightarrow> Public option \<Rightarrow> u8 list \<Rightarrow> Signature \<Rightarrow> bool" where
  "signed_by vcfg key message signature = (case key of Some key \<Rightarrow> verify vcfg key message signature | None \<Rightarrow> False)"

text \<open>The transaction's tag is the network and the number of the batch; it is valid for ten blocks.\<close>

definition ii_validate_unsigned ::
  "vs_config \<Rightarrow> 'a ii_rt_scheme \<Rightarrow> SignedBatch
   \<Rightarrow> InvalidTransaction + ((NetworkId \<times> u32) \<times> u64) \<times> 'a ii_rt_scheme" where
  "ii_validate_unsigned vcfg s sbatch =
     (let batch = sb_batch sbatch; net = batch_network batch in
      ensure (\<not> length (encode_Batch batch) > MAX_BATCH_SIZE) Invalid_ExhaustsResources (
      ensure (net \<noteq> NetworkId.Serai) (Invalid_Custom 0) (
      tri (keys_for_network s net) (\<lambda>(current_session, prior, current).
      let message = batch_message batch;
          valid_by_prior = signed_by vcfg prior message (sb_signature sbatch);
          valid = (valid_by_prior \<or> signed_by vcfg current message (sb_signature sbatch)) in
      ensure valid Invalid_BadProof (
      ensure (Halted s net = None) (Invalid_Custom 1) (
      tri (if prior \<noteq> None \<and> \<not> valid_by_prior
           then ok_or (retire_set s \<lparr>vs_session = current_session - 1, vs_network = net\<rparr>) Invalid_Panic
           else Inr s) (\<lambda>s1.
      let current_block = block_number s1;
          last_block = (case LastBatchBlock s1 net of Some n \<Rightarrow> n | None \<Rightarrow> 0) in
      ensure (\<not> last_block \<ge> current_block) Invalid_Future (
      let s2 = s1\<lparr>LastBatchBlock := (LastBatchBlock s1)(net \<mapsto> block_number s1)\<rparr>;
          expected = (case LastBatch s2 net of None \<Rightarrow> 0 | Some prev \<Rightarrow> prev + 1) in
      ensure (\<not> batch_id batch < expected) Invalid_Stale (
      ensure (\<not> batch_id batch > expected) Invalid_Future (
      let s3 = s2\<lparr>LastBatch := (LastBatch s2)(net \<mapsto> batch_id batch)\<rparr> in
      ensure (list_all (\<lambda>i. network (bal_coin (ib_balance i)) = net) (batch_instructions batch)) (Invalid_Custom 2) (
      Inr (((net, batch_id batch), 10), s3))))))))))))"

definition ii_pre_dispatch :: "vs_config \<Rightarrow> 'a ii_rt_scheme \<Rightarrow> SignedBatch \<Rightarrow> InvalidTransaction + 'a ii_rt_scheme" where
  "ii_pre_dispatch vcfg s sbatch = tri (ii_validate_unsigned vcfg s sbatch) (\<lambda>(_, t). Inr t)"

end
