(* ===== verification/Signals.thy ===== *)
theory Signals
  imports In_Instructions
begin

text \<open>
  The signals pallet (\<open>src/substrate/signals\<close>): validators register and favor signals to retire the
  protocol or to halt a network; a signal that 80 percent of the stake favors is locked in or
  executed.

  The state extends the in-instructions pallet's. The votes of a signal are kept under their raw
  storage keys, a hash of the account and the account itself, since the tally walks them in the
  order of the keys.
\<close>

section \<open>State\<close>

text \<open>The 32 bytes of a signal's identifier and of a protocol.\<close>

type_synonym Hash = "256 word"

datatype SignalId = Retirement Hash | Halt NetworkId

record signals_config =
  RetirementValidityDuration :: u32
  RetirementLockInDuration :: u32

record RegisteredRetirementSignal =
  in_favor_of :: Hash
  registrant :: Public
  registered_at :: u64

definition encode_RegisteredRetirementSignal :: "RegisteredRetirementSignal \<Rightarrow> u8 list" where
  "encode_RegisteredRetirementSignal r =
     to_be_bytes (in_favor_of r) @ encode_Public (registrant r) @ to_le_bytes (registered_at r)"

definition RegisteredRetirementSignal_id :: "dex_config \<Rightarrow> RegisteredRetirementSignal \<Rightarrow> Hash" where
  "RegisteredRetirementSignal_id cfg r =
     from_be_bytes (take 32 (blake2_256 cfg (ascii ''Signal'' @ encode_RegisteredRetirementSignal r) @ replicate 32 0))"

datatype SignalsEvent =
    RetirementSignalRegistered Hash Hash Public
  | RetirementSignalRevoked Hash
  | SignalFavored SignalId Public NetworkId
  | SetInFavor SignalId ValidatorSet
  | RetirementSignalLockedInEvent Hash
  | SetNoLongerInFavor SignalId ValidatorSet
  | FavorRevoked SignalId Public NetworkId
  | AgainstSignal SignalId Public NetworkId

datatype SignalsError =
    RetirementSignalLockedIn
  | RetirementSignalAlreadyRegistered
  | NotRetirementSignalRegistrant
  | NonExistentRetirementSignal
  | ExpiredRetirementSignal
  | NotValidator
  | RevokingNonExistentFavor
  | Signals_BadOrigin
  | Signals_Panic

record signals_rt = ii_rt +
  RegisteredRetirementSignals :: "Hash \<Rightarrow> RegisteredRetirementSignal option"
  Favors :: "SignalId \<Rightarrow> NetworkId \<Rightarrow> (u8 list, unit) omap"
  SetsInFavor :: "SignalId \<Rightarrow> ValidatorSet \<Rightarrow> unit option"
  LockedInRetirement :: "(Hash \<times> u64) option"
  SignalsEvents :: "SignalsEvent list"

definition signals_deposit_event :: "'a signals_rt_scheme \<Rightarrow> SignalsEvent \<Rightarrow> 'a signals_rt_scheme" where
  "signals_deposit_event s e = s\<lparr>SignalsEvents := SignalsEvents s @ [e]\<rparr>"

text \<open>The genesis asserts that the validity duration is less than the lock-in duration.\<close>

definition signals_genesis_build :: "signals_config \<Rightarrow> 'a signals_rt_scheme \<Rightarrow> 'a signals_rt_scheme option" where
  "signals_genesis_build scfg s =
     (if RetirementValidityDuration scfg < RetirementLockInDuration scfg then Some s else None)"

section \<open>Tallies\<close>

definition REQUIREMENT_NUMERATOR :: u64 where "REQUIREMENT_NUMERATOR = 4"

definition REQUIREMENT_DIVISOR :: u64 where "REQUIREMENT_DIVISOR = 5"

definition div_ceil :: "u64 \<Rightarrow> u64 \<Rightarrow> u64" where
  "div_ceil x y = (if x mod y > 0 then x div y + 1 else x div y)"

text \<open>The raw key of a vote, after the constant prefix of the signal and the network.\<close>

definition favor_key :: "vs_config \<Rightarrow> Public \<Rightarrow> u8 list" where
  "favor_key vcfg account =
     take 16 (blake2_128 vcfg (encode_Public account) @ replicate 16 0) @ encode_Public account"

definition favor_account :: "u8 list \<Rightarrow> Public" where
  "favor_account key = from_be_bytes (drop (length key - 32) key)"

definition has_favor :: "vs_config \<Rightarrow> 'a signals_rt_scheme \<Rightarrow> SignalId \<Rightarrow> NetworkId \<Rightarrow> Public \<Rightarrow> bool" where
  "has_favor vcfg s signal_id net account = (om_get (Favors s signal_id net) (favor_key vcfg account) \<noteq> None)"

definition set_favors ::
  "'a signals_rt_scheme \<Rightarrow> SignalId \<Rightarrow> NetworkId \<Rightarrow> (u8 list, unit) omap \<Rightarrow> 'a signals_rt_scheme" where
  "set_favors s signal_id net m = s\<lparr>Favors := (Favors s)(signal_id := (Favors s signal_id)(net := m))\<rparr>"

text \<open>The loop over the votes: the favor still needed. \<open>None\<close> is the panic on a validator of the
  set without an allocation.\<close>

fun count_favors :: "'a vs_rt_scheme \<Rightarrow> NetworkId \<Rightarrow> u8 list list \<Rightarrow> u64 \<Rightarrow> u64 option" where
  "count_favors s net [] needed_favor = Some needed_favor"
| "count_favors s net (item_key # rest) needed_favor =
     (if needed_favor \<noteq> 0 then
        let account = favor_account item_key in
        if in_latest_decided_set s net account then
          Option.bind (Allocations s net account) (\<lambda>allocation.
          count_favors s net rest (saturating_sub needed_favor allocation))
        else count_favors s net rest needed_favor
      else Some needed_favor)"

definition tally_for_network ::
  "'a signals_rt_scheme \<Rightarrow> SignalId \<Rightarrow> NetworkId \<Rightarrow> (bool \<times> 'a signals_rt_scheme) option" where
  "tally_for_network s signal_id net =
     Option.bind (latest_decided_session s net) (\<lambda>this_network_session.
     let this_set = \<lparr>vs_session = this_network_session, vs_network = net\<rparr> in
     Option.bind (TotalAllocatedStake s net) (\<lambda>total.
     Option.bind (count_favors s net (map fst (Favors s signal_id net))
                    (div_ceil (total * REQUIREMENT_NUMERATOR) REQUIREMENT_DIVISOR)) (\<lambda>needed_favor.
     if needed_favor = 0 then
       Some (True,
         if SetsInFavor s signal_id this_set = None
         then signals_deposit_event
                (s\<lparr>SetsInFavor := (SetsInFavor s)(signal_id := (SetsInFavor s signal_id)(this_set \<mapsto> ()))\<rparr>)
                (SetInFavor signal_id this_set)
         else s)
     else
       Some (False,
         if SetsInFavor s signal_id this_set \<noteq> None
         then signals_deposit_event
                (s\<lparr>SetsInFavor := (SetsInFavor s)(signal_id := (SetsInFavor s signal_id)(this_set := None))\<rparr>)
                (SetNoLongerInFavor signal_id this_set)
         else s))))"

text \<open>The stake in favor of a signal and all stake, over the networks.\<close>

fun sum_stakes ::
  "'a signals_rt_scheme \<Rightarrow> SignalId \<Rightarrow> NetworkId list \<Rightarrow> u64 \<Rightarrow> u64 \<Rightarrow> (u64 \<times> u64) option" where
  "sum_stakes s signal_id [] total_in_favor_stake total_allocated_stake =
     Some (total_in_favor_stake, total_allocated_stake)"
| "sum_stakes s signal_id (net # rest) total_in_favor_stake total_allocated_stake =
     (case latest_decided_session s net of
        None \<Rightarrow> sum_stakes s signal_id rest total_in_favor_stake total_allocated_stake
      | Some n \<Rightarrow>
          Option.bind (TotalAllocatedStake s net) (\<lambda>network_stake.
          sum_stakes s signal_id rest
            (if SetsInFavor s signal_id \<lparr>vs_session = n, vs_network = net\<rparr> \<noteq> None
             then total_in_favor_stake + network_stake else total_in_favor_stake)
            (total_allocated_stake + network_stake)))"

definition tally_for_all_networks :: "'a signals_rt_scheme \<Rightarrow> SignalId \<Rightarrow> bool option" where
  "tally_for_all_networks s signal_id =
     map_option (\<lambda>(total_in_favor_stake, total_allocated_stake).
        total_in_favor_stake \<ge> div_ceil (total_allocated_stake * REQUIREMENT_NUMERATOR) REQUIREMENT_DIVISOR)
       (sum_stakes s signal_id NETWORKS 0 0)"

definition revoke_favor_internal ::
  "vs_config \<Rightarrow> 'a signals_rt_scheme \<Rightarrow> Public \<Rightarrow> SignalId \<Rightarrow> NetworkId \<Rightarrow> SignalsError + 'a signals_rt_scheme" where
  "revoke_favor_internal vcfg s account signal_id for_network =
     ensure (has_favor vcfg s signal_id for_network account) RevokingNonExistentFavor (
     let s1 = set_favors s signal_id for_network (om_remove (favor_key vcfg account) (Favors s signal_id for_network));
         s2 = signals_deposit_event s1 (FavorRevoked signal_id account for_network) in
     tri (ok_or (tally_for_network s2 signal_id for_network) Signals_Panic) (\<lambda>(_, s3). Inr s3))"

section \<open>Extrinsics\<close>

definition register_retirement_signal ::
  "dex_config \<Rightarrow> 'a signals_rt_scheme \<Rightarrow> Public option \<Rightarrow> Hash \<Rightarrow> SignalsError + 'a signals_rt_scheme" where
  "register_retirement_signal cfg s signer favored =
     ensure (LockedInRetirement s = None) RetirementSignalLockedIn (
     tri (ok_or signer Signals_BadOrigin) (\<lambda>account.
     let signal = \<lparr>in_favor_of = favored, registrant = account, registered_at = block_number s\<rparr>;
         signal_id = RegisteredRetirementSignal_id cfg signal in
     ensure (RegisteredRetirementSignals s signal_id = None) RetirementSignalAlreadyRegistered (
     let s1 = signals_deposit_event s (RetirementSignalRegistered signal_id favored account) in
     Inr (s1\<lparr>RegisteredRetirementSignals := (RegisteredRetirementSignals s1)(signal_id \<mapsto> signal)\<rparr>))))"

definition revoke_retirement_signal ::
  "'a signals_rt_scheme \<Rightarrow> Public option \<Rightarrow> Hash \<Rightarrow> SignalsError + 'a signals_rt_scheme" where
  "revoke_retirement_signal s signer retirement_signal_id =
     tri (ok_or signer Signals_BadOrigin) (\<lambda>account.
     tri (ok_or (RegisteredRetirementSignals s retirement_signal_id) NonExistentRetirementSignal) (\<lambda>registered_signal.
     ensure (account = registrant registered_signal) NotRetirementSignalRegistrant (
     let s1 = s\<lparr>RegisteredRetirementSignals := (RegisteredRetirementSignals s)(retirement_signal_id := None)\<rparr>;
         s2 = (if map_option fst (LockedInRetirement s1) = Some retirement_signal_id
               then s1\<lparr>LockedInRetirement := None\<rparr> else s1) in
     Inr (signals_deposit_event s2 (RetirementSignalRevoked retirement_signal_id)))))"

text \<open>The checks of \<open>favor\<close> on a retirement signal.\<close>

fun check_signal :: "signals_config \<Rightarrow> 'a signals_rt_scheme \<Rightarrow> SignalId \<Rightarrow> SignalsError + unit" where
  "check_signal scfg s (Retirement signal_id) =
     ensure (LockedInRetirement s = None) RetirementSignalLockedIn (
     tri (ok_or (RegisteredRetirementSignals s signal_id) NonExistentRetirementSignal) (\<lambda>registered_signal.
     ensure (\<not> registered_at registered_signal + ucast (RetirementValidityDuration scfg) < block_number s)
       ExpiredRetirementSignal (Inr ())))"
| "check_signal scfg s (Halt net) = Inr ()"

text \<open>Locking in a retirement, or halting a network.\<close>

fun enact_signal :: "signals_config \<Rightarrow> 'a signals_rt_scheme \<Rightarrow> SignalId \<Rightarrow> 'a signals_rt_scheme" where
  "enact_signal scfg s (Retirement signal_id) =
     signals_deposit_event
       (s\<lparr>LockedInRetirement := Some (signal_id, block_number s + ucast (RetirementLockInDuration scfg))\<rparr>)
       (RetirementSignalLockedInEvent signal_id)"
| "enact_signal scfg s (Halt net) = halt s net"

definition favor ::
  "signals_config \<Rightarrow> vs_config \<Rightarrow> 'a signals_rt_scheme \<Rightarrow> Public option \<Rightarrow> SignalId \<Rightarrow> NetworkId
   \<Rightarrow> SignalsError + 'a signals_rt_scheme" where
  "favor scfg vcfg s signer signal_id for_network =
     tri (ok_or signer Signals_BadOrigin) (\<lambda>account.
     tri (check_signal scfg s signal_id) (\<lambda>_.
     ensure (in_latest_decided_set s for_network account) NotValidator (
     let s1 = (if \<not> has_favor vcfg s signal_id for_network account
               then signals_deposit_event
                      (set_favors s signal_id for_network (om_set (favor_key vcfg account) () (Favors s signal_id for_network)))
                      (SignalFavored signal_id account for_network)
               else s) in
     tri (ok_or (tally_for_network s1 signal_id for_network) Signals_Panic) (\<lambda>(network_in_favor, s2).
     if network_in_favor then
       tri (ok_or (tally_for_all_networks s2 signal_id) Signals_Panic) (\<lambda>in_favor.
       Inr (if in_favor then enact_signal scfg s2 signal_id else s2))
     else Inr s2))))"

definition revoke_favor ::
  "vs_config \<Rightarrow> 'a signals_rt_scheme \<Rightarrow> Public option \<Rightarrow> SignalId \<Rightarrow> NetworkId
   \<Rightarrow> SignalsError + 'a signals_rt_scheme" where
  "revoke_favor vcfg s signer signal_id for_network =
     ensure (\<not> ((case signal_id of Retirement _ \<Rightarrow> True | Halt _ \<Rightarrow> False) \<and> LockedInRetirement s \<noteq> None))
       RetirementSignalLockedIn (
     tri (ok_or signer Signals_BadOrigin) (\<lambda>account.
     revoke_favor_internal vcfg s account signal_id for_network))"

definition stand_against ::
  "vs_config \<Rightarrow> 'a signals_rt_scheme \<Rightarrow> Public option \<Rightarrow> SignalId \<Rightarrow> NetworkId
   \<Rightarrow> SignalsError + 'a signals_rt_scheme" where
  "stand_against vcfg s signer signal_id for_network =
     ensure (LockedInRetirement s = None) RetirementSignalLockedIn (
     tri (ok_or signer Signals_BadOrigin) (\<lambda>account.
     tri (if has_favor vcfg s signal_id for_network account
          then revoke_favor_internal vcfg s account signal_id for_network
          else case signal_id of
                 Retirement h \<Rightarrow>
                   ensure (RegisteredRetirementSignals s h \<noteq> None) NonExistentRetirementSignal (Inr s)
               | Halt _ \<Rightarrow> Inr s) (\<lambda>s1.
     Inr (signals_deposit_event s1 (AgainstSignal signal_id account for_network)))))"

text \<open>\<open>None\<close> is the panic that halts the chain.\<close>

definition signals_on_initialize :: "'a signals_rt_scheme \<Rightarrow> u64 \<Rightarrow> 'a signals_rt_scheme option" where
  "signals_on_initialize s current_number =
     (case LockedInRetirement s of
        Some (signal, n) \<Rightarrow> if n = current_number then None else Some s
      | None \<Rightarrow> Some s)"

end
