(* ===== verification/Messages.thy ===== *)
theory Messages
  imports Signals
begin

text \<open>
  The messages that validators sign (\<open>set_keys_message\<close>, \<open>report_slashes_message\<close> and
  \<open>batch_message\<close>): their encodings determine what is signed, so that a signature made for one
  message is no signature for another.
\<close>

section \<open>Prefix-free encodings on a part of a type\<close>

text \<open>
  Sequences have lengths within the bounds of the source's types; the encodings are prefix-free on
  values within them.
\<close>

definition prefix_free_on :: "('a \<Rightarrow> bool) \<Rightarrow> ('a \<Rightarrow> u8 list) \<Rightarrow> bool" where
  "prefix_free_on P enc = (\<forall>x y r t. P x \<longrightarrow> P y \<longrightarrow> enc x @ r = enc y @ t \<longrightarrow> x = y \<and> r = t)"

lemma prefix_free_onI:
  "(\<And>x y r t. P x \<Longrightarrow> P y \<Longrightarrow> enc x @ r = enc y @ t \<Longrightarrow> x = y \<and> r = t) \<Longrightarrow> prefix_free_on P enc"
  unfolding prefix_free_on_def by blast

lemma prefix_free_onD:
  "prefix_free_on P enc \<Longrightarrow> P x \<Longrightarrow> P y \<Longrightarrow> enc x @ r = enc y @ t \<longleftrightarrow> x = y \<and> r = t"
  unfolding prefix_free_on_def by blast

lemma prefix_free_on_le64: "to_le_bytes (x :: u64) @ r = to_le_bytes y @ t \<longleftrightarrow> x = y \<and> r = t"
  by (rule prefix_freeD [OF prefix_free_le]) simp

lemma prefix_free_on_le32: "to_le_bytes (x :: u32) @ r = to_le_bytes y @ t \<longleftrightarrow> x = y \<and> r = t"
  by (rule prefix_freeD [OF prefix_free_le]) simp

lemmas fixed_prefix =
  prefix_freeD [OF prefix_free_Public] prefix_freeD [OF prefix_free_Balance]
  prefix_freeD [OF prefix_free_NetworkId] prefix_free_on_le64 prefix_free_on_le32

lemma concat_prefix_free_on:
  assumes "prefix_free_on P enc" and "length xs = length ys" and "list_all P xs" and "list_all P ys"
    and "concat (map enc xs) @ r = concat (map enc ys) @ t"
  shows "xs = ys \<and> r = t"
  using assms(2-5)
proof (induction xs ys rule: list_induct2)
  case (Cons x xs y ys)
  then show ?case by (simp add: prefix_free_onD [OF assms(1)])
qed simp

lemma encode_vec_prefix_free_on:
  assumes "prefix_free_on P enc"
  shows "prefix_free_on (\<lambda>xs. length xs < 2 ^ 30 \<and> list_all P xs) (encode_vec enc)"
proof (rule prefix_free_onI)
  fix xs ys r t
  assume xs: "length xs < 2 ^ 30 \<and> list_all P xs" and ys: "length ys < 2 ^ 30 \<and> list_all P ys"
    and "encode_vec enc xs @ r = encode_vec enc ys @ t"
  then have eq: "compact (length xs) @ concat (map enc xs) @ r = compact (length ys) @ concat (map enc ys) @ t"
    by (simp add: encode_vec_def)
  have "length xs = length ys" "concat (map enc xs) @ r = concat (map enc ys) @ t"
    using compact_prefix_free [OF _ _ eq] xs ys by simp_all
  then show "xs = ys \<and> r = t" using concat_prefix_free_on [OF assms] xs ys by blast
qed

lemma encode_bytes_prefix_free_on: "prefix_free_on (\<lambda>bs. length bs < 2 ^ 30) encode_bytes"
proof (rule prefix_free_onI)
  fix x y r t
  assume len: "length x < 2 ^ 30" "length y < 2 ^ 30" and eq: "encode_bytes x @ r = encode_bytes y @ t"
  have "prefix_free_on (\<lambda>_. True) (\<lambda>b :: u8. [b])" by (rule prefix_free_onI) simp
  from prefix_free_onD [OF encode_vec_prefix_free_on [OF this], of x y r t] len eq
  show "x = y \<and> r = t" by (simp add: encode_bytes_def list.pred_True)
qed

section \<open>Well-formed values\<close>

text \<open>External addresses and keys are bounded, and a batch of more than \<open>MAX_BATCH_SIZE\<close> bytes is
  not signed.\<close>

fun out_address_wf :: "OutAddress \<Rightarrow> bool" where
  "out_address_wf (OutAddress_Serai _) = True"
| "out_address_wf (OutAddress_External a) = (length a \<le> MAX_ADDRESS_LEN)"

fun instruction_wf :: "InInstruction \<Rightarrow> bool" where
  "instruction_wf (InInstruction_Dex (Swap _ out)) = out_address_wf out"
| "instruction_wf _ = True"

definition batch_wf :: "Batch \<Rightarrow> bool" where
  "batch_wf b = (length (batch_instructions b) < 2 ^ 30 \<and>
     list_all (\<lambda>i. instruction_wf (ib_instruction i)) (batch_instructions b))"

lemma address_prefix:
  assumes "length x \<le> MAX_ADDRESS_LEN" and "length y \<le> MAX_ADDRESS_LEN"
  shows "encode_bytes x @ r = encode_bytes y @ t \<longleftrightarrow> x = y \<and> r = t"
  by (rule prefix_free_onD [OF encode_bytes_prefix_free_on]) (use assms in \<open>simp_all add: MAX_ADDRESS_LEN_def\<close>)

lemma out_address_prefix_free: "prefix_free_on out_address_wf encode_OutAddress"
proof (rule prefix_free_onI)
  fix x y r t
  assume "out_address_wf x" "out_address_wf y" "encode_OutAddress x @ r = encode_OutAddress y @ t"
  then show "x = y \<and> r = t"
    by (cases x; cases y)
      (simp_all add: fixed_prefix address_prefix)
qed

lemma in_instruction_prefix_free: "prefix_free_on instruction_wf encode_InInstruction"
proof (rule prefix_free_onI)
  fix x y r t
  assume "instruction_wf x" "instruction_wf y" "encode_InInstruction x @ r = encode_InInstruction y @ t"
  then show "x = y \<and> r = t"
    by (cases x rule: instruction_wf.cases; cases y rule: instruction_wf.cases)
      (auto simp: fixed_prefix prefix_free_onD [OF out_address_prefix_free])
qed

lemma with_balance_prefix_free:
  "prefix_free_on (\<lambda>i. instruction_wf (ib_instruction i)) encode_InInstructionWithBalance"
proof (rule prefix_free_onI)
  fix x y :: InInstructionWithBalance and r t
  assume "instruction_wf (ib_instruction x)" "instruction_wf (ib_instruction y)"
    "encode_InInstructionWithBalance x @ r = encode_InInstructionWithBalance y @ t"
  then show "x = y \<and> r = t"
    by (simp add: encode_InInstructionWithBalance_def prefix_free_onD [OF in_instruction_prefix_free] fixed_prefix)
qed

lemma batch_prefix_free: "prefix_free_on batch_wf encode_Batch"
proof (rule prefix_free_onI)
  fix x y :: Batch and r t
  assume "batch_wf x" "batch_wf y" "encode_Batch x @ r = encode_Batch y @ t"
  then show "x = y \<and> r = t"
    by (simp add: encode_Batch_def fixed_prefix batch_wf_def
        prefix_free_onD [OF encode_vec_prefix_free_on [OF with_balance_prefix_free]])
qed

lemma validator_set_prefix: "encode_ValidatorSet x @ r = encode_ValidatorSet y @ t \<longleftrightarrow> x = y \<and> r = t"
  by (auto simp: encode_ValidatorSet_def fixed_prefix)

section \<open>Signed messages\<close>

datatype signed_message =
    SetKeysMessage ValidatorSet "Public list" KeyPair
  | ReportSlashesMessage ValidatorSet "(Public \<times> u32) list"
  | BatchMessage Batch

fun message_bytes :: "signed_message \<Rightarrow> u8 list" where
  "message_bytes (SetKeysMessage vset removed_participants key_pair) = set_keys_message vset removed_participants key_pair"
| "message_bytes (ReportSlashesMessage vset slashes) = report_slashes_message vset slashes"
| "message_bytes (BatchMessage batch) = batch_message batch"

fun message_wf :: "signed_message \<Rightarrow> bool" where
  "message_wf (SetKeysMessage vset removed_participants key_pair) =
     (length removed_participants < 2 ^ 30 \<and> length (snd key_pair) \<le> unat MAX_KEY_LEN)"
| "message_wf (ReportSlashesMessage vset slashes) = (length slashes \<le> unat MAX_KEY_SHARES_PER_SET div 3)"
| "message_wf (BatchMessage batch) = batch_wf batch"

lemma set_keys_message_inject:
  assumes "message_wf (SetKeysMessage v ps k)" and "message_wf (SetKeysMessage w qs l)"
    and "set_keys_message v ps k = set_keys_message w qs l"
  shows "v = w \<and> ps = qs \<and> k = l"
proof -
  have vec: "prefix_free_on (\<lambda>xs. length xs < 2 ^ 30 \<and> list_all (\<lambda>_. True) xs) (encode_vec encode_Public)"
    by (rule encode_vec_prefix_free_on, rule prefix_free_onI) (simp add: fixed_prefix)
  have bytes: "encode_bytes x = encode_bytes y \<longleftrightarrow> x = y" if "length x < 2 ^ 30" "length y < 2 ^ 30" for x y
    using prefix_free_onD [OF encode_bytes_prefix_free_on that, of "[]" "[]"] by simp
  from assms show ?thesis
    by (simp add: set_keys_message_def validator_set_prefix prefix_free_onD [OF vec] list.pred_True
        encode_KeyPair_def fixed_prefix bytes MAX_KEY_LEN_def prod_eq_iff split: prod.splits)
qed

lemma report_slashes_message_inject:
  assumes "message_wf (ReportSlashesMessage v xs)" and "message_wf (ReportSlashesMessage w ys)"
    and "report_slashes_message v xs = report_slashes_message w ys"
  shows "v = w \<and> xs = ys"
proof -
  let ?enc = "\<lambda>(key :: Public, points :: u32). encode_Public key @ to_le_bytes points"
  have vec: "prefix_free_on (\<lambda>xs. length xs < 2 ^ 30 \<and> list_all (\<lambda>_. True) xs) (encode_vec ?enc)"
    by (rule encode_vec_prefix_free_on, rule prefix_free_onI) (auto simp: fixed_prefix)
  have len: "length xs < 2 ^ 30" "length ys < 2 ^ 30" using assms(1,2) by (simp_all add: MAX_KEY_SHARES_PER_SET_def)
  from assms(3) have "v = w" "encode_vec ?enc xs = encode_vec ?enc ys"
    by (simp_all add: report_slashes_message_def validator_set_prefix)
  then show ?thesis using prefix_free_onD [OF vec, of xs ys "[]" "[]"] len by (simp add: list.pred_True)
qed

lemma batch_message_inject: "batch_wf x \<Longrightarrow> batch_wf y \<Longrightarrow> batch_message x = batch_message y \<Longrightarrow> x = y"
  using prefix_free_onD [OF batch_prefix_free, of x y "[]" "[]"] by (simp add: batch_message_def)

text \<open>
  C24: the messages validators sign cannot be confused: two of them, of whichever of the three kinds
  and within the bounds of their types, with the same bytes are the same message. A signature on
  new keys is never one on a slash report or on a batch, and it covers every part of the message.
\<close>

theorem signed_messages_unambiguous:
  assumes "message_wf m" and "message_wf n" and "message_bytes m = message_bytes n"
  shows "m = n"
proof (cases m; cases n)
  fix v ps k w qs l assume "m = SetKeysMessage v ps k" "n = SetKeysMessage w qs l"
  with assms show ?thesis using set_keys_message_inject [of v ps k w qs l] by simp
next
  fix v xs w ys assume "m = ReportSlashesMessage v xs" "n = ReportSlashesMessage w ys"
  with assms show ?thesis using report_slashes_message_inject [of v xs w ys] by simp
next
  fix x y assume "m = BatchMessage x" "n = BatchMessage y"
  with assms show ?thesis using batch_message_inject [of x y] by simp
qed (use assms in \<open>simp_all add: set_keys_message_def report_slashes_message_def batch_message_def ascii_def\<close>)

theorem signed_messages_unambiguous_witness:
  "message_bytes (SetKeysMessage \<lparr>vs_session = 1, vs_network = NetworkId.Bitcoin\<rparr> [3] (5, [6])) \<noteq>
   message_bytes (SetKeysMessage \<lparr>vs_session = 2, vs_network = NetworkId.Bitcoin\<rparr> [3] (5, [6]))"
proof
  assume "message_bytes (SetKeysMessage \<lparr>vs_session = 1, vs_network = NetworkId.Bitcoin\<rparr> [3] (5, [6])) =
    message_bytes (SetKeysMessage \<lparr>vs_session = 2, vs_network = NetworkId.Bitcoin\<rparr> [3] (5, [6]))"
  from signed_messages_unambiguous [OF _ _ this] show False by (simp add: MAX_KEY_LEN_def)
qed

end
