(* ===== verification/Validator_Sets_Alloc.thy ===== *)
theory Validator_Sets_Alloc
  imports Validator_Sets_Calls
begin

text \<open>
  The allocations and their sorted view: \<open>set_allocation\<close> keeps the two in step, and iterating the
  raw storage keys yields exactly the allocations of a network, the highest first.
\<close>

section \<open>Sorted keys\<close>

lemma encode_NetworkId_single: "\<exists>b. encode_NetworkId net = [b]"
  by (cases net) simp_all

lemma length_encode_NetworkId [simp]: "length (encode_NetworkId net) = 1"
  by (cases net) simp_all

lemma length_reverse [simp]: "length (reverse_lexicographic_order bs) = length bs"
  by (simp add: reverse_lexicographic_order_def)

lemma length_encode_Public [simp]: "length (encode_Public key) = 32"
  by (simp add: encode_Public_def)

lemma sorted_key_parts:
  obtains hash where "sorted_allocation_key cfg net key amount =
      encode_NetworkId net @ reverse_lexicographic_order (to_be_bytes amount) @ hash @ encode_Public key"
    and "length hash = 16"
  by (rule that [of "take 16 (blake2_128 cfg (encode_NetworkId net @ reverse_lexicographic_order (to_be_bytes amount)
    @ encode_Public key) @ replicate 16 0)"]) (simp_all add: sorted_allocation_key_def Let_def)

lemma recover_key [simp]:
  "recover_key_from_sorted_allocation_key (sorted_allocation_key cfg net key amount) = key"
proof -
  obtain hash where "sorted_allocation_key cfg net key amount =
      encode_NetworkId net @ reverse_lexicographic_order (to_be_bytes amount) @ hash @ encode_Public key"
    and "length hash = 16" by (rule sorted_key_parts)
  then show ?thesis
    by (simp add: recover_key_from_sorted_allocation_key_def encode_Public_def from_to_be)
qed

lemma recover_amount [simp]:
  "recover_amount_from_sorted_allocation_key (sorted_allocation_key cfg net key amount) = amount"
proof -
  obtain hash where "sorted_allocation_key cfg net key amount =
      encode_NetworkId net @ reverse_lexicographic_order (to_be_bytes amount) @ hash @ encode_Public key"
    and "length hash = 16" by (rule sorted_key_parts)
  then show ?thesis
    by (simp add: recover_amount_from_sorted_allocation_key_def reverse_lexicographic_order_def comp_def)
qed

lemma length_sorted_key [simp]: "length (sorted_allocation_key cfg net key amount) = 57"
  by (simp add: sorted_allocation_key_def Let_def)

lemma sorted_key_network [simp]: "take (Suc 0) (sorted_allocation_key cfg net key amount) = encode_NetworkId net"
  using encode_NetworkId_single [of net] by (auto simp: sorted_allocation_key_def Let_def)

lemma sorted_key_inject [simp]:
  "sorted_allocation_key cfg net key a = sorted_allocation_key cfg net' key' a' \<longleftrightarrow> net = net' \<and> key = key' \<and> a = a'"
  by (metis encode_NetworkId_inject recover_amount recover_key sorted_key_network)

text \<open>Among the keys of one network, a lower key means a higher or equal amount.\<close>

lemma append_less_same_length:
  fixes xs ys :: "'a::linorder list"
  shows "length xs = length ys \<Longrightarrow> xs @ r < ys @ t \<Longrightarrow> xs \<le> ys"
  by (induction xs ys rule: list_induct2) auto

lemma sorted_key_order:
  assumes "sorted_allocation_key cfg net key a < sorted_allocation_key cfg' net key' a'"
  shows "a' \<le> a"
proof -
  obtain h h' where "sorted_allocation_key cfg net key a =
      encode_NetworkId net @ reverse_lexicographic_order (to_be_bytes a) @ h @ encode_Public key"
    and "sorted_allocation_key cfg' net key' a' =
      encode_NetworkId net @ reverse_lexicographic_order (to_be_bytes a') @ h' @ encode_Public key'"
    by (metis sorted_key_parts)
  with assms obtain b where "b # reverse_lexicographic_order (to_be_bytes a) @ h @ encode_Public key
      < b # reverse_lexicographic_order (to_be_bytes a') @ h' @ encode_Public key'"
    using encode_NetworkId_single [of net] by auto
  then have "reverse_lexicographic_order (to_be_bytes a) \<le> reverse_lexicographic_order (to_be_bytes a')"
    by (intro append_less_same_length) auto
  then have "\<not> reverse_lexicographic_order (to_be_bytes a') < reverse_lexicographic_order (to_be_bytes a)" by simp
  then show ?thesis by (simp add: reverse_lexicographic_order_less)
qed

section \<open>Iteration\<close>

lemma om_next_filter:
  "om_next m k = (case filter (\<lambda>x. k < x) (map fst m) of [] \<Rightarrow> None | x # _ \<Rightarrow> Some x)"
  by (induction m k rule: om_next.induct) auto

lemma filter_greater_sorted:
  fixes k :: "'k::linorder"
  assumes "sorted_wrt (<) ks" and "filter (\<lambda>x. k < x) ks = x # xs"
  shows "filter (\<lambda>y. x < y) ks = xs"
  using assms
proof (induction ks)
  case (Cons a ks)
  show ?case
  proof (cases "k < a")
    case True
    then have "x = a" "xs = filter (\<lambda>y. k < y) ks" using Cons.prems by auto
    moreover have "filter (\<lambda>y. k < y) ks = ks" "filter (\<lambda>y. a < y) ks = ks"
      using Cons.prems(1) True by (auto simp: filter_id_conv)
    ultimately show ?thesis by simp
  next
    case False
    then have "x \<in> set ks" using Cons.prems(2) by (auto dest: filter_eq_ConsD)
    then have "a < x" using Cons.prems(1) by auto
    then show ?thesis using Cons False by auto
  qed
qed simp

lemma sorted_allocations_from_eq:
  assumes "om_wf m"
  shows "sorted_allocations_from m pre lst =
    map (\<lambda>k. (recover_key_from_sorted_allocation_key k, recover_amount_from_sorted_allocation_key k))
      (takeWhile (\<lambda>k. take (length pre) k = pre) (filter (\<lambda>k. lst < k) (map fst m)))"
  using assms
proof (induction m pre lst rule: sorted_allocations_from.induct)
  case (1 m pre lst)
  show ?case
  proof (cases "filter (\<lambda>k. lst < k) (map fst m)")
    case Nil
    then show ?thesis by (simp add: sorted_allocations_from.simps [of m pre lst] om_next_filter)
  next
    case (Cons x xs)
    have nx: "om_next m lst = Some x" by (simp add: om_next_filter Cons)
    have xs: "filter (\<lambda>k. x < k) (map fst m) = xs"
      using filter_greater_sorted [OF _ Cons] "1.prems" by (simp add: om_wf_def)
    show ?thesis
    proof (cases "take (length pre) x = pre")
      case False
      then show ?thesis by (simp add: sorted_allocations_from.simps [of m pre lst] nx Cons)
    next
      case True
      then show ?thesis
        using "1.IH" [OF nx] "1.prems" xs
        by (simp add: sorted_allocations_from.simps [of m pre lst] nx Cons)
    qed
  qed
qed

lemma takeWhile_prefix:
  fixes b :: u8
  assumes "sorted_wrt (<) ks" and "\<forall>k \<in> set ks. [b] < k"
  shows "takeWhile (\<lambda>k. take 1 k = [b]) ks = filter (\<lambda>k. take 1 k = [b]) ks"
  using assms
proof (induction ks)
  case (Cons k ks)
  show ?case
  proof (cases "take 1 k = [b]")
    case False
    obtain c cs where k: "k = c # cs" using Cons.prems(2) by (cases k) auto
    then have "b < c" using Cons.prems(2) False by auto
    have "take 1 y \<noteq> [b]" if "y \<in> set ks" for y
    proof -
      have "k < y" using Cons.prems(1) that by simp
      then show ?thesis using k \<open>b < c\<close> by (cases y) auto
    qed
    then show ?thesis using False by (simp add: filter_empty_conv)
  qed (use Cons in simp)
qed simp

section \<open>The two views of the allocations\<close>

definition allocation_keys :: "vs_config \<Rightarrow> (NetworkId \<Rightarrow> Public \<Rightarrow> Amount option) \<Rightarrow> u8 list set" where
  "allocation_keys cfg allocs = {sorted_allocation_key cfg net key a |net key a. allocs net key = Some a}"

definition alloc_sync :: "vs_config \<Rightarrow> 'a vs_rt_scheme \<Rightarrow> bool" where
  "alloc_sync cfg s =
     (om_wf (SortedAllocations s) \<and> om_keys (SortedAllocations s) = allocation_keys cfg (Allocations s) \<and>
      (\<forall>net key. Allocations s net key \<noteq> Some 0))"

lemma allocation_keys_remove:
  "allocation_keys cfg (allocs(net := (allocs net)(key := None))) =
     allocation_keys cfg allocs - (case allocs net key of None \<Rightarrow> {} | Some a \<Rightarrow> {sorted_allocation_key cfg net key a})"
  (is "?l = ?r")
proof (rule set_eqI)
  fix x
  show "x \<in> ?l \<longleftrightarrow> x \<in> ?r"
  proof
    assume "x \<in> ?l"
    then obtain n k a where "x = sorted_allocation_key cfg n k a" "(allocs(net := (allocs net)(key := None))) n k = Some a"
      by (auto simp: allocation_keys_def)
    then show "x \<in> ?r" by (auto simp: allocation_keys_def split: if_splits option.splits)
  next
    assume "x \<in> ?r"
    then obtain n k a where x: "x = sorted_allocation_key cfg n k a" "allocs n k = Some a"
      and "x \<notin> (case allocs net key of None \<Rightarrow> {} | Some a \<Rightarrow> {sorted_allocation_key cfg net key a})"
      by (auto simp: allocation_keys_def)
    then have "(allocs(net := (allocs net)(key := None))) n k = Some a" by auto
    then show "x \<in> ?l" using x unfolding allocation_keys_def by blast
  qed
qed

lemma allocation_keys_set:
  "allocs net key = None \<Longrightarrow> allocation_keys cfg (allocs(net := (allocs net)(key \<mapsto> a))) =
     insert (sorted_allocation_key cfg net key a) (allocation_keys cfg allocs)"
  by (auto simp: allocation_keys_def split: if_splits) (metis option.distinct(1))+

text \<open>\<open>set_allocation\<close> as one update of the two views.\<close>

lemma set_allocation_eq:
  "set_allocation cfg s net key amount =
     (Allocations s net key \<noteq> None,
      s\<lparr>Allocations := (Allocations s)(net := (Allocations s net)(key := if amount = 0 then None else Some amount)),
        SortedAllocations :=
          (let m = (case Allocations s net key of None \<Rightarrow> SortedAllocations s
                    | Some old \<Rightarrow> om_remove (sorted_allocation_key cfg net key old) (SortedAllocations s))
           in if amount = 0 then m else om_set (sorted_allocation_key cfg net key amount) () m)\<rparr>)"
  by (cases "Allocations s net key") (simp_all add: set_allocation_def Let_def)

lemma set_allocation_simps [simp]:
  "Allocations (snd (set_allocation cfg s net key amount)) =
     (Allocations s)(net := (Allocations s net)(key := if amount = 0 then None else Some amount))"
  "CurrentSession (snd (set_allocation cfg s net key amount)) = CurrentSession s"
  "AllocationPerKeyShare (snd (set_allocation cfg s net key amount)) = AllocationPerKeyShare s"
  "InSet (snd (set_allocation cfg s net key amount)) = InSet s"
  "Participants (snd (set_allocation cfg s net key amount)) = Participants s"
  "TotalAllocatedStake (snd (set_allocation cfg s net key amount)) = TotalAllocatedStake s"
  "PendingDeallocations (snd (set_allocation cfg s net key amount)) = PendingDeallocations s"
  "Keys (snd (set_allocation cfg s net key amount)) = Keys s"
  "coins (snd (set_allocation cfg s net key amount)) = coins s"
  "BabeAuthorities (snd (set_allocation cfg s net key amount)) = BabeAuthorities s"
  "SecurityOracleValue (snd (set_allocation cfg s net key amount)) = SecurityOracleValue s"
  by (simp_all add: set_allocation_eq)

lemma set_allocation_sync:
  assumes "alloc_sync cfg s"
  shows "alloc_sync cfg (snd (set_allocation cfg s net key amount))"
proof -
  let ?m = "case Allocations s net key of None \<Rightarrow> SortedAllocations s
                    | Some old \<Rightarrow> om_remove (sorted_allocation_key cfg net key old) (SortedAllocations s)"
  let ?a0 = "(Allocations s)(net := (Allocations s net)(key := None))"
  have wf: "om_wf ?m" using assms by (auto simp: alloc_sync_def split: option.splits)
  have keys: "om_keys ?m = allocation_keys cfg ?a0"
    using assms by (auto simp: alloc_sync_def allocation_keys_remove om_keys_remove split: option.splits)
  have "allocation_keys cfg (?a0(net := (?a0 net)(key \<mapsto> amount))) =
      insert (sorted_allocation_key cfg net key amount) (allocation_keys cfg ?a0)"
    by (rule allocation_keys_set) simp
  then show ?thesis
    using assms wf keys by (simp add: alloc_sync_def set_allocation_eq Let_def)
qed

lemma sorted_allocations_iter_eq:
  assumes "alloc_sync cfg s"
  shows "sorted_allocations_iter s net =
    map (\<lambda>k. (recover_key_from_sorted_allocation_key k, recover_amount_from_sorted_allocation_key k))
      (filter (\<lambda>k. take 1 k = encode_NetworkId net) (map fst (SortedAllocations s)))"
proof -
  let ?m = "SortedAllocations s"
  obtain b where b: "encode_NetworkId net = [b]" using encode_NetworkId_single by blast
  have wf: "om_wf ?m" using assms by (simp add: alloc_sync_def)
  have sorted: "sorted_wrt (<) (filter (\<lambda>k. [b] < k) (map fst ?m))"
    using wf by (simp add: om_wf_def sorted_wrt_filter)
  have "[b] < k" if "k \<in> set (map fst ?m)" "take 1 k = [b]" for k
  proof -
    have "k \<in> allocation_keys cfg (Allocations s)" using that assms by (auto simp: alloc_sync_def om_keys_def)
    then have "length k = 57" by (auto simp: allocation_keys_def)
    with that(2) show ?thesis by (cases k; cases "tl k") auto
  qed
  then have "filter (\<lambda>k. take 1 k = [b]) (filter (\<lambda>k. [b] < k) (map fst ?m)) = filter (\<lambda>k. take 1 k = [b]) (map fst ?m)"
    unfolding filter_filter by (intro filter_cong) auto
  then show ?thesis
    using sorted_allocations_from_eq [OF wf, of "[b]" "[b]"] takeWhile_prefix [OF sorted]
    by (simp add: sorted_allocations_iter_def b)
qed

lemma sorted_allocations_iter_set:
  assumes "alloc_sync cfg s"
  shows "set (sorted_allocations_iter s net) = {(key, a). Allocations s net key = Some a}"
proof -
  have "(key, a) \<in> set (sorted_allocations_iter s net) \<longleftrightarrow> Allocations s net key = Some a" for key a
  proof
    assume "(key, a) \<in> set (sorted_allocations_iter s net)"
    then obtain k where k: "k \<in> om_keys (SortedAllocations s)" "take 1 k = encode_NetworkId net"
      "key = recover_key_from_sorted_allocation_key k" "a = recover_amount_from_sorted_allocation_key k"
      by (auto simp: sorted_allocations_iter_eq [OF assms] om_keys_def)
    then obtain net' key' a' where "k = sorted_allocation_key cfg net' key' a'" "Allocations s net' key' = Some a'"
      using assms by (auto simp: alloc_sync_def allocation_keys_def)
    with k show "Allocations s net key = Some a" by (simp add: encode_NetworkId_inject)
  next
    assume "Allocations s net key = Some a"
    then have "sorted_allocation_key cfg net key a \<in> om_keys (SortedAllocations s)"
      using assms by (auto simp: alloc_sync_def allocation_keys_def)
    then have "(\<lambda>k. (recover_key_from_sorted_allocation_key k, recover_amount_from_sorted_allocation_key k))
        (sorted_allocation_key cfg net key a) \<in> set (sorted_allocations_iter s net)"
      unfolding sorted_allocations_iter_eq [OF assms] set_map set_filter
      by (intro imageI) (auto simp: om_keys_def)
    then show "(key, a) \<in> set (sorted_allocations_iter s net)" by simp
  qed
  then show ?thesis by auto
qed

lemma sorted_allocations_iter_sorted:
  assumes "alloc_sync cfg s"
  shows "sorted_wrt (\<lambda>x y. fst x \<noteq> fst y \<and> snd y \<le> snd x) (sorted_allocations_iter s net)"
proof -
  let ?ks = "filter (\<lambda>k. take 1 k = encode_NetworkId net) (map fst (SortedAllocations s))"
  have "sorted_wrt (<) ?ks" using assms by (simp add: alloc_sync_def om_wf_def sorted_wrt_filter)
  moreover have "recover_key_from_sorted_allocation_key k \<noteq> recover_key_from_sorted_allocation_key k' \<and>
      recover_amount_from_sorted_allocation_key k' \<le> recover_amount_from_sorted_allocation_key k"
    if "k \<in> set ?ks" "k' \<in> set ?ks" "k < k'" for k k'
  proof -
    have "k \<in> allocation_keys cfg (Allocations s)" "k' \<in> allocation_keys cfg (Allocations s)"
      using that assms by (auto simp: alloc_sync_def om_keys_def)
    then obtain n key a n' key' a' where k: "k = sorted_allocation_key cfg n key a" "Allocations s n key = Some a"
      "k' = sorted_allocation_key cfg n' key' a'" "Allocations s n' key' = Some a'"
      by (auto simp: allocation_keys_def)
    then have n: "n' = n" using that by (simp add: encode_NetworkId_inject)
    then have "a' \<le> a" using sorted_key_order that(3) k by blast
    moreover have "key \<noteq> key'" using that(3) k n by auto
    ultimately show ?thesis using k by simp
  qed
  ultimately have "sorted_wrt (\<lambda>k k'. recover_key_from_sorted_allocation_key k \<noteq> recover_key_from_sorted_allocation_key k' \<and>
      recover_amount_from_sorted_allocation_key k' \<le> recover_amount_from_sorted_allocation_key k) ?ks"
    by (rule sorted_wrt_mono_rel [rotated])
  then show ?thesis unfolding sorted_allocations_iter_eq [OF assms] by (simp add: sorted_wrt_map)
qed

end
