(* ===== verification/Validator_Sets_Shares.thy ===== *)
theory Validator_Sets_Shares
  imports Validator_Sets_Alloc
begin

text \<open>
  Key shares: what the reduction to the maximum does to every validator, that the closed formula for
  the top validator agrees with it, and which validators a new set selects with how many shares.
\<close>

section \<open>The reduction to the maximum\<close>

lemma decrement_share_simps [simp]:
  "length (decrement_share vs i) = length vs" "map fst (decrement_share vs i) = map fst vs"
  by (simp_all add: decrement_share_def Let_def map_update)
     (metis list_update_id map_update nth_map list_update_beyond length_map not_le)

lemma div_Suc_step:
  fixes k j n :: nat
  assumes "j < n"
  shows "(Suc k + j) div n = (k + j) div n + (if j = n - (k mod n + 1) then 1 else 0)"
proof -
  have n: "0 < n" using assms by simp
  have "Suc (k + j) mod n = 0 \<longleftrightarrow> j = n - (k mod n + 1)"
  proof -
    have "k mod n < n" using n by simp
    then have small: "k mod n + j + 1 < 2 * n" using assms by linarith
    have "Suc (k + j) mod n = (k mod n + j + 1) mod n" by (metis Suc_eq_plus1 add.assoc mod_add_left_eq)
    also have "\<dots> = 0 \<longleftrightarrow> k mod n + j + 1 = n"
    proof
      assume "(k mod n + j + 1) mod n = 0"
      then obtain q where q: "k mod n + j + 1 = n * q" by (auto simp: mod_eq_0_iff_dvd elim: dvdE)
      then have "0 < q" by (cases q) auto
      moreover have "q < 2" using small q n by (metis mult.commute nat_mult_less_cancel1)
      ultimately show "k mod n + j + 1 = n" using q by (simp add: less_2_cases_iff)
    qed simp
    finally show ?thesis using \<open>k mod n < n\<close> by auto
  qed
  moreover have "Suc (k + j) div n = (if Suc (k + j) mod n = 0 then Suc ((k + j) div n) else (k + j) div n)"
    by (rule div_Suc)
  ultimately show ?thesis by simp
qed

lemma decrement_share_nth:
  "j < length us \<Longrightarrow> decrement_share us k ! j =
     (fst (us ! j), snd (us ! j) - (if j = length us - (k mod length us + 1) then 1 else 0))"
  by (auto simp: decrement_share_def Let_def nth_list_update)

lemma fold_decrement_nth:
  assumes "j < length vs"
  shows "foldl decrement_share vs [0..<k] ! j =
    (fst (vs ! j), snd (vs ! j) - of_nat ((k + j) div length vs))"
    and "length (foldl decrement_share vs [0..<k]) = length vs"
proof -
  have "length (foldl decrement_share vs [0..<k]) = length vs \<and>
    foldl decrement_share vs [0..<k] ! j = (fst (vs ! j), snd (vs ! j) - of_nat ((k + j) div length vs))"
  proof (induction k)
    case 0
    then show ?case using assms by simp
  next
    case (Suc k)
    let ?us = "foldl decrement_share vs [0..<k]" and ?n = "length vs"
    have "decrement_share ?us k ! j =
        (fst (?us ! j), snd (?us ! j) - (if j = ?n - (k mod ?n + 1) then 1 else 0))"
      using Suc assms by (simp only: decrement_share_nth)
    then show ?case
      using Suc div_Suc_step [OF assms, of k] by (simp add: diff_diff_add)
  qed
  then show "foldl decrement_share vs [0..<k] ! j = (fst (vs ! j), snd (vs ! j) - of_nat ((k + j) div length vs))"
    and "length (foldl decrement_share vs [0..<k]) = length vs" by simp_all
qed

lemma fold_decrement_keys [simp]:
  "map fst (foldl decrement_share vs is) = map fst vs" "length (foldl decrement_share vs is) = length vs"
  by (induction "is" arbitrary: vs) simp_all

definition excess_shares :: "(Public \<times> u64) list \<Rightarrow> nat" where
  "excess_shares vs = unat (sum_list (map snd vs)) - 150"

lemma amortize_eq: "amortize_excess_key_shares vs = foldl decrement_share vs [0..<excess_shares vs]"
  by (simp add: amortize_excess_key_shares_def excess_shares_def checked_simps MAX_KEY_SHARES_PER_SET_def)

lemma amortize_keys [simp]:
  "map fst (amortize_excess_key_shares vs) = map fst vs" "length (amortize_excess_key_shares vs) = length vs"
  by (simp_all add: amortize_eq)

lemma amortize_nth:
  "j < length vs \<Longrightarrow> amortize_excess_key_shares vs ! j =
     (fst (vs ! j), snd (vs ! j) - of_nat ((excess_shares vs + j) div length vs))"
  by (simp add: amortize_eq fold_decrement_nth)

lemma sum_list_update_group:
  fixes xs :: "'a::ab_group_add list"
  shows "k < length xs \<Longrightarrow> sum_list (xs[k := x]) = sum_list xs + x - xs ! k"
  by (induction xs arbitrary: k) (auto simp: nth_Cons split: nat.splits)

lemma decrement_share_sum: "vs \<noteq> [] \<Longrightarrow> sum_list (map snd (decrement_share vs i)) = sum_list (map snd vs) - 1"
proof -
  assume "vs \<noteq> []"
  let ?j = "length vs - (i mod length vs + 1)"
  have j: "?j < length (map snd vs)" using \<open>vs \<noteq> []\<close> by simp
  have "map snd (decrement_share vs i) = (map snd vs)[?j := map snd vs ! ?j - 1]"
    using j by (simp add: decrement_share_def Let_def map_update)
  then show ?thesis using sum_list_update_group [OF j, of "map snd vs ! ?j - 1"] by simp
qed

lemma fold_decrement_sum:
  "vs \<noteq> [] \<Longrightarrow> sum_list (map snd (foldl decrement_share vs [0..<k])) = sum_list (map snd vs) - of_nat k"
proof (induction k)
  case (Suc k)
  have "foldl decrement_share vs [0..<k] \<noteq> []" using Suc.prems by (metis fold_decrement_keys(2) length_0_conv)
  then show ?case using Suc by (simp add: decrement_share_sum)
qed simp

lemma amortize_sum:
  "sum_list (map snd (amortize_excess_key_shares vs)) = min (sum_list (map snd vs)) 150"
proof (cases "vs = []")
  case False
  let ?t = "sum_list (map snd vs)"
  have "(of_nat (unat ?t - 150) :: u64) = (if 150 \<le> ?t then ?t - 150 else 0)"
    by (simp add: word_le_nat_alt of_nat_diff)
  then show ?thesis
    using fold_decrement_sum [OF False] by (auto simp: amortize_eq excess_shares_def min_def)
qed (simp add: amortize_eq excess_shares_def)

section \<open>The selection of a set\<close>

definition share_count :: "u64 \<Rightarrow> Amount \<Rightarrow> u64" where
  "share_count per a = min (a div per) 150"

definition share_total :: "u64 \<Rightarrow> (Public \<times> Amount) list \<Rightarrow> nat" where
  "share_total per xs = sum_list (map (\<lambda>(_, a). unat (share_count per a)) xs)"

text \<open>How many validators the loop takes when \<open>n\<close> shares are taken already.\<close>

fun sel_count :: "u64 \<Rightarrow> (Public \<times> Amount) list \<Rightarrow> nat \<Rightarrow> nat" where
  "sel_count per [] n = 0"
| "sel_count per ((k, a) # xs) n = (if n < 150 then Suc (sel_count per xs (n + unat (share_count per a))) else 0)"

lemma share_count_le: "unat (share_count per a) \<le> 150"
  by (simp add: share_count_def min_def word_le_nat_alt)

lemma unat_share_count: "unat (share_count per a) = min (unat a div unat per) 150"
  by (simp add: share_count_def min_def word_le_nat_alt unat_div_distrib)

lemma share_total_simps [simp]:
  "share_total per [] = 0" "share_total per (x # xs) = unat (share_count per (snd x)) + share_total per xs"
  "share_total per (xs @ ys) = share_total per xs + share_total per ys"
  by (simp_all add: share_total_def split: prod.splits)

lemma select_participants_eq:
  assumes "per \<noteq> 0"
  shows "select_participants per xs ks tot ps =
    Some (ps @ map (\<lambda>(k, a). (k, share_count per a)) (take (sel_count per xs (unat ks)) xs),
          tot + sum_list (map snd (take (sel_count per xs (unat ks)) xs)))"
proof (induction xs arbitrary: ks tot ps)
  case (Cons x rest)
  obtain key amount where x: "x = (key, amount)" by force
  show ?case
  proof (cases "unat ks < 150")
    case False
    then show ?thesis by (simp add: x MAX_KEY_SHARES_PER_SET_def word_less_nat_alt)
  next
    case True
    have "unat (ks + share_count per amount) = unat ks + unat (share_count per amount)"
      using True share_count_le [of per amount] by (intro unat_add_lem [THEN iffD1]) simp
    then show ?thesis
      using True assms Cons.IH [of "ks + share_count per amount" "tot + amount" "ps @ [(key, share_count per amount)]"]
      by (simp add: x MAX_KEY_SHARES_PER_SET_def word_less_nat_alt checked_div_def share_count_def Let_def)
  qed
qed simp

lemma sel_count_props:
  "sel_count per xs n \<le> length xs"
  "sel_count per xs n < length xs \<Longrightarrow> 150 \<le> n + share_total per (take (sel_count per xs n) xs)"
  "0 < sel_count per xs n \<Longrightarrow> n + share_total per (take (sel_count per xs n - 1) xs) < 150"
proof (induction per xs n rule: sel_count.induct)
  case (2 per k a xs n)
  {
    case 1
    then show ?case using 2 by simp
  next
    case 2
    then show ?case using "2.IH"(2) by (auto split: if_splits)
  next
    case 3
    show ?case
    proof (cases "sel_count per xs (n + unat (share_count per a))")
      case 0
      then show ?thesis using 3 by (auto split: if_splits)
    next
      case (Suc m)
      then show ?thesis using 3 "2.IH"(3) by (auto split: if_splits)
    qed
  }
qed simp_all

lemma ceil_le: fixes e j m :: nat assumes "j < m" shows "(e + j) div m \<le> e"
proof (cases e)
  case 0
  then show ?thesis using assms by simp
next
  case (Suc d)
  have "e + j \<le> e * m + (m - 1)" using Suc assms by (cases m) auto
  then have "e + j < (e + 1) * m" using assms by (simp add: algebra_simps)
  then have "(e + j) div m < e + 1" using assms by (simp add: less_mult_imp_div_less)
  then show ?thesis by simp
qed

lemma share_total_ge: "\<forall>x \<in> set xs. 1 \<le> unat (share_count per (snd x)) \<Longrightarrow> length xs \<le> share_total per xs"
  by (induction xs) auto

lemma share_count_mono: "a \<le> b \<Longrightarrow> unat (share_count per a) \<le> unat (share_count per b)"
  using div_le_mono [of "unat a" "unat b" "unat per"] by (auto simp: unat_share_count word_le_nat_alt)

lemma share_count_pos: "per \<noteq> 0 \<Longrightarrow> per \<le> a \<Longrightarrow> 1 \<le> unat (share_count per a)"
proof -
  assume per: "per \<noteq> 0" "per \<le> a"
  then have "0 < unat per" "unat per \<le> unat a" by (simp_all add: unat_gt_0 word_le_nat_alt)
  then have "0 < unat a div unat per" by (simp add: div_greater_zero_iff)
  then show ?thesis by (simp add: unat_share_count)
qed

text \<open>The participants \<open>new_set\<close> stores, for the sorted allocations \<open>xs\<close> of a network.\<close>

definition selected :: "u64 \<Rightarrow> (Public \<times> Amount) list \<Rightarrow> (Public \<times> Amount) list" where
  "selected per xs = take (sel_count per xs 0) xs"

definition selected_shares :: "u64 \<Rightarrow> (Public \<times> Amount) list \<Rightarrow> (Public \<times> u64) list" where
  "selected_shares per xs =
     amortize_excess_key_shares (map (\<lambda>(k, a). (k, share_count per a)) (selected per xs))"

lemma selected_total:
  assumes "per \<noteq> 0"
  shows "share_total per (selected per xs) < 300"
    and "unat (sum_list (map snd (map (\<lambda>(k, a). (k, share_count per a)) (selected per xs)))) = share_total per (selected per xs)"
    and "length (selected per xs) < length xs \<Longrightarrow> 150 \<le> share_total per (selected per xs)"
proof -
  let ?m = "sel_count per xs 0"
  show total: "share_total per (selected per xs) < 300"
  proof (cases ?m)
    case (Suc k)
    then have "k < length xs" using sel_count_props(1) [of per xs 0] by simp
    then have "selected per xs = take k xs @ [xs ! k]" by (simp add: selected_def Suc take_Suc_conv_app_nth)
    moreover have "share_total per (take k xs) < 150" using sel_count_props(3) [of per xs 0] Suc by simp
    ultimately show ?thesis using share_count_le [of per "snd (xs ! k)"] by simp
  qed (simp add: selected_def)
  have eq: "sum_list (map unat (map snd (map (\<lambda>(k, a). (k, share_count per a)) ys))) = share_total per ys" for ys
    by (simp add: share_total_def comp_def split_def)
  show "unat (sum_list (map snd (map (\<lambda>(k, a). (k, share_count per a)) (selected per xs)))) = share_total per (selected per xs)"
    using total unat_sum_list [of "map snd (map (\<lambda>(k, a). (k, share_count per a)) (selected per xs))"] eq [of "selected per xs"]
    by simp
  show "length (selected per xs) < length xs \<Longrightarrow> 150 \<le> share_total per (selected per xs)"
    using sel_count_props(1,2) [of per xs 0] by (simp add: selected_def)
qed

lemma selected_length:
  assumes "\<forall>x \<in> set xs. 1 \<le> unat (share_count per (snd x))"
  shows "length (selected per xs) \<le> 150"
proof (cases "sel_count per xs 0")
  case (Suc k)
  then have "k \<le> length xs" using sel_count_props(1) [of per xs 0] by simp
  moreover have "share_total per (take k xs) < 150" using sel_count_props(3) [of per xs 0] Suc by simp
  moreover have "length (take k xs) \<le> share_total per (take k xs)"
    using assms by (intro share_total_ge) (auto dest: in_set_takeD)
  ultimately show ?thesis by (simp add: selected_def Suc)
qed (simp add: selected_def)

lemma selected_reduction:
  assumes "per \<noteq> 0" and sorted: "sorted_wrt (\<lambda>x y. snd y \<le> snd x) xs" and j: "j < length (selected per xs)"
    and pos: "1 \<le> unat (share_count per (snd (xs ! j)))"
  defines "e \<equiv> share_total per (selected per xs) - 150"
  shows "(e + j) div length (selected per xs) < unat (share_count per (snd (xs ! j)))"
proof -
  obtain k where m: "sel_count per xs 0 = Suc k" using j by (cases "sel_count per xs 0") (auto simp: selected_def)
  have k: "k < length xs" "j \<le> k" using sel_count_props(1) [of per xs 0] m j by (auto simp: selected_def)
  then have sel: "selected per xs = take k xs @ [xs ! k]" by (simp add: selected_def m take_Suc_conv_app_nth)
  have "share_total per (take k xs) < 150" using sel_count_props(3) [of per xs 0] m by simp
  then have e: "e = 0 \<or> e < unat (share_count per (snd (xs ! k)))" by (auto simp: e_def sel)
  have "snd (xs ! k) \<le> snd (xs ! j)"
    using sorted k by (cases "j = k") (auto simp: sorted_wrt_iff_nth_less)
  then have "unat (share_count per (snd (xs ! k))) \<le> unat (share_count per (snd (xs ! j)))" by (rule share_count_mono)
  moreover have "(e + j) div length (selected per xs) \<le> e" using j by (rule ceil_le)
  ultimately show ?thesis using e pos by linarith
qed

lemma selected_shares_nth:
  assumes "per \<noteq> 0" and "sorted_wrt (\<lambda>x y. snd y \<le> snd x) xs" and j: "j < length (selected per xs)"
    and pos: "1 \<le> unat (share_count per (snd (xs ! j)))"
  shows "fst (selected_shares per xs ! j) = fst (xs ! j)"
    and "unat (snd (selected_shares per xs ! j)) = unat (share_count per (snd (xs ! j)))
      - (share_total per (selected per xs) - 150 + j) div length (selected per xs)"
    and "1 \<le> unat (snd (selected_shares per xs ! j))"
proof -
  let ?vs = "map (\<lambda>(k, a). (k, share_count per a)) (selected per xs)"
  let ?r = "(share_total per (selected per xs) - 150 + j) div length (selected per xs)"
  have sj: "selected per xs ! j = xs ! j" using j by (simp add: selected_def)
  have ex: "excess_shares ?vs = share_total per (selected per xs) - 150"
    unfolding excess_shares_def selected_total(2) [OF assms(1)] by (rule refl)
  have at: "selected_shares per xs ! j = (fst (xs ! j), share_count per (snd (xs ! j)) - of_nat ?r)"
    using j amortize_nth [of j ?vs, unfolded ex] by (simp add: selected_shares_def sj split_def)
  have lt: "?r < unat (share_count per (snd (xs ! j)))" using selected_reduction [OF assms] .
  then have "?r < 2 ^ 64" using share_count_le [of per "snd (xs ! j)"] by simp
  then have "unat (of_nat ?r :: u64) = ?r" by (intro unat_of_nat_small) simp
  then have "unat (share_count per (snd (xs ! j)) - of_nat ?r) = unat (share_count per (snd (xs ! j))) - ?r"
    using lt by (subst unat_sub) (simp_all add: word_le_nat_alt)
  with at lt show "fst (selected_shares per xs ! j) = fst (xs ! j)"
    and "unat (snd (selected_shares per xs ! j)) = unat (share_count per (snd (xs ! j))) - ?r"
    and "1 \<le> unat (snd (selected_shares per xs ! j))" by simp_all
qed

section \<open>New sets\<close>

definition in_set_of :: "(Public \<times> u64) list \<Rightarrow> (Public, u64) omap" where
  "in_set_of ps = foldl (\<lambda>m x. om_set (fst x) (snd x) m) [] ps"

lemma length_om_set: "length (om_set k v m) \<le> Suc (length m)"
  by (induction k v m rule: om_set.induct) auto

lemma foldl_om_set:
  assumes "om_wf m"
  shows "om_wf (foldl (\<lambda>m x. om_set (fst x) (snd x) m) m ps)"
    and "length (foldl (\<lambda>m x. om_set (fst x) (snd x) m) m ps) \<le> length m + length ps"
    and "distinct (map fst ps) \<Longrightarrow> om_get (foldl (\<lambda>m x. om_set (fst x) (snd x) m) m ps) k =
      (case map_of ps k of Some v \<Rightarrow> Some v | None \<Rightarrow> om_get m k)"
  using assms
proof (induction ps arbitrary: m)
  case (Cons x ps)
  obtain key shares where x: "x = (key, shares)" by force
  have wf: "om_wf (om_set key shares m)" if "om_wf m" for m using that by simp
  {
    case 1
    show ?case using Cons.IH(1) [OF wf [OF 1]] by (simp add: x)
  next
    case 2
    show ?case using Cons.IH(2) [OF wf [OF 2]] length_om_set [of key shares m] by (simp add: x)
  next
    case 3
    then have "map_of ps key = None" by (simp add: x map_of_eq_None_iff)
    then show ?case using Cons.IH(3) [OF _ wf [OF 3(2)]] 3
      by (auto simp: x om_get_set split: option.splits)
  }
qed simp_all

lemma in_set_of_props:
  "om_wf (in_set_of ps)" "length (in_set_of ps) \<le> length ps"
  "distinct (map fst ps) \<Longrightarrow> om_get (in_set_of ps) k = map_of ps k"
  using foldl_om_set [of "[]" ps] by (auto simp: in_set_of_def split: option.splits)

lemma length_selected_shares [simp]: "length (selected_shares per xs) = length (selected per xs)"
  by (simp add: selected_shares_def)

lemma keys_selected_shares: "map fst (selected_shares per xs) = map fst (selected per xs)"
  by (simp add: selected_shares_def comp_def split_def)

definition stake_ok :: "'a vs_rt_scheme \<Rightarrow> NetworkId \<Rightarrow> bool" where
  "stake_ok s net =
     (\<exists>per. AllocationPerKeyShare s net = Some per \<and> per \<noteq> 0 \<and> (\<forall>key a. Allocations s net key = Some a \<longrightarrow> per \<le> a))"

lemma distinct_sorted_wrt: "distinct xs \<longleftrightarrow> sorted_wrt (\<noteq>) xs"
  by (induction xs) auto

lemma stake_ok_shares:
  assumes "alloc_sync cfg s" and "AllocationPerKeyShare s net = Some per" and "stake_ok s net"
  shows "per \<noteq> 0" and "\<forall>x \<in> set (sorted_allocations_iter s net). 1 \<le> unat (share_count per (snd x))"
    and "sorted_wrt (\<lambda>x y. snd y \<le> snd x) (sorted_allocations_iter s net)"
    and "distinct (map fst (sorted_allocations_iter s net))"
proof -
  have per: "per \<noteq> 0" "\<And>key a. Allocations s net key = Some a \<Longrightarrow> per \<le> a"
    using assms(2,3) by (auto simp: stake_ok_def)
  then show "per \<noteq> 0" "\<forall>x \<in> set (sorted_allocations_iter s net). 1 \<le> unat (share_count per (snd x))"
    using sorted_allocations_iter_set [OF assms(1), of net] share_count_pos by auto
  have "sorted_wrt (\<lambda>x y. fst x \<noteq> fst y \<and> snd y \<le> snd x) (sorted_allocations_iter s net)"
    by (rule sorted_allocations_iter_sorted [OF assms(1)])
  then show "sorted_wrt (\<lambda>x y. snd y \<le> snd x) (sorted_allocations_iter s net)"
    and "distinct (map fst (sorted_allocations_iter s net))"
    by (auto elim: sorted_wrt_mono_rel [rotated] simp: distinct_sorted_wrt sorted_wrt_map)
qed

lemma new_set_eq:
  assumes sync: "alloc_sync cfg s" and per: "AllocationPerKeyShare s net = Some per" and ok: "stake_ok s net"
    and len: "length (InSet s net) \<le> 150"
  defines "xs \<equiv> sorted_allocations_iter s net"
  defines "ps \<equiv> selected_shares per xs"
  shows "new_set s net = Some (s\<lparr>
      CurrentSession := (CurrentSession s)(net \<mapsto> (case CurrentSession s net of None \<Rightarrow> 0 | Some n \<Rightarrow> n + 1)),
      InSet := (InSet s)(net := in_set_of ps),
      TotalAllocatedStake := (TotalAllocatedStake s)(net \<mapsto> sum_list (map snd (selected per xs))),
      VSEvents := VSEvents s @ [NewSet \<lparr>vs_session = (case CurrentSession s net of None \<Rightarrow> 0 | Some n \<Rightarrow> n + 1), vs_network = net\<rparr>],
      Participants := (Participants s)(net \<mapsto> ps)\<rparr>)"
proof -
  note sh = stake_ok_shares [OF sync per ok]
  have iter: "sorted_allocations_iter (s\<lparr>CurrentSession := a, InSet := b\<rparr>) net = xs" for a b
    by (simp add: xs_def sorted_allocations_iter_def)
  have "length (selected per xs) \<le> 150" using selected_length [OF sh(2)] by (simp add: xs_def)
  then show ?thesis
    using len select_participants_eq [OF sh(1), of xs 0 0 "[]"]
    by (simp add: new_set_def Let_def per iter vs_deposit_event_def MAX_KEY_SHARES_PER_SET_def
        selected_def [symmetric] ps_def selected_shares_def in_set_of_def split_def)
qed

end
