(* ===== verification/Validator_Sets_Example.thy ===== *)
theory Validator_Sets_Example
  imports Validator_Sets_Shares
begin

text \<open>
  A concrete configuration and a state with three validators of the bitcoin network, on which
  properties are evaluated. Signatures are accepted when they consist of the byte 1; Babe takes
  over the current validators, as its \<open>enact_epoch_change\<close> does.
\<close>

definition example_vs_cfg :: vs_config where
  "example_vs_cfg = \<lparr>blake2_128 = (\<lambda>bs. []), valid_point = (\<lambda>_. True), dkg_musig_key = (\<lambda>_ _. Some 99),
     verify = (\<lambda>_ _ sig. sig = [1]), enact_epoch_change = (\<lambda>_ now _ _. now)\<rparr>"

definition empty_vs :: vs_rt where
  "empty_vs = dex_rt.extend example_dex
     \<lparr>CurrentSession = (\<lambda>_. None), AllocationPerKeyShare = (\<lambda>net. if net = NetworkId.Bitcoin then Some 100 else None),
      Participants = (\<lambda>_. None), InSet = (\<lambda>_. []), TotalAllocatedStake = (\<lambda>_. None), Allocations = (\<lambda>_ _. None),
      SortedAllocations = [], PendingDeallocations = (\<lambda>_ _. []), Keys = (\<lambda>_. None), PendingSlashReport = (\<lambda>_. None),
      SeraiDisabledIndices = [], BabeAuthorities = [], GrandpaSessions = [], VSEvents = []\<rparr>"

definition example_vs :: vs_rt where
  "example_vs =
     (let a = (\<lambda>s key amount. snd (set_allocation example_vs_cfg s NetworkId.Bitcoin key amount)) in
      a (a (a empty_vs 10 300) 11 500) 12 250)"

lemma empty_vs_simps [simp]:
  "coins empty_vs = example_coins" "CurrentSession empty_vs = (\<lambda>_. None)" "Participants empty_vs = (\<lambda>_. None)"
  "AllocationPerKeyShare empty_vs = (\<lambda>net. if net = NetworkId.Bitcoin then Some 100 else None)"
  "InSet empty_vs = (\<lambda>_. [])" "TotalAllocatedStake empty_vs = (\<lambda>_. None)" "Allocations empty_vs = (\<lambda>_ _. None)"
  "SortedAllocations empty_vs = []" "PendingDeallocations empty_vs = (\<lambda>_ _. [])" "Keys empty_vs = (\<lambda>_. None)"
  "PendingSlashReport empty_vs = (\<lambda>_. None)" "SeraiDisabledIndices empty_vs = []" "BabeAuthorities empty_vs = []"
  "VSEvents empty_vs = []"
  by (simp_all add: empty_vs_def dex_rt.defs)

lemma empty_vs_sync [simp]: "alloc_sync cfg empty_vs"
  by (simp add: alloc_sync_def allocation_keys_def)

lemma example_vs_sync [simp]: "alloc_sync example_vs_cfg example_vs"
  by (simp add: example_vs_def set_allocation_sync)

lemma example_vs_simps [simp]:
  "Allocations example_vs = (\<lambda>_ _. None)(NetworkId.Bitcoin := [10 \<mapsto> 300, 11 \<mapsto> 500, 12 \<mapsto> 250])"
  "AllocationPerKeyShare example_vs NetworkId.Bitcoin = Some 100" "InSet example_vs = (\<lambda>_. [])"
  "CurrentSession example_vs = (\<lambda>_. None)"
  by (simp_all add: example_vs_def)

lemma example_stake_ok [simp]: "stake_ok example_vs NetworkId.Bitcoin"
  by (auto simp: stake_ok_def split: if_splits)

end
