(* ===== verification/Validator_Sets_Props.thy ===== *)
theory Validator_Sets_Props
  imports Validator_Sets_Example
begin

text \<open>
  Properties of the allocations, of the selection of a set and of the keys it confirms.
\<close>

section \<open>Lemmas\<close>

lemma map_unat_sum_selected:
  assumes "alloc_sync cfg s" and "AllocationPerKeyShare s net = Some per" and "stake_ok s net"
  defines "ps \<equiv> selected_shares per (sorted_allocations_iter s net)"
  shows "sum_list (map (unat \<circ> snd) ps) = min (share_total per (selected per (sorted_allocations_iter s net))) 150"
proof -
  let ?xs = "sorted_allocations_iter s net"
  let ?vs = "map (\<lambda>(k, a). (k, share_count per a)) (selected per ?xs)"
  note sh = stake_ok_shares [OF assms(1-3)]
  have le: "(unat \<circ> snd) (ps ! j) \<le> (unat \<circ> snd) (?vs ! j)" if "j < length ?vs" for j
  proof -
    have "?xs ! j \<in> set ?xs" using that by (auto simp: selected_def)
    then have "1 \<le> unat (share_count per (snd (?xs ! j)))" using sh(2) by blast
    from selected_shares_nth(2) [OF sh(1,3) _ this] that show ?thesis
      by (simp add: ps_def split_def selected_def)
  qed
  have len: "length (map (unat \<circ> snd) ps) = length (map (unat \<circ> snd) ?vs)" by (simp add: ps_def)
  have "sum_list (map (unat \<circ> snd) ps) \<le> sum_list (map (unat \<circ> snd) ?vs)"
    using le len by (intro sum_list_mono2) auto
  also have "\<dots> = share_total per (selected per ?xs)" by (simp add: share_total_def comp_def split_def)
  also have "\<dots> < 300" by (rule selected_total(1) [OF sh(1)])
  finally have "sum_list (map unat (map snd ps)) < 2 ^ 64" by simp
  then have "sum_list (map (unat \<circ> snd) ps) = unat (sum_list (map snd ps))"
    using unat_sum_list [of "map snd ps"] by simp
  also have "\<dots> = min (unat (sum_list (map snd ?vs))) 150"
    by (simp add: ps_def selected_shares_def amortize_sum min_def word_le_nat_alt del: map_map)
  finally show ?thesis using selected_total(2) [OF sh(1), of ?xs] by simp
qed

lemma selected_top:
  assumes "sorted_wrt (\<lambda>x y. snd y \<le> snd x) xs" and "x \<in> set (selected per xs)"
    and "y \<in> set xs" and "y \<notin> set (selected per xs)"
  shows "snd y \<le> snd x"
proof -
  have "xs = selected per xs @ drop (sel_count per xs 0) xs" by (simp add: selected_def)
  moreover from this assms(3,4) have "y \<in> set (drop (sel_count per xs 0) xs)" by (metis Un_iff set_append)
  ultimately show ?thesis using assms(1,2) by (metis sorted_wrt_append)
qed

section \<open>Properties\<close>

text \<open>
  C30: changing an allocation keeps the sorted view exact. Afterwards, iterating the raw storage keys
  of any network yields precisely the current allocations of that network, each validator once,
  from the highest amount to the lowest; in particular the key and the amount are recovered
  from the raw key as they were stored.
\<close>

theorem allocations_iterate_highest_first:
  assumes "alloc_sync cfg s" and "t = snd (set_allocation cfg s net key amount)"
  shows "alloc_sync cfg t \<and>
    set (sorted_allocations_iter t net') = {(k, a). Allocations t net' k = Some a} \<and>
    sorted_wrt (\<lambda>x y. fst x \<noteq> fst y \<and> snd y \<le> snd x) (sorted_allocations_iter t net') \<and>
    Allocations t net key = (if amount = 0 then None else Some amount)"
proof -
  have sync: "alloc_sync cfg t" unfolding assms(2) by (rule set_allocation_sync [OF assms(1)])
  then show ?thesis
    using sorted_allocations_iter_set [OF sync] sorted_allocations_iter_sorted [OF sync]
    by (intro conjI) (simp_all only: assms(2), simp)
qed

theorem allocations_iterate_highest_first_witness:
  "set (sorted_allocations_iter (snd (set_allocation example_vs_cfg example_vs NetworkId.Bitcoin 12 600)) NetworkId.Bitcoin) =
     {(10, 300), (11, 500), (12, 600)}"
proof -
  let ?t = "snd (set_allocation example_vs_cfg example_vs NetworkId.Bitcoin 12 600)"
  have "set (sorted_allocations_iter ?t NetworkId.Bitcoin) = {(k, a). Allocations ?t NetworkId.Bitcoin k = Some a}"
    using allocations_iterate_highest_first [OF example_vs_sync refl, of NetworkId.Bitcoin 12 600 NetworkId.Bitcoin] by blast
  also have "\<dots> = {(10, 300), (11, 500), (12, 600)}"
    by (simp only: set_allocation_simps) (auto split: if_splits)
  finally show ?thesis .
qed

text \<open>
  C17: a new set consists of the validators with the highest allocations. When every allocation
  covers at least one key share, \<open>new_set\<close> does not panic; it advances the session, and the stored
  participants are pairwise distinct, each with at least one key share, with at most 150 key
  shares in total; \<open>InSet\<close> holds exactly these shares. No validator left out has a higher allocation than
  one selected, and nobody is left out unless all 150 key shares are taken.
\<close>

theorem new_set_selects_top_validators:
  assumes "alloc_sync cfg s" and "stake_ok s net" and "length (InSet s net) \<le> 150"
  shows "\<exists>t ps. new_set s net = Some t \<and> Participants t net = Some ps \<and>
    CurrentSession t net = Some (case CurrentSession s net of None \<Rightarrow> 0 | Some n \<Rightarrow> n + 1) \<and>
    distinct (map fst ps) \<and> (\<forall>key. om_get (InSet t net) key = map_of ps key) \<and>
    list_all (\<lambda>(key, n). 1 \<le> n) ps \<and> sum_list (map (\<lambda>(key, n). unat n) ps) \<le> 150 \<and>
    (sum_list (map (\<lambda>(key, n). unat n) ps) < 150 \<longrightarrow> fst ` set ps = {key. Allocations s net key \<noteq> None}) \<and>
    (\<forall>key other a b. key \<in> fst ` set ps \<and> other \<notin> fst ` set ps \<and>
       Allocations s net key = Some a \<and> Allocations s net other = Some b \<longrightarrow> b \<le> a)"
proof -
  from assms(2) obtain per where per: "AllocationPerKeyShare s net = Some per" by (auto simp: stake_ok_def)
  let ?xs = "sorted_allocations_iter s net"
  let ?ps = "selected_shares per ?xs" and ?sel = "selected per ?xs"
  note sh = stake_ok_shares [OF assms(1) per assms(2)]
  have keys: "map fst ?ps = map fst ?sel" by (rule keys_selected_shares)
  have dist: "distinct (map fst ?ps)" unfolding keys selected_def using sh(4) by (simp add: take_map distinct_take flip: take_map)
  have keys': "fst ` set ?ps = fst ` set ?sel" using keys by (metis list.set_map)
  have pos: "list_all (\<lambda>(key, n). 1 \<le> n) ?ps"
  proof (unfold list_all_length, intro allI impI)
    fix j assume j: "j < length ?ps"
    then have "?xs ! j \<in> set ?xs" by (auto simp: selected_def)
    then have "1 \<le> unat (share_count per (snd (?xs ! j)))" using sh(2) by blast
    from selected_shares_nth(3) [OF sh(1,3) _ this] j show "case ?ps ! j of (key, n) \<Rightarrow> 1 \<le> n"
      by (auto simp: word_le_nat_alt split: prod.splits)
  qed
  have total: "sum_list (map (\<lambda>(key, n). unat n) ?ps) = min (share_total per ?sel) 150"
    using map_unat_sum_selected [OF assms(1) per assms(2)] by (simp add: comp_def split_def)
  have iter: "set ?xs = {(k, a). Allocations s net k = Some a}" by (rule sorted_allocations_iter_set [OF assms(1)])
  have all: "fst ` set ?ps = {key. Allocations s net key \<noteq> None}" if "share_total per ?sel < 150"
  proof -
    have "\<not> length ?sel < length ?xs" using selected_total(3) [OF sh(1), of ?xs] that by linarith
    then have "?sel = ?xs" by (simp add: selected_def)
    then have "fst ` set ?ps = fst ` set ?xs" using keys' by simp
    also have "\<dots> = {key. Allocations s net key \<noteq> None}" unfolding iter by force
    finally show ?thesis .
  qed
  have top: "b \<le> a" if "key \<in> fst ` set ?ps" "other \<notin> fst ` set ?ps"
    "Allocations s net key = Some a" "Allocations s net other = Some b" for key other a b
  proof -
    from that(1) obtain a' where "(key, a') \<in> set ?sel" using keys' by auto
    moreover from this have "(key, a') \<in> set ?xs" by (auto simp: selected_def dest: in_set_takeD)
    ultimately have "(key, a) \<in> set ?sel" using iter that(3) by auto
    moreover have "(other, b) \<in> set ?xs" using iter that(4) by simp
    moreover have "(other, b) \<notin> set ?sel" using that(2) keys' by force
    ultimately show ?thesis using selected_top [OF sh(3)] by fastforce
  qed
  obtain t where t: "new_set s net = Some t" "Participants t net = Some ?ps" "InSet t net = in_set_of ?ps"
    "CurrentSession t net = Some (case CurrentSession s net of None \<Rightarrow> 0 | Some n \<Rightarrow> n + 1)"
    using new_set_eq [OF assms(1) per assms(2,3)] by simp
  have part: "sum_list (map (\<lambda>(key, n). unat n) ?ps) < 150 \<longrightarrow> fst ` set ?ps = {key. Allocations s net key \<noteq> None}"
    using all total by linarith
  have bound: "sum_list (map (\<lambda>(key, n). unat n) ?ps) \<le> 150" using total by simp
  have inset: "\<forall>key. om_get (InSet t net) key = map_of ?ps key" by (simp add: t(3) in_set_of_props(3) [OF dist])
  have best: "\<forall>key other a b. key \<in> fst ` set ?ps \<and> other \<notin> fst ` set ?ps \<and>
       Allocations s net key = Some a \<and> Allocations s net other = Some b \<longrightarrow> b \<le> a"
    by (intro allI impI) (elim conjE, rule top)
  show ?thesis
    by (intro exI [of _ t] exI [of _ ?ps] conjI) (fact t(1,2,4) dist inset pos bound part best)+
qed

theorem new_set_selects_top_validators_witness:
  "\<exists>t ps. new_set example_vs NetworkId.Bitcoin = Some t \<and> Participants t NetworkId.Bitcoin = Some ps \<and>
    CurrentSession t NetworkId.Bitcoin = Some (case CurrentSession example_vs NetworkId.Bitcoin of None \<Rightarrow> 0 | Some n \<Rightarrow> n + 1) \<and>
    distinct (map fst ps) \<and> (\<forall>key. om_get (InSet t NetworkId.Bitcoin) key = map_of ps key) \<and>
    list_all (\<lambda>(key, n). 1 \<le> n) ps \<and> sum_list (map (\<lambda>(key, n). unat n) ps) \<le> 150 \<and>
    (sum_list (map (\<lambda>(key, n). unat n) ps) < 150 \<longrightarrow>
       fst ` set ps = {key. Allocations example_vs NetworkId.Bitcoin key \<noteq> None}) \<and>
    (\<forall>key other a b. key \<in> fst ` set ps \<and> other \<notin> fst ` set ps \<and>
       Allocations example_vs NetworkId.Bitcoin key = Some a \<and> Allocations example_vs NetworkId.Bitcoin other = Some b \<longrightarrow> b \<le> a)"
  by (rule new_set_selects_top_validators [OF example_vs_sync example_stake_ok]) simp

text \<open>
  The closed formula for the top validator's key shares agrees with the reduction loop. For any
  non-empty list of validators, \<open>post_amortization_key_shares_for_top_validator\<close> applied to their
  number, the first one's shares and the total returns the first one's shares after
  \<open>amortize_excess_key_shares\<close>, and the loop leaves the smaller of the total and 150 in sum.
\<close>

theorem top_validator_formula:
  assumes "vs \<noteq> []" and "length vs < 2 ^ 64"
  shows "post_amortization_key_shares_for_top_validator (length vs) (snd (hd vs)) (sum_list (map snd vs)) =
      Some (snd (hd (amortize_excess_key_shares vs))) \<and>
    sum_list (map snd (amortize_excess_key_shares vs)) = min (sum_list (map snd vs)) 150"
proof -
  let ?t = "sum_list (map snd vs)" and ?n = "length vs"
  have n: "unat (of_nat ?n :: u64) = ?n" using assms(2) by (intro unat_of_nat_small) simp
  then have nz: "(of_nat ?n :: u64) \<noteq> 0" using assms(1) by (metis length_0_conv unat_0)
  have "saturating_sub ?t 150 div of_nat ?n = (of_nat (excess_shares vs div ?n) :: u64)"
  proof (rule unat_eqI)
    have "excess_shares vs div ?n \<le> unat ?t" by (simp add: excess_shares_def) (meson diff_le_self div_le_dividend order_trans)
    then have "excess_shares vs div ?n < 2 ^ 64" using unat_less_2p [of ?t] by simp
    then show "unat (saturating_sub ?t 150 div of_nat ?n) = unat (of_nat (excess_shares vs div ?n) :: u64)"
      by (subst unat_of_nat_small) (simp_all add: unat_div_distrib n checked_simps excess_shares_def)
  qed
  moreover have "snd (hd (amortize_excess_key_shares vs)) = snd (hd vs) - of_nat (excess_shares vs div ?n)"
    using amortize_nth [of 0 vs] assms(1) amortize_keys(2) [of vs] by (metis add_0_right hd_conv_nth length_0_conv length_greater_0_conv snd_conv)
  ultimately show ?thesis
    using nz by (simp add: post_amortization_key_shares_for_top_validator_def checked_div_def MAX_KEY_SHARES_PER_SET_def
        amortize_sum)
qed

theorem top_validator_formula_witness:
  "snd (hd (amortize_excess_key_shares [(1, 100), (2, 60), (3, 50)])) = 80"
  using top_validator_formula [of "[(1, 100), (2, 60), (3, 50)]"]
  by (simp add: post_amortization_key_shares_for_top_validator_def checked_div_def MAX_KEY_SHARES_PER_SET_def
      saturating_sub_def checked_sub_def)

end
