(* ===== verification/Validator_Sets_Invariant.thy ===== *)
theory Validator_Sets_Invariant
  imports Validator_Sets_Props Validator_Sets_Calls
begin

text \<open>
  The invariant of the validator-sets pallet over everything that changes its state: the genesis,
  every extrinsic, the handover, offences and the rotation of sessions.
\<close>

lemma bindE: "Option.bind m f = Some y \<Longrightarrow> (\<And>x. m = Some x \<Longrightarrow> f x = Some y \<Longrightarrow> P) \<Longrightarrow> P"
  by (cases m) auto

lemma case_okE:
  "(case r of Inl e \<Rightarrow> None | Inr c \<Rightarrow> Some (f c)) = Some y \<Longrightarrow> (\<And>c. r = Inr c \<Longrightarrow> y = f c \<Longrightarrow> P) \<Longrightarrow> P"
  by (cases r) auto

section \<open>The invariant\<close>

definition participants_ok :: "(Public \<times> u64) list \<Rightarrow> bool" where
  "participants_ok ps =
     (distinct (map fst ps) \<and> list_all (\<lambda>x. 1 \<le> snd x) ps \<and> sum_list (map (unat \<circ> snd) ps) \<le> 150)"

definition net_ok :: "'a vs_rt_scheme \<Rightarrow> NetworkId \<Rightarrow> bool" where
  "net_ok s net = (stake_ok s net \<and> length (InSet s net) \<le> 150 \<and> TotalAllocatedStake s net \<noteq> None \<and>
     (\<exists>ps. Participants s net = Some ps \<and> participants_ok ps \<and> (\<forall>k. om_get (InSet s net) k = map_of ps k)))"

definition vs_core :: "vs_config \<Rightarrow> 'a vs_rt_scheme \<Rightarrow> bool" where
  "vs_core cfg s = (alloc_sync cfg s \<and>
     (\<forall>net. (CurrentSession s net = None \<longrightarrow> InSet s net = []) \<and> (CurrentSession s net \<noteq> None \<longrightarrow> net_ok s net)))"

definition vs_ok :: "vs_config \<Rightarrow> 'a vs_rt_scheme \<Rightarrow> bool" where
  "vs_ok cfg s = (vs_core cfg s \<and> CurrentSession s NetworkId.Serai \<noteq> None \<and> length (BabeAuthorities s) < 2 ^ 32)"

text \<open>The part of the state the invariant is about.\<close>

definition vs_same :: "'a vs_rt_scheme \<Rightarrow> 'a vs_rt_scheme \<Rightarrow> bool" where
  "vs_same s t =
     (CurrentSession t = CurrentSession s \<and> AllocationPerKeyShare t = AllocationPerKeyShare s \<and>
      Participants t = Participants s \<and> InSet t = InSet s \<and> TotalAllocatedStake t = TotalAllocatedStake s \<and>
      Allocations t = Allocations s \<and> SortedAllocations t = SortedAllocations s \<and>
      BabeAuthorities t = BabeAuthorities s)"

lemmas vs_inv_defs = vs_ok_def vs_core_def net_ok_def stake_ok_def alloc_sync_def

lemma vs_same_ok: "vs_same s t \<Longrightarrow> vs_ok cfg s \<Longrightarrow> vs_ok cfg t"
  unfolding vs_same_def vs_inv_defs by simp

lemma vs_same_core: "vs_same s t \<Longrightarrow> vs_core cfg s \<Longrightarrow> vs_core cfg t"
  unfolding vs_same_def vs_inv_defs by simp

lemma vs_same_refl [simp]: "vs_same s s" by (simp add: vs_same_def)

lemma vs_same_updates [simp]:
  "vs_same s (t\<lparr>coins := c\<rparr>) = vs_same s t" "vs_same s (t\<lparr>Keys := k\<rparr>) = vs_same s t"
  "vs_same s (t\<lparr>PendingSlashReport := p\<rparr>) = vs_same s t"
  "vs_same s (t\<lparr>SeraiDisabledIndices := d\<rparr>) = vs_same s t"
  "vs_same s (t\<lparr>SecurityOracleValue := v\<rparr>) = vs_same s t"
  "vs_same s (vs_deposit_event t e) = vs_same s t"
  "vs_same s (set_pending_deallocations t net key m) = vs_same s t"
  by (simp_all add: vs_same_def vs_deposit_event_def set_pending_deallocations_def)

subsection \<open>New sets\<close>

lemma participants_ok_selected:
  assumes "alloc_sync cfg s" and "AllocationPerKeyShare s net = Some per" and "stake_ok s net"
  defines "ps \<equiv> selected_shares per (sorted_allocations_iter s net)"
  shows "participants_ok ps" and "length ps \<le> 150" and "Allocations s net key \<noteq> None \<Longrightarrow> ps \<noteq> []"
proof -
  let ?xs = "sorted_allocations_iter s net"
  note sh = stake_ok_shares [OF assms(1-3)]
  show "ps \<noteq> []" if "Allocations s net key \<noteq> None"
  proof -
    have "?xs \<noteq> []" using that sorted_allocations_iter_set [OF assms(1), of net] by auto
    then have "0 < length (selected per ?xs)" by (cases ?xs) (auto simp: selected_def)
    then show ?thesis unfolding ps_def by (metis length_greater_0_conv length_selected_shares)
  qed
  have "distinct (map fst ps)"
    using sh(4) by (simp add: ps_def keys_selected_shares selected_def take_map [symmetric] distinct_take)
  moreover have "1 \<le> snd x" if "x \<in> set ps" for x
  proof -
    from that obtain j where j: "j < length (selected per ?xs)" "x = ps ! j"
      by (auto simp: ps_def in_set_conv_nth)
    then have "?xs ! j \<in> set ?xs" by (auto simp: selected_def)
    then have "1 \<le> unat (share_count per (snd (?xs ! j)))" using sh(2) by blast
    from selected_shares_nth(3) [OF sh(1,3) j(1) this] show ?thesis by (simp add: j ps_def word_le_nat_alt)
  qed
  moreover have "sum_list (map (unat \<circ> snd) ps) \<le> 150"
    unfolding ps_def map_unat_sum_selected [OF assms(1-3)] by simp
  ultimately show "participants_ok ps" by (simp add: participants_ok_def list_all_iff)
  show "length ps \<le> 150" using selected_length [OF sh(2)] by (simp add: ps_def)
qed

lemma new_set_obtain:
  assumes "alloc_sync cfg s" and "stake_ok s net" and "length (InSet s net) \<le> 150"
  obtains n e tot ps where "participants_ok ps" and "length ps \<le> 150" and "\<And>key. Allocations s net key \<noteq> None \<Longrightarrow> ps \<noteq> []"
    and "new_set s net = Some (s\<lparr>CurrentSession := (CurrentSession s)(net \<mapsto> n), InSet := (InSet s)(net := in_set_of ps),
      TotalAllocatedStake := (TotalAllocatedStake s)(net \<mapsto> tot), VSEvents := VSEvents s @ [e],
      Participants := (Participants s)(net \<mapsto> ps)\<rparr>)"
proof -
  obtain per where per: "AllocationPerKeyShare s net = Some per" using assms(2) by (auto simp: stake_ok_def)
  show ?thesis
    by (rule that [OF participants_ok_selected [OF assms(1) per assms(2)] new_set_eq [OF assms(1) per assms(2,3)]])
qed

lemma new_set_core:
  assumes "alloc_sync cfg s" and "stake_ok s net" and "length (InSet s net) \<le> 150"
    and rest: "\<And>net'. net' \<noteq> net \<Longrightarrow>
      (CurrentSession s net' = None \<longrightarrow> InSet s net' = []) \<and> (CurrentSession s net' \<noteq> None \<longrightarrow> net_ok s net')"
  obtains t where "new_set s net = Some t" and "vs_core cfg t" and "BabeAuthorities t = BabeAuthorities s"
    and "\<And>net'. CurrentSession s net' \<noteq> None \<Longrightarrow> CurrentSession t net' \<noteq> None"
    and "CurrentSession t net \<noteq> None"
    and "AllocationPerKeyShare t = AllocationPerKeyShare s" and "Allocations t = Allocations s"
    and "\<And>net'. net' \<noteq> net \<Longrightarrow> CurrentSession t net' = CurrentSession s net' \<and> Participants t net' = Participants s net'"
    and "\<And>key. Allocations s net key \<noteq> None \<Longrightarrow> Participants t net \<noteq> Some []" and "Keys t = Keys s"
proof -
  obtain n e tot ps where ps: "participants_ok ps" "length ps \<le> 150" "\<And>key. Allocations s net key \<noteq> None \<Longrightarrow> ps \<noteq> []"
    and t: "new_set s net = Some (s\<lparr>CurrentSession := (CurrentSession s)(net \<mapsto> n), InSet := (InSet s)(net := in_set_of ps),
      TotalAllocatedStake := (TotalAllocatedStake s)(net \<mapsto> tot), VSEvents := VSEvents s @ [e],
      Participants := (Participants s)(net \<mapsto> ps)\<rparr>)" (is "_ = Some ?t")
    by (rule new_set_obtain [OF assms(1-3)]) (rule that)
  have net: "net_ok ?t net"
    using ps assms(2) in_set_of_props(2) [of ps] in_set_of_props(3) [of ps]
    by (simp add: net_ok_def stake_ok_def participants_ok_def)
  have other: "net_ok ?t net'" if "net_ok s net'" "net' \<noteq> net" for net'
    using that by (simp add: net_ok_def stake_ok_def)
  have "vs_core cfg ?t"
    unfolding vs_core_def
  proof (intro conjI allI)
    show "alloc_sync cfg ?t" using assms(1) by (simp add: alloc_sync_def)
    fix net'
    show "CurrentSession ?t net' = None \<longrightarrow> InSet ?t net' = []" using rest [of net'] by simp
    show "CurrentSession ?t net' \<noteq> None \<longrightarrow> net_ok ?t net'"
      using net other rest [of net'] by (cases "net' = net") simp_all
  qed
  from that [OF t this] show ?thesis using ps(3) by auto
qed

lemma vs_coreD:
  assumes "vs_core cfg s"
  shows "alloc_sync cfg s" and "CurrentSession s net = None \<Longrightarrow> InSet s net = []"
    and "CurrentSession s net \<noteq> None \<Longrightarrow> net_ok s net"
  using assms by (simp_all add: vs_core_def)

lemma net_okD:
  assumes "net_ok s net"
  shows "stake_ok s net" and "length (InSet s net) \<le> 150" and "TotalAllocatedStake s net \<noteq> None"
  using assms by (auto simp: net_ok_def)

subsection \<open>Rotation\<close>

lemma foldl_oracle: "\<exists>v. foldl (\<lambda>s coin. s\<lparr>SecurityOracleValue := f s coin\<rparr>) s cs = s\<lparr>SecurityOracleValue := v\<rparr>"
proof (induction cs arbitrary: s)
  case Nil
  show ?case by (intro exI [of _ "SecurityOracleValue s"]) simp
next
  case (Cons c cs)
  obtain v where "foldl (\<lambda>s coin. s\<lparr>SecurityOracleValue := f s coin\<rparr>) (s\<lparr>SecurityOracleValue := f s c\<rparr>) cs =
      s\<lparr>SecurityOracleValue := f s c\<rparr>\<lparr>SecurityOracleValue := v\<rparr>" using Cons.IH by blast
  then show ?case by (intro exI [of _ v]) simp
qed

lemma on_new_session_same: "vs_same s (on_new_session s net)"
proof -
  obtain v where "on_new_session s net = s\<lparr>SecurityOracleValue := v\<rparr>"
    unfolding on_new_session_def
    using foldl_oracle [of "\<lambda>s coin. (SecurityOracleValue s)(coin := MedianPrice s coin)" s "NetworkId_coins net"] by blast
  then show ?thesis by simp
qed

lemma new_sessions_core:
  assumes "vs_core cfg s"
  shows "\<exists>t. new_sessions s nets = Some t \<and> vs_core cfg t \<and> BabeAuthorities t = BabeAuthorities s \<and>
    (\<forall>net. CurrentSession s net \<noteq> None \<longrightarrow> CurrentSession t net \<noteq> None)"
  using assms
proof (induction nets arbitrary: s)
  case (Cons net nets)
  show ?case
  proof (cases "CurrentSession s net \<noteq> None \<and>
      (net = NetworkId.Serai \<or> handover_completed s net (the (CurrentSession s net)))")
    case True
    note core = vs_coreD [OF Cons.prems]
    have ok: "net_ok s net" using True core(3) by blast
    obtain t where t: "new_set s net = Some t" "vs_core cfg t" "BabeAuthorities t = BabeAuthorities s"
      "\<And>net'. CurrentSession s net' \<noteq> None \<Longrightarrow> CurrentSession t net' \<noteq> None"
      by (rule new_set_core [OF core(1) net_okD(1,2) [OF ok]]) (use core ok in auto)
    have same: "vs_same t (on_new_session t net)" by (rule on_new_session_same)
    from Cons.IH [OF vs_same_core [OF same t(2)]] obtain u where
      "new_sessions (on_new_session t net) nets = Some u" "vs_core cfg u"
      "BabeAuthorities u = BabeAuthorities (on_new_session t net)"
      "\<forall>net'. CurrentSession (on_new_session t net) net' \<noteq> None \<longrightarrow> CurrentSession u net' \<noteq> None" by blast
    then show ?thesis using True t same by (auto simp: session_def vs_same_def)
  next
    case False
    then have "new_sessions s (net # nets) = new_sessions s nets"
      by (auto simp: session_def split: option.splits)
    then show ?thesis using Cons.IH [OF Cons.prems] by simp
  qed
qed simp

lemma index_of_less: "index_of xs x = Some i \<Longrightarrow> i < length xs"
  by (induction xs arbitrary: i) (auto split: if_splits)

lemma disable_serai_validator_ok:
  assumes "vs_ok cfg s"
  shows "\<exists>b t. disable_serai_validator s v = Some (b, t) \<and> vs_same s t"
proof (cases "index_of (map fst (BabeAuthorities s)) v")
  case (Some i)
  then have "i < 2 ^ 32" using index_of_less [OF Some] assms by (simp add: vs_ok_def)
  moreover obtain n where "CurrentSession s NetworkId.Serai = Some n" using assms by (auto simp: vs_ok_def)
  ultimately show ?thesis using Some by (auto simp: disable_serai_validator_def session_def Let_def)
qed (auto simp: disable_serai_validator_def)

lemma disable_serai_validators_ok: "vs_ok cfg s \<Longrightarrow> \<exists>t. disable_serai_validators s vs = Some t \<and> vs_same s t"
proof (induction vs arbitrary: s)
  case (Cons v vs)
  obtain b t where t: "disable_serai_validator s v = Some (b, t)" "vs_same s t"
    using disable_serai_validator_ok [OF Cons.prems] by blast
  from Cons.IH [OF vs_same_ok [OF t(2) Cons.prems]] obtain u where "disable_serai_validators t vs = Some u" "vs_same t u"
    by blast
  then show ?case using t by (simp add: vs_same_def)
qed simp

text \<open>What the code relies on of Babe: the change of the epoch makes the given validators the
  authorities, or is ignored.\<close>

definition babe_ok :: "vs_config \<Rightarrow> bool" where
  "babe_ok cfg = (\<forall>cur now nxt n. enact_epoch_change cfg cur now nxt n = now \<or> enact_epoch_change cfg cur now nxt n = cur)"

lemma length_participants: "participants_ok ps \<Longrightarrow> length ps \<le> 150"
proof -
  assume ok: "participants_ok ps"
  have "length ps \<le> sum_list (map (unat \<circ> snd) ps)" if "list_all (\<lambda>x. 1 \<le> snd x) ps"
    using that
  proof (induction ps)
    case (Cons x ps)
    then have "1 \<le> unat (snd x)" by (simp add: word_le_nat_alt)
    then show ?case using Cons by simp
  qed simp
  then show ?thesis using ok by (simp add: participants_ok_def)
qed

lemma rotate_session_ok:
  assumes "babe_ok cfg" and "vs_ok cfg s"
  shows "\<exists>t. rotate_session cfg s = Some t \<and> vs_ok cfg t"
proof -
  obtain n where n: "CurrentSession s NetworkId.Serai = Some n" using assms(2) by (auto simp: vs_ok_def)
  have core: "vs_core cfg s" using assms(2) by (simp add: vs_ok_def)
  then have "net_ok s NetworkId.Serai" using vs_coreD(3) n by blast
  then obtain ps where ps: "Participants s NetworkId.Serai = Some ps" "participants_ok ps" by (auto simp: net_ok_def)
  obtain s1 where s1: "retire_set s \<lparr>vs_session = n, vs_network = NetworkId.Serai\<rparr> = Some s1" "vs_same s s1"
    by (auto simp: retire_set_def Let_def)
  from new_sessions_core [OF vs_same_core [OF s1(2) core]] obtain s2 where
    s2: "new_session s1 = Some s2" "vs_core cfg s2" "BabeAuthorities s2 = BabeAuthorities s1"
      "\<forall>net. CurrentSession s1 net \<noteq> None \<longrightarrow> CurrentSession s2 net \<noteq> None"
    unfolding new_session_def by blast
  have ses: "CurrentSession s2 NetworkId.Serai \<noteq> None" using s2(4) s1(2) n by (simp add: vs_same_def)
  then obtain qs where qs: "Participants s2 NetworkId.Serai = Some qs" using vs_coreD(3) [OF s2(2)] by (auto simp: net_ok_def)
  let ?babe = "enact_epoch_change cfg (BabeAuthorities s2) ps qs (Some (n + 1))"
  have "?babe = ps \<or> ?babe = BabeAuthorities s2" using assms(1) by (simp add: babe_ok_def)
  moreover have "BabeAuthorities s2 = BabeAuthorities s" using s2(3) s1(2) by (simp add: vs_same_def)
  ultimately have len: "length ?babe < 2 ^ 32" using length_participants [OF ps(2)] assms(2) by (auto simp: vs_ok_def)
  let ?s3 = "s2\<lparr>BabeAuthorities := ?babe, GrandpaSessions := GrandpaSessions s2 @ [(True, n + 1, ps)]\<rparr>"
  let ?s4 = "?s3\<lparr>SeraiDisabledIndices := []\<rparr>"
  have "vs_ok cfg ?s4" using s2(2) ses len unfolding vs_inv_defs by simp
  from disable_serai_validators_ok [OF this] obtain t where
    "disable_serai_validators ?s4 (map snd (SeraiDisabledIndices ?s3)) = Some t" "vs_same ?s4 t" by blast
  then show ?thesis
    using ps(1) n s1(1) s2(1) qs vs_same_ok [OF _ \<open>vs_ok cfg ?s4\<close>]
    by (simp add: rotate_session_def session_def Let_def)
qed


subsection \<open>Allocations\<close>

lemma set_allocation_ok:
  assumes "vs_ok cfg s" and "\<And>per. AllocationPerKeyShare s net = Some per \<Longrightarrow> amount = 0 \<or> per \<le> amount"
  shows "vs_ok cfg (snd (set_allocation cfg s net key amount))"
proof -
  let ?t = "snd (set_allocation cfg s net key amount)"
  have core: "vs_core cfg s" using assms(1) by (simp add: vs_ok_def)
  have "stake_ok ?t net'" if "stake_ok s net'" for net'
    using that assms(2) by (auto simp: stake_ok_def split: if_splits)
  then have "net_ok ?t net'" if "net_ok s net'" for net' using that by (simp add: net_ok_def)
  then have "vs_core cfg ?t"
    using core set_allocation_sync [OF vs_coreD(1) [OF core]] by (simp add: vs_core_def)
  then show ?thesis using assms(1) by (simp add: vs_ok_def)
qed

lemma total_stake_ok: "vs_ok cfg s \<Longrightarrow> vs_ok cfg (s\<lparr>TotalAllocatedStake := (TotalAllocatedStake s)(net \<mapsto> a)\<rparr>)"
  unfolding vs_inv_defs by simp

lemma vs_deposit_event_simps [simp]:
  "vs_ok cfg (vs_deposit_event s e) = vs_ok cfg s" "InSet (vs_deposit_event s e) = InSet s"
  "TotalAllocatedStake (vs_deposit_event s e) = TotalAllocatedStake s"
  unfolding vs_inv_defs by (simp_all add: vs_deposit_event_def)

lemma pending_simps [simp]:
  "vs_ok cfg (set_pending_deallocations s net key m) = vs_ok cfg s"
  "vs_ok cfg (s\<lparr>coins := c\<rparr>) = vs_ok cfg s"
  unfolding vs_inv_defs by (simp_all add: set_pending_deallocations_def)

lemma increase_allocation_ok:
  assumes "vs_ok cfg s" and "increase_allocation cfg s net account amount = Inr t"
  shows "vs_ok cfg t"
proof -
  let ?new = "(case Allocations s net account of Some a \<Rightarrow> a | None \<Rightarrow> 0) + amount"
  let ?s2 = "vs_deposit_event (snd (set_allocation cfg s net account ?new)) (AllocationIncreased account net amount)"
  from assms(2) obtain per where "AllocationPerKeyShare s net = Some per" "\<not> ?new < per"
    and t: "t = (if om_get (InSet ?s2 net) account \<noteq> None
           then ?s2\<lparr>TotalAllocatedStake := (TotalAllocatedStake ?s2)
                    (net \<mapsto> (case TotalAllocatedStake ?s2 net of Some a \<Rightarrow> a | None \<Rightarrow> 0) + amount)\<rparr>
           else ?s2)"
    by (simp only: increase_allocation_def Let_def res_simps sum.inject) blast
  then have "vs_ok cfg ?s2" by (simp del: vs_deposit_event_simps(2,3)) (intro set_allocation_ok [OF assms(1)], auto)
  then show ?thesis unfolding t using total_stake_ok by (simp only: split: if_split) blast
qed

lemma decrease_allocation_Inr:
  assumes "decrease_allocation cfg s net account amount = Inr (b, t)"
  obtains total old new per where
    "TotalAllocatedStake s net = Some total" "amount \<le> total" "required_stake_for_network s net \<le> total - amount"
    "Allocations s net account = Some old" "checked_sub old amount = Some new"
    "AllocationPerKeyShare s net = Some per" "new = 0 \<or> per \<le> new"
    "b \<longleftrightarrow> \<not> in_set s net account"
    "b \<Longrightarrow> t = vs_deposit_event (snd (set_allocation cfg s net account new)) (AllocationDecreased account net amount None)"
    "\<not> b \<Longrightarrow> \<exists>n. session_to_unlock_on_for_current_set s net = Some n \<and>
       t = vs_deposit_event (set_pending_deallocations (snd (set_allocation cfg s net account new)) net account
             (om_set (to_le_bytes n)
               ((case pending_deallocation s net account n of Some a \<Rightarrow> a | None \<Rightarrow> 0) + amount)
               (PendingDeallocations s net account)))
           (AllocationDecreased account net amount (Some n))"
proof -
  have in_set: "in_set (snd (set_allocation cfg s net account new)) net account = in_set s net account" for new
    by (simp add: in_set_def in_active_serai_set_def)
  have pend: "pending_deallocation (snd (set_allocation cfg s net account new)) net account n = pending_deallocation s net account n"
    and unlock: "session_to_unlock_on_for_current_set (snd (set_allocation cfg s net account new)) net =
      session_to_unlock_on_for_current_set s net" for new n
    by (simp_all add: pending_deallocation_def session_to_unlock_on_for_current_set_def session_def)
  from assms obtain total sub old new per where
    facts: "TotalAllocatedStake s net = Some total" "checked_sub total amount = Some sub"
    "\<not> sub < required_stake_for_network s net"
    "Allocations s net account = Some old" "checked_sub old amount = Some new"
    "AllocationPerKeyShare s net = Some per" "\<not> (new \<noteq> 0 \<and> new < per)"
    and last: "(if \<not> in_set s net account then
       Inr (True, vs_deposit_event (snd (set_allocation cfg s net account new)) (AllocationDecreased account net amount None))
     else
       tri (ok_or (session_to_unlock_on_for_current_set s net) VS_Panic) (\<lambda>n.
       Inr (False, vs_deposit_event (set_pending_deallocations (snd (set_allocation cfg s net account new)) net account
             (om_set (to_le_bytes n)
               ((case pending_deallocation s net account n of Some a \<Rightarrow> a | None \<Rightarrow> 0) + amount)
               (PendingDeallocations s net account)))
           (AllocationDecreased account net amount (Some n))))) = Inr (b, t)"
    by (simp only: decrease_allocation_def Let_def res_simps in_set pend unlock set_allocation_simps) blast
  have sub: "amount \<le> total" "sub = total - amount" using facts(2) by (simp_all add: checked_sub_def word_le_nat_alt split: if_splits)
  from last have b: "b \<longleftrightarrow> \<not> in_set s net account" by (auto simp: res_simps split: if_splits)
  show ?thesis
    by (rule that [OF facts(1) sub(1) _ facts(4-6) _ b]) (use facts(3,7) sub last b in \<open>auto simp: res_simps\<close>)
qed

lemma decrease_allocation_ok:
  assumes "vs_ok cfg s" and "decrease_allocation cfg s net account amount = Inr (b, t)"
  shows "vs_ok cfg t"
  using assms(2)
proof (rule decrease_allocation_Inr)
  fix total old new per
  assume per: "AllocationPerKeyShare s net = Some per" "new = 0 \<or> per \<le> new"
    and now: "b \<Longrightarrow> t = vs_deposit_event (snd (set_allocation cfg s net account new)) (AllocationDecreased account net amount None)"
    and later: "\<not> b \<Longrightarrow> \<exists>n. session_to_unlock_on_for_current_set s net = Some n \<and>
       t = vs_deposit_event (set_pending_deallocations (snd (set_allocation cfg s net account new)) net account
             (om_set (to_le_bytes n)
               ((case pending_deallocation s net account n of Some a \<Rightarrow> a | None \<Rightarrow> 0) + amount)
               (PendingDeallocations s net account)))
           (AllocationDecreased account net amount (Some n))"
  have "vs_ok cfg (snd (set_allocation cfg s net account new))" by (rule set_allocation_ok [OF assms(1)]) (use per in auto)
  then show ?thesis using now later by (cases b) auto
qed

section \<open>Everything that changes the state\<close>

text \<open>
  The calls of the pallet as the runtime dispatches them: an unsigned transaction is validated
  before it is executed. The last rule is everything else: the calls of other pallets, and any change
  outside the storage that the invariant is about.
\<close>

inductive vs_step :: "vs_config \<Rightarrow> 'a vs_rt_scheme \<Rightarrow> 'a vs_rt_scheme \<Rightarrow> bool" for cfg where
  step_set_keys:
    "vs_pre_dispatch cfg s (Call_set_keys net removed key_pair signature) = Inr s1 \<Longrightarrow>
     set_keys s1 None net removed key_pair signature = Inr t \<Longrightarrow> vs_step cfg s t"
| step_report_slashes:
    "vs_pre_dispatch cfg s (Call_report_slashes net slashes signature) = Inr s1 \<Longrightarrow>
     report_slashes s1 None net slashes signature = Inr t \<Longrightarrow> vs_step cfg s t"
| step_allocate: "allocate cfg s signer net amount = Inr t \<Longrightarrow> vs_step cfg s t"
| step_deallocate: "deallocate cfg s signer net amount = Inr t \<Longrightarrow> vs_step cfg s t"
| step_claim: "claim_deallocation s signer net n = Inr t \<Longrightarrow> vs_step cfg s t"
| step_retire: "retire_set s vset = Some t \<Longrightarrow> vs_step cfg s t"
| step_offence: "report_offence cfg s offender = Some t \<Longrightarrow> vs_step cfg s t"
| step_initialize: "vs_on_initialize cfg s should_end_session = Some t \<Longrightarrow> vs_step cfg s t"
| step_other: "vs_same s t \<Longrightarrow> vs_step cfg s t"

inductive vs_reachable :: "vs_config \<Rightarrow> 'a vs_rt_scheme \<Rightarrow> 'a vs_rt_scheme \<Rightarrow> bool" for cfg s where
  reachable_start: "vs_reachable cfg s s"
| reachable_step: "vs_reachable cfg s t \<Longrightarrow> vs_step cfg t u \<Longrightarrow> vs_reachable cfg s u"

lemma foldl_events: "vs_same s t \<Longrightarrow> vs_same s (foldl (\<lambda>s x. vs_deposit_event s (f x)) t xs)"
  by (induction xs arbitrary: t) simp_all

lemma vs_transfer_coins: "vs_transfer s sender to amount = Inr t \<Longrightarrow> \<exists>c. t = s\<lparr>coins := c\<rparr>"
  by (auto simp: vs_transfer_def res_simps)

lemma validate_unsigned_same: "vs_validate_unsigned cfg s call = Inr (v, t) \<Longrightarrow> vs_same s t"
  by (cases call) (auto simp: validate_report_slashes_def res_simps Let_def)

lemma set_keys_same: "set_keys s signer net removed key_pair signature = Inr t \<Longrightarrow> vs_same s t"
  by (auto simp: set_keys_def res_simps Let_def intro!: foldl_events)

lemma slash_ok: "vs_ok cfg s \<Longrightarrow> slash_serai_validator cfg s v = Some t \<Longrightarrow> vs_ok cfg t"
proof -
  assume ok: "vs_ok cfg s" and slash: "slash_serai_validator cfg s v = Some t"
  define s1 where "s1 = snd (set_allocation cfg s NetworkId.Serai v 0)"
  have "vs_ok cfg s1" unfolding s1_def by (rule set_allocation_ok [OF ok]) simp
  then have total: "vs_ok cfg (set_pending_deallocations s1 NetworkId.Serai v m\<lparr>TotalAllocatedStake :=
      (TotalAllocatedStake (set_pending_deallocations s1 NetworkId.Serai v m))(NetworkId.Serai \<mapsto> r)\<rparr>)" for m r
    by (intro total_stake_ok) simp
  show "vs_ok cfg t"
    using slash unfolding slash_serai_validator_def Let_def s1_def [symmetric]
    by (elim bindE case_okE) (use \<open>vs_ok cfg s1\<close> total in \<open>auto elim!: bindE split: if_splits\<close>)
qed

lemma vs_step_ok:
  assumes "vs_step cfg s t" and "vs_ok cfg s" and "babe_ok cfg"
  shows "vs_ok cfg t"
  using assms(1)
proof cases
  case (step_set_keys net removed key_pair signature s1)
  then obtain v where "vs_validate_unsigned cfg s (Call_set_keys net removed key_pair signature) = Inr (v, s1)"
    by (auto simp: vs_pre_dispatch_def res_simps)
  then have "vs_same s s1" by (rule validate_unsigned_same)
  moreover have "vs_same s1 t" using step_set_keys(2) by (rule set_keys_same)
  ultimately show ?thesis using assms(2) vs_same_ok by blast
next
  case (step_report_slashes net slashes signature s1)
  then obtain v where "vs_validate_unsigned cfg s (Call_report_slashes net slashes signature) = Inr (v, s1)"
    by (auto simp: vs_pre_dispatch_def res_simps)
  then have "vs_same s s1" by (rule validate_unsigned_same)
  moreover have "vs_same s1 t" using step_report_slashes(2) by (auto simp: report_slashes_def res_simps)
  ultimately show ?thesis using assms(2) vs_same_ok by blast
next
  case (step_allocate signer net amount)
  then obtain account c where "increase_allocation cfg (s\<lparr>coins := c\<rparr>) net account amount = Inr t"
    by (auto simp: allocate_def res_simps dest!: vs_transfer_coins)
  then show ?thesis by (rule increase_allocation_ok [rotated]) (simp add: assms(2))
next
  case (step_deallocate signer net amount)
  then show ?thesis using decrease_allocation_ok [OF assms(2)]
    by (auto simp: deallocate_def res_simps dest!: vs_transfer_coins split: if_splits)
next
  case (step_claim signer net n)
  then show ?thesis using assms(2)
    by (auto simp: claim_deallocation_def take_deallocatable_amount_def res_simps
        dest!: vs_transfer_coins split: if_splits option.splits prod.splits)
next
  case (step_retire vset)
  then have "vs_same s t" by (auto simp: retire_set_def Let_def bind_eq_Some_conv split: if_splits)
  then show ?thesis using vs_same_ok assms(2) by blast
next
  case (step_offence offender)
  then obtain u b where u: "slash_serai_validator cfg s offender = Some u" "disable_serai_validator u offender = Some (b, t)"
    by (auto simp: report_offence_def bind_eq_Some_conv)
  have ok: "vs_ok cfg u" by (rule slash_ok [OF assms(2) u(1)])
  then have "vs_same u t" using disable_serai_validator_ok [OF ok, of offender] u(2) by auto
  then show ?thesis using vs_same_ok ok by blast
next
  case (step_initialize b)
  then show ?thesis using rotate_session_ok [OF assms(3,2)] assms(2) by (auto simp: vs_on_initialize_def split: if_splits)
next
  case step_other
  then show ?thesis using vs_same_ok assms(2) by blast
qed

lemma vs_reachable_ok: "vs_reachable cfg s t \<Longrightarrow> vs_ok cfg s \<Longrightarrow> babe_ok cfg \<Longrightarrow> vs_ok cfg t"
  by (induction rule: vs_reachable.induct) (auto intro: vs_step_ok)


section \<open>Genesis\<close>

definition vs_fresh :: "'a vs_rt_scheme \<Rightarrow> bool" where
  "vs_fresh s = (CurrentSession s = (\<lambda>_. None) \<and> InSet s = (\<lambda>_. []) \<and> Allocations s = (\<lambda>_ _. None) \<and>
     SortedAllocations s = [] \<and> length (BabeAuthorities s) < 2 ^ 32)"

lemma genesis_allocate_fold:
  assumes "alloc_sync cfg s" and "stake \<noteq> 0" and "distinct ps" and "\<forall>p \<in> set ps. Allocations s net p = None"
  obtains t where "foldl (genesis_allocate cfg net stake) (Some s) ps = Some t" and "alloc_sync cfg t"
    and "Allocations t = (Allocations s)(net := (\<lambda>k. if k \<in> set ps then Some stake else Allocations s net k))"
    and "CurrentSession t = CurrentSession s" and "InSet t = InSet s" and "Participants t = Participants s"
    and "AllocationPerKeyShare t = AllocationPerKeyShare s" and "TotalAllocatedStake t = TotalAllocatedStake s"
    and "BabeAuthorities t = BabeAuthorities s" and "Keys t = Keys s"
  using assms
proof (induction ps arbitrary: s thesis)
  case Nil
  show ?case by (rule Nil.prems(1)) (use Nil.prems in auto)
next
  case (Cons p ps)
  let ?u = "snd (set_allocation cfg s net p stake)"
  have sync: "alloc_sync cfg ?u" by (rule set_allocation_sync [OF Cons.prems(2)])
  have none: "\<forall>q \<in> set ps. Allocations ?u net q = None" using Cons.prems(4,5) by auto
  have p: "genesis_allocate cfg net stake (Some s) p = Some ?u"
    using Cons.prems(5) by (simp add: genesis_allocate_def set_allocation_eq)
  show ?case
  proof (rule Cons.IH [OF _ sync Cons.prems(3) _ none])
    show "distinct ps" using Cons.prems(4) by simp
    fix t
    assume t: "foldl (genesis_allocate cfg net stake) (Some ?u) ps = Some t" "alloc_sync cfg t"
      "Allocations t = (Allocations ?u)(net := (\<lambda>k. if k \<in> set ps then Some stake else Allocations ?u net k))"
      "CurrentSession t = CurrentSession ?u" "InSet t = InSet ?u" "Participants t = Participants ?u"
      "AllocationPerKeyShare t = AllocationPerKeyShare ?u" "TotalAllocatedStake t = TotalAllocatedStake ?u"
      "BabeAuthorities t = BabeAuthorities ?u" "Keys t = Keys ?u"
    have alloc: "Allocations t = (Allocations s)(net := (\<lambda>k. if k \<in> set (p # ps) then Some stake else Allocations s net k))"
      using Cons.prems(3) by (simp add: t(3) fun_eq_iff)
    show thesis by (rule Cons.prems(1) [OF _ t(2) alloc]) (use t p in simp_all)
  qed
qed

lemma genesis_network_core:
  assumes "vs_core cfg s" and "stake \<noteq> 0" and "distinct ps" and "CurrentSession s net = None"
    and none: "\<And>net'. CurrentSession s net' = None \<Longrightarrow> Allocations s net' = (\<lambda>_. None)"
  obtains t where "genesis_network cfg ps (Some s) (net, stake) = Some t" and "vs_core cfg t"
    and "\<And>net'. CurrentSession t net' = None \<longleftrightarrow> CurrentSession s net' = None \<and> net' \<noteq> net"
    and "\<And>net'. CurrentSession t net' = None \<Longrightarrow> Allocations t net' = (\<lambda>_. None)"
    and "BabeAuthorities t = BabeAuthorities s" and "Keys t = Keys s" and "ps \<noteq> [] \<Longrightarrow> Participants t net \<noteq> Some []"
    and "\<And>net'. net' \<noteq> net \<Longrightarrow> Participants t net' = Participants s net'"
proof -
  note core = vs_coreD [OF assms(1)]
  let ?s = "s\<lparr>AllocationPerKeyShare := (AllocationPerKeyShare s)(net \<mapsto> stake)\<rparr>"
  have sync: "alloc_sync cfg ?s" using core(1) by (simp add: alloc_sync_def)
  have empty: "\<forall>p \<in> set ps. Allocations ?s net p = None" using none [OF assms(4)] by simp
  obtain t where t: "foldl (genesis_allocate cfg net stake) (Some ?s) ps = Some t" "alloc_sync cfg t"
      "Allocations t = (Allocations ?s)(net := (\<lambda>k. if k \<in> set ps then Some stake else Allocations ?s net k))"
    and same: "CurrentSession t = CurrentSession ?s" "InSet t = InSet ?s" "Participants t = Participants ?s"
      "AllocationPerKeyShare t = AllocationPerKeyShare ?s" "TotalAllocatedStake t = TotalAllocatedStake ?s"
      "BabeAuthorities t = BabeAuthorities ?s" "Keys t = Keys ?s"
    by (rule genesis_allocate_fold [OF sync assms(2,3) empty])
  have stake: "stake_ok t net" using assms(2) none [OF assms(4)] by (auto simp: stake_ok_def t(3) same split: if_splits)
  have len: "length (InSet t net) \<le> 150" using core(2) [OF assms(4)] by (simp add: same)
  have rest: "(CurrentSession t net' = None \<longrightarrow> InSet t net' = []) \<and> (CurrentSession t net' \<noteq> None \<longrightarrow> net_ok t net')"
    if "net' \<noteq> net" for net'
    using that core(2,3) [of net'] by (simp add: same net_ok_def stake_ok_def t(3))
  obtain u where u: "new_set t net = Some u" "vs_core cfg u" "BabeAuthorities u = BabeAuthorities t"
    "\<And>net'. CurrentSession t net' \<noteq> None \<Longrightarrow> CurrentSession u net' \<noteq> None" "CurrentSession u net \<noteq> None"
    "Allocations u = Allocations t"
    and frame: "\<And>net'. net' \<noteq> net \<Longrightarrow> CurrentSession u net' = CurrentSession t net' \<and> Participants u net' = Participants t net'"
    and some: "\<And>key. Allocations t net key \<noteq> None \<Longrightarrow> Participants u net \<noteq> Some []" and keys: "Keys u = Keys t"
    by (rule new_set_core [OF t(2) stake len rest]) (assumption, rule that)
  have ses: "CurrentSession u net' = None \<longleftrightarrow> CurrentSession s net' = None \<and> net' \<noteq> net" for net'
    using u(5) frame [of net'] by (cases "net' = net") (auto simp: same)
  show ?thesis
  proof (rule that [OF _ u(2) ses])
    show "genesis_network cfg ps (Some s) (net, stake) = Some u" using t(1) u(1) by (simp add: genesis_network_def)
    show "Allocations u net' = (\<lambda>_. None)" if "CurrentSession u net' = None" for net'
      using that none [of net'] by (simp add: ses u(6) t(3))
    show "BabeAuthorities u = BabeAuthorities s" "Keys u = Keys s" using u(3) same keys by simp_all
    show "Participants u net' = Participants s net'" if "net' \<noteq> net" for net' using frame [OF that] by (simp add: same)
    show "Participants u net \<noteq> Some []" if "ps \<noteq> []"
      using some [of "hd ps"] that by (simp add: t(3))
  qed
qed

lemma genesis_networks_core:
  assumes "vs_core cfg s" and "0 \<notin> snd ` set networks" and "distinct ps" and "distinct (map fst networks)"
    and "\<forall>net \<in> fst ` set networks. CurrentSession s net = None"
    and "\<And>net. CurrentSession s net = None \<Longrightarrow> Allocations s net = (\<lambda>_. None)"
  shows "\<exists>t. foldl (genesis_network cfg ps) (Some s) networks = Some t \<and> vs_core cfg t \<and>
    (\<forall>net. CurrentSession t net = None \<longleftrightarrow> CurrentSession s net = None \<and> net \<notin> fst ` set networks) \<and>
    BabeAuthorities t = BabeAuthorities s \<and> Keys t = Keys s \<and>
    (\<forall>net \<in> fst ` set networks. ps \<noteq> [] \<longrightarrow> Participants t net \<noteq> Some []) \<and>
    (\<forall>net. net \<notin> fst ` set networks \<longrightarrow> Participants t net = Participants s net)"
  using assms
proof (induction networks arbitrary: s)
  case (Cons x networks)
  obtain net stake where x: "x = (net, stake)" by force
  have st: "stake \<noteq> 0" and no: "CurrentSession s net = None" using Cons.prems(2,5) by (auto simp: x)
  obtain t where t: "genesis_network cfg ps (Some s) (net, stake) = Some t" "vs_core cfg t"
    "\<And>net'. CurrentSession t net' = None \<longleftrightarrow> CurrentSession s net' = None \<and> net' \<noteq> net"
    "\<And>net'. CurrentSession t net' = None \<Longrightarrow> Allocations t net' = (\<lambda>_. None)" "BabeAuthorities t = BabeAuthorities s"
    "Keys t = Keys s" "ps \<noteq> [] \<Longrightarrow> Participants t net \<noteq> Some []"
    "\<And>net'. net' \<noteq> net \<Longrightarrow> Participants t net' = Participants s net'"
    by (rule genesis_network_core [OF Cons.prems(1) st Cons.prems(3) no Cons.prems(6)]) (assumption, rule that)
  have "\<exists>u. foldl (genesis_network cfg ps) (Some t) networks = Some u \<and> vs_core cfg u \<and>
    (\<forall>net. CurrentSession u net = None \<longleftrightarrow> CurrentSession t net = None \<and> net \<notin> fst ` set networks) \<and>
    BabeAuthorities u = BabeAuthorities t \<and> Keys u = Keys t \<and>
    (\<forall>net \<in> fst ` set networks. ps \<noteq> [] \<longrightarrow> Participants u net \<noteq> Some []) \<and>
    (\<forall>net. net \<notin> fst ` set networks \<longrightarrow> Participants u net = Participants t net)"
    by (rule Cons.IH [OF t(2) _ Cons.prems(3) _ _ t(4)]) (use Cons.prems x t(3) in auto)
  then obtain u where "foldl (genesis_network cfg ps) (Some t) networks = Some u" "vs_core cfg u"
    "\<forall>net. CurrentSession u net = None \<longleftrightarrow> CurrentSession t net = None \<and> net \<notin> fst ` set networks"
    "BabeAuthorities u = BabeAuthorities t" "Keys u = Keys t"
    "\<forall>net \<in> fst ` set networks. ps \<noteq> [] \<longrightarrow> Participants u net \<noteq> Some []"
    "\<forall>net. net \<notin> fst ` set networks \<longrightarrow> Participants u net = Participants t net" by blast
  then show ?case using t Cons.prems(4) by (intro exI [of _ u]) (auto simp: x)
qed auto

lemma vs_genesis_ok:
  assumes "vs_fresh s" and "0 \<notin> snd ` set networks" and "distinct ps" and "distinct (map fst networks)"
    and "NetworkId.Serai \<in> fst ` set networks"
  shows "\<exists>t. vs_genesis_build cfg s networks ps = Some t \<and> vs_ok cfg t \<and> Keys t = Keys s \<and>
    (\<forall>net \<in> fst ` set networks. CurrentSession t net \<noteq> None \<and> (ps \<noteq> [] \<longrightarrow> Participants t net \<noteq> Some []))"
proof -
  have "vs_core cfg s" using assms(1) by (simp add: vs_fresh_def vs_core_def alloc_sync_def allocation_keys_def)
  then have "\<exists>t. foldl (genesis_network cfg ps) (Some s) networks = Some t \<and> vs_core cfg t \<and>
    (\<forall>net. CurrentSession t net = None \<longleftrightarrow> CurrentSession s net = None \<and> net \<notin> fst ` set networks) \<and>
    BabeAuthorities t = BabeAuthorities s \<and> Keys t = Keys s \<and>
    (\<forall>net \<in> fst ` set networks. ps \<noteq> [] \<longrightarrow> Participants t net \<noteq> Some []) \<and>
    (\<forall>net. net \<notin> fst ` set networks \<longrightarrow> Participants t net = Participants s net)"
    by (rule genesis_networks_core [OF _ assms(2-4)]) (use assms(1) in \<open>simp_all add: vs_fresh_def\<close>)
  then obtain t where t: "vs_genesis_build cfg s networks ps = Some t" "vs_core cfg t" "Keys t = Keys s"
    "\<forall>net. CurrentSession t net = None \<longleftrightarrow> CurrentSession s net = None \<and> net \<notin> fst ` set networks"
    "BabeAuthorities t = BabeAuthorities s" "\<forall>net \<in> fst ` set networks. ps \<noteq> [] \<longrightarrow> Participants t net \<noteq> Some []"
    unfolding vs_genesis_build_def by blast
  then have "vs_ok cfg t" using assms(1,5) by (simp add: vs_ok_def vs_fresh_def)
  then show ?thesis using t by (intro exI [of _ t]) simp
qed

end
