(* ===== verification/Validator_Sets_Safety.thy ===== *)
theory Validator_Sets_Safety
  imports Validator_Sets_Invariant
begin

text \<open>
  Properties of every state the validator-sets pallet can reach from a genesis.
\<close>

section \<open>Lemmas\<close>

definition vs_initial :: "vs_config \<Rightarrow> 'a vs_rt_scheme \<Rightarrow> bool" where
  "vs_initial cfg s = (\<exists>s0 networks participants.
     vs_fresh s0 \<and> distinct participants \<and> distinct (map fst networks) \<and> 0 \<notin> snd ` set networks \<and>
     NetworkId.Serai \<in> fst ` set networks \<and> vs_genesis_build cfg s0 networks participants = Some s)"

lemma vs_initial_ok: "vs_initial cfg s \<Longrightarrow> vs_ok cfg s"
proof -
  assume "vs_initial cfg s"
  then obtain s0 networks ps where g: "vs_fresh s0" "0 \<notin> snd ` set networks" "distinct ps"
    "distinct (map fst networks)" "NetworkId.Serai \<in> fst ` set networks" "vs_genesis_build cfg s0 networks ps = Some s"
    by (auto simp: vs_initial_def)
  from vs_genesis_ok [OF g(1-5), of cfg] g(6) show ?thesis by auto
qed

lemma reachable_ok: "vs_initial cfg s \<Longrightarrow> vs_reachable cfg s t \<Longrightarrow> babe_ok cfg \<Longrightarrow> vs_ok cfg t"
  using vs_initial_ok vs_reachable_ok by blast

lemma example_babe_ok [simp]: "babe_ok example_vs_cfg"
  by (simp add: babe_ok_def example_vs_cfg_def)

lemma empty_vs_fresh [simp]: "vs_fresh empty_vs"
  by (simp add: vs_fresh_def)

lemma example_initial:
  obtains s :: vs_rt where "vs_initial example_vs_cfg s" and "Keys s = (\<lambda>_. None)"
    and "CurrentSession s NetworkId.Bitcoin \<noteq> None" and "Participants s NetworkId.Bitcoin \<noteq> Some []"
proof -
  let ?nets = "[(NetworkId.Serai, 50), (NetworkId.Bitcoin, 100)] :: (NetworkId \<times> Amount) list" and ?ps = "[10, 11, 12, 13] :: Public list"
  have "\<exists>t. vs_genesis_build example_vs_cfg empty_vs ?nets ?ps = Some t \<and> vs_ok example_vs_cfg t \<and> Keys t = Keys empty_vs \<and>
    (\<forall>net \<in> fst ` set ?nets. CurrentSession t net \<noteq> None \<and> (?ps \<noteq> [] \<longrightarrow> Participants t net \<noteq> Some []))"
    by (rule vs_genesis_ok) simp_all
  then obtain s where s: "vs_genesis_build example_vs_cfg empty_vs ?nets ?ps = Some s" "Keys s = (\<lambda>_. None)"
    "CurrentSession s NetworkId.Bitcoin \<noteq> None" "Participants s NetworkId.Bitcoin \<noteq> Some []" by auto
  then have "vs_initial example_vs_cfg s"
    unfolding vs_initial_def by (intro exI [of _ empty_vs] exI [of _ ?nets] exI [of _ ?ps]) simp
  then show ?thesis using s(2-4) by (rule that)
qed

lemma count_signers_eq:
  assumes "\<And>x. x \<in> set qs \<Longrightarrow> om_get m (fst x) = Some (snd x)"
  shows "count_signers m removed (map fst qs) a sg k =
    Some (a + sum_list (map snd qs), sg @ map fst (filter (\<lambda>x. fst x \<notin> set removed) qs),
          k + sum_list (map snd (filter (\<lambda>x. fst x \<notin> set removed) qs)))"
  using assms
proof (induction qs arbitrary: a sg k)
  case (Cons x qs)
  then have "om_get m (fst x) = Some (snd x)" by simp
  then show ?case using Cons by (simp add: add.assoc)
qed simp

lemma sum_filter_le: "sum_list (map f (filter P xs)) \<le> sum_list (map f xs)" for f :: "'a \<Rightarrow> nat"
  by (induction xs) auto

lemma quorum_nat:
  fixes all sk :: u64
  assumes "unat sk \<le> unat all" and "unat all \<le> 150" and "\<not> sk < 2 * (all - sk) + 1"
  shows "2 * unat all < 3 * unat sk"
proof -
  obtain f where f: "f = all - sk" by simp
  then have un: "unat f = unat all - unat sk" using assms(1) by (simp add: unat_sub word_le_nat_alt)
  then have "unat f \<le> 150" using assms(2) by linarith
  then have two: "unat (2 * f) = 2 * unat f" using unat_mult_lem [of 2 f] by simp
  then have "unat (2 * f + 1) = 2 * unat f + 1" using \<open>unat f \<le> 150\<close> unat_add_lem [of "2 * f" 1] by simp
  then have "2 * unat f + 1 \<le> unat sk" using assms(3) by (simp add: f word_less_nat_alt)
  then show ?thesis using assms(1) un by linarith
qed

section \<open>Properties\<close>

text \<open>
  C9: the rotation of sessions never panics. From every state that the calls, handovers, offences
  and block hooks reach from a genesis, the block hook returns whether or not the session ends:
  every \<open>unwrap\<close>, \<open>expect\<close>, division and assertion on the way through \<open>rotate_session\<close>,
  \<open>new_session\<close> and \<open>new_set\<close> succeeds for every network.
\<close>

theorem session_rotation_never_panics:
  assumes "babe_ok cfg" and "vs_initial cfg s" and "vs_reachable cfg s t"
  shows "\<exists>u. vs_on_initialize cfg t should_end_session = Some u"
  using rotate_session_ok [OF assms(1) reachable_ok [OF assms(2,3,1)]]
  by (cases should_end_session) (auto simp: vs_on_initialize_def)

theorem session_rotation_never_panics_witness:
  "\<exists>(s :: vs_rt) t u. vs_initial example_vs_cfg s \<and> vs_on_initialize example_vs_cfg s True = Some t \<and>
     vs_on_initialize example_vs_cfg t True = Some u"
proof -
  obtain s :: vs_rt where s: "vs_initial example_vs_cfg s" using example_initial by blast
  obtain t where t: "vs_on_initialize example_vs_cfg s True = Some t"
    using session_rotation_never_panics [OF example_babe_ok s reachable_start] by blast
  have "vs_reachable example_vs_cfg s t"
    by (rule reachable_step [OF reachable_start step_initialize [OF t]])
  then obtain u where "vs_on_initialize example_vs_cfg t True = Some u"
    using session_rotation_never_panics [OF example_babe_ok s] by blast
  then show ?thesis using s t by blast
qed

text \<open>
  C31: in every reachable state, each network with a session has a well-formed set: its participants
  are pairwise distinct, each with at least one key share and with at most 150 key shares in total;
  \<open>InSet\<close> holds exactly these shares; and every allocation to the network covers at least one key
  share.
\<close>

theorem reachable_sets_well_formed:
  assumes "babe_ok cfg" and "vs_initial cfg s" and "vs_reachable cfg s t" and "session t net \<noteq> None"
  shows "\<exists>ps per. Participants t net = Some ps \<and> distinct (map fst ps) \<and> list_all (\<lambda>(_, n). 1 \<le> n) ps \<and>
    sum_list (map (\<lambda>(_, n). unat n) ps) \<le> 150 \<and> (\<forall>key. om_get (InSet t net) key = map_of ps key) \<and>
    AllocationPerKeyShare t net = Some per \<and> 0 < per \<and>
    (\<forall>key a. Allocations t net key = Some a \<longrightarrow> per \<le> a)"
proof -
  have "net_ok t net"
    using reachable_ok [OF assms(2,3,1)] assms(4) by (auto simp: vs_ok_def vs_core_def session_def)
  then obtain ps per where "Participants t net = Some ps" "participants_ok ps" "\<forall>k. om_get (InSet t net) k = map_of ps k"
    "AllocationPerKeyShare t net = Some per" "per \<noteq> 0" "\<forall>key a. Allocations t net key = Some a \<longrightarrow> per \<le> a"
    by (auto simp: net_ok_def stake_ok_def)
  then show ?thesis
    by (intro exI [of _ ps] exI [of _ per]) (simp add: participants_ok_def comp_def split_def word_neq_0_conv)
qed

theorem reachable_sets_well_formed_witness:
  "\<exists>(s :: vs_rt) ps per. vs_initial example_vs_cfg s \<and> Participants s NetworkId.Serai = Some ps \<and> distinct (map fst ps) \<and>
     (\<forall>key. om_get (InSet s NetworkId.Serai) key = map_of ps key) \<and>
     AllocationPerKeyShare s NetworkId.Serai = Some per \<and> 0 < per"
proof -
  obtain s :: vs_rt where s: "vs_initial example_vs_cfg s" using example_initial by blast
  have "session s NetworkId.Serai \<noteq> None" using vs_initial_ok [OF s] by (simp add: vs_ok_def session_def)
  from reachable_sets_well_formed [OF example_babe_ok s reachable_start this] s show ?thesis by blast
qed

text \<open>
  C13: new keys are accepted only from a supermajority. In every reachable state, when the validation
  accepts keys for a network, the network is an external one whose set has no keys yet, the
  participants that were not removed hold more than two thirds of the set's key shares, and the
  signature verifies under their MuSig key for exactly this set, these removals and these keys.
\<close>

theorem set_keys_needs_supermajority:
  assumes "babe_ok cfg" and "vs_initial cfg s" and "vs_reachable cfg s t"
    and "validate_set_keys cfg t net removed key_pair signature = Inr v"
  shows "\<exists>n ps key. net \<noteq> NetworkId.Serai \<and> session t net = Some n \<and>
    Keys t \<lparr>vs_session = n, vs_network = net\<rparr> = None \<and> Participants t net = Some ps \<and>
    2 * sum_list (map (\<lambda>(_, shares). unat shares) ps) <
      3 * sum_list (map (\<lambda>(_, shares). unat shares) (filter (\<lambda>(p, _). p \<notin> set removed) ps)) \<and>
    musig_key cfg \<lparr>vs_session = n, vs_network = net\<rparr> (map fst (filter (\<lambda>(p, _). p \<notin> set removed) ps)) = Some key \<and>
    verify cfg key (set_keys_message \<lparr>vs_session = n, vs_network = net\<rparr> removed key_pair) signature"
proof -
  from assms(4) obtain n ps all signers sk key where facts: "net \<noteq> NetworkId.Serai" "session t net = Some n"
    "Keys t \<lparr>vs_session = n, vs_network = net\<rparr> = None" "Participants t net = Some ps"
    and count: "count_signers (InSet t net) removed (map fst ps) 0 [] 0 = Some (all, signers, sk)"
    and quorum: "\<not> sk < 2 * (all - sk) + 1"
    and sig: "musig_key cfg \<lparr>vs_session = n, vs_network = net\<rparr> signers = Some key"
      "verify cfg key (set_keys_message \<lparr>vs_session = n, vs_network = net\<rparr> removed key_pair) signature"
    by (auto simp: validate_set_keys_def res_simps Let_def)
  have "net_ok t net" using reachable_ok [OF assms(2,3,1)] facts(2) by (auto simp: vs_ok_def vs_core_def session_def)
  then have ps: "participants_ok ps" "\<And>k. om_get (InSet t net) k = map_of ps k" using facts(4) by (auto simp: net_ok_def)
  have "om_get (InSet t net) (fst x) = Some (snd x)" if "x \<in> set ps" for x
    using that ps by (simp add: participants_ok_def)
  from count_signers_eq [OF this] count
  have eqs: "all = sum_list (map snd ps)" "signers = map fst (filter (\<lambda>x. fst x \<notin> set removed) ps)"
    "sk = sum_list (map snd (filter (\<lambda>x. fst x \<notin> set removed) ps))" by auto
  have sum: "sum_list (map (unat \<circ> snd) ps) \<le> 150" using ps(1) by (simp add: participants_ok_def)
  have le: "sum_list (map (unat \<circ> snd) (filter (\<lambda>x. fst x \<notin> set removed) ps)) \<le> sum_list (map (unat \<circ> snd) ps)"
    by (rule sum_filter_le)
  have un: "unat all = sum_list (map (unat \<circ> snd) ps)"
    "unat sk = sum_list (map (unat \<circ> snd) (filter (\<lambda>x. fst x \<notin> set removed) ps))"
    unfolding eqs using sum le by (simp_all add: unat_sum_list)
  have "2 * unat all < 3 * unat sk" by (rule quorum_nat [OF _ _ quorum]) (use un sum le in simp_all)
  then show ?thesis
    using facts sig un by (intro exI [of _ n] exI [of _ ps] exI [of _ key]) (simp add: eqs comp_def split_def)
qed



lemma example_set_keys:
  assumes "vs_ok example_vs_cfg s" and "Keys s = (\<lambda>_. None)" and "CurrentSession s NetworkId.Bitcoin \<noteq> None"
    and "Participants s NetworkId.Bitcoin \<noteq> Some []"
  shows "\<exists>v. validate_set_keys example_vs_cfg s NetworkId.Bitcoin [] (5, [6]) [1] = Inr v"
proof -
  obtain n where n: "CurrentSession s NetworkId.Bitcoin = Some n" using assms(3) by blast
  have "net_ok s NetworkId.Bitcoin" using assms(1) n by (auto simp: vs_ok_def vs_core_def)
  then obtain ps where ps: "Participants s NetworkId.Bitcoin = Some ps" "participants_ok ps"
    "\<forall>k. om_get (InSet s NetworkId.Bitcoin) k = map_of ps k" by (auto simp: net_ok_def)
  have "om_get (InSet s NetworkId.Bitcoin) (fst x) = Some (snd x)" if "x \<in> set ps" for x
    using that ps by (simp add: participants_ok_def)
  from count_signers_eq [OF this, of ps "[]" 0 "[]" 0]
  have count: "count_signers (InSet s NetworkId.Bitcoin) [] (map fst ps) 0 [] 0 =
    Some (sum_list (map snd ps), map fst ps, sum_list (map snd ps))" by simp
  have "unat (sum_list (map snd ps)) = sum_list (map (unat \<circ> snd) ps)"
    using ps(2) unat_sum_list [of "map snd ps"] by (simp add: participants_ok_def)
  moreover obtain x qs where "ps = x # qs" using assms(4) ps(1) by (cases ps) auto
  ultimately have "0 < unat (sum_list (map snd ps))" using ps(2) by (auto simp: participants_ok_def word_le_nat_alt)
  then have "\<not> sum_list (map snd ps) < 1" by (simp add: word_less_nat_alt)
  then show ?thesis
    using n ps(1) count assms(2)
    by (simp add: validate_set_keys_def session_def latest_decided_session_def musig_key_def example_vs_cfg_def
        list.pred_True Let_def tri_def ensure_def ok_or_def)
qed

theorem set_keys_needs_supermajority_witness:
  "\<exists>(s :: vs_rt) n ps. vs_initial example_vs_cfg s \<and> session s NetworkId.Bitcoin = Some n \<and>
     Participants s NetworkId.Bitcoin = Some ps \<and>
     2 * sum_list (map (\<lambda>(_, shares). unat shares) ps) <
      3 * sum_list (map (\<lambda>(_, shares). unat shares) (filter (\<lambda>(p, _). p \<notin> set []) ps))"
proof -
  obtain s :: vs_rt where s: "vs_initial example_vs_cfg s" "Keys s = (\<lambda>_. None)"
    "CurrentSession s NetworkId.Bitcoin \<noteq> None" "Participants s NetworkId.Bitcoin \<noteq> Some []"
    by (rule example_initial)
  obtain v where "validate_set_keys example_vs_cfg s NetworkId.Bitcoin [] (5, [6]) [1] = Inr v"
    using example_set_keys [OF vs_initial_ok [OF s(1)] s(2-4)] by blast
  from set_keys_needs_supermajority [OF example_babe_ok s(1) reachable_start this] s(1) show ?thesis by blast
qed

end
