(* ===== verification/Validator_Sets_Stake.thy ===== *)
theory Validator_Sets_Stake
  imports Validator_Sets_Safety
begin

text \<open>
  What the validator-sets pallet owes: the allocations and the queued deallocations. Every call
  changes it by exactly what it moves into or out of the pallet's account.
\<close>

section \<open>Owed stake\<close>

instance NetworkId :: finite
proof
  have "x \<in> {NetworkId.Serai, NetworkId.Bitcoin, NetworkId.Ethereum, NetworkId.Monero}" for x :: NetworkId by (cases x) simp_all
  then have "(UNIV :: NetworkId set) \<subseteq> {NetworkId.Serai, NetworkId.Bitcoin, NetworkId.Ethereum, NetworkId.Monero}" by blast
  then show "finite (UNIV :: NetworkId set)" by (rule finite_subset) simp
qed

definition om_sum :: "('k::linorder, u64) omap \<Rightarrow> nat" where
  "om_sum m = sum_list (map (unat \<circ> snd) m)"

definition owed :: "'a vs_rt_scheme \<Rightarrow> NetworkId \<times> Public \<Rightarrow> nat" where
  "owed s = (\<lambda>(net, key). (case Allocations s net key of Some a \<Rightarrow> unat a | None \<Rightarrow> 0) +
     om_sum (PendingDeallocations s net key))"

definition stake_owed :: "'a vs_rt_scheme \<Rightarrow> nat" where
  "stake_owed s = (\<Sum>p\<in>UNIV. owed s p)"

lemma om_sum_set: "om_wf m \<Longrightarrow> om_sum (om_set k v m) + (case om_get m k of Some w \<Rightarrow> unat w | None \<Rightarrow> 0) = om_sum m + unat v"
proof (induction k v m rule: om_set.induct)
  case (2 k v a b m)
  consider "k < a" | "k = a" | "a < k" by fastforce
  then show ?case
  proof cases
    case 1
    then have "om_get ((a, b) # m) k = None" using 2(2) by (subst om_get_None) auto
    then show ?thesis using 1 by (simp add: om_sum_def)
  qed (use 2 in \<open>auto simp: om_sum_def\<close>)
qed (simp add: om_sum_def)

lemma om_sum_remove: "om_sum (om_remove k m) + (case om_get m k of Some w \<Rightarrow> unat w | None \<Rightarrow> 0) = om_sum m"
  by (induction k m rule: om_remove.induct) (auto simp: om_sum_def)

lemma om_sum_get: "om_get m k = Some w \<Longrightarrow> unat w \<le> om_sum m"
  using om_sum_remove [of k m] by simp

lemma unat_om_sum: "om_sum m < 2 ^ 64 \<Longrightarrow> unat (sum_list (map snd m)) = om_sum m"
  using unat_sum_list [of "map snd m"] by (simp add: om_sum_def)

lemma owed_le: "owed s p \<le> stake_owed s"
  unfolding stake_owed_def by (rule member_le_sum) simp_all

text \<open>A call that touches one validator's stake changes the total by that validator's share.\<close>

lemma stake_owed_update:
  assumes "\<And>p. p \<noteq> q \<Longrightarrow> owed t p = owed s p"
  shows "stake_owed t + owed s q = stake_owed s + owed t q"
proof -
  have "(\<Sum>p\<in>UNIV - {q}. owed t p) = (\<Sum>p\<in>UNIV - {q}. owed s p)" using assms by (intro sum.cong) auto
  moreover have "stake_owed t = owed t q + (\<Sum>p\<in>UNIV - {q}. owed t p)" "stake_owed s = owed s q + (\<Sum>p\<in>UNIV - {q}. owed s p)"
    unfolding stake_owed_def by (intro sum.remove; simp)+
  ultimately show ?thesis by simp
qed

lemma owed_simps [simp]:
  "owed (vs_deposit_event s e) = owed s" "owed (s\<lparr>coins := c\<rparr>) = owed s"
  "owed (s\<lparr>TotalAllocatedStake := m\<rparr>) = owed s"
  by (auto simp: owed_def vs_deposit_event_def)

lemma stake_owed_simps [simp]:
  "stake_owed (vs_deposit_event s e) = stake_owed s" "stake_owed (s\<lparr>coins := c\<rparr>) = stake_owed s"
  "stake_owed (s\<lparr>TotalAllocatedStake := m\<rparr>) = stake_owed s"
  by (simp_all add: stake_owed_def)

lemma owed_set_allocation:
  "owed (snd (set_allocation cfg s net key a)) p =
     (if p = (net, key) then unat a + om_sum (PendingDeallocations s net key) else owed s p)"
  by (cases p) (auto simp: owed_def)

lemma owed_set_pending:
  "owed (set_pending_deallocations s net key m) p =
     (if p = (net, key) then (case Allocations s net key of Some a \<Rightarrow> unat a | None \<Rightarrow> 0) + om_sum m else owed s p)"
  by (cases p) (auto simp: owed_def set_pending_deallocations_def)

lemma vs_deposit_coins [simp]: "coins (vs_deposit_event s e) = coins s"
  by (simp add: vs_deposit_event_def)

lemma set_pending_coins [simp]: "coins (set_pending_deallocations s net key m) = coins s"
  by (simp add: set_pending_deallocations_def)

section \<open>The calls\<close>

lemma increase_allocation_Inr:
  assumes "increase_allocation cfg s net account amount = Inr t"
  defines "new \<equiv> (case Allocations s net account of Some a \<Rightarrow> a | None \<Rightarrow> 0) + amount"
  shows "owed t = owed (snd (set_allocation cfg s net account new))" and "coins t = coins s"
proof -
  let ?s2 = "vs_deposit_event (snd (set_allocation cfg s net account new)) (AllocationIncreased account net amount)"
  from assms(1) have "t = (if om_get (InSet ?s2 net) account \<noteq> None
           then ?s2\<lparr>TotalAllocatedStake := (TotalAllocatedStake ?s2)
                    (net \<mapsto> (case TotalAllocatedStake ?s2 net of Some a \<Rightarrow> a | None \<Rightarrow> 0) + amount)\<rparr>
           else ?s2)"
    unfolding new_def by (simp only: increase_allocation_def Let_def res_simps sum.inject) blast
  then show "owed t = owed (snd (set_allocation cfg s net account new))" "coins t = coins s" by simp_all
qed

lemma increase_allocation_owed:
  assumes "increase_allocation cfg s net account amount = Inr t" and "stake_owed s + unat amount < 2 ^ 64"
  shows "stake_owed t = stake_owed s + unat amount" and "coins t = coins s"
proof -
  let ?old = "case Allocations s net account of Some a \<Rightarrow> a | None \<Rightarrow> 0"
  have "unat ?old \<le> stake_owed s" using owed_le [of s "(net, account)"] by (auto simp: owed_def split: option.splits)
  then have "unat (?old + amount) = unat ?old + unat amount" using assms(2) by (intro unat_add_lem [THEN iffD1]) simp
  moreover have "owed s (net, account) = unat ?old + om_sum (PendingDeallocations s net account)"
    by (simp add: owed_def split: option.splits)
  ultimately have "owed t (net, account) = owed s (net, account) + unat amount"
    "\<And>p. p \<noteq> (net, account) \<Longrightarrow> owed t p = owed s p"
    by (simp_all add: increase_allocation_Inr [OF assms(1)] owed_set_allocation)
  then show "stake_owed t = stake_owed s + unat amount" using stake_owed_update [of "(net, account)" t s] by simp
  show "coins t = coins s" by (rule increase_allocation_Inr(2) [OF assms(1)])
qed

lemma decrease_allocation_owed:
  assumes "decrease_allocation cfg s net account amount = Inr (b, t)"
    and "om_wf (PendingDeallocations s net account)" and "stake_owed s < 2 ^ 64"
  shows "stake_owed s = stake_owed t + (if b then unat amount else 0)" and "coins t = coins s"
proof -
  obtain total old new per where old: "Allocations s net account = Some old" and new: "checked_sub old amount = Some new"
    and imm: "b \<Longrightarrow> t = vs_deposit_event (snd (set_allocation cfg s net account new)) (AllocationDecreased account net amount None)"
    and later: "\<not> b \<Longrightarrow> \<exists>n. session_to_unlock_on_for_current_set s net = Some n \<and>
       t = vs_deposit_event (set_pending_deallocations (snd (set_allocation cfg s net account new)) net account
             (om_set (to_le_bytes n)
               ((case pending_deallocation s net account n of Some a \<Rightarrow> a | None \<Rightarrow> 0) + amount)
               (PendingDeallocations s net account)))
           (AllocationDecreased account net amount (Some n))"
    by (rule decrease_allocation_Inr [OF assms(1)]) (rule that)
  have un: "unat old = unat new + unat amount" using new by (simp add: checked_simps)
  let ?q = "(net, account)" and ?m = "PendingDeallocations s net account"
  have os: "owed s ?q = unat new + unat amount + om_sum ?m" by (simp add: owed_def old un)
  have bound: "owed s ?q < 2 ^ 64" using owed_le [of s ?q] assms(3) by simp
  have "owed s ?q = owed t ?q + (if b then unat amount else 0) \<and> (\<forall>p. p \<noteq> ?q \<longrightarrow> owed t p = owed s p) \<and> coins t = coins s"
  proof (cases b)
    case True
    then show ?thesis using os by (simp add: imm owed_set_allocation)
  next
    case False
    then obtain n where t: "t = vs_deposit_event (set_pending_deallocations (snd (set_allocation cfg s net account new)) net account
             (om_set (to_le_bytes n) ((case pending_deallocation s net account n of Some a \<Rightarrow> a | None \<Rightarrow> 0) + amount) ?m))
           (AllocationDecreased account net amount (Some n))" using later by blast
    let ?e = "case pending_deallocation s net account n of Some a \<Rightarrow> a | None \<Rightarrow> 0"
    have get: "(case om_get ?m (to_le_bytes n) of Some w \<Rightarrow> unat w | None \<Rightarrow> 0) = unat ?e"
      by (simp add: pending_deallocation_def split: option.splits)
    have "unat ?e \<le> om_sum ?m" unfolding pending_deallocation_def using om_sum_get by (auto split: option.splits)
    then have "unat (?e + amount) = unat ?e + unat amount" using os bound by (intro unat_add_lem [THEN iffD1]) simp
    then have "om_sum (om_set (to_le_bytes n) (?e + amount) ?m) = om_sum ?m + unat amount"
      using om_sum_set [OF assms(2), of "to_le_bytes n" "?e + amount"] get by simp
    moreover have "(case if new = 0 then None else Some new of None \<Rightarrow> 0 | Some a \<Rightarrow> unat a) = unat new" by simp
    ultimately show ?thesis using False os by (simp add: t owed_set_pending owed_set_allocation)
  qed
  then show "stake_owed s = stake_owed t + (if b then unat amount else 0)" "coins t = coins s"
    using stake_owed_update [of ?q t s] by auto
qed

lemma take_deallocatable_owed:
  assumes "take_deallocatable_amount s net n key = (Some amount, t)"
  shows "stake_owed s = stake_owed t + unat amount" and "coins t = coins s"
proof -
  let ?q = "(net, key)" and ?m = "PendingDeallocations s net key"
  have t: "t = set_pending_deallocations s net key (om_remove (to_le_bytes n) ?m)" and get: "om_get ?m (to_le_bytes n) = Some amount"
    using assms by (auto simp: take_deallocatable_amount_def pending_deallocation_def split: if_splits)
  have "om_sum (om_remove (to_le_bytes n) ?m) + unat amount = om_sum ?m"
    using om_sum_remove [of "to_le_bytes n" ?m] get by simp
  then have "owed s ?q = owed t ?q + unat amount" by (simp add: t owed_set_pending) (simp add: owed_def)
  moreover have "owed t p = owed s p" if "p \<noteq> ?q" for p using that by (simp add: t owed_set_pending)
  ultimately show "stake_owed s = stake_owed t + unat amount" using stake_owed_update [of ?q t s] by simp
  show "coins t = coins s" by (simp add: t)
qed


lemma slash_owed:
  assumes "slash_serai_validator cfg s v = Some t" and "stake_owed s < 2 ^ 64"
  obtains x where "stake_owed s = stake_owed t + unat x"
    and "burn (coins s) (Some vs_account) \<lparr>bal_coin = Coin.Serai, bal_amount = x\<rparr> = Inr (coins t)"
    and "\<And>net key. om_wf (PendingDeallocations s net key) \<Longrightarrow> om_wf (PendingDeallocations t net key)"
proof -
  define net where "net = NetworkId.Serai"
  define s1 where "s1 = snd (set_allocation cfg s net v 0)"
  let ?q = "(net, v)" and ?m = "PendingDeallocations s net v"
  have s1: "coins s1 = coins s" "PendingDeallocations s1 = PendingDeallocations s" by (simp_all add: s1_def)
  from assms(1) obtain n s3 c where
    s3: "s3 = set_pending_deallocations s1 net v (om_remove (to_le_bytes n) ?m) \<or>
         (\<exists>r. s3 = set_pending_deallocations s1 net v (om_remove (to_le_bytes n) ?m)\<lparr>TotalAllocatedStake := r\<rparr>)"
    and burn: "burn (coins (set_pending_deallocations s3 net v [])) (Some vs_account)
      \<lparr>bal_coin = Coin.Serai, bal_amount =
        (case Allocations s net v of Some a \<Rightarrow> a | None \<Rightarrow> 0) +
        (case pending_deallocation s net v n of Some a \<Rightarrow> a | None \<Rightarrow> 0) +
        sum_list (map snd (PendingDeallocations s3 net v))\<rparr> = Inr c"
    and t: "t = set_pending_deallocations s3 net v []\<lparr>coins := c\<rparr>"
    unfolding slash_serai_validator_def Let_def net_def [symmetric] s1_def [symmetric]
    by (elim bindE case_okE) (auto simp: pending_deallocation_def s1 split: if_splits elim!: bindE)
  let ?x = "(case Allocations s net v of Some a \<Rightarrow> a | None \<Rightarrow> 0) +
        (case pending_deallocation s net v n of Some a \<Rightarrow> a | None \<Rightarrow> 0) + sum_list (map snd (om_remove (to_le_bytes n) ?m))"
  have p3: "PendingDeallocations s3 = (PendingDeallocations s)(net := (PendingDeallocations s net)(v := om_remove (to_le_bytes n) ?m))"
    and c3: "coins s3 = coins s" and a3: "Allocations s3 = (Allocations s)(net := (Allocations s net)(v := None))"
    using s3 by (auto simp: set_pending_deallocations_def s1_def)
  have "owed s ?q = unat (case Allocations s net v of Some a \<Rightarrow> a | None \<Rightarrow> 0) +
        unat (case pending_deallocation s net v n of Some a \<Rightarrow> a | None \<Rightarrow> 0) + om_sum (om_remove (to_le_bytes n) ?m)"
    using om_sum_remove [of "to_le_bytes n" ?m] by (simp add: owed_def pending_deallocation_def split: option.splits)
  moreover have "owed s ?q < 2 ^ 64" using owed_le [of s ?q] assms(2) by simp
  ultimately have x: "unat ?x = owed s ?q"
    by (simp add: unat_add_lem [THEN iffD1] unat_om_sum)
  have "owed t p = (if p = ?q then 0 else owed s p)" for p
    by (cases p) (auto simp: t owed_def set_pending_deallocations_def p3 a3 om_sum_def)
  then have "stake_owed s = stake_owed t + unat ?x" using stake_owed_update [of ?q t s] x by simp
  moreover have "burn (coins s) (Some vs_account) \<lparr>bal_coin = Coin.Serai, bal_amount = ?x\<rparr> = Inr (coins t)"
    using burn by (simp add: t p3 c3)
  moreover have "om_wf (PendingDeallocations t net' key)" if "om_wf (PendingDeallocations s net' key)" for net' key
    using that by (auto simp: t set_pending_deallocations_def p3)
  ultimately show ?thesis by (rule that)
qed


text \<open>
  The calls that move stake, by an account other than the pallet's own, which is a system address
  nobody can sign for.
\<close>

inductive stake_call :: "vs_config \<Rightarrow> 'a vs_rt_scheme \<Rightarrow> 'a vs_rt_scheme \<Rightarrow> bool" for cfg where
  call_allocate: "allocate cfg s (Some account) net amount = Inr t \<Longrightarrow> account \<noteq> vs_account \<Longrightarrow> stake_call cfg s t"
| call_deallocate: "deallocate cfg s (Some account) net amount = Inr t \<Longrightarrow> account \<noteq> vs_account \<Longrightarrow> stake_call cfg s t"
| call_claim: "claim_deallocation s (Some account) net n = Inr t \<Longrightarrow> account \<noteq> vs_account \<Longrightarrow> stake_call cfg s t"
| call_offence: "report_offence cfg s offender = Some t \<Longrightarrow> stake_call cfg s t"

definition pendings_wf :: "'a vs_rt_scheme \<Rightarrow> bool" where
  "pendings_wf s = (\<forall>net key. om_wf (PendingDeallocations s net key))"

text \<open>No amount overflows: what is owed beyond the pallet's account, with all SRI, fits in 64 bits.\<close>

definition stake_fits :: "'a vs_rt_scheme \<Rightarrow> bool" where
  "stake_fits s = (supply_sound (coins s) \<and> pendings_wf s \<and>
     stake_owed s + issued (coins s) Coin.Serai < 2 ^ 64 + holds (coins s) vs_account Coin.Serai)"

lemma two_holders:
  assumes "supply_sound c" and "a \<noteq> b"
  shows "holds c a coin + holds c b coin \<le> issued c coin"
proof -
  have "holds c a coin + holds c b coin = (\<Sum>x\<in>{a, b}. holds c x coin)" using assms(2) by simp
  also have "\<dots> \<le> (\<Sum>x\<in>UNIV. holds c x coin)" by (rule sum_mono2) simp_all
  finally show ?thesis using assms(1) by (simp add: supply_sound_def)
qed

lemma stake_fits_owed: "stake_fits s \<Longrightarrow> stake_owed s < 2 ^ 64"
  using supply_sound_bound [of "coins s" vs_account Coin.Serai] by (auto simp: stake_fits_def)

lemma vs_transfer_Inr:
  assumes "vs_transfer s sender to amount = Inr t"
  shows "t = s\<lparr>coins := coins t\<rparr>"
    and "transfer_internal (coins s) sender to \<lparr>bal_coin = Coin.Serai, bal_amount = amount\<rparr> = Inr (coins t)"
  using assms by (auto simp: vs_transfer_def res_simps)

text \<open>What a call owes more is what the pallet's account gains.\<close>

definition stake_kept :: "'a vs_rt_scheme \<Rightarrow> 'a vs_rt_scheme \<Rightarrow> bool" where
  "stake_kept s t = (stake_owed t + holds (coins s) vs_account Coin.Serai = stake_owed s + holds (coins t) vs_account Coin.Serai \<and>
     issued (coins t) Coin.Serai \<le> issued (coins s) Coin.Serai \<and> supply_sound (coins t) \<and> pendings_wf t)"

lemma stake_kept_fits: "stake_fits s \<Longrightarrow> stake_kept s t \<Longrightarrow> stake_fits t"
  by (simp add: stake_fits_def stake_kept_def)

lemma transfer_kept:
  assumes "supply_sound c" and "transfer_internal c sender to \<lparr>bal_coin = Coin.Serai, bal_amount = amount\<rparr> = Inr d"
  shows "sender \<noteq> vs_account \<Longrightarrow> to = vs_account \<Longrightarrow>
      holds d vs_account Coin.Serai = holds c vs_account Coin.Serai + unat amount"
    and "sender = vs_account \<Longrightarrow> to \<noteq> vs_account \<Longrightarrow>
      holds c vs_account Coin.Serai = holds d vs_account Coin.Serai + unat amount"
    and "issued d Coin.Serai = issued c Coin.Serai" and "supply_sound d"
  using transfer_internal_ok [OF assms(2)] transfer_internal_ok(1) [OF assms(2), of vs_account Coin.Serai]
    supply_sound_transfer_internal [OF assms]
  by (auto simp: moved_def)

lemma stake_call_kept:
  assumes "stake_call cfg s t" and "stake_fits s"
  shows "stake_kept s t"
  using assms(1)
proof cases
  case (call_allocate account net amount)
  then obtain s1 where tr: "vs_transfer s account vs_account amount = Inr s1"
    and inc: "increase_allocation cfg s1 net account amount = Inr t" by (auto simp: allocate_def res_simps)
  note tr1 = vs_transfer_Inr [OF tr]
  have sound: "supply_sound (coins s)" using assms(2) by (simp add: stake_fits_def)
  have s1: "stake_owed s1 = stake_owed s" "PendingDeallocations s1 = PendingDeallocations s"
    by (subst tr1(1), simp)+
  have "unat amount \<le> holds (coins s) account Coin.Serai" using transfer_internal_ok(3) [OF tr1(2)] by simp
  then have "stake_owed s1 + unat amount < 2 ^ 64"
    using two_holders [OF sound call_allocate(2), of Coin.Serai] assms(2) s1 by (simp add: stake_fits_def)
  note inc1 = increase_allocation_owed [OF inc this]
  have "PendingDeallocations t = PendingDeallocations s1"
    using inc by (auto simp: increase_allocation_def res_simps Let_def vs_deposit_event_def split: if_splits)
  then show ?thesis
    using inc1 s1 transfer_kept [OF sound tr1(2)] call_allocate(2) assms(2)
    by (simp add: stake_kept_def stake_fits_def pendings_wf_def)
next
  case (call_deallocate account net amount)
  have sound: "supply_sound (coins s)" and wf: "pendings_wf s" using assms(2) by (auto simp: stake_fits_def)
  from call_deallocate obtain b s1 where dec: "decrease_allocation cfg s net account amount = Inr (b, s1)"
    and tr: "if b then vs_transfer s1 vs_account account amount = Inr t else t = s1"
    by (auto simp: deallocate_def res_simps split: if_splits)
  have owed: "stake_owed s = stake_owed s1 + (if b then unat amount else 0)" "coins s1 = coins s"
    using decrease_allocation_owed [OF dec _ stake_fits_owed [OF assms(2)]] wf by (auto simp: pendings_wf_def)
  have wf1: "pendings_wf s1"
    using dec
  proof (rule decrease_allocation_Inr)
    fix new
    assume "b \<Longrightarrow> s1 = vs_deposit_event (snd (set_allocation cfg s net account new)) (AllocationDecreased account net amount None)"
      and "\<not> b \<Longrightarrow> \<exists>n. session_to_unlock_on_for_current_set s net = Some n \<and>
       s1 = vs_deposit_event (set_pending_deallocations (snd (set_allocation cfg s net account new)) net account
             (om_set (to_le_bytes n)
               ((case pending_deallocation s net account n of Some a \<Rightarrow> a | None \<Rightarrow> 0) + amount)
               (PendingDeallocations s net account)))
           (AllocationDecreased account net amount (Some n))"
    then show ?thesis using wf by (cases b) (auto simp: pendings_wf_def vs_deposit_event_def set_pending_deallocations_def)
  qed
  show ?thesis
  proof (cases b)
    case True
    note tr1 = vs_transfer_Inr [OF tr [unfolded if_P [OF True]]]
    have "stake_owed t = stake_owed s1" "PendingDeallocations t = PendingDeallocations s1" by (subst tr1(1), simp)+
    then show ?thesis
      using True owed wf1 call_deallocate(2) transfer_kept [OF sound tr1(2) [unfolded owed(2)]]
      by (simp add: stake_kept_def pendings_wf_def)
  qed (use tr owed wf1 sound in \<open>simp add: stake_kept_def\<close>)
next
  case (call_claim account net n)
  have sound: "supply_sound (coins s)" and wf: "pendings_wf s" using assms(2) by (auto simp: stake_fits_def)
  from call_claim obtain amount s1 s2 where take: "take_deallocatable_amount s net n account = (Some amount, s1)"
    and tr: "vs_transfer s1 vs_account account amount = Inr s2" and t: "t = vs_deposit_event s2 (DeallocationClaimed account net n)"
    by (auto simp: claim_deallocation_def res_simps split: prod.splits option.splits)
  note tk = take_deallocatable_owed [OF take] and tr1 = vs_transfer_Inr [OF tr]
  have s1: "pendings_wf s1" using take wf
    by (auto simp: take_deallocatable_amount_def pendings_wf_def set_pending_deallocations_def split: if_splits)
  have "stake_owed s2 = stake_owed s1" "PendingDeallocations s2 = PendingDeallocations s1" by (subst tr1(1), simp)+
  then show ?thesis
    using tk s1 call_claim(2) transfer_kept [OF sound tr1(2) [unfolded tk(2)]]
    by (simp add: t stake_kept_def pendings_wf_def vs_deposit_event_def stake_owed_def owed_def)
next
  case (call_offence offender)
  have sound: "supply_sound (coins s)" and wf: "pendings_wf s" using assms(2) by (auto simp: stake_fits_def)
  from call_offence obtain u b where slash: "slash_serai_validator cfg s offender = Some u"
    and dis: "disable_serai_validator u offender = Some (b, t)"
    by (auto simp: report_offence_def bind_eq_Some_conv)
  obtain x where x: "stake_owed s = stake_owed u + unat x"
    "burn (coins s) (Some vs_account) \<lparr>bal_coin = Coin.Serai, bal_amount = x\<rparr> = Inr (coins u)"
    "\<And>net key. om_wf (PendingDeallocations s net key) \<Longrightarrow> om_wf (PendingDeallocations u net key)"
    by (rule slash_owed [OF slash stake_fits_owed [OF assms(2)]]) (rule that)
  have "stake_owed t = stake_owed u" "coins t = coins u" "PendingDeallocations t = PendingDeallocations u"
    using dis by (auto simp: disable_serai_validator_def Let_def bind_eq_Some_conv vs_deposit_event_def
        stake_owed_def owed_def split: option.splits if_splits)
  moreover obtain c where c: "burn_internal (coins s) vs_account \<lparr>bal_coin = Coin.Serai, bal_amount = x\<rparr> = Inr c"
    "coins u = coins_deposit_event c (Burn vs_account \<lparr>bal_coin = Coin.Serai, bal_amount = x\<rparr>)"
    using x(2) by (auto simp: burn_def res_simps)
  ultimately show ?thesis
    using x wf burn_internal_ok(1) [OF c(1), of vs_account Coin.Serai] burn_internal_ok(2) [OF c(1), of Coin.Serai]
      supply_sound_burn_internal [OF sound c(1)]
    by (simp add: stake_kept_def pendings_wf_def moved_def)
qed


lemma stake_calls_kept:
  assumes "(stake_call cfg)\<^sup>*\<^sup>* s t" and "stake_fits s"
  shows "stake_kept s t"
  using assms(1)
proof (induction rule: rtranclp_induct)
  case base
  show ?case using assms(2) by (simp add: stake_kept_def stake_fits_def)
next
  case (step t u)
  have "stake_kept t u" by (rule stake_call_kept [OF step(2) stake_kept_fits [OF assms(2) step.IH]])
  then show ?case using step.IH by (simp add: stake_kept_def)
qed

section \<open>An example\<close>

lemma vs_account_large: "2 ^ 248 \<le> unat vs_account"
proof -
  have "ascii ''ValidatorSets'' = 86 # map of_char ''alidatorSets''" by (simp add: ascii_def)
  moreover obtain a where "system_address (ascii ''ValidatorSets'') = Some a"
    by (simp add: system_address_def ascii_def)
  ultimately show ?thesis using system_address_large [of 86 "map of_char ''alidatorSets''" a]
    by (simp add: vs_account_def)
qed

lemma vs_account_ne: "unat x < 2 ^ 248 \<Longrightarrow> vs_account \<noteq> x"
  using vs_account_large by auto

lemma stake_owed_set_allocation:
  "Allocations s net key = None \<Longrightarrow> stake_owed (snd (set_allocation cfg s net key a)) = stake_owed s + unat a"
  using stake_owed_update [of "(net, key)" "snd (set_allocation cfg s net key a)" s]
  by (simp add: owed_set_allocation) (simp add: owed_def)

lemma stake_owed_empty [simp]: "stake_owed empty_vs = 0"
  by (simp add: stake_owed_def owed_def om_sum_def split_def)

definition example_staker :: vs_rt where
  "example_staker = snd (set_allocation example_vs_cfg example_vs NetworkId.Bitcoin 100 120)"

lemma stake_owed_example: "stake_owed example_staker = 1170"
  by (simp add: example_staker_def example_vs_def stake_owed_set_allocation)

lemma example_staker_simps [simp]:
  "coins example_staker = example_coins" "PendingDeallocations example_staker = (\<lambda>_ _. [])"
  "Allocations example_staker NetworkId.Bitcoin 100 = Some 120" "InSet example_staker = (\<lambda>_. [])"
  "AllocationPerKeyShare example_staker NetworkId.Bitcoin = Some 100"
  by (simp_all add: example_staker_def example_vs_def)

lemma example_staker_fits: "stake_fits example_staker"
  by (simp add: stake_fits_def pendings_wf_def stake_owed_example issued_def coin_supply_def example_coins_def
      example_coins_sound [unfolded example_coins_def])

lemma example_pays_in:
  obtains c where "transfer_internal example_coins 100 vs_account \<lparr>bal_coin = Coin.Serai, bal_amount = 50\<rparr> = Inr c"
    and "supply_sound c" and "50 \<le> holds c vs_account Coin.Serai"
proof -
  let ?b = "\<lparr>bal_coin = Coin.Serai, bal_amount = 50\<rparr>"
  have "unat (bal_amount ?b) \<le> holds example_coins 100 (bal_coin ?b)" by (simp add: holds_def balance_def example_coins_def)
  then obtain c where c: "transfer_internal example_coins 100 vs_account ?b = Inr c" "supply_sound c"
    by (rule cl.move_succeeds [OF example_coins_sound])
  have "100 \<noteq> vs_account" using vs_account_ne [of 100] by simp
  then have "50 \<le> holds c vs_account Coin.Serai" using cl.held_move_to [OF c(1)] by simp
  with c show ?thesis by (rule that)
qed

lemma example_allocates: "\<exists>t. allocate example_vs_cfg example_staker (Some 100) NetworkId.Bitcoin 50 = Inr t"
proof -
  obtain c where c: "transfer_internal example_coins 100 vs_account \<lparr>bal_coin = Coin.Serai, bal_amount = 50\<rparr> = Inr c"
    by (rule example_pays_in)
  then show ?thesis
    by (simp add: allocate_def vs_transfer_def increase_allocation_def checked_div_def lost_bft_def Let_def
        tri_def ok_or_def ensure_def map_err_def MAX_KEY_SHARES_PER_SET_def vs_deposit_event_def word_le_nat_alt)
qed

section \<open>Properties\<close>

text \<open>
  C3: stake is conserved. Along any sequence of allocations, deallocations, claims and offences, the
  sum of all allocations and queued deallocations changes by exactly what the pallet's account
  gains or loses in SRI. What is paid out never exceeds what was owed, nothing is owed without
  being paid in, and slashed stake is burnt; the stake a genesis assumes without backing stays the
  only difference.
\<close>

theorem stake_is_conserved:
  assumes "(stake_call cfg)\<^sup>*\<^sup>* s t" and "stake_fits s"
  shows "stake_owed t + unat (balance (coins s) vs_account Coin.Serai) =
    stake_owed s + unat (balance (coins t) vs_account Coin.Serai)"
  using stake_calls_kept [OF assms] by (simp add: stake_kept_def holds_def)

theorem stake_is_conserved_witness:
  "\<exists>t. (stake_call example_vs_cfg)\<^sup>*\<^sup>* example_staker t \<and>
     allocate example_vs_cfg example_staker (Some 100) NetworkId.Bitcoin 50 = Inr t \<and>
     stake_owed t + unat (balance (coins example_staker) vs_account Coin.Serai) =
       1170 + unat (balance (coins t) vs_account Coin.Serai)"
proof -
  obtain t where t: "allocate example_vs_cfg example_staker (Some 100) NetworkId.Bitcoin 50 = Inr t"
    using example_allocates by blast
  have "vs_account \<noteq> 100" by (rule vs_account_ne) simp
  then have "stake_call example_vs_cfg example_staker t" using call_allocate [OF t] by simp
  then have calls: "(stake_call example_vs_cfg)\<^sup>*\<^sup>* example_staker t" by blast
  from stake_is_conserved [OF this example_staker_fits] stake_owed_example
  have "stake_owed t + unat (balance (coins example_staker) vs_account Coin.Serai) =
       1170 + unat (balance (coins t) vs_account Coin.Serai)" by simp
  then show ?thesis using t calls by blast
qed

text \<open>
  C32: a queued deallocation waits for the handover. Once a network has left its first session, a
  claim for a session succeeds only when that session has begun and, if it is the current one of an
  external network, the keys of the session before it were retired; the claim pays the validator
  exactly the queued amount out of the pallet's account and removes it from the queue, so it cannot
  be claimed again.
\<close>

theorem claim_waits_for_handover:
  assumes "claim_deallocation s (Some account) net n = Inr t" and "session s net = Some current"
    and "current \<noteq> 0" and "om_wf (PendingDeallocations s net account)"
  shows "\<exists>amount. pending_deallocation s net account n = Some amount \<and> n \<le> current \<and>
    (n = current \<and> net \<noteq> NetworkId.Serai \<longrightarrow> Keys s \<lparr>vs_session = current - 1, vs_network = net\<rparr> = None) \<and>
    transfer_internal (coins s) vs_account account \<lparr>bal_coin = Coin.Serai, bal_amount = amount\<rparr> = Inr (coins t) \<and>
    pending_deallocation t net account n = None \<and>
    claim_deallocation t (Some account) net n = Inl NonExistentDeallocation"
proof -
  from assms(1) obtain amount s1 s2 where take: "take_deallocatable_amount s net n account = (Some amount, s1)"
    and tr: "vs_transfer s1 vs_account account amount = Inr s2" and t: "t = vs_deposit_event s2 (DeallocationClaimed account net n)"
    by (auto simp: claim_deallocation_def res_simps split: prod.splits option.splits)
  have hand: "handover_completed s net n" and amount: "pending_deallocation s net account n = Some amount"
    and s1: "s1 = set_pending_deallocations s net account (om_remove (to_le_bytes n) (PendingDeallocations s net account))"
    using take by (auto simp: take_deallocatable_amount_def split: if_splits)
  note tr1 = vs_transfer_Inr [OF tr]
  have "PendingDeallocations s2 = PendingDeallocations s1" by (subst tr1(1), simp)
  then have "PendingDeallocations t = PendingDeallocations s1" by (simp add: t vs_deposit_event_def)
  then have none: "pending_deallocation t net account n = None"
    using assms(4) by (simp add: pending_deallocation_def s1 set_pending_deallocations_def om_get_remove)
  have again: "claim_deallocation t (Some account) net n = Inl NonExistentDeallocation"
    using none by (simp add: claim_deallocation_def take_deallocatable_amount_def tri_def ok_or_def)
  have "coins s1 = coins s" "coins t = coins s2" by (simp_all add: s1 t)
  then show ?thesis
    using hand amount none again tr1(2) assms(2,3)
    by (intro exI [of _ amount]) (auto simp: handover_completed_def split: if_splits)
qed


theorem claim_waits_for_handover_witness:
  "\<exists>(s :: vs_rt) t. session s NetworkId.Bitcoin = Some 2 \<and> claim_deallocation s (Some 100) NetworkId.Bitcoin 2 = Inr t \<and>
     claim_deallocation t (Some 100) NetworkId.Bitcoin 2 = Inl NonExistentDeallocation"
proof -
  obtain c where c: "supply_sound c" "50 \<le> holds c vs_account Coin.Serai" by (rule example_pays_in)
  let ?m = "[(to_le_bytes (2 :: u32), 50)] :: (u8 list, Amount) omap"
  let ?s = "example_staker\<lparr>coins := c, CurrentSession := (\<lambda>_. Some 2), Keys := (\<lambda>_. None),
    PendingDeallocations := (\<lambda>_ _. ?m)\<rparr>"
  obtain d where d: "transfer_internal c vs_account 100 \<lparr>bal_coin = Coin.Serai, bal_amount = 50\<rparr> = Inr d"
    by (rule cl.move_succeeds [OF c(1), of "\<lparr>bal_coin = Coin.Serai, bal_amount = 50\<rparr>"]) (use c(2) in simp_all)
  have "\<exists>t. claim_deallocation ?s (Some 100) NetworkId.Bitcoin 2 = Inr t"
    using d by (simp add: claim_deallocation_def take_deallocatable_amount_def handover_completed_def session_def
        pending_deallocation_def vs_transfer_def set_pending_deallocations_def tri_def ok_or_def map_err_def)
  then obtain t where t: "claim_deallocation ?s (Some 100) NetworkId.Bitcoin 2 = Inr t" by blast
  have ses: "session ?s NetworkId.Bitcoin = Some 2" by (simp add: session_def)
  have "claim_deallocation t (Some 100) NetworkId.Bitcoin 2 = Inl NonExistentDeallocation"
    using claim_waits_for_handover [OF t ses] by auto
  then show ?thesis using t ses by blast
qed

text \<open>
  In the first session the check is skipped: a deallocation queued for a session that has yet to
  start can be claimed at once.
\<close>

lemma genesis_session_claims_early:
  assumes "session s net = Some 0" and "supply_sound (coins s)" and "pending_deallocation s net account n = Some amount"
    and "unat amount \<le> holds (coins s) vs_account Coin.Serai"
  shows "\<exists>t. claim_deallocation s (Some account) net n = Inr t"
proof -
  obtain d where "transfer_internal (coins s) vs_account account \<lparr>bal_coin = Coin.Serai, bal_amount = amount\<rparr> = Inr d"
    by (rule cl.move_succeeds [OF assms(2), of "\<lparr>bal_coin = Coin.Serai, bal_amount = amount\<rparr>"]) (use assms(4) in simp_all)
  then show ?thesis
    using assms(1,3) by (simp add: claim_deallocation_def take_deallocatable_amount_def handover_completed_def
        vs_transfer_def tri_def ok_or_def map_err_def)
qed

end
