(* ===== verification/In_Instructions_Frames.thy ===== *)
theory In_Instructions_Frames
  imports In_Instructions Validator_Sets_Stake
begin

text \<open>
  What executing an instruction can change: the two ledgers and the Dex's events, nothing else; and
  it issues no more than the instruction's balance.
\<close>

section \<open>Calls that only move coins\<close>

definition ledgers_only :: "'a dex_rt_scheme \<Rightarrow> 'a dex_rt_scheme \<Rightarrow> bool" where
  "ledgers_only s t \<longleftrightarrow> t = s\<lparr>coins := coins t, LiquidityTokens := LiquidityTokens t, DexEvents := DexEvents t\<rparr>"

lemma ledgers_onlyI [intro]:
  "ledgers_only s (s\<lparr>coins := c\<rparr>)" "ledgers_only s (s\<lparr>LiquidityTokens := l\<rparr>)" "ledgers_only s (s\<lparr>DexEvents := d\<rparr>)"
  "ledgers_only s s" "ledgers_only s (dex_deposit_event s e)"
  by (simp_all add: ledgers_only_def dex_deposit_event_def)

lemma ledgers_only_trans:
  assumes "ledgers_only s t" and "ledgers_only t u"
  shows "ledgers_only s u"
proof -
  have "t\<lparr>coins := coins u, LiquidityTokens := LiquidityTokens u, DexEvents := DexEvents u\<rparr> =
      s\<lparr>coins := coins u, LiquidityTokens := LiquidityTokens u, DexEvents := DexEvents u\<rparr>"
    by (subst assms(1) [unfolded ledgers_only_def]) simp
  then show ?thesis using assms(2) by (simp add: ledgers_only_def)
qed

definition coins_kept :: "'a dex_rt_scheme \<Rightarrow> 'a dex_rt_scheme \<Rightarrow> bool" where
  "coins_kept s t = (ledgers_only s t \<and> (\<forall>c. issued (coins t) c \<le> issued (coins s) c))"

lemma coins_kept_trans: "coins_kept s t \<Longrightarrow> coins_kept t u \<Longrightarrow> coins_kept s u"
  unfolding coins_kept_def by (meson ledgers_only_trans le_trans)

lemma coins_kept_simps [simp]: "coins_kept s s" "coins_kept s (dex_deposit_event s e)"
  by (auto simp: coins_kept_def dex_deposit_event_def)

lemma dex_transfer_kept: "dex_transfer s sender to b = Inr t \<Longrightarrow> coins_kept s t"
  by (auto simp: coins_kept_def dex_transfer_def res_simps transfer_internal_ok)

lemma do_swap_hop_kept: "do_swap_hop cfg amounts path send_to s x = Inr t \<Longrightarrow> coins_kept s t"
  by (auto simp: do_swap_hop_def res_simps Let_def dex_transfer_kept split: prod.splits)

lemma do_swap_kept: "do_swap cfg s sender amounts path send_to = Inr t \<Longrightarrow> coins_kept s t"
proof -
  assume "do_swap cfg s sender amounts path send_to = Inr t"
  then obtain to b s1 s2 e where "dex_transfer s sender to b = Inr s1"
    and fold: "try_fold (do_swap_hop cfg amounts path send_to) s1 (enumerate 0 (windows2 path)) = Inr s2"
    and t: "t = dex_deposit_event s2 e"
    by (auto simp: do_swap_def res_simps Let_def split: list.splits)
  then have "coins_kept s s1" by (simp add: dex_transfer_kept)
  moreover have "coins_kept s1 s2"
    by (rule try_fold_invariant [OF fold, where P = "coins_kept s1"]) (auto intro: coins_kept_trans do_swap_hop_kept)
  ultimately have "coins_kept s s2" by (rule coins_kept_trans)
  then show ?thesis unfolding t by (rule coins_kept_trans) simp
qed

lemma swap_exact_kept: "swap_exact_tokens_for_tokens cfg s signer path a m send_to = Inr t \<Longrightarrow> coins_kept s t"
  by (auto simp: swap_exact_tokens_for_tokens_def do_swap_exact_tokens_for_tokens_def res_simps intro: do_swap_kept)

lemma lp_mint_kept: "lp_mint s to b = Inr t \<Longrightarrow> coins_kept s t"
  by (auto simp: lp_mint_def res_simps coins_kept_def)

lemma add_liquidity_kept:
  assumes "add_liquidity cfg s signer coin cd sd cm sm to = Inr t"
  shows "coins_kept s t"
proof -
  from assms obtain a b c d s1 s2 s3 s4 e where "dex_transfer s a b c = Inr s1" "dex_transfer s1 a b d = Inr s2"
    and s3: "s3 = s2 \<or> (\<exists>to b. lp_mint s2 to b = Inr s3)" and s4: "\<exists>to b. lp_mint s3 to b = Inr s4" and t: "t = dex_deposit_event s4 e"
    by (auto simp: add_liquidity_def res_simps Let_def split: if_splits prod.splits) blast+
  then have k1: "coins_kept s s1" "coins_kept s1 s2" by (simp_all add: dex_transfer_kept)
  have k2: "coins_kept s2 s3" "coins_kept s3 s4" using s3 s4 lp_mint_kept by auto
  have "coins_kept s s4" by (rule coins_kept_trans [OF coins_kept_trans [OF k1] coins_kept_trans [OF k2]])
  then show ?thesis unfolding t by (rule coins_kept_trans) simp
qed

section \<open>Instructions\<close>

text \<open>A mint of \<open>b\<close> that the stake allows, and then only moves and burns.\<close>

definition minted :: "Balance \<Rightarrow> 'a vs_rt_scheme \<Rightarrow> 'a vs_rt_scheme \<Rightarrow> bool" where
  "minted b s t = (ledgers_only s t \<and> is_allowed s b \<and>
     (\<forall>c. issued (coins t) c \<le> issued (coins s) c + (if c = bal_coin b then unat (bal_amount b) else 0)) \<and>
     issued (coins s) (bal_coin b) + unat (bal_amount b) < 2 ^ 64)"

lemma ii_mint_minted: "ii_mint s to b = Inr t \<Longrightarrow> minted b s t"
proof -
  assume "ii_mint s to b = Inr t"
  then obtain c where c: "mint (is_allowed s) (coins s) to b = Inr c" and t: "t = s\<lparr>coins := c\<rparr>"
    by (auto simp: ii_mint_def res_simps)
  have "issued c (bal_coin b) < 2 ^ 64" by (rule issued_bound)
  then show ?thesis using mint_ok(1) [OF c] mint_ok(3) [OF c] by (auto simp: minted_def t)
qed

lemma minted_kept: "minted b s t \<Longrightarrow> coins_kept t u \<Longrightarrow> minted b s u"
  unfolding minted_def coins_kept_def by (meson ledgers_only_trans le_trans)

lemma ii_transfer_kept: "ii_transfer s sender to b = Inr t \<Longrightarrow> coins_kept s t"
  by (auto simp: ii_transfer_def res_simps coins_kept_def transfer_internal_ok)

lemma send_leftovers_kept: "send_leftovers s to coin a = Inr t \<Longrightarrow> coins_kept s t"
  by (auto simp: send_leftovers_def ii_transfer_kept split: if_splits)

lemma ii_swap_kept: "ii_swap cfg s path a m to = Inr t \<Longrightarrow> coins_kept s t"
  by (auto simp: ii_swap_def res_simps intro: swap_exact_kept)

lemma burn_with_instruction_issued:
  "burn_with_instruction lt c signer i = Inr d \<Longrightarrow> issued d coin \<le> issued c coin"
proof -
  assume "burn_with_instruction lt c signer i = Inr d"
  then obtain sender e ev where "burn_internal c sender (oib_balance i) = Inr e" "d = coins_deposit_event e ev"
    by (auto simp: burn_with_instruction_def res_simps)
  then show ?thesis using burn_internal_ok(2) [of c sender "oib_balance i" e coin] by simp
qed

lemma execute_minted:
  assumes "execute cfg s i = Inr t"
  shows "minted (ib_balance i) s t"
proof (cases "ib_instruction i")
  case (InInstruction_Transfer a)
  then show ?thesis using assms by (simp add: execute_def ii_mint_minted)
next
  case (InInstruction_Dex call)
  show ?thesis
  proof (cases call)
    case (SwapAndAddLiquidity a)
    then obtain s1 s2 s3 s4 where mint: "ii_mint s IN_INSTRUCTION_EXECUTOR (ib_balance i) = Inr s1"
      and 1: "\<exists>p x m r. ii_swap cfg s1 p x m r = Inr s2" "\<exists>g c x y m n r. add_liquidity cfg s2 g c x y m n r = Inr s3"
        "\<exists>c x. send_leftovers s3 a c x = Inr s4" "\<exists>c x. send_leftovers s4 a c x = Inr t"
      using assms InInstruction_Dex by (auto simp: execute_def execute_swap_and_add_liquidity_def Let_def res_simps) blast
    have kept: "coins_kept s1 s2" "coins_kept s2 s3" "coins_kept s3 s4" "coins_kept s4 t"
      using 1 by (auto dest: ii_swap_kept add_liquidity_kept send_leftovers_kept)
    show ?thesis by (rule ii_mint_minted [OF mint, THEN minted_kept, OF kept(1), THEN minted_kept, OF kept(2),
        THEN minted_kept, OF kept(3), THEN minted_kept, OF kept(4)])
  next
    case (Swap out_balance out_address)
    then obtain s1 s2 where mint: "ii_mint s IN_INSTRUCTION_EXECUTOR (ib_balance i) = Inr s1"
      and 1: "\<exists>p x m r. ii_swap cfg s1 p x m r = Inr s2"
        "t = s2 \<or> (\<exists>x g c. burn_with_instruction False (coins s2) g x = Inr c \<and> t = s2\<lparr>coins := c\<rparr>)"
      using assms InInstruction_Dex
      by (auto simp: execute_def execute_swap_def Let_def res_simps split: if_splits) blast+
    have kept: "coins_kept s1 s2" "coins_kept s2 t"
      using 1 burn_with_instruction_issued by (auto simp: coins_kept_def [of s2] dest: ii_swap_kept)
    show ?thesis by (rule ii_mint_minted [OF mint, THEN minted_kept, OF kept(1), THEN minted_kept, OF kept(2)])
  qed
qed

end
