(* ===== verification/In_Instructions_Props.thy ===== *)
theory In_Instructions_Props
  imports In_Instructions_Frames
begin

text \<open>
  Properties of batches: who can publish them and in which order, and that what they mint stays
  within what the stake of the network secures.
\<close>

section \<open>The required stake\<close>

text \<open>The value of an amount of a coin in SRI, and the stake it requires, in natural numbers.\<close>

definition coin_value :: "'a dex_rt_scheme \<Rightarrow> Coin \<Rightarrow> nat \<Rightarrow> nat" where
  "coin_value s coin x =
     min (x * unat (case SecurityOracleValue s coin of Some p \<Rightarrow> p | None \<Rightarrow> 0) div 10 ^ max (decimals coin) 5) (2 ^ 64 - 1)"

definition stake_for :: "nat \<Rightarrow> nat" where
  "stake_for v = min (3 * v) (2 ^ 64 - 1) div 2 + v div 5"

lemma accuracy_nat: "unat (accuracy_increase coin) = 10 ^ max (decimals coin) 5"
  by (cases coin) (simp_all add: accuracy_increase_def)

lemma stake_for_le: assumes "v \<le> 2 ^ 64 - 1" shows "stake_for v \<le> 2 ^ 64 - 1"
proof -
  have "min (3 * v) (2 ^ 64 - 1) div 2 \<le> (2 ^ 64 - 1) div 2" by (rule div_le_mono) simp
  moreover have "v div 5 \<le> (2 ^ 64 - 1) div 5" using assms by (rule div_le_mono)
  ultimately show ?thesis unfolding stake_for_def by simp
qed

lemma unat_required_stake:
  "unat (required_stake s \<lparr>bal_coin = coin, bal_amount = a\<rparr>) = stake_for (coin_value s coin (unat a))"
proof -
  let ?p = "case SecurityOracleValue s coin of Some p \<Rightarrow> p | None \<Rightarrow> 0"
  let ?q = "(ucast a :: u128) * ucast ?p div accuracy_increase coin"
  let ?v = "case try_u64 ?q of Some v \<Rightarrow> v | None \<Rightarrow> - 1"
  have "unat a * unat ?p < 2 ^ 64 * 2 ^ 64" by (rule mult_strict_mono) (use unat_less_2p [of a] unat_less_2p [of ?p] in simp_all)
  then have "unat ((ucast a :: u128) * ucast ?p) = unat a * unat ?p" by (subst unat_mult_lem [THEN iffD1]) simp_all
  then have q: "unat ?q = unat a * unat ?p div 10 ^ max (decimals coin) 5" by (simp add: unat_div_distrib accuracy_nat)
  have v: "unat ?v = coin_value s coin (unat a)"
  proof (cases "try_u64 ?q")
    case None
    then have "2 ^ 64 \<le> unat ?q" by (simp add: checked_simps)
    then show ?thesis using None by (simp add: coin_value_def q unat_max_word)
  next
    case (Some w)
    then have w: "unat w = unat ?q" by (simp add: checked_simps)
    have "unat w \<le> 2 ^ 64 - 1" using unat_less_2p [of w] by simp
    then show ?thesis using Some w by (simp add: coin_value_def q)
  qed
  have "coin_value s coin (unat a) \<le> 2 ^ 64 - 1" by (simp add: coin_value_def)
  then have "stake_for (coin_value s coin (unat a)) \<le> 2 ^ 64 - 1" by (rule stake_for_le)
  moreover have "unat (saturating_add (saturating_mul ?v 3 div 2) (?v div 5)) =
      min (stake_for (coin_value s coin (unat a))) (2 ^ 64 - 1)"
    by (simp add: checked_simps unat_div_distrib v stake_for_def mult.commute)
  moreover have "required_stake s \<lparr>bal_coin = coin, bal_amount = a\<rparr> = saturating_add (saturating_mul ?v 3 div 2) (?v div 5)"
    by (simp add: required_stake_def Let_def)
  ultimately show ?thesis by simp
qed

lemma unat_required: "unat (required_stake s b) = stake_for (coin_value s (bal_coin b) (unat (bal_amount b)))"
  by (cases b) (simp add: unat_required_stake)






text \<open>The stake a network's supply requires.\<close>

definition supply_stake :: "'a dex_rt_scheme \<Rightarrow> NetworkId \<Rightarrow> nat" where
  "supply_stake s net = sum_list (map (\<lambda>coin. stake_for (coin_value s coin (issued (coins s) coin))) (NetworkId_coins net))"

lemma unat_sum_foldl:
  "unat a + sum_list (map (\<lambda>x. unat (f x)) xs) < 2 ^ 64 \<Longrightarrow>
   unat (foldl (\<lambda>t x. t + f x) (a :: u64) xs) = unat a + sum_list (map (\<lambda>x. unat (f x)) xs)"
proof (induction xs arbitrary: a)
  case (Cons x xs)
  then have "unat (a + f x) = unat a + unat (f x)" by (intro unat_add_lem [THEN iffD1]) simp
  then show ?case using Cons.IH [of "a + f x"] Cons.prems by simp
qed simp

lemma unat_required_for_network:
  "supply_stake s net < 2 ^ 64 \<Longrightarrow> unat (required_stake_for_network s net) = supply_stake s net"
  unfolding required_stake_for_network_def supply_stake_def
  by (subst unat_sum_foldl) (simp_all add: unat_required_stake issued_def)


lemma ledgers_only_simps:
  assumes "ledgers_only s t"
  shows "SecurityOracleValue t = SecurityOracleValue s" and "block_number t = block_number s" and "dex_rt.more t = dex_rt.more s"
proof -
  note t = assms [unfolded ledgers_only_def]
  show "SecurityOracleValue t = SecurityOracleValue s" using arg_cong [OF t, of SecurityOracleValue] by simp
  show "block_number t = block_number s" using arg_cong [OF t, of block_number] by simp
  show "dex_rt.more t = dex_rt.more s" using arg_cong [OF t, of dex_rt.more] by simp
qed



section \<open>Batches\<close>

lemma retire_set_batches:
  "retire_set s vset = Some t \<Longrightarrow>
     LastBatch t = LastBatch s \<and> LastBatchBlock t = LastBatchBlock s \<and> block_number t = block_number s"
  by (auto simp: retire_set_def Let_def bind_eq_Some_conv vs_deposit_event_def split: if_splits)

definition next_batch :: "'a ii_rt_scheme \<Rightarrow> NetworkId \<Rightarrow> u32" where
  "next_batch s net = (case LastBatch s net of None \<Rightarrow> 0 | Some prev \<Rightarrow> prev + 1)"

definition last_batch_block :: "'a ii_rt_scheme \<Rightarrow> NetworkId \<Rightarrow> u64" where
  "last_batch_block s net = (case LastBatchBlock s net of Some n \<Rightarrow> n | None \<Rightarrow> 0)"

lemma pre_dispatch_Inr:
  assumes "ii_pre_dispatch vcfg s sb = Inr t"
  defines "b \<equiv> sb_batch sb"
  obtains n prior current s1 where "length (encode_Batch b) \<le> MAX_BATCH_SIZE" and "batch_network b \<noteq> NetworkId.Serai"
    and "keys_for_network s (batch_network b) = Inr (n, prior, current)"
    and "signed_by vcfg prior (batch_message b) (sb_signature sb) \<or> signed_by vcfg current (batch_message b) (sb_signature sb)"
    and "Halted s (batch_network b) = None"
    and "(if prior \<noteq> None \<and> \<not> signed_by vcfg prior (batch_message b) (sb_signature sb)
          then ok_or (retire_set s \<lparr>vs_session = n - 1, vs_network = batch_network b\<rparr>) Invalid_Panic else Inr s) = Inr s1"
    and "\<not> (case LastBatchBlock s1 (batch_network b) of Some n \<Rightarrow> n | None \<Rightarrow> 0) \<ge> block_number s1"
    and "batch_id b = (case LastBatch s1 (batch_network b) of None \<Rightarrow> 0 | Some prev \<Rightarrow> prev + 1)"
    and "list_all (\<lambda>i. network (bal_coin (ib_balance i)) = batch_network b) (batch_instructions b)"
    and "t = s1\<lparr>LastBatchBlock := (LastBatchBlock s1)(batch_network b \<mapsto> block_number s1),
           LastBatch := (LastBatch s1)(batch_network b \<mapsto> batch_id b)\<rparr>"
proof -
  from assms(1) obtain v where v: "ii_validate_unsigned vcfg s sb = Inr (v, t)" by (auto simp: ii_pre_dispatch_def res_simps)
  obtain n prior current s1 where facts: "\<not> length (encode_Batch b) > MAX_BATCH_SIZE" "batch_network b \<noteq> NetworkId.Serai"
    "keys_for_network s (batch_network b) = Inr (n, prior, current)"
    "signed_by vcfg prior (batch_message b) (sb_signature sb) \<or> signed_by vcfg current (batch_message b) (sb_signature sb)"
    "Halted s (batch_network b) = None"
    "(if prior \<noteq> None \<and> \<not> signed_by vcfg prior (batch_message b) (sb_signature sb)
          then ok_or (retire_set s \<lparr>vs_session = n - 1, vs_network = batch_network b\<rparr>) Invalid_Panic else Inr s) = Inr s1"
    "\<not> (case LastBatchBlock s1 (batch_network b) of Some n \<Rightarrow> n | None \<Rightarrow> 0) \<ge> block_number s1"
    "\<not> batch_id b < (case LastBatch s1 (batch_network b) of None \<Rightarrow> 0 | Some prev \<Rightarrow> prev + 1)"
    "\<not> batch_id b > (case LastBatch s1 (batch_network b) of None \<Rightarrow> 0 | Some prev \<Rightarrow> prev + 1)"
    "list_all (\<lambda>i. network (bal_coin (ib_balance i)) = batch_network b) (batch_instructions b)"
    "t = s1\<lparr>LastBatchBlock := (LastBatchBlock s1)(batch_network b \<mapsto> block_number s1),
           LastBatch := (LastBatch s1)(batch_network b \<mapsto> batch_id b)\<rparr>"
    using v [unfolded ii_validate_unsigned_def Let_def res_simps split_paired_Ex prod.case sum.inject prod.inject, folded b_def]
    by (elim exE conjE) (rule that, (assumption | simp)+)
  show ?thesis by (rule that [OF _ facts(2-7) _ facts(10,11)]) (use facts(1,8,9) in auto)
qed

lemma pre_dispatch_batches:
  assumes "ii_pre_dispatch vcfg s sb = Inr t"
  defines "net \<equiv> batch_network (sb_batch sb)"
  shows "batch_id (sb_batch sb) = next_batch s net" and "last_batch_block s net < block_number s"
    and "LastBatch t = (LastBatch s)(net \<mapsto> batch_id (sb_batch sb))"
    and "LastBatchBlock t = (LastBatchBlock s)(net \<mapsto> block_number s)" and "block_number t = block_number s"
proof -
  obtain n prior current s1 where
    s1: "(if prior \<noteq> None \<and> \<not> signed_by vcfg prior (batch_message (sb_batch sb)) (sb_signature sb)
          then ok_or (retire_set s \<lparr>vs_session = n - 1, vs_network = net\<rparr>) Invalid_Panic else Inr s) = Inr s1"
    and facts: "\<not> (case LastBatchBlock s1 net of Some n \<Rightarrow> n | None \<Rightarrow> 0) \<ge> block_number s1"
    "batch_id (sb_batch sb) = (case LastBatch s1 net of None \<Rightarrow> 0 | Some prev \<Rightarrow> prev + 1)"
    "t = s1\<lparr>LastBatchBlock := (LastBatchBlock s1)(net \<mapsto> block_number s1),
       LastBatch := (LastBatch s1)(net \<mapsto> batch_id (sb_batch sb))\<rparr>"
    by (rule pre_dispatch_Inr [OF assms(1), folded net_def]) (rule that, assumption+)
  have "LastBatch s1 = LastBatch s" "LastBatchBlock s1 = LastBatchBlock s" "block_number s1 = block_number s"
    using s1 retire_set_batches [of s _ s1] by (auto simp: res_simps split: if_splits)
  then show "batch_id (sb_batch sb) = next_batch s net" and "last_batch_block s net < block_number s"
    and "LastBatch t = (LastBatch s)(net \<mapsto> batch_id (sb_batch sb))"
    and "LastBatchBlock t = (LastBatchBlock s)(net \<mapsto> block_number s)" and "block_number t = block_number s"
    using facts(1,2) by (simp_all add: facts(3) next_batch_def last_batch_block_def)
qed

lemma ledgers_only_batches:
  assumes "ledgers_only s t"
  shows "LastBatch t = LastBatch s" and "LastBatchBlock t = LastBatchBlock s"
  using arg_cong [OF assms [unfolded ledgers_only_def], of LastBatch]
    arg_cong [OF assms [unfolded ledgers_only_def], of LastBatchBlock] by simp_all

lemma execute_instructions_batches:
  "execute_instructions cfg net n s i is = Inr t \<Longrightarrow>
     LastBatch t = LastBatch s \<and> LastBatchBlock t = LastBatchBlock s \<and> block_number t = block_number s"
proof (induction "is" arbitrary: s i)
  case (Cons x xs)
  show ?case
  proof (cases "execute cfg s x")
    case (Inl e)
    then show ?thesis using Cons by (auto simp: ii_deposit_event_def split: if_splits)
  next
    case (Inr u)
    then have only: "ledgers_only s u" using execute_minted by (auto simp: minted_def)
    show ?thesis using Inr Cons ledgers_only_batches [OF only] ledgers_only_simps(2) [OF only] by simp
  qed
qed simp

lemma execute_batch_batches:
  "execute_batch cfg s signer sb = Inr t \<Longrightarrow>
     LastBatch t = LastBatch s \<and> LastBatchBlock t = LastBatchBlock s \<and> block_number t = block_number s"
  by (auto simp: execute_batch_def Let_def res_simps ii_deposit_event_def dest!: execute_instructions_batches)

text \<open>
  A run of the chain, as far as batches are concerned: a batch is validated and executed, or
  anything else happens, new blocks included. The trace lists the executed batches with the block
  they are in.
\<close>

inductive batch_run ::
  "dex_config \<Rightarrow> vs_config \<Rightarrow> 'a ii_rt_scheme \<Rightarrow> (u64 \<times> Batch) list \<Rightarrow> 'a ii_rt_scheme \<Rightarrow> bool" for cfg vcfg where
  run_end: "batch_run cfg vcfg s [] s"
| run_batch:
    "ii_pre_dispatch vcfg s sb = Inr s1 \<Longrightarrow> execute_batch cfg s1 None sb = Inr s2 \<Longrightarrow>
     batch_run cfg vcfg s2 trace t \<Longrightarrow> batch_run cfg vcfg s ((block_number s, sb_batch sb) # trace) t"
| run_other:
    "LastBatch s1 = LastBatch s \<Longrightarrow> LastBatchBlock s1 = LastBatchBlock s \<Longrightarrow> block_number s \<le> block_number s1 \<Longrightarrow>
     batch_run cfg vcfg s1 trace t \<Longrightarrow> batch_run cfg vcfg s trace t"

definition of_network :: "NetworkId \<Rightarrow> (u64 \<times> Batch) list \<Rightarrow> (u64 \<times> Batch) list" where
  "of_network net trace = filter (\<lambda>(_, b). batch_network b = net) trace"

lemma batch_run_props:
  "batch_run cfg vcfg s trace t \<Longrightarrow>
     map (\<lambda>(_, b). batch_id b) (of_network net trace) =
       map (\<lambda>i. next_batch s net + of_nat i) [0..<length (of_network net trace)] \<and>
     sorted_wrt (<) (map fst (of_network net trace)) \<and>
     (\<forall>x \<in> set (of_network net trace). last_batch_block s net < fst x)"
proof (induction rule: batch_run.induct)
  case (run_batch s sb s1 s2 trace t)
  note pre = pre_dispatch_batches [OF run_batch(1)] and ex = execute_batch_batches [OF run_batch(2)]
  show ?case
  proof (cases "batch_network (sb_batch sb) = net")
    case True
    have nxt: "next_batch s2 net = next_batch s net + 1" and lst: "last_batch_block s2 net = block_number s"
      using pre ex True by (simp_all add: next_batch_def last_batch_block_def)
    have cons: "of_network net ((block_number s, sb_batch sb) # trace) = (block_number s, sb_batch sb) # of_network net trace"
      using True by (simp add: of_network_def)
    have "map (\<lambda>i. next_batch s net + of_nat i) [0..<Suc n] =
        next_batch s net # map (\<lambda>i. next_batch s2 net + of_nat i) [0..<n]" for n
      unfolding nxt by (subst upt_conv_Cons) (simp_all add: map_Suc_upt [symmetric] del: upt_Suc)
    then show ?thesis
      using run_batch.IH pre(1,2) True unfolding cons lst by (auto simp del: upt_Suc)
  next
    case False
    have "next_batch s2 net = next_batch s net" "last_batch_block s2 net = last_batch_block s net"
      using pre ex False by (simp_all add: next_batch_def last_batch_block_def)
    then show ?thesis using run_batch.IH False by (simp add: of_network_def)
  qed
qed (simp_all add: of_network_def next_batch_def last_batch_block_def)


section \<open>An example\<close>

definition example_ii :: ii_rt where
  "example_ii = vs_rt.extend (example_staker\<lparr>block_number := 5, CurrentSession := (\<lambda>_. Some 1),
       Keys := (\<lambda>vset. if vset = \<lparr>vs_session = 1, vs_network = NetworkId.Bitcoin\<rparr> then Some (7, []) else None),
       TotalAllocatedStake := (\<lambda>_. Some 1000000000), SecurityOracleValue := (\<lambda>_. Some 400000000)\<rparr>)
     \<lparr>LastBatch = (\<lambda>_. None), LastBatchBlock = (\<lambda>_. None), Halted = (\<lambda>_. None), LatestNetworkBlock = (\<lambda>_. None),
      IIEvents = []\<rparr>"

definition example_instruction :: InInstructionWithBalance where
  "example_instruction = \<lparr>ib_instruction = InInstruction_Transfer 5, ib_balance = \<lparr>bal_coin = Coin.Bitcoin, bal_amount = 1000\<rparr>\<rparr>"

definition example_batch :: SignedBatch where
  "example_batch = \<lparr>sb_batch = \<lparr>batch_network = NetworkId.Bitcoin, batch_id = 0, batch_block = 9,
     batch_instructions = [example_instruction]\<rparr>, sb_signature = [1]\<rparr>"

lemma example_ii_simps [simp]:
  "coins example_ii = example_coins" "block_number example_ii = 5" "CurrentSession example_ii = (\<lambda>_. Some 1)"
  "Keys example_ii = (\<lambda>vset. if vset = \<lparr>vs_session = 1, vs_network = NetworkId.Bitcoin\<rparr> then Some (7, []) else None)"
  "TotalAllocatedStake example_ii = (\<lambda>_. Some 1000000000)" "SecurityOracleValue example_ii = (\<lambda>_. Some 400000000)"
  "LastBatch example_ii = (\<lambda>_. None)" "LastBatchBlock example_ii = (\<lambda>_. None)" "Halted example_ii = (\<lambda>_. None)"
  "IIEvents example_ii = []" "LatestNetworkBlock example_ii = (\<lambda>_. None)"
  by (simp_all add: example_ii_def vs_rt.defs example_staker_def example_vs_def empty_vs_def set_allocation_eq dex_rt.defs)

definition like_example :: "'a vs_rt_scheme \<Rightarrow> bool" where
  "like_example s = (coins s = example_coins \<and> TotalAllocatedStake s = (\<lambda>_. Some 1000000000) \<and>
     SecurityOracleValue s = (\<lambda>_. Some 400000000))"

lemma example_required:
  assumes "like_example s"
  shows "supply_stake s NetworkId.Bitcoin = 7480000"
    and "unat (required_stake s \<lparr>bal_coin = Coin.Bitcoin, bal_amount = 1000\<rparr>) = 6800"
  using assms by (simp_all add: like_example_def supply_stake_def unat_required stake_for_def coin_value_def
      issued_def coin_supply_def example_coins_def)

lemma example_allowed:
  assumes "like_example s"
  shows "is_allowed s \<lparr>bal_coin = Coin.Bitcoin, bal_amount = 1000\<rparr>"
proof -
  have r: "unat (required_stake_for_network s NetworkId.Bitcoin) = 7480000"
    using unat_required_for_network [of s NetworkId.Bitcoin] example_required(1) [OF assms] by simp
  have "unat (required_stake_for_network s NetworkId.Bitcoin +
      required_stake s \<lparr>bal_coin = Coin.Bitcoin, bal_amount = 1000\<rparr>) = 7486800"
    using r example_required(2) [OF assms] by (subst unat_add_lem [THEN iffD1]) simp_all
  then show ?thesis using assms by (simp add: like_example_def is_allowed_def word_le_nat_alt Let_def)
qed

lemma example_executes: "like_example s \<Longrightarrow> \<exists>t. execute cfg s example_instruction = Inr t"
  using example_allowed [of s]
  by (simp add: execute_def example_instruction_def ii_mint_def mint_def increase_balance_internal_def checked_add_def
      balance_def coin_supply_def like_example_def example_coins_def tri_def ensure_def ok_or_def map_err_def set_balance_def)

lemma example_batch_runs:
  assumes "ii_pre_dispatch example_vs_cfg example_ii example_batch = Inr s1"
  shows "\<exists>t. execute_batch cfg s1 None example_batch = Inr t"
proof -
  from assms have "like_example s1"
    by (rule pre_dispatch_Inr)
      (auto simp: like_example_def keys_for_network_def session_def res_simps Let_def example_batch_def split: if_splits)
  then have like: "like_example (ii_deposit_event (s1\<lparr>LatestNetworkBlock := m\<rparr>) e)" for m e
    by (simp add: like_example_def ii_deposit_event_def)
  let ?s2 = "ii_deposit_event (s1\<lparr>LatestNetworkBlock := (LatestNetworkBlock s1)(NetworkId.Bitcoin \<mapsto> 9)\<rparr>)
    (BatchEvent NetworkId.Bitcoin 0 9 (blake2_256 cfg (encode_vec encode_InInstructionWithBalance [example_instruction])))"
  obtain t where "execute cfg ?s2 example_instruction = Inr t" using example_executes [OF like] by blast
  then show ?thesis by (simp add: execute_batch_def Let_def ensure_def example_batch_def)
qed

lemma example_validates: "\<exists>s1. ii_pre_dispatch example_vs_cfg example_ii example_batch = Inr s1"
proof -
  have "length (encode_Batch (sb_batch example_batch)) \<le> MAX_BATCH_SIZE"
    by (simp add: example_batch_def example_instruction_def encode_Batch_def MAX_BATCH_SIZE_def encode_vec_def compact_def
        encode_InInstructionWithBalance_def encode_Balance_def encode_Public_def)
  then show ?thesis
    by (simp add: ii_pre_dispatch_def ii_validate_unsigned_def keys_for_network_def signed_by_def session_def
        tri_def ensure_def ok_or_def Let_def example_batch_def example_instruction_def example_vs_cfg_def)
qed

section \<open>Properties\<close>

text \<open>
  C8: the batches of a network are executed in order. Along any run of the chain, the numbers of the
  executed batches of each network continue the last one without a gap or a repetition, and no two
  of them are in the same block.
\<close>

theorem batches_are_sequential:
  assumes "batch_run cfg vcfg s trace t"
  shows "map (\<lambda>(_, b). batch_id b) (of_network net trace) =
      map (\<lambda>i. (case LastBatch s net of None \<Rightarrow> 0 | Some prev \<Rightarrow> prev + 1) + of_nat i) [0..<length (of_network net trace)] \<and>
    sorted_wrt (<) (map fst (of_network net trace))"
  using batch_run_props [OF assms, of net] by (simp add: next_batch_def)

theorem batches_are_sequential_witness:
  "\<exists>t. batch_run example_cfg example_vs_cfg example_ii [(5, sb_batch example_batch)] t \<and>
     map (\<lambda>(_, b). batch_id b) (of_network NetworkId.Bitcoin [(5, sb_batch example_batch)]) = [0]"
proof -
  obtain s1 where s1: "ii_pre_dispatch example_vs_cfg example_ii example_batch = Inr s1" using example_validates by blast
  obtain s2 where s2: "execute_batch example_cfg s1 None example_batch = Inr s2" using example_batch_runs [OF s1] by blast
  have run: "batch_run example_cfg example_vs_cfg example_ii [(5, sb_batch example_batch)] s2"
    using run_batch [OF s1 s2 run_end] by simp
  have "length (of_network NetworkId.Bitcoin [(5, sb_batch example_batch)]) = 1"
    by (simp add: of_network_def example_batch_def)
  then show ?thesis using run batches_are_sequential [OF run, of NetworkId.Bitcoin] by auto
qed

text \<open>
  C14: only a network's validators publish its batches. A batch that passes the validation is for an
  external network which is not halted, carries coins of that network only, and is signed by the
  key of the network's current session or of the session before it. A first batch signed with the
  new key, while the old key is still there, retires the old set: its key is removed and recorded
  for the slash report.
\<close>

theorem accepted_batch_is_authorised:
  assumes "ii_pre_dispatch vcfg s sb = Inr t"
  shows "\<exists>n key. batch_network (sb_batch sb) \<noteq> NetworkId.Serai \<and> Halted s (batch_network (sb_batch sb)) = None \<and>
    list_all (\<lambda>i. network (bal_coin (ib_balance i)) = batch_network (sb_batch sb)) (batch_instructions (sb_batch sb)) \<and>
    session s (batch_network (sb_batch sb)) = Some n \<and> verify vcfg key (batch_message (sb_batch sb)) (sb_signature sb) \<and>
    (map_option fst (Keys s \<lparr>vs_session = n - 1, vs_network = batch_network (sb_batch sb)\<rparr>) = Some key \<and> n \<noteq> 0 \<and>
       Keys t = Keys s
     \<or> map_option fst (Keys s \<lparr>vs_session = n, vs_network = batch_network (sb_batch sb)\<rparr>) = Some key \<and>
       (n \<noteq> 0 \<longrightarrow> Keys t \<lparr>vs_session = n - 1, vs_network = batch_network (sb_batch sb)\<rparr> = None \<and>
         (\<forall>old. Keys s \<lparr>vs_session = n - 1, vs_network = batch_network (sb_batch sb)\<rparr> = Some old \<longrightarrow>
            PendingSlashReport t (batch_network (sb_batch sb)) = Some (fst old))))"
proof -
  define b net where "b = sb_batch sb" and "net = batch_network b"
  obtain n prior current s1 where net: "net \<noteq> NetworkId.Serai"
    and keys: "keys_for_network s net = Inr (n, prior, current)"
    and sig: "signed_by vcfg prior (batch_message b) (sb_signature sb) \<or> signed_by vcfg current (batch_message b) (sb_signature sb)"
    and halted: "Halted s net = None"
    and s1: "(if prior \<noteq> None \<and> \<not> signed_by vcfg prior (batch_message b) (sb_signature sb)
          then ok_or (retire_set s \<lparr>vs_session = n - 1, vs_network = net\<rparr>) Invalid_Panic else Inr s) = Inr s1"
    and all: "list_all (\<lambda>i. network (bal_coin (ib_balance i)) = net) (batch_instructions b)"
    and t: "t = s1\<lparr>LastBatchBlock := (LastBatchBlock s1)(net \<mapsto> block_number s1), LastBatch := (LastBatch s1)(net \<mapsto> batch_id b)\<rparr>"
    by (rule pre_dispatch_Inr [OF assms, folded b_def, folded net_def]) (rule that, assumption+)
  let ?old = "\<lparr>vs_session = n - 1, vs_network = net\<rparr>"
  have k: "session s net = Some n" "prior = (if n \<noteq> 0 then map_option fst (Keys s ?old) else None)"
    "current = map_option fst (Keys s \<lparr>vs_session = n, vs_network = net\<rparr>)"
    using keys by (auto simp: keys_for_network_def res_simps Let_def)
  have kt: "Keys t = Keys s1" "PendingSlashReport t = PendingSlashReport s1" by (simp_all add: t)
  show ?thesis
  proof (cases "signed_by vcfg prior (batch_message b) (sb_signature sb)")
    case True
    then obtain key where "prior = Some key" "verify vcfg key (batch_message b) (sb_signature sb)"
      by (auto simp: signed_by_def split: option.splits)
    then show ?thesis using True net halted all k s1 kt unfolding b_def [symmetric] net_def [symmetric]
      by (intro exI [of _ n] exI [of _ key]) (auto split: if_splits)
  next
    case False
    then obtain key where key: "current = Some key" "verify vcfg key (batch_message b) (sb_signature sb)"
      using sig by (auto simp: signed_by_def split: option.splits)
    have "Keys s1 ?old = None \<and> (\<forall>old. Keys s ?old = Some old \<longrightarrow> PendingSlashReport s1 net = Some (fst old))" if "n \<noteq> 0"
    proof (cases "Keys s ?old")
      case None
      then show ?thesis using s1 k that by (simp add: res_simps)
    next
      case (Some old)
      then have "retire_set s ?old = Some s1" using s1 k False that by (simp add: res_simps)
      then show ?thesis using Some net
        by (auto simp: retire_set_def Let_def bind_eq_Some_conv vs_deposit_event_def split: if_splits)
    qed
    then show ?thesis using net halted all k key kt unfolding b_def [symmetric] net_def [symmetric]
      by (intro exI [of _ n] exI [of _ key]) simp
  qed
qed

theorem accepted_batch_is_authorised_witness:
  "\<exists>t. ii_pre_dispatch example_vs_cfg example_ii example_batch = Inr t \<and> session example_ii NetworkId.Bitcoin = Some 1 \<and>
     verify example_vs_cfg 7 (batch_message (sb_batch example_batch)) (sb_signature example_batch)"
proof -
  obtain t where t: "ii_pre_dispatch example_vs_cfg example_ii example_batch = Inr t" using example_validates by blast
  have "batch_network (sb_batch example_batch) = NetworkId.Bitcoin" by (simp add: example_batch_def)
  with accepted_batch_is_authorised [OF t] t show ?thesis by (auto simp: session_def split: if_splits)
qed



end
