(* ===== verification/Signals_Props.thy ===== *)
theory Signals_Props
  imports Signals In_Instructions_Props
begin

text \<open>
  Properties of signals: how much stake has to favor one, and that a locked-in retirement stands
  until its registrant revokes it.
\<close>

section \<open>Tallies\<close>

lemma fifths_round_up:
  "\<lbrakk>d = (if 0 < m then q + 1 else q); n = 5 * q + m; m < 5\<rbrakk> \<Longrightarrow> n \<le> 5 * d \<and> 5 * d \<le> n + (4 :: nat)"
  by (simp split: if_splits)

lemma unat_div_ceil:
  assumes "unat x + 5 < 2 ^ 64"
  shows "unat x \<le> 5 * unat (div_ceil x 5)" and "5 * unat (div_ceil x 5) \<le> unat x + 4"
proof -
  have d: "unat (x div 5) = unat x div 5" by (simp add: unat_div_distrib)
  have m: "0 < x mod 5 \<longleftrightarrow> 0 < unat x mod 5" by (simp add: word_less_nat_alt unat_mod_distrib)
  have "unat (x div 5 + 1) = unat x div 5 + 1" using assms d by (subst unat_add_lem [THEN iffD1]) simp_all
  then have "unat (div_ceil x 5) = (if 0 < unat x mod 5 then unat x div 5 + 1 else unat x div 5)"
    using d m by (simp add: div_ceil_def)
  then have "unat x \<le> 5 * unat (div_ceil x 5) \<and> 5 * unat (div_ceil x 5) \<le> unat x + 4"
    by (rule fifths_round_up) simp_all
  then show "unat x \<le> 5 * unat (div_ceil x 5)" "5 * unat (div_ceil x 5) \<le> unat x + 4" by simp_all
qed

lemma unat_times_numerator: "4 * unat x < 2 ^ 64 \<Longrightarrow> unat (x * REQUIREMENT_NUMERATOR) = 4 * unat (x :: u64)"
  unfolding REQUIREMENT_NUMERATOR_def by (subst unat_mult_lem [THEN iffD1]) simp_all

definition vote_stake :: "'a vs_rt_scheme \<Rightarrow> NetworkId \<Rightarrow> Public \<Rightarrow> nat" where
  "vote_stake s net account =
     (if in_latest_decided_set s net account then case Allocations s net account of Some a \<Rightarrow> unat a | None \<Rightarrow> 0 else 0)"

lemma count_favors_zero:
  "count_favors s net keys needed = Some r \<Longrightarrow> unat needed \<le> unat r + sum_list (map (vote_stake s net \<circ> favor_account) keys)"
proof (induction keys arbitrary: needed)
  case (Cons k keys)
  show ?case
  proof (cases "needed \<noteq> 0 \<and> in_latest_decided_set s net (favor_account k)")
    case True
    then obtain a where a: "Allocations s net (favor_account k) = Some a"
      and r: "count_favors s net keys (saturating_sub needed a) = Some r"
      using Cons.prems by (auto simp: Let_def bind_eq_Some_conv)
    show ?thesis using Cons.IH [OF r] True a by (simp add: checked_simps vote_stake_def)
  next
    case False
    then show ?thesis using Cons by (force simp: Let_def split: if_splits)
  qed
qed simp

definition favors_wf :: "vs_config \<Rightarrow> 'a signals_rt_scheme \<Rightarrow> bool" where
  "favors_wf vcfg s = (\<forall>signal_id net. om_wf (Favors s signal_id net) \<and> om_keys (Favors s signal_id net) \<subseteq> range (favor_key vcfg))"

lemma favor_account_key [simp]: "favor_account (favor_key vcfg account) = account"
  by (simp add: favor_account_def favor_key_def encode_Public_def from_to_be)

lemma has_favor_keys: "has_favor vcfg s signal_id net account \<longleftrightarrow> favor_key vcfg account \<in> om_keys (Favors s signal_id net)"
  unfolding has_favor_def by (rule om_get_keys)

lemma voters:
  assumes "favors_wf vcfg s"
  shows "sum_list (map (f \<circ> favor_account) (map fst (Favors s signal_id net))) =
    (\<Sum>account | has_favor vcfg s signal_id net account. f account)"
proof -
  let ?m = "Favors s signal_id net"
  have wf: "om_wf ?m" "om_keys ?m \<subseteq> range (favor_key vcfg)" using assms by (auto simp: favors_wf_def)
  have d: "distinct (map fst ?m)" using wf(1) by (simp add: om_wf_def strict_sorted_iff)
  have inj: "inj_on favor_account (set (map fst ?m))"
  proof (rule inj_onI)
    fix k k' assume "k \<in> set (map fst ?m)" "k' \<in> set (map fst ?m)" and eq: "favor_account k = favor_account k'"
    then obtain a a' where "k = favor_key vcfg a" "k' = favor_key vcfg a'" using wf(2) by (force simp: om_keys_def)
    with eq show "k = k'" by simp
  qed
  have "favor_account ` set (map fst ?m) = {account. has_favor vcfg s signal_id net account}"
  proof (intro set_eqI iffI)
    fix x assume "x \<in> favor_account ` set (map fst ?m)"
    then obtain k where k: "k \<in> om_keys ?m" "x = favor_account k" by (auto simp: om_keys_def)
    then obtain a where "k = favor_key vcfg a" using wf(2) by blast
    then show "x \<in> {account. has_favor vcfg s signal_id net account}" using k by (simp add: has_favor_keys)
  next
    fix x assume "x \<in> {account. has_favor vcfg s signal_id net account}"
    then have "favor_key vcfg x \<in> om_keys ?m" by (simp add: has_favor_keys)
    then show "x \<in> favor_account ` set (map fst ?m)" unfolding om_keys_def by (metis favor_account_key image_eqI set_map)
  qed
  then have "(\<Sum>account | has_favor vcfg s signal_id net account. f account) = (\<Sum>k\<in>set (map fst ?m). (f \<circ> favor_account) k)"
    using sum.reindex [OF inj, of f] by simp
  then show ?thesis using sum_list_distinct_conv_sum_set [OF d, of "f \<circ> favor_account"] by simp
qed

text \<open>The stake of the networks, and of those whose latest decided set favors a signal.\<close>

definition net_stake :: "'a signals_rt_scheme \<Rightarrow> NetworkId \<Rightarrow> nat" where
  "net_stake s net = (case latest_decided_session s net of None \<Rightarrow> 0
     | Some _ \<Rightarrow> (case TotalAllocatedStake s net of Some a \<Rightarrow> unat a | None \<Rightarrow> 0))"

definition in_favor_stake :: "'a signals_rt_scheme \<Rightarrow> SignalId \<Rightarrow> NetworkId \<Rightarrow> nat" where
  "in_favor_stake s signal_id net = (case latest_decided_session s net of None \<Rightarrow> 0
     | Some n \<Rightarrow> if SetsInFavor s signal_id \<lparr>vs_session = n, vs_network = net\<rparr> \<noteq> None then net_stake s net else 0)"

lemma stakes_cong:
  assumes "CurrentSession t = CurrentSession s" and "TotalAllocatedStake t = TotalAllocatedStake s"
  shows "net_stake t = net_stake s" and "SetsInFavor t = SetsInFavor s \<Longrightarrow> in_favor_stake t = in_favor_stake s"
proof -
  have "latest_decided_session t = latest_decided_session s"
    using assms(1) by (auto simp: latest_decided_session_def session_def fun_eq_iff)
  then show net: "net_stake t = net_stake s" unfolding net_stake_def fun_eq_iff assms(2) by simp
  assume "SetsInFavor t = SetsInFavor s"
  with \<open>latest_decided_session t = latest_decided_session s\<close> show "in_favor_stake t = in_favor_stake s"
    by (intro ext) (simp add: in_favor_stake_def net split: option.split)
qed

lemma sum_stakes_nat:
  assumes "sum_stakes s signal_id nets f a = Some (f', a')"
    and "unat f \<le> unat a" and "unat a + sum_list (map (net_stake s) nets) < 2 ^ 64"
  shows "unat f' = unat f + sum_list (map (in_favor_stake s signal_id) nets) \<and>
    unat a' = unat a + sum_list (map (net_stake s) nets)"
  using assms
proof (induction nets arbitrary: f a)
  case (Cons net nets)
  show ?case
  proof (cases "latest_decided_session s net")
    case None
    then show ?thesis using Cons by (simp add: net_stake_def in_favor_stake_def)
  next
    case (Some n)
    obtain w where w: "TotalAllocatedStake s net = Some w" using Cons.prems(1) Some by (auto simp: bind_eq_Some_conv)
    let ?f = "if SetsInFavor s signal_id \<lparr>vs_session = n, vs_network = net\<rparr> \<noteq> None then f + w else f"
    have st: "net_stake s net = unat w" using Some w by (simp add: net_stake_def)
    have a: "unat (a + w) = unat a + unat w" using Cons.prems(3) st by (intro unat_add_lem [THEN iffD1]) simp
    have "unat (f + w) = unat f + unat w" using Cons.prems(2,3) st by (intro unat_add_lem [THEN iffD1]) simp
    then have f: "unat ?f = unat f + in_favor_stake s signal_id net" using Some st by (simp add: in_favor_stake_def)
    have le: "in_favor_stake s signal_id net \<le> unat w" using Some st by (simp add: in_favor_stake_def)
    have "sum_stakes s signal_id nets ?f (a + w) = Some (f', a')" using Cons.prems(1) Some w by simp
    from Cons.IH [OF this] show ?thesis using f a st le Cons.prems(2,3) by simp
  qed
qed simp


section \<open>Calls\<close>

text \<open>The calls of the pallet that succeed, and everything else, which leaves its storage alone.\<close>

inductive signals_step ::
  "dex_config \<Rightarrow> signals_config \<Rightarrow> vs_config \<Rightarrow> 'a signals_rt_scheme \<Rightarrow> 'a signals_rt_scheme \<Rightarrow> bool" for cfg scfg vcfg where
  step_register: "register_retirement_signal cfg s signer h = Inr t \<Longrightarrow> signals_step cfg scfg vcfg s t"
| step_revoke: "revoke_retirement_signal s signer h = Inr t \<Longrightarrow> signals_step cfg scfg vcfg s t"
| step_favor: "favor scfg vcfg s signer signal_id net = Inr t \<Longrightarrow> signals_step cfg scfg vcfg s t"
| step_revoke_favor: "revoke_favor vcfg s signer signal_id net = Inr t \<Longrightarrow> signals_step cfg scfg vcfg s t"
| step_stand_against: "stand_against vcfg s signer signal_id net = Inr t \<Longrightarrow> signals_step cfg scfg vcfg s t"
| step_elsewhere:
    "LockedInRetirement t = LockedInRetirement s \<Longrightarrow> RegisteredRetirementSignals t = RegisteredRetirementSignals s \<Longrightarrow>
     Favors t = Favors s \<Longrightarrow> SetsInFavor t = SetsInFavor s \<Longrightarrow> signals_step cfg scfg vcfg s t"

lemma tally_locked:
  assumes "tally_for_network s signal_id net = Some (b, t)"
  shows "LockedInRetirement t = LockedInRetirement s \<and> RegisteredRetirementSignals t = RegisteredRetirementSignals s \<and>
    Favors t = Favors s \<and> block_number t = block_number s"
  using assms by (auto simp: tally_for_network_def bind_eq_Some_conv Let_def signals_deposit_event_def split: if_splits)

lemma revoke_favor_internal_locked:
  "revoke_favor_internal vcfg s account signal_id net = Inr t \<Longrightarrow>
     LockedInRetirement t = LockedInRetirement s \<and> RegisteredRetirementSignals t = RegisteredRetirementSignals s"
  by (auto simp: revoke_favor_internal_def res_simps Let_def signals_deposit_event_def set_favors_def dest!: tally_locked)

lemma favor_end:
  "(if b then tri (ok_or m e) (\<lambda>x. Inr (if x then p else q)) else Inr q) = Inr t \<Longrightarrow> t = q \<or> b \<and> m = Some True \<and> t = p"
  by (cases m) (auto simp: tri_def ok_or_def split: if_splits)

lemma favor_Inr:
  assumes "favor scfg vcfg s signer signal_id net = Inr t"
  obtains account s1 b s2 where "signer = Some account" and "check_signal scfg s signal_id = Inr ()"
    and "in_latest_decided_set s net account"
    and "s1 = (if \<not> has_favor vcfg s signal_id net account
               then signals_deposit_event
                      (set_favors s signal_id net (om_set (favor_key vcfg account) () (Favors s signal_id net)))
                      (SignalFavored signal_id account net)
               else s)"
    and "tally_for_network s1 signal_id net = Some (b, s2)"
    and "t = s2 \<or> b \<and> tally_for_all_networks s2 signal_id = Some True \<and> t = enact_signal scfg s2 signal_id"
  using assms [unfolded favor_def Let_def res_simps split_paired_Ex prod.case]
  by (elim exE conjE) (rule that, assumption, simp, assumption, rule refl, assumption, erule favor_end)

lemma set_favors_simps [simp]:
  "LockedInRetirement (set_favors s signal_id net m) = LockedInRetirement s"
  "LockedInRetirement (signals_deposit_event s e) = LockedInRetirement s"
  "RegisteredRetirementSignals (set_favors s signal_id net m) = RegisteredRetirementSignals s"
  "RegisteredRetirementSignals (signals_deposit_event s e) = RegisteredRetirementSignals s"
  "block_number (set_favors s signal_id net m) = block_number s"
  "block_number (signals_deposit_event s e) = block_number s"
  by (simp_all add: set_favors_def signals_deposit_event_def)

lemma favor_locked:
  assumes "favor scfg vcfg s signer signal_id net = Inr t" and "LockedInRetirement s = Some x"
  shows "LockedInRetirement t = Some x \<and> RegisteredRetirementSignals t = RegisteredRetirementSignals s"
proof (cases signal_id)
  case (Retirement h)
  then show ?thesis using assms by (auto simp: favor_def res_simps)
next
  case (Halt n)
  show ?thesis
    by (rule favor_Inr [OF assms(1)])
      (use assms(2) Halt in \<open>auto simp: halt_def ii_deposit_event_def dest!: tally_locked split: if_splits\<close>)
qed

lemma locked_step:
  assumes "signals_step cfg scfg vcfg s t" and "LockedInRetirement s = Some (h, n)"
  shows "LockedInRetirement t = Some (h, n) \<or>
    (\<exists>r. RegisteredRetirementSignals s h = Some r \<and> revoke_retirement_signal s (Some (registrant r)) h = Inr t)"
  using assms(1)
proof cases
  case (step_register signer h')
  then show ?thesis using assms(2) by (simp add: register_retirement_signal_def res_simps)
next
  case (step_revoke signer h')
  then obtain r where r: "signer = Some (registrant r)" "RegisteredRetirementSignals s h' = Some r"
    and t: "t = signals_deposit_event (if map_option fst (LockedInRetirement s) = Some h'
      then s\<lparr>RegisteredRetirementSignals := (RegisteredRetirementSignals s)(h' := None), LockedInRetirement := None\<rparr>
      else s\<lparr>RegisteredRetirementSignals := (RegisteredRetirementSignals s)(h' := None)\<rparr>) (RetirementSignalRevoked h')"
    by (auto simp: revoke_retirement_signal_def res_simps Let_def)
  show ?thesis
  proof (cases "h' = h")
    case True
    then show ?thesis using r step_revoke by auto
  qed (use t assms(2) in simp)
next
  case (step_favor signer signal_id net)
  then show ?thesis using favor_locked [OF _ assms(2)] by blast
next
  case (step_revoke_favor signer signal_id net)
  then show ?thesis using assms(2) by (auto simp: revoke_favor_def res_simps dest!: revoke_favor_internal_locked)
next
  case (step_stand_against signer signal_id net)
  then show ?thesis using assms(2) by (simp add: stand_against_def res_simps)
next
  case step_elsewhere
  then show ?thesis using assms(2) by simp
qed


lemma tally_stakes:
  assumes "tally_for_network s signal_id net = Some (b, t)"
  shows "latest_decided_session t = latest_decided_session s" and "TotalAllocatedStake t = TotalAllocatedStake s"
proof -
  have "CurrentSession t = CurrentSession s \<and> TotalAllocatedStake t = TotalAllocatedStake s"
    using assms by (auto simp: tally_for_network_def bind_eq_Some_conv Let_def signals_deposit_event_def split: if_splits)
  then show "latest_decided_session t = latest_decided_session s" "TotalAllocatedStake t = TotalAllocatedStake s"
    by (auto simp: latest_decided_session_def session_def fun_eq_iff)
qed

lemma tally_all_nat:
  assumes "tally_for_all_networks s signal_id = Some True" and "4 * sum_list (map (net_stake s) NETWORKS) + 5 < 2 ^ 64"
  shows "4 * sum_list (map (net_stake s) NETWORKS) \<le> 5 * sum_list (map (in_favor_stake s signal_id) NETWORKS)"
proof -
  from assms(1) obtain f a where sums: "sum_stakes s signal_id NETWORKS 0 0 = Some (f, a)"
    and ge: "f \<ge> div_ceil (a * REQUIREMENT_NUMERATOR) REQUIREMENT_DIVISOR"
    by (auto simp: tally_for_all_networks_def)
  have "unat f = unat (0 :: u64) + sum_list (map (in_favor_stake s signal_id) NETWORKS) \<and>
      unat a = unat (0 :: u64) + sum_list (map (net_stake s) NETWORKS)"
    by (rule sum_stakes_nat [OF sums]) (use assms(2) in simp_all)
  then have fa: "unat f = sum_list (map (in_favor_stake s signal_id) NETWORKS)" "unat a = sum_list (map (net_stake s) NETWORKS)"
    by simp_all
  have "unat (a * REQUIREMENT_NUMERATOR) = 4 * unat a" using assms(2) fa by (intro unat_times_numerator) simp
  then have "4 * unat a \<le> 5 * unat (div_ceil (a * REQUIREMENT_NUMERATOR) 5)"
    using unat_div_ceil(1) [of "a * REQUIREMENT_NUMERATOR"] assms(2) fa by simp
  also have "\<dots> \<le> 5 * unat f" using ge by (simp add: word_le_nat_alt REQUIREMENT_DIVISOR_def)
  finally show ?thesis using fa by simp
qed

section \<open>An example\<close>

definition example_signals :: signals_rt where
  "example_signals = ii_rt.extend (example_ii\<lparr>
       CurrentSession := (\<lambda>net. if net = NetworkId.Bitcoin then Some 1 else None),
       TotalAllocatedStake := (\<lambda>_. Some 1000), InSet := (\<lambda>_. [(10, 1)]), Allocations := (\<lambda>_ _. Some 900)\<rparr>)
     \<lparr>RegisteredRetirementSignals = [1 \<mapsto> \<lparr>in_favor_of = 9, registrant = 10, registered_at = 0\<rparr>],
      Favors = (\<lambda>_ _. []), SetsInFavor = (\<lambda>_ _. None), LockedInRetirement = None, SignalsEvents = []\<rparr>"

definition example_signals_cfg :: signals_config where
  "example_signals_cfg = \<lparr>RetirementValidityDuration = 100, RetirementLockInDuration = 200\<rparr>"

lemma example_signals_simps [simp]:
  "block_number example_signals = 5" "TotalAllocatedStake example_signals = (\<lambda>_. Some 1000)"
  "CurrentSession example_signals = (\<lambda>net. if net = NetworkId.Bitcoin then Some 1 else None)"
  "InSet example_signals = (\<lambda>_. [(10, 1)])" "Allocations example_signals = (\<lambda>_ _. Some 900)"
  "RegisteredRetirementSignals example_signals = [1 \<mapsto> \<lparr>in_favor_of = 9, registrant = 10, registered_at = 0\<rparr>]"
  "Favors example_signals = (\<lambda>_ _. [])" "SetsInFavor example_signals = (\<lambda>_ _. None)" "LockedInRetirement example_signals = None"
  by (simp_all add: example_signals_def ii_rt.defs)

lemma example_favor:
  "\<exists>t. favor example_signals_cfg example_vs_cfg example_signals (Some 10) (Retirement 1) NetworkId.Bitcoin = Inr t \<and>
     LockedInRetirement t = Some (1, 205)"
  by (simp add: favor_def example_signals_cfg_def in_latest_decided_set_def has_favor_def tally_for_network_def
      latest_decided_session_def session_def set_favors_def signals_deposit_event_def Let_def tri_def ok_or_def ensure_def
      tally_for_all_networks_def NETWORKS_def REQUIREMENT_NUMERATOR_def REQUIREMENT_DIVISOR_def div_ceil_def
      saturating_sub_def checked_sub_def)

section \<open>Properties\<close>

text \<open>
  C6: a retirement is locked in only by four fifths of the stake. When a vote locks one in, no
  retirement was locked in before, the signal is registered and has not expired, the lock-in ends
  the configured number of blocks later, and the networks whose latest decided sets favor the
  signal hold at least four fifths of the stake allocated to all networks.
\<close>

theorem lock_in_needs_four_fifths:
  assumes "favor scfg vcfg s signer (Retirement h) net = Inr t" and "LockedInRetirement t \<noteq> LockedInRetirement s"
    and "4 * sum_list (map (net_stake s) NETWORKS) + 5 < 2 ^ 64"
  shows "LockedInRetirement s = None \<and>
    LockedInRetirement t = Some (h, block_number s + ucast (RetirementLockInDuration scfg)) \<and>
    (\<exists>r. RegisteredRetirementSignals s h = Some r \<and>
       block_number s \<le> registered_at r + ucast (RetirementValidityDuration scfg)) \<and>
    4 * sum_list (map (net_stake t) NETWORKS) \<le> 5 * sum_list (map (in_favor_stake t (Retirement h)) NETWORKS)"
proof -
  obtain account s1 b s2 where chk: "check_signal scfg s (Retirement h) = Inr ()"
    and s1: "s1 = (if \<not> has_favor vcfg s (Retirement h) net account
               then signals_deposit_event
                      (set_favors s (Retirement h) net (om_set (favor_key vcfg account) () (Favors s (Retirement h) net)))
                      (SignalFavored (Retirement h) account net)
               else s)"
    and tally: "tally_for_network s1 (Retirement h) net = Some (b, s2)"
    and t: "t = s2 \<or> b \<and> tally_for_all_networks s2 (Retirement h) = Some True \<and> t = enact_signal scfg s2 (Retirement h)"
    by (rule favor_Inr [OF assms(1)]) (rule that)
  have same: "LockedInRetirement s1 = LockedInRetirement s" "block_number s1 = block_number s"
    "latest_decided_session s1 = latest_decided_session s" "TotalAllocatedStake s1 = TotalAllocatedStake s"
    by (auto simp: s1 fun_eq_iff latest_decided_session_def session_def signals_deposit_event_def set_favors_def)
  note s2 = tally_locked [OF tally] tally_stakes [OF tally]
  have "t \<noteq> s2" using assms(2) s2 same by auto
  with t have all: "tally_for_all_networks s2 (Retirement h) = Some True" and te: "t = enact_signal scfg s2 (Retirement h)" by auto
  have net: "net_stake s2 = net_stake s" using s2 same by (simp add: net_stake_def fun_eq_iff cong: option.case_cong)
  have "net_stake t = net_stake s2" "in_favor_stake t = in_favor_stake s2"
    by (intro stakes_cong; simp add: te signals_deposit_event_def)+
  then show ?thesis
    using tally_all_nat [OF all] assms(3) net chk s2 same
    by (auto simp: te res_simps signals_deposit_event_def)
qed

theorem lock_in_needs_four_fifths_witness:
  "\<exists>t. favor example_signals_cfg example_vs_cfg example_signals (Some 10) (Retirement 1) NetworkId.Bitcoin = Inr t \<and>
     LockedInRetirement t = Some (1, 205) \<and>
     4 * sum_list (map (net_stake t) NETWORKS) \<le> 5 * sum_list (map (in_favor_stake t (Retirement 1)) NETWORKS)"
proof -
  obtain t where t: "favor example_signals_cfg example_vs_cfg example_signals (Some 10) (Retirement 1) NetworkId.Bitcoin = Inr t"
    "LockedInRetirement t = Some (1, 205)" using example_favor by blast
  have "4 * sum_list (map (net_stake example_signals) NETWORKS) + 5 < 2 ^ 64"
    by (simp add: net_stake_def NETWORKS_def latest_decided_session_def session_def)
  with lock_in_needs_four_fifths [OF t(1)] t show ?thesis by auto
qed

text \<open>
  C33: a network favors a signal only with four fifths of its stake. When the tally finds a network in
  favor, the validators of its latest decided set that voted for the signal, each counted once, have
  at least four fifths of the stake allocated to the network.
\<close>

theorem network_favor_needs_four_fifths:
  assumes "favors_wf vcfg s" and "tally_for_network s signal_id net = Some (True, t)"
    and "TotalAllocatedStake s net = Some stake" and "4 * unat stake + 5 < 2 ^ 64"
  shows "4 * unat stake \<le> 5 * (\<Sum>account | has_favor vcfg s signal_id net account \<and> in_latest_decided_set s net account.
    case Allocations s net account of Some a \<Rightarrow> unat a | None \<Rightarrow> 0)"
proof -
  let ?needed = "div_ceil (stake * REQUIREMENT_NUMERATOR) REQUIREMENT_DIVISOR"
  have count: "count_favors s net (map fst (Favors s signal_id net)) ?needed = Some 0"
    using assms(2,3) by (auto simp: tally_for_network_def bind_eq_Some_conv Let_def split: if_splits)
  have mul: "unat (stake * REQUIREMENT_NUMERATOR) = 4 * unat stake" using assms(4) by (intro unat_times_numerator) simp
  have "4 * unat stake \<le> 5 * unat ?needed"
    using unat_div_ceil(1) [of "stake * REQUIREMENT_NUMERATOR"] mul assms(4) by (simp add: REQUIREMENT_DIVISOR_def)
  also have "\<dots> \<le> 5 * sum_list (map (vote_stake s net \<circ> favor_account) (map fst (Favors s signal_id net)))"
    using count_favors_zero [OF count] by simp
  also have "\<dots> = 5 * (\<Sum>account | has_favor vcfg s signal_id net account. vote_stake s net account)"
    unfolding voters [OF assms(1)] ..
  also have "(\<Sum>account | has_favor vcfg s signal_id net account. vote_stake s net account) =
      (\<Sum>account | has_favor vcfg s signal_id net account \<and> in_latest_decided_set s net account.
        case Allocations s net account of Some a \<Rightarrow> unat a | None \<Rightarrow> 0)"
    by (rule sum.mono_neutral_cong_right) (auto simp: vote_stake_def)
  finally show ?thesis .
qed

theorem network_favor_needs_four_fifths_witness:
  "\<exists>s t. favors_wf example_vs_cfg s \<and> tally_for_network (s :: signals_rt) (Retirement 1) NetworkId.Bitcoin = Some (True, t) \<and>
     4 * 1000 \<le> 5 * (\<Sum>account | has_favor example_vs_cfg s (Retirement 1) NetworkId.Bitcoin account \<and>
       in_latest_decided_set s NetworkId.Bitcoin account.
       case Allocations s NetworkId.Bitcoin account of Some a \<Rightarrow> unat a | None \<Rightarrow> 0)"
proof -
  let ?s = "set_favors example_signals (Retirement 1) NetworkId.Bitcoin [(favor_key example_vs_cfg 10, ())]"
  have wf: "favors_wf example_vs_cfg ?s" by (auto simp: favors_wf_def set_favors_def)
  have stake: "TotalAllocatedStake ?s NetworkId.Bitcoin = Some 1000" by (simp add: set_favors_def)
  have "\<exists>t. tally_for_network ?s (Retirement 1) NetworkId.Bitcoin = Some (True, t)"
    by (simp add: in_latest_decided_set_def tally_for_network_def latest_decided_session_def session_def set_favors_def
        Let_def REQUIREMENT_NUMERATOR_def REQUIREMENT_DIVISOR_def div_ceil_def saturating_sub_def checked_sub_def)
  then obtain t where t: "tally_for_network ?s (Retirement 1) NetworkId.Bitcoin = Some (True, t)" by blast
  from network_favor_needs_four_fifths [OF wf t stake] wf t show ?thesis by (intro exI [of _ ?s] exI [of _ t]) simp
qed

text \<open>
  C34: a locked-in retirement stands. Whatever call succeeds, the retirement stays locked in for the
  same block, at which the chain halts and not before, unless the registrant of that very signal
  revokes it, which lifts the lock-in.
\<close>

theorem locked_in_retirement_stands:
  assumes "signals_step cfg scfg vcfg s t" and "LockedInRetirement s = Some (h, n)"
  shows "(LockedInRetirement t = Some (h, n) \<and>
      (\<forall>m. signals_on_initialize t m = (if m = n then None else Some t))) \<or>
    (\<exists>r. RegisteredRetirementSignals s h = Some r \<and> revoke_retirement_signal s (Some (registrant r)) h = Inr t \<and>
       LockedInRetirement t = None)"
  using locked_step [OF assms] assms(2)
  by (auto simp: signals_on_initialize_def revoke_retirement_signal_def res_simps Let_def)

theorem locked_in_retirement_stands_witness:
  "\<exists>s t. LockedInRetirement (s :: signals_rt) = Some (1, 205) \<and> revoke_retirement_signal s (Some 10) 1 = Inr t \<and>
     LockedInRetirement t = None"
proof -
  let ?s = "example_signals\<lparr>LockedInRetirement := Some (1, 205)\<rparr>"
  have "\<exists>t. revoke_retirement_signal ?s (Some 10) 1 = Inr t \<and> LockedInRetirement t \<noteq> Some (1, 205)"
    by (simp add: revoke_retirement_signal_def tri_def ok_or_def ensure_def Let_def)
  then obtain t where t: "revoke_retirement_signal ?s (Some 10) 1 = Inr t" "LockedInRetirement t \<noteq> Some (1, 205)" by blast
  have "LockedInRetirement ?s = Some (1, 205)" by simp
  from locked_in_retirement_stands [OF step_revoke [OF t(1)] this] t this show ?thesis by blast
qed

text \<open>
  A validator of a set may have deallocated everything since the set was decided; a vote of theirs
  then makes the tally panic.
\<close>

lemma tally_panics_without_allocation:
  assumes "Favors s signal_id net = [(favor_key vcfg account, ())]" and "in_latest_decided_set s net account"
    and "Allocations s net account = None" and "latest_decided_session s net = Some n"
    and "TotalAllocatedStake s net = Some stake" and "div_ceil (stake * REQUIREMENT_NUMERATOR) REQUIREMENT_DIVISOR \<noteq> 0"
  shows "tally_for_network s signal_id net = None"
  using assms by (simp add: tally_for_network_def Let_def)

end
