(* ===== verification/Database.thy ===== *)
theory Database
  imports Scale "HOL-Library.AList"
begin

text \<open>
  The key-value database of the off-chain services (\<open>common/db\<close>): the construction of keys, the
  transactions of the in-memory and the ParityDB backends, and the channels which the macro
  \<open>db_channel!\<close> keeps inside a database. A Rust \<open>HashMap\<close> is an association list with distinct
  keys and a \<open>HashSet\<close> a list without repetitions; where the code iterates over one, the order of the
  list stands for the order of the iteration.

  A transaction reads through to the database it was opened on, which nobody else writes meanwhile.
  The RocksDB backend only forwards to its library and is not modelled.
\<close>

type_synonym bytes = "u8 list"
type_synonym db = "bytes \<Rightarrow> bytes option"

section \<open>Keys\<close>

text \<open>
  A key is the length-prefixed name of the database, the length-prefixed name of the item and the
  key proper; a name of more than 255 bytes panics. The services pass short
  literals as names, for which there is always a key.
\<close>

definition serai_db_key :: "bytes \<Rightarrow> bytes \<Rightarrow> bytes \<Rightarrow> bytes option" where
  "serai_db_key db_dst item_dst key =
     (if length db_dst < 256 \<and> length item_dst < 256
      then Some ([of_nat (length db_dst)] @ db_dst @ [of_nat (length item_dst)] @ item_dst @ key)
      else None)"

definition Db_key :: "bytes \<Rightarrow> bytes \<Rightarrow> bytes \<Rightarrow> bytes option" where
  "Db_key db_dst item_dst key =
     (if length db_dst < 256 \<and> length item_dst < 256
      then Some ([of_nat (length db_dst)] @ db_dst @ [of_nat (length item_dst)] @ item_dst @ key)
      else None)"

lemma serai_db_key_inject:
  assumes "serai_db_key d i k = Some x" and "serai_db_key d' i' k' = Some x"
  shows "d = d' \<and> i = i' \<and> k = k'"
proof -
  have byte: "length xs = length ys" if "length xs < 256" "length ys < 256"
      "(of_nat (length xs) :: u8) = of_nat (length ys)" for xs ys :: bytes
    using that(1,2) arg_cong [OF that(3), of unat] by (simp add: unat_of_nat)
  from assms have len: "length d < 256" "length i < 256" "length d' < 256" "length i' < 256"
    and eq: "of_nat (length d) # d @ of_nat (length i) # i @ k = (of_nat (length d') # d' @ of_nat (length i') # i' @ k' :: bytes)"
    by (auto simp: serai_db_key_def split: if_splits)
  from eq len have "length d = length d'" by (intro byte) simp_all
  with eq have "d = d'" and eq2: "of_nat (length i) # i @ k = (of_nat (length i') # i' @ k' :: bytes)" by auto
  from eq2 len have "length i = length i'" by (intro byte) simp_all
  with eq2 \<open>d = d'\<close> show ?thesis by simp
qed

lemma Db_key_eq: "Db_key = serai_db_key"
  by (intro ext) (simp add: Db_key_def serai_db_key_def)

section \<open>Transactions\<close>

datatype db_op = Put bytes bytes | Del bytes

text \<open>What a sequence of writes does to a database.\<close>

fun apply_op :: "db_op \<Rightarrow> db \<Rightarrow> db" where
  "apply_op (Put k v) d = d(k \<mapsto> v)"
| "apply_op (Del k) d = d(k := None)"

text \<open>The same sequence made through a transaction.\<close>

fun do_op :: "('t \<Rightarrow> bytes \<Rightarrow> bytes \<Rightarrow> 't) \<Rightarrow> ('t \<Rightarrow> bytes \<Rightarrow> 't) \<Rightarrow> db_op \<Rightarrow> 't \<Rightarrow> 't" where
  "do_op put del (Put k v) t = put t k v"
| "do_op put del (Del k) t = del t k"

text \<open>The interface \<open>Get\<close> + \<open>DbTxn\<close>: a transaction reads its own writes, and those of the database before.\<close>

locale db_txn =
  fixes txn :: "db \<Rightarrow> 't" and txn_get :: "'t \<Rightarrow> bytes \<Rightarrow> bytes option"
    and txn_put :: "'t \<Rightarrow> bytes \<Rightarrow> bytes \<Rightarrow> 't" and txn_del :: "'t \<Rightarrow> bytes \<Rightarrow> 't" and txn_ok :: "'t \<Rightarrow> bool"
  assumes ok_txn: "txn_ok (txn d)"
    and get_txn: "txn_get (txn d) = d"
    and ok_put: "txn_ok t \<Longrightarrow> txn_ok (txn_put t k v)"
    and get_put: "txn_ok t \<Longrightarrow> txn_get (txn_put t k v) = (txn_get t)(k \<mapsto> v)"
    and ok_del: "txn_ok t \<Longrightarrow> txn_ok (txn_del t k)"
    and get_del: "txn_ok t \<Longrightarrow> txn_get (txn_del t k) = (txn_get t)(k := None)"
begin

lemma do_op_get: "txn_ok t \<Longrightarrow> txn_ok (do_op txn_put txn_del x t) \<and> txn_get (do_op txn_put txn_del x t) = apply_op x (txn_get t)"
  using get_put get_del by (cases x) (auto simp: ok_put ok_del)

lemma do_ops:
  "txn_ok t \<Longrightarrow> txn_ok (fold (do_op txn_put txn_del) ops t) \<and>
     txn_get (fold (do_op txn_put txn_del) ops t) = fold apply_op ops (txn_get t)"
proof (induction ops arbitrary: t)
  case (Cons x ops)
  with do_op_get [of t x] show ?case by simp
qed simp

lemma reads_own_writes: "txn_get (fold (do_op txn_put txn_del) ops (txn d)) = fold apply_op ops d"
  using do_ops [OF ok_txn] by (simp add: get_txn)

end

text \<open>\<open>DbTxn::commit\<close> makes exactly what the transaction read the new database.\<close>

locale committing_txn = db_txn txn txn_get txn_put txn_del txn_ok
  for txn :: "db \<Rightarrow> 't" and txn_get txn_put txn_del txn_ok +
  fixes txn_commit :: "'t \<Rightarrow> db"
  assumes commit: "txn_ok t \<Longrightarrow> txn_commit t = txn_get t"
begin

lemma commits_writes: "txn_commit (fold (do_op txn_put txn_del) ops (txn d)) = fold apply_op ops d"
  using do_ops [OF ok_txn] by (simp add: commit get_txn)

end

subsection \<open>The in-memory backend\<close>

record MemDbTxn =
  mem_db :: db
  mem_puts :: "(bytes \<times> bytes) list"
  mem_dels :: "bytes list"

definition MemDb_txn :: "db \<Rightarrow> MemDbTxn" where
  "MemDb_txn d = \<lparr>mem_db = d, mem_puts = [], mem_dels = []\<rparr>"

definition MemDbTxn_get :: "MemDbTxn \<Rightarrow> bytes \<Rightarrow> bytes option" where
  "MemDbTxn_get t key =
     (if key \<in> set (mem_dels t) then None
      else case map_of (mem_puts t) key of Some v \<Rightarrow> Some v | None \<Rightarrow> mem_db t key)"

definition MemDbTxn_put :: "MemDbTxn \<Rightarrow> bytes \<Rightarrow> bytes \<Rightarrow> MemDbTxn" where
  "MemDbTxn_put t key v = t\<lparr>mem_dels := removeAll key (mem_dels t), mem_puts := AList.update key v (mem_puts t)\<rparr>"

definition MemDbTxn_del :: "MemDbTxn \<Rightarrow> bytes \<Rightarrow> MemDbTxn" where
  "MemDbTxn_del t key = t\<lparr>mem_puts := AList.delete key (mem_puts t), mem_dels := List.insert key (mem_dels t)\<rparr>"

definition MemDbTxn_commit :: "MemDbTxn \<Rightarrow> db" where
  "MemDbTxn_commit t = fold (\<lambda>key d. d(key := None)) (mem_dels t) (fold (\<lambda>(key, v) d. d(key \<mapsto> v)) (mem_puts t) (mem_db t))"

definition MemDbTxn_ok :: "MemDbTxn \<Rightarrow> bool" where
  "MemDbTxn_ok t = (distinct (map fst (mem_puts t)) \<and> fst ` set (mem_puts t) \<inter> set (mem_dels t) = {})"

lemma fold_deletes: "fold (\<lambda>key d. d(key := None)) ks d = (\<lambda>k. if k \<in> set ks then None else d k)"
  by (induction ks arbitrary: d) auto

lemma fold_inserts:
  "distinct (map fst m) \<Longrightarrow> fold (\<lambda>(key, v) d. d(key \<mapsto> v)) m d = (\<lambda>k. case map_of m k of Some v \<Rightarrow> Some v | None \<Rightarrow> d k)"
proof (induction m arbitrary: d)
  case (Cons a m)
  obtain k v where a: "a = (k, v)" by fastforce
  with Cons.prems have "map_of m k = None" by (simp add: map_of_eq_None_iff)
  then show ?case using Cons a by (auto split: option.splits)
qed simp

interpretation mem: committing_txn MemDb_txn MemDbTxn_get MemDbTxn_put MemDbTxn_del MemDbTxn_ok MemDbTxn_commit
proof unfold_locales
  fix t k v assume ok: "MemDbTxn_ok t"
  show "MemDbTxn_ok (MemDbTxn_put t k v)"
    using ok by (auto simp: MemDbTxn_ok_def MemDbTxn_put_def distinct_update dom_update)
  show "MemDbTxn_ok (MemDbTxn_del t k)"
    using ok by (auto simp: MemDbTxn_ok_def MemDbTxn_del_def AList.delete_eq distinct_map_filter)
  show "MemDbTxn_get (MemDbTxn_put t k v) = (MemDbTxn_get t)(k \<mapsto> v)"
    by (rule ext) (auto simp: MemDbTxn_get_def MemDbTxn_put_def update_conv' split: option.splits)
  show "MemDbTxn_get (MemDbTxn_del t k) = (MemDbTxn_get t)(k := None)"
    by (rule ext) (auto simp: MemDbTxn_get_def MemDbTxn_del_def delete_conv' split: option.splits)
  show "MemDbTxn_commit t = MemDbTxn_get t"
    using ok by (simp add: MemDbTxn_commit_def MemDbTxn_get_def MemDbTxn_ok_def fold_deletes fold_inserts fun_eq_iff)
qed (simp_all add: MemDbTxn_ok_def MemDb_txn_def MemDbTxn_get_def fun_eq_iff)

subsection \<open>The ParityDB backend\<close>

text \<open>
  A transaction keeps the list of its changes and replays it for every read; committing hands the
  list to the library.
\<close>

record ParityTxn =
  parity_db :: db
  parity_changes :: "(bytes \<times> bytes option) list"

definition ParityDb_txn :: "db \<Rightarrow> ParityTxn" where
  "ParityDb_txn d = \<lparr>parity_db = d, parity_changes = []\<rparr>"

definition ParityTxn_get :: "ParityTxn \<Rightarrow> bytes \<Rightarrow> bytes option" where
  "ParityTxn_get t key = fold (\<lambda>change res. if fst change = key then snd change else res) (parity_changes t) (parity_db t key)"

definition ParityTxn_put :: "ParityTxn \<Rightarrow> bytes \<Rightarrow> bytes \<Rightarrow> ParityTxn" where
  "ParityTxn_put t key v = t\<lparr>parity_changes := parity_changes t @ [(key, Some v)]\<rparr>"

definition ParityTxn_del :: "ParityTxn \<Rightarrow> bytes \<Rightarrow> ParityTxn" where
  "ParityTxn_del t key = t\<lparr>parity_changes := parity_changes t @ [(key, None)]\<rparr>"

interpretation parity: db_txn ParityDb_txn ParityTxn_get ParityTxn_put ParityTxn_del "\<lambda>_. True"
  by unfold_locales (auto simp: ParityDb_txn_def ParityTxn_get_def ParityTxn_put_def ParityTxn_del_def fun_eq_iff)

text \<open>
  C22: the backends behave alike. Whatever sequence of writes and deletions a transaction makes, both
  the in-memory and the ParityDB backend read every key as if the operations had been applied to the
  database one after the other, and the in-memory commit leaves exactly that database.
\<close>

theorem backends_agree:
  "MemDbTxn_get (fold (do_op MemDbTxn_put MemDbTxn_del) ops (MemDb_txn d)) = fold apply_op ops d \<and>
   ParityTxn_get (fold (do_op ParityTxn_put ParityTxn_del) ops (ParityDb_txn d)) = fold apply_op ops d \<and>
   MemDbTxn_commit (fold (do_op MemDbTxn_put MemDbTxn_del) ops (MemDb_txn d)) = fold apply_op ops d"
  using mem.reads_own_writes parity.reads_own_writes mem.commits_writes by blast

section \<open>Channels\<close>

text \<open>
  What a queue promises its users: a message that is pushed while there is room is appended, and
  popping takes the oldest one. \<open>None\<close> is a panic.
\<close>

locale fifo =
  fixes queue_ok :: "'q \<Rightarrow> bool" and room :: "'q \<Rightarrow> nat" and pending :: "'q \<Rightarrow> 'v list"
    and push :: "'v \<Rightarrow> 'q \<Rightarrow> 'q option" and pop :: "'q \<Rightarrow> ('v option \<times> 'q) option"
  assumes push_ok: "queue_ok q \<Longrightarrow> 0 < room q \<Longrightarrow>
      \<exists>q'. push v q = Some q' \<and> queue_ok q' \<and> pending q' = pending q @ [v] \<and> room q' = room q - 1"
    and pop_nil: "queue_ok q \<Longrightarrow> pending q = [] \<Longrightarrow> pop q = Some (None, q)"
    and pop_cons: "queue_ok q \<Longrightarrow> pending q = v # vs \<Longrightarrow>
      \<exists>q'. pop q = Some (Some v, q') \<and> queue_ok q' \<and> pending q' = vs \<and> room q' = room q"

text \<open>A run of a queue: \<open>Some v\<close> pushes \<open>v\<close>, \<open>None\<close> pops; the popped messages are collected.\<close>

fun run_queue :: "('v \<Rightarrow> 'q \<Rightarrow> 'q option) \<Rightarrow> ('q \<Rightarrow> ('v option \<times> 'q) option) \<Rightarrow> 'v option list \<Rightarrow> 'q \<Rightarrow> ('v list \<times> 'q) option" where
  "run_queue push pop [] q = Some ([], q)"
| "run_queue push pop (Some v # ops) q = Option.bind (push v q) (run_queue push pop ops)"
| "run_queue push pop (None # ops) q =
     Option.bind (pop q) (\<lambda>(r, q'). Option.bind (run_queue push pop ops q')
       (\<lambda>(vs, q''). Some ((case r of Some v \<Rightarrow> v # vs | None \<Rightarrow> vs), q'')))"

lemma run_queue_append:
  "run_queue push pop (ops @ ops') q =
     Option.bind (run_queue push pop ops q) (\<lambda>(vs, q1). Option.bind (run_queue push pop ops' q1) (\<lambda>(vs', q2). Some (vs @ vs', q2)))"
  by (induction push pop ops q rule: run_queue.induct) (auto split: Option.bind_split option.split)

text \<open>The queue every implementation is compared with is a list.\<close>

definition list_push :: "'v \<Rightarrow> 'v list \<Rightarrow> 'v list option" where
  "list_push v q = Some (q @ [v])"

definition list_pop :: "'v list \<Rightarrow> ('v option \<times> 'v list) option" where
  "list_pop q = Some (case q of [] \<Rightarrow> (None, []) | v # vs \<Rightarrow> (Some v, vs))"

lemmas list_queue_defs = list_push_def list_pop_def map_filter_simps

lemma list_run_conserves:
  "run_queue list_push list_pop ops q = Some (vs, r) \<Longrightarrow> vs @ r = q @ List.map_filter id ops"
proof (induction ops arbitrary: q vs)
  case (Cons x ops)
  then show ?case by (cases x; cases q) (auto simp: list_queue_defs split: Option.bind_splits)
qed (simp add: map_filter_simps)

lemma list_run_drains: "length q \<le> n \<Longrightarrow> run_queue list_push list_pop (replicate n None) q = Some (q, [])"
proof (induction n arbitrary: q)
  case (Suc n)
  then show ?case by (cases q) (auto simp: list_queue_defs)
qed simp

lemma list_run_delivers:
  assumes "run_queue list_push list_pop (ops @ replicate (length (List.map_filter id ops)) None) [] = Some (vs, r)"
  shows "vs = List.map_filter id ops \<and> r = []"
proof -
  obtain us q where q: "run_queue list_push list_pop ops [] = Some (us, q)" using assms by (auto simp: run_queue_append split: Option.bind_splits)
  have "us @ q = List.map_filter id ops" using list_run_conserves [OF q] by simp
  moreover from this have "length q \<le> length (List.map_filter id ops)" by (metis length_append le_add2)
  ultimately show ?thesis using assms q list_run_drains [of q] by (simp add: run_queue_append)
qed

context fifo
begin

lemma refines_list:
  "queue_ok q \<Longrightarrow> length (List.map_filter id ops) \<le> room q \<Longrightarrow>
     \<exists>vs q'. run_queue push pop ops q = Some (vs, q') \<and> run_queue list_push list_pop ops (pending q) = Some (vs, pending q')"
proof (induction ops arbitrary: q)
  case (Cons x ops)
  show ?case
  proof (cases x)
    case (Some v)
    then have "0 < room q" using Cons.prems(2) by (simp add: map_filter_simps)
    from push_ok [OF Cons.prems(1) this, of v] obtain q1
      where q1: "push v q = Some q1" "queue_ok q1" "pending q1 = pending q @ [v]" "room q1 = room q - 1" by blast
    then show ?thesis using Cons.IH [of q1] Cons.prems(2) Some by (auto simp: list_queue_defs)
  next
    case None
    show ?thesis
    proof (cases "pending q")
      case Nil
      then show ?thesis using Cons.IH [of q] Cons.prems None pop_nil [OF Cons.prems(1) Nil] by (auto simp: list_queue_defs)
    next
      case item: (Cons v us)
      from pop_cons [OF Cons.prems(1) item] obtain q1
        where q1: "pop q = Some (Some v, q1)" "queue_ok q1" "pending q1 = us" "room q1 = room q" by blast
      then show ?thesis using Cons.IH [of q1] Cons.prems(2) item None by (auto simp: list_queue_defs)
    qed
  qed
qed simp

end

subsection \<open>The channel of the macro\<close>

text \<open>
  A channel has the keys \<open>key 0\<close> for the number of messages sent, \<open>key 1\<close> for the number received
  and \<open>key (i + 2)\<close> for message \<open>i\<close>; a counter that is not four bytes long panics, and the
  counters wrap around.
\<close>

definition read_counter :: "db \<Rightarrow> bytes \<Rightarrow> u32 option" where
  "read_counter d key = (case d key of None \<Rightarrow> Some 0 | Some bs \<Rightarrow> if length bs = 4 then Some (from_le_bytes bs) else None)"

definition channel_send :: "(u32 \<Rightarrow> bytes) \<Rightarrow> ('v \<Rightarrow> bytes) \<Rightarrow> 'v \<Rightarrow> db \<Rightarrow> db option" where
  "channel_send key enc v d =
     Option.bind (read_counter d (key 0)) (\<lambda>messages_sent.
       let d1 = d(key 0 \<mapsto> to_le_bytes (messages_sent + 1)); index_to_use = messages_sent + 2
       in Some (d1(key index_to_use \<mapsto> enc v)))"

definition channel_try_recv :: "(u32 \<Rightarrow> bytes) \<Rightarrow> (bytes \<Rightarrow> 'v option) \<Rightarrow> db \<Rightarrow> ('v option \<times> db) option" where
  "channel_try_recv key dec d =
     Option.bind (read_counter d (key 1)) (\<lambda>messages_recvd.
       let index_to_read = messages_recvd + 2
       in case d (key index_to_read) of
            None \<Rightarrow> Some (None, d)
          | Some bs \<Rightarrow> Option.bind (dec bs) (\<lambda>v.
              Some (Some v, (d(key index_to_read := None))(key 1 \<mapsto> to_le_bytes (messages_recvd + 1)))))"

locale db_channel =
  fixes key :: "u32 \<Rightarrow> bytes" and enc :: "'v \<Rightarrow> bytes" and dec :: "bytes \<Rightarrow> 'v option"
  assumes key_inject: "key i = key j \<Longrightarrow> i = j"
    and dec_enc: "dec (enc v) = Some v"
begin

definition counter :: "u32 \<Rightarrow> db \<Rightarrow> nat" where
  "counter i d = (case read_counter d (key i) of Some n \<Rightarrow> unat n | None \<Rightarrow> 0)"

definition item_key :: "nat \<Rightarrow> bytes" where
  "item_key i = key (of_nat i + 2)"

definition channel_ok :: "db \<Rightarrow> bool" where
  "channel_ok d = (read_counter d (key 0) \<noteq> None \<and> read_counter d (key 1) \<noteq> None \<and>
     counter 1 d \<le> counter 0 d \<and> counter 0 d < 2 ^ 32 - 2 \<and>
     (\<forall>i. counter 1 d \<le> i \<and> i < counter 0 d \<longrightarrow> d (item_key i) \<in> range (Some \<circ> enc)) \<and>
     (\<forall>i. counter 0 d \<le> i \<and> i < 2 ^ 32 - 2 \<longrightarrow> d (item_key i) = None))"

definition channel_room :: "db \<Rightarrow> nat" where
  "channel_room d = 2 ^ 32 - 3 - counter 0 d"

definition channel_pending :: "db \<Rightarrow> 'v list" where
  "channel_pending d = map (\<lambda>i. the (Option.bind (d (item_key i)) dec)) [counter 1 d..<counter 0 d]"

lemma item_word: "i < 2 ^ 32 - 2 \<Longrightarrow> unat (of_nat i + 2 :: u32) = i + 2"
proof -
  assume "i < 2 ^ 32 - 2"
  then have "unat (of_nat (i + 2) :: u32) = i + 2" by (simp only: unat_of_nat) simp
  then show ?thesis by (simp add: add.commute)
qed

lemma item_key_inject: "\<lbrakk>i < 2 ^ 32 - 2; j < 2 ^ 32 - 2; item_key i = item_key j\<rbrakk> \<Longrightarrow> i = j"
  using item_word [of i] item_word [of j] key_inject [of "of_nat i + 2" "of_nat j + 2"] unfolding item_key_def
  by (metis add_right_cancel)

lemma item_key_counter: "i < 2 ^ 32 - 2 \<Longrightarrow> item_key i \<noteq> key 0 \<and> item_key i \<noteq> key 1"
proof -
  assume "i < 2 ^ 32 - 2"
  then have u: "unat (of_nat i + 2 :: u32) = i + 2" by (rule item_word)
  define w where "w = (of_nat i + 2 :: u32)"
  have "unat w = i + 2" unfolding w_def by (rule u)
  then have "w \<noteq> 0" "w \<noteq> 1" by (intro notI; simp)+
  then show ?thesis unfolding item_key_def w_def using key_inject by blast
qed

lemma key01: "key 0 \<noteq> key 1"
  using key_inject [of 0 1] by auto

lemma read_counter_put: "read_counter (d(k \<mapsto> to_le_bytes n)) k' = (if k' = k then Some n else read_counter d k')"
  by (simp add: read_counter_def from_to_le_bytes)

lemma read_counter_other: "k \<noteq> k' \<Longrightarrow> read_counter (d(k := v)) k' = read_counter d k'"
  by (simp add: read_counter_def)

lemma counter_read: "read_counter d (key i) = Some n \<Longrightarrow> counter i d = unat n"
  by (simp add: counter_def)

lemma channel_send_ok:
  assumes ok: "channel_ok d" and room: "0 < channel_room d"
  shows "\<exists>t. channel_send key enc v d = Some t \<and> channel_ok t \<and> channel_pending t = channel_pending d @ [v] \<and>
    channel_room t = channel_room d - 1"
proof -
  obtain s r where s: "read_counter d (key 0) = Some s" and r: "read_counter d (key 1) = Some r"
    using ok by (auto simp: channel_ok_def)
  have cd: "counter 0 d = unat s" "counter 1 d = unat r" using s r by (simp_all add: counter_read)
  have lt: "unat s + 1 < 2 ^ 32 - 2" and le: "unat r \<le> unat s" using ok room cd by (simp_all add: channel_room_def channel_ok_def)
  have s1: "unat (s + 1) = unat s + 1" using lt by (subst unat_add_lem [THEN iffD1]) simp_all
  have ks: "key (s + 2) = item_key (unat s)" by (simp add: item_key_def)
  have kc: "item_key i \<noteq> key 0" "item_key i \<noteq> key 1" if "i < 2 ^ 32 - 2" for i using item_key_counter [OF that] by auto
  define t where "t = d(key 0 \<mapsto> to_le_bytes (s + 1), item_key (unat s) \<mapsto> enc v)"
  have send: "channel_send key enc v d = Some t" by (simp add: channel_send_def s Let_def ks t_def)
  have cnt: "read_counter t (key 0) = Some (s + 1)" "read_counter t (key 1) = Some r"
    unfolding t_def using kc [of "unat s"] lt key01 r by (simp_all add: read_counter_other read_counter_put)
  then have ct: "counter 0 t = unat s + 1" "counter 1 t = unat r" using s1 by (simp_all add: counter_read)
  have item: "t (item_key i) = (if i = unat s then Some (enc v) else d (item_key i))" if "i < 2 ^ 32 - 2" for i
    unfolding t_def using kc [OF that] item_key_inject [OF that, of "unat s"] lt by auto
  have "channel_ok t"
    using ok le lt item cnt by (auto simp: channel_ok_def cd ct)
  moreover have "channel_pending t = channel_pending d @ [v]"
    using le lt item by (auto simp: channel_pending_def cd ct dec_enc)
  ultimately show ?thesis using send by (auto simp: channel_room_def cd ct)
qed

lemma channel_recv_nil:
  assumes ok: "channel_ok d" and "channel_pending d = []"
  shows "channel_try_recv key dec d = Some (None, d)"
proof -
  obtain r where r: "read_counter d (key 1) = Some r" using ok by (auto simp: channel_ok_def)
  have "counter 0 d = unat r" using assms counter_read [OF r] by (auto simp: channel_pending_def channel_ok_def)
  then have "d (key (r + 2)) = None" using ok by (auto simp: channel_ok_def item_key_def dest: spec [of _ "unat r"])
  with r show ?thesis by (simp add: channel_try_recv_def)
qed

lemma channel_recv_cons:
  assumes ok: "channel_ok d" and pending: "channel_pending d = v # vs"
  shows "\<exists>t. channel_try_recv key dec d = Some (Some v, t) \<and> channel_ok t \<and> channel_pending t = vs \<and> channel_room t = channel_room d"
proof -
  obtain s r where s: "read_counter d (key 0) = Some s" and r: "read_counter d (key 1) = Some r"
    using ok by (auto simp: channel_ok_def)
  have cd: "counter 0 d = unat s" "counter 1 d = unat r" using s r by (simp_all add: counter_read)
  have lt: "unat r < unat s" "unat s < 2 ^ 32 - 2"
    using ok pending cd by (auto simp: channel_ok_def channel_pending_def intro: ccontr)
  have upt: "[unat r..<unat s] = unat r # [unat r + 1..<unat s]" using lt(1) by (simp add: upt_conv_Cons)
  have r1: "unat (r + 1) = unat r + 1" using lt by (subst unat_add_lem [THEN iffD1]) simp_all
  have kr: "key (r + 2) = item_key (unat r)" by (simp add: item_key_def)
  have kc: "item_key i \<noteq> key 0" "item_key i \<noteq> key 1" if "i < 2 ^ 32 - 2" for i using item_key_counter [OF that] by auto
  obtain w where w: "d (item_key (unat r)) = Some (enc w)" using ok lt cd by (fastforce simp: channel_ok_def)
  have v: "v = w" and vs: "vs = map (\<lambda>i. the (Option.bind (d (item_key i)) dec)) [unat r + 1..<unat s]"
    using pending w unfolding channel_pending_def cd upt by (simp_all add: dec_enc)
  define t where "t = (d(item_key (unat r) := None))(key 1 \<mapsto> to_le_bytes (r + 1))"
  have recv: "channel_try_recv key dec d = Some (Some v, t)"
    using w v by (simp add: channel_try_recv_def r Let_def kr t_def dec_enc)
  have cnt: "read_counter t (key 0) = Some s" "read_counter t (key 1) = Some (r + 1)"
    unfolding t_def using kc [of "unat r"] lt key01 s by (simp_all add: read_counter_other read_counter_put)
  then have ct: "counter 0 t = unat s" "counter 1 t = unat r + 1" using r1 by (simp_all add: counter_read)
  have item: "t (item_key i) = (if i = unat r then None else d (item_key i))" if "i < 2 ^ 32 - 2" for i
    unfolding t_def using kc [OF that] item_key_inject [OF that, of "unat r"] lt by auto
  have "channel_ok t" using ok lt item cnt by (auto simp: channel_ok_def cd ct)
  moreover have "channel_pending t = vs" using lt item by (auto simp: channel_pending_def ct vs)
  ultimately show ?thesis using recv by (auto simp: channel_room_def cd ct)
qed

lemma channel_empty:
  assumes "\<And>i. d (key i) = None"
  shows "channel_ok d \<and> channel_pending d = [] \<and> channel_room d = 2 ^ 32 - 3"
  by (simp add: channel_ok_def channel_pending_def channel_room_def counter_def read_counter_def item_key_def assms)

end

sublocale db_channel \<subseteq> fifo channel_ok channel_room channel_pending "channel_send key enc" "channel_try_recv key dec"
  by unfold_locales (rule channel_send_ok channel_recv_nil channel_recv_cons; assumption)+

subsection \<open>The cosigns to perform\<close>

text \<open>
  The coordinator's channel \<open>CosignTransactions\<close>, one per network, carries the session, number and
  hash of the block to cosign; Borsh encodes the tuple as its parts in little-endian order.
\<close>

definition CosignTransactions_key :: "NetworkId \<Rightarrow> u32 \<Rightarrow> bytes" where
  "CosignTransactions_key net index =
     the (serai_db_key (ascii ''SubstrateDbChannels'') (ascii ''CosignTransactions'') (encode_NetworkId net @ to_le_bytes index))"

definition borsh_cosign :: "u32 \<times> u64 \<times> 256 word \<Rightarrow> bytes" where
  "borsh_cosign c = (case c of (session, number, hash) \<Rightarrow> to_le_bytes session @ to_le_bytes number @ to_be_bytes hash)"

definition borsh_read_cosign :: "bytes \<Rightarrow> (u32 \<times> u64 \<times> 256 word) option" where
  "borsh_read_cosign bs =
     (if length bs = 44
      then Some (from_le_bytes (take 4 bs), from_le_bytes (take 8 (drop 4 bs)), from_be_bytes (drop 12 bs)) else None)"

definition append_cosign :: "NetworkId \<Rightarrow> u32 \<times> u64 \<times> 256 word \<Rightarrow> db \<Rightarrow> db option" where
  "append_cosign net = channel_send (CosignTransactions_key net) borsh_cosign"

definition CosignTransactions_try_recv :: "NetworkId \<Rightarrow> db \<Rightarrow> ((u32 \<times> u64 \<times> 256 word) option \<times> db) option" where
  "CosignTransactions_try_recv net = channel_try_recv (CosignTransactions_key net) borsh_read_cosign"

interpretation cosigns: db_channel "CosignTransactions_key net" borsh_cosign borsh_read_cosign for net
proof
  show "i = j" if "CosignTransactions_key net i = CosignTransactions_key net j" for i j
  proof -
    have some: "\<exists>x. serai_db_key (ascii ''SubstrateDbChannels'') (ascii ''CosignTransactions'') k = Some x" for k
      by (simp add: serai_db_key_def ascii_def)
    obtain x y where "serai_db_key (ascii ''SubstrateDbChannels'') (ascii ''CosignTransactions'') (encode_NetworkId net @ to_le_bytes i) = Some x"
      "serai_db_key (ascii ''SubstrateDbChannels'') (ascii ''CosignTransactions'') (encode_NetworkId net @ to_le_bytes j) = Some y"
      using some by blast
    moreover from this that have "x = y" by (simp add: CosignTransactions_key_def)
    ultimately have "to_le_bytes i = to_le_bytes j" using serai_db_key_inject by blast
    then show ?thesis by (simp add: to_le_bytes_inject)
  qed
  show "borsh_read_cosign (borsh_cosign c) = Some c" for c
    by (cases c) (simp add: borsh_cosign_def borsh_read_cosign_def from_to_le_bytes from_to_be)
qed

text \<open>
  C23: every cosign is delivered, exactly once and in order. From a database without entries of a
  network's channel, any interleaving of fewer than \<open>2 ^ 32 - 2\<close> appended cosigns with receptions
  never panics and does what a list does: a reception returns the oldest cosign that is pending, and
  none only when none is. So once there were as many further receptions as cosigns
  appended, all of them were received, in the order they were appended, and none is pending.
\<close>

theorem cosigns_in_order:
  assumes "\<And>i. d (CosignTransactions_key net i) = None" and "length (List.map_filter id ops) < 2 ^ 32 - 2"
  shows "(\<exists>vs t. run_queue (append_cosign net) (CosignTransactions_try_recv net) ops d = Some (vs, t) \<and>
      run_queue list_push list_pop ops [] = Some (vs, cosigns.channel_pending net t)) \<and>
    (\<exists>t. run_queue (append_cosign net) (CosignTransactions_try_recv net) (ops @ replicate (length (List.map_filter id ops)) None) d =
        Some (List.map_filter id ops, t) \<and> cosigns.channel_pending net t = [])"
proof -
  have run: "\<exists>vs t. run_queue (append_cosign net) (CosignTransactions_try_recv net) ops' d = Some (vs, t) \<and>
      run_queue list_push list_pop ops' [] = Some (vs, cosigns.channel_pending net t)"
    if "List.map_filter id ops' = List.map_filter id ops" for ops'
    using cosigns.refines_list [of net d ops'] cosigns.channel_empty [of d net, OF assms(1)] assms(2) that
    unfolding append_cosign_def CosignTransactions_try_recv_def by fastforce
  have "List.map_filter id (ops @ replicate n None) = List.map_filter id ops" for n
    by (simp add: List.map_filter_def)
  from run [OF this] run [OF refl] show ?thesis using list_run_delivers by blast
qed

theorem cosigns_in_order_witness:
  "\<exists>t u. run_queue (append_cosign NetworkId.Bitcoin) (CosignTransactions_try_recv NetworkId.Bitcoin)
       [Some (0, 7, 1), None, None, Some (0, 8, 2)] (\<lambda>_. None) = Some ([(0, 7, 1)], t) \<and>
     cosigns.channel_pending NetworkId.Bitcoin t = [(0, 8, 2)] \<and>
     run_queue (append_cosign NetworkId.Bitcoin) (CosignTransactions_try_recv NetworkId.Bitcoin)
       [Some (0, 7, 1), None, None, Some (0, 8, 2), None, None] (\<lambda>_. None) = Some ([(0, 7, 1), (0, 8, 2)], u)"
proof -
  have two: "replicate 2 None = [None, None]" by (simp add: numeral_2_eq_2)
  show ?thesis using cosigns_in_order [of "\<lambda>_. None" NetworkId.Bitcoin "[Some (0, 7, 1), None, None, Some (0, 8, 2)]"]
    by (auto simp: list_queue_defs two)
qed

end
