(* ===== verification/Multiexp.thy ===== *)
theory Multiexp
  imports Database Complex_Main
begin

text \<open>
  Multiexponentiation (\<open>crypto/multiexp\<close>): the sum of points multiplied by scalars, computed by
  Straus's and Pippenger's algorithms over windows of the scalars' bits, and the batch verifier
  built on it. The group is a parameter: points are a type with the group laws, scalars a ring, and
  a ciphersuite says how a scalar multiplies a point and which bits it has. A Rust panic is \<open>None\<close>.
\<close>

section \<open>Ciphersuites\<close>

record ('f, 'g) ciphersuite =
  to_le_bits :: "'f \<Rightarrow> bool list"
  point_mul :: "'f \<Rightarrow> 'g \<Rightarrow> 'g"
  generator :: 'g
  point_to_bytes :: "'g \<Rightarrow> bytes"
  point_from_bytes :: "bytes \<Rightarrow> 'g option"
  point_len :: nat
  scalar_to_repr :: "'f \<Rightarrow> bytes"
  scalar_from_repr :: "bytes \<Rightarrow> 'f option"
  scalar_len :: nat
  num_bits :: nat
  suite_hash :: "bytes \<Rightarrow> bytes"

text \<open>The number that little-endian bits stand for, and adding a point to itself.\<close>

fun bits_nat :: "bool list \<Rightarrow> nat" where
  "bits_nat [] = 0"
| "bits_nat (b # bs) = of_bool b + 2 * bits_nat bs"

primrec multiple :: "nat \<Rightarrow> 'g::ab_group_add \<Rightarrow> 'g" where
  "multiple 0 P = 0"
| "multiple (Suc n) P = P + multiple n P"

text \<open>
  What the code relies on: points form a module over the scalars, multiplying by a scalar is adding
  the point as often as its bits say, and all scalars have the same number of bits.
\<close>

definition group_laws :: "('f::comm_ring_1, 'g::ab_group_add, 'a) ciphersuite_scheme \<Rightarrow> bool" where
  "group_laws C \<longleftrightarrow> module (point_mul C) \<and>
     (\<forall>s P. point_mul C s P = multiple (bits_nat (to_le_bits C s)) P) \<and>
     (\<forall>s t. length (to_le_bits C s) = length (to_le_bits C t))"

section \<open>Model\<close>

text \<open>\<open>prep_bits\<close>: the bits of each scalar in groups of \<open>window\<close>, in the low bits of a byte each.\<close>

definition prep_row :: "nat \<Rightarrow> bool list \<Rightarrow> u8 list" where
  "prep_row window bits =
     fold (\<lambda>(i, bit) g. g[i div window := or (g ! (i div window)) (push_bit (i mod window) (of_bool bit))])
       (enumerate 0 bits) (replicate ((length bits + (window - 1)) div window) 0)"

definition prep_bits :: "('f, 'g, 'a) ciphersuite_scheme \<Rightarrow> ('f \<times> 'g) list \<Rightarrow> nat \<Rightarrow> u8 list list" where
  "prep_bits C pairs window = map (\<lambda>(s, _). prep_row window (to_le_bits C s)) pairs"

definition prep_table :: "nat \<Rightarrow> 'g::ab_group_add \<Rightarrow> 'g list" where
  "prep_table window P =
     fst (fold (\<lambda>i (table, accum). (table[i := accum + P], accum + P)) [1..<2 ^ window] (replicate (2 ^ window) 0, 0))"

definition prep_tables :: "('f \<times> 'g::ab_group_add) list \<Rightarrow> nat \<Rightarrow> 'g list list" where
  "prep_tables pairs window = map (\<lambda>(_, P). prep_table window P) pairs"

definition double :: "'g::ab_group_add \<Rightarrow> 'g" where
  "double P = P + P"

text \<open>The loop over the groups of bits, from the most significant one, which the algorithms share.\<close>

fun rounds :: "nat \<Rightarrow> ('r \<Rightarrow> 'r) \<Rightarrow> (nat \<Rightarrow> 'r \<Rightarrow> 'r option) \<Rightarrow> nat list \<Rightarrow> 'r \<Rightarrow> 'r option" where
  "rounds n dbl step [] res = Some res"
| "rounds n dbl step (b # bs) res = Option.bind (step b (if b \<noteq> n - 1 then dbl res else res)) (rounds n dbl step bs)"

fun straus_add :: "nat \<Rightarrow> ('g list \<times> u8 list) list \<Rightarrow> 'g \<Rightarrow> 'g::ab_group_add option" where
  "straus_add b [] res = Some res"
| "straus_add b ((table, grouping) # rest) res =
     Option.bind (slice_get grouping b) (\<lambda>g. Option.bind (slice_get table (unat g)) (\<lambda>P. straus_add b rest (res + P)))"

definition straus :: "('f, 'g::ab_group_add, 'a) ciphersuite_scheme \<Rightarrow> ('f \<times> 'g) list \<Rightarrow> nat \<Rightarrow> 'g option" where
  "straus C pairs window =
     (let groupings = prep_bits C pairs window; tables = prep_tables pairs window
      in Option.bind (slice_get groupings 0) (\<lambda>first.
           rounds (length first) (double ^^ window) (\<lambda>b. straus_add b (zip tables groupings)) (rev [0..<length first]) 0))"

fun straus_add_vartime :: "nat \<Rightarrow> ('g list \<times> u8 list) list \<Rightarrow> 'g option \<Rightarrow> 'g::ab_group_add option option" where
  "straus_add_vartime b [] res = Some res"
| "straus_add_vartime b ((table, grouping) # rest) res =
     Option.bind (slice_get grouping b) (\<lambda>g.
       if g \<noteq> 0
       then Option.bind (slice_get table (unat g)) (\<lambda>P.
              straus_add_vartime b rest (case res of Some r \<Rightarrow> Some (r + P) | None \<Rightarrow> Some P))
       else straus_add_vartime b rest res)"

definition straus_vartime :: "('f, 'g::ab_group_add, 'a) ciphersuite_scheme \<Rightarrow> ('f \<times> 'g) list \<Rightarrow> nat \<Rightarrow> 'g option" where
  "straus_vartime C pairs window =
     (let groupings = prep_bits C pairs window; tables = prep_tables pairs window
      in Option.bind (slice_get groupings 0) (\<lambda>first.
           map_option (\<lambda>res. case res of Some r \<Rightarrow> r | None \<Rightarrow> 0)
             (rounds (length first) (map_option double ^^ window) (\<lambda>b. straus_add_vartime b (zip tables groupings))
                (rev [0..<length first]) None)))"

fun fill_buckets :: "nat \<Rightarrow> ('g \<times> u8 list) list \<Rightarrow> 'g list \<Rightarrow> 'g::ab_group_add list option" where
  "fill_buckets n [] buckets = Some buckets"
| "fill_buckets n ((P, bits) # rest) buckets =
     Option.bind (slice_get bits n) (\<lambda>g. Option.bind (slice_get buckets (unat g)) (\<lambda>bucket.
       fill_buckets n rest (buckets[unat g := bucket + P])))"

definition sum_buckets :: "'g list \<Rightarrow> 'g \<Rightarrow> 'g::ab_group_add" where
  "sum_buckets buckets res =
     snd (fold (\<lambda>b (intermediate_sum, res). (intermediate_sum + buckets ! b, res + (intermediate_sum + buckets ! b)))
       (rev [1..<length buckets]) (0, res))"

definition pippenger :: "('f, 'g::ab_group_add, 'a) ciphersuite_scheme \<Rightarrow> ('f \<times> 'g) list \<Rightarrow> nat \<Rightarrow> 'g option" where
  "pippenger C pairs window =
     (let bits = prep_bits C pairs window
      in Option.bind (slice_get bits 0) (\<lambda>first.
           rounds (length first) (double ^^ window)
             (\<lambda>n res. map_option (\<lambda>buckets. sum_buckets buckets res)
                (fill_buckets n (zip (map snd pairs) bits) (replicate (2 ^ window) 0)))
             (rev [0..<length first]) 0))"

fun fill_buckets_vartime :: "nat \<Rightarrow> ('g \<times> u8 list) list \<Rightarrow> 'g option list \<Rightarrow> 'g::ab_group_add option list option" where
  "fill_buckets_vartime n [] buckets = Some buckets"
| "fill_buckets_vartime n ((P, bits) # rest) buckets =
     Option.bind (slice_get bits n) (\<lambda>g.
       if g \<noteq> 0
       then Option.bind (slice_get buckets (unat g)) (\<lambda>bucket.
              fill_buckets_vartime n rest (buckets[unat g := (case bucket of Some b \<Rightarrow> Some (b + P) | None \<Rightarrow> Some P)]))
       else fill_buckets_vartime n rest buckets)"

definition add_bucket :: "'g::ab_group_add option \<Rightarrow> 'g option \<Rightarrow> 'g option" where
  "add_bucket intermediate_sum bucket =
     (case bucket of None \<Rightarrow> intermediate_sum
      | Some b \<Rightarrow> (case intermediate_sum of Some s \<Rightarrow> Some (s + b) | None \<Rightarrow> Some b))"

definition sum_buckets_vartime :: "'g option list \<Rightarrow> 'g \<Rightarrow> 'g::ab_group_add" where
  "sum_buckets_vartime buckets res =
     snd (fold (\<lambda>b (intermediate_sum, res).
         (add_bucket intermediate_sum (buckets ! b),
          (case add_bucket intermediate_sum (buckets ! b) of Some s \<Rightarrow> res + s | None \<Rightarrow> res)))
       (rev [1..<length buckets]) (None, res))"

definition pippenger_vartime :: "('f, 'g::ab_group_add, 'a) ciphersuite_scheme \<Rightarrow> ('f \<times> 'g) list \<Rightarrow> nat \<Rightarrow> 'g option" where
  "pippenger_vartime C pairs window =
     (let bits = prep_bits C pairs window
      in Option.bind (slice_get bits 0) (\<lambda>first.
           rounds (length first) (double ^^ window)
             (\<lambda>n res. map_option (\<lambda>buckets. sum_buckets_vartime buckets res)
                (fill_buckets_vartime n (zip (map snd pairs) bits) (replicate (2 ^ window) None)))
             (rev [0..<length first]) 0))"

text \<open>The thresholds are those of a release build; with debug assertions others are used.\<close>

datatype Algorithm = Null | Single | Straus nat | Pippenger nat

definition algorithm :: "nat \<Rightarrow> Algorithm" where
  "algorithm len =
     (if len = 0 then Null else if len = 1 then Single
      else if len < 10 then Straus 3 else if len < 20 then Straus 4 else if len < 50 then Straus 5
      else if len < 100 then Pippenger 4 else if len < 125 then Pippenger 5 else if len < 275 then Pippenger 6
      else if len < 400 then Pippenger 7 else Pippenger 8)"

definition multiexp :: "('f, 'g::ab_group_add, 'a) ciphersuite_scheme \<Rightarrow> ('f \<times> 'g) list \<Rightarrow> 'g option" where
  "multiexp C pairs = (case algorithm (length pairs) of
       Null \<Rightarrow> Some 0
     | Single \<Rightarrow> map_option (\<lambda>(s, P). point_mul C s P) (slice_get pairs 0)
     | Straus window \<Rightarrow> straus C pairs window
     | Pippenger window \<Rightarrow> pippenger C pairs window)"

definition multiexp_vartime :: "('f, 'g::ab_group_add, 'a) ciphersuite_scheme \<Rightarrow> ('f \<times> 'g) list \<Rightarrow> 'g option" where
  "multiexp_vartime C pairs = (case algorithm (length pairs) of
       Null \<Rightarrow> Some 0
     | Single \<Rightarrow> map_option (\<lambda>(s, P). point_mul C s P) (slice_get pairs 0)
     | Straus window \<Rightarrow> straus_vartime C pairs window
     | Pippenger window \<Rightarrow> pippenger_vartime C pairs window)"

subsection \<open>Batch verification\<close>

text \<open>
  A batch is the list of queued statements, each an identifier with its pairs. Every statement but
  the first is weighed by a random scalar that is not zero; \<open>rng\<close> is the sequence of scalars the
  generator yields, and \<open>None\<close> means that it ran out.
\<close>

type_synonym ('i, 'f, 'g) BatchVerifier = "('i \<times> ('f \<times> 'g) list) list"

definition flat :: "('i, 'f, 'g) BatchVerifier \<Rightarrow> ('f \<times> 'g) list" where
  "flat part = concat (map snd part)"

fun draw_weight :: "'f::zero list \<Rightarrow> ('f \<times> 'f list) option" where
  "draw_weight [] = None"
| "draw_weight (weight # rng) = (if weight = 0 then draw_weight rng else Some (weight, rng))"

definition batch_queue :: "('i, 'f::comm_ring_1, 'g) BatchVerifier \<Rightarrow> 'f list \<Rightarrow> 'i \<Rightarrow> ('f \<times> 'g) list \<Rightarrow> (('i, 'f, 'g) BatchVerifier \<times> 'f list) option" where
  "batch_queue batch rng item pairs =
     Option.bind (if batch = [] then Some (1, rng) else draw_weight rng) (\<lambda>(u, rng').
       Some (batch @ [(item, map (\<lambda>(scalar, point). (scalar * u, point)) pairs)], rng'))"

definition batch_verify :: "('f, 'g::ab_group_add, 'a) ciphersuite_scheme \<Rightarrow> ('i, 'f, 'g) BatchVerifier \<Rightarrow> bool option" where
  "batch_verify C batch = map_option (\<lambda>P. P = 0) (multiexp C (flat batch))"

definition batch_verify_vartime :: "('f, 'g::ab_group_add, 'a) ciphersuite_scheme \<Rightarrow> ('i, 'f, 'g) BatchVerifier \<Rightarrow> bool option" where
  "batch_verify_vartime C batch = map_option (\<lambda>P. P = 0) (multiexp_vartime C (flat batch))"

function blame_search :: "('f, 'g::ab_group_add, 'a) ciphersuite_scheme \<Rightarrow> ('i, 'f, 'g) BatchVerifier \<Rightarrow> ('i, 'f, 'g) BatchVerifier option" where
  "blame_search C part =
     (if length part > 1
      then let split = length part div 2
           in Option.bind (multiexp_vartime C (flat (take split part))) (\<lambda>P.
                blame_search C (if P = 0 then drop split part else take split part))
      else Some part)"
  by auto
termination by (relation "measure (\<lambda>(C, part). length part)") auto

definition blame_vartime :: "('f, 'g::ab_group_add, 'a) ciphersuite_scheme \<Rightarrow> ('i, 'f, 'g) BatchVerifier \<Rightarrow> 'i option option" where
  "blame_vartime C batch =
     Option.bind (blame_search C batch) (\<lambda>part. case part of
         [] \<Rightarrow> Some None
       | (item, pairs) # _ \<Rightarrow> Option.bind (multiexp_vartime C pairs) (\<lambda>P. Some (if P \<noteq> 0 then Some item else None)))"

text \<open>\<open>verify_with_vartime_blame\<close>: \<open>Inl item\<close> blames \<open>item\<close>; unwrapping a missing blame panics.\<close>

definition verify_with_vartime_blame :: "('f, 'g::ab_group_add, 'a) ciphersuite_scheme \<Rightarrow> ('i, 'f, 'g) BatchVerifier \<Rightarrow> ('i + unit) option" where
  "verify_with_vartime_blame C batch =
     Option.bind (batch_verify C batch) (\<lambda>valid.
       if valid then Some (Inr ()) else Option.bind (blame_vartime C batch) (map_option Inl))"

definition verify_vartime_with_vartime_blame :: "('f, 'g::ab_group_add, 'a) ciphersuite_scheme \<Rightarrow> ('i, 'f, 'g) BatchVerifier \<Rightarrow> ('i + unit) option" where
  "verify_vartime_with_vartime_blame C batch =
     Option.bind (batch_verify_vartime C batch) (\<lambda>valid.
       if valid then Some (Inr ()) else Option.bind (blame_vartime C batch) (map_option Inl))"

declare blame_search.simps [simp del]

text \<open>The reference: the sum of the multiples.\<close>

definition multiexp_sum :: "('f, 'g::ab_group_add, 'a) ciphersuite_scheme \<Rightarrow> ('f \<times> 'g) list \<Rightarrow> 'g" where
  "multiexp_sum C pairs = sum_list (map (\<lambda>(s, P). point_mul C s P) pairs)"

end
