(* ===== verification/Multiexp_Props.thy ===== *)
theory Multiexp_Props
  imports Multiexp
begin

text \<open>
  Both multiexponentiation algorithms, in constant and in variable time, compute the sum of the
  multiples; the batch verifier accepts exactly the batches whose sum is the identity, and blames
  an invalid statement otherwise.
\<close>

section \<open>Multiples of points\<close>

lemma multiple_zero [simp]: "multiple n (0 :: 'g::ab_group_add) = 0"
  by (induction n) simp_all

lemma multiple_add: "multiple (m + n) P = multiple m P + multiple n P"
  by (induction m) (simp_all add: add.assoc)

lemma multiple_plus: "multiple n (P + Q) = multiple n P + multiple n Q"
  by (induction n) (simp_all add: algebra_simps)

lemma multiple_mult: "multiple (m * n) P = multiple m (multiple n P)"
  by (induction m) (simp_all add: multiple_add)

lemma multiple_sum_list: "multiple n (sum_list xs) = sum_list (map (multiple n) xs)"
  by (induction xs) (simp_all add: multiple_plus)

lemma double_multiple: "(double ^^ n) P = multiple (2 ^ n) P"
proof (induction n)
  case (Suc n)
  have "multiple 2 Q = Q + Q" for Q :: 'a by (simp add: numeral_2_eq_2)
  with Suc show ?case by (simp add: double_def multiple_mult)
qed simp

section \<open>Windows of bits\<close>

lemma bits_nat_append: "bits_nat (xs @ ys) = bits_nat xs + 2 ^ length xs * bits_nat ys"
  by (induction xs) simp_all

lemma bits_nat_less: "bits_nat xs < 2 ^ length xs"
  by (induction xs) (auto simp: of_bool_def)

lemma or_push_bit:
  assumes "unat (a :: u8) < 2 ^ r" and "r < 8"
  shows "unat (or a (push_bit r (of_bool x))) = unat a + 2 ^ r * of_bool x"
proof (cases x)
  case True
  have "\<not> bit a n" if "r \<le> n" for n
  proof -
    have "unat a < 2 ^ n" using assms(1) power_increasing [OF that, of "2 :: nat"] by linarith
    then have "\<not> bit (unat a) n" by (metis bit_take_bit_iff nat_less_le take_bit_nat_eq_self)
    then show ?thesis by (simp add: bit_unsigned_iff)
  qed
  then have "or a (2 ^ r) = a + 2 ^ r"
    by (intro disjunctive_add [symmetric]) (auto simp: bit_exp_iff)
  moreover have p: "unat (2 ^ r :: u8) = 2 ^ r"
    using assms(2) power_strict_increasing [of r 8 "2 :: nat"] unat_of_nat [of "2 ^ r", where 'a = 8] by simp
  moreover have "unat a + 2 ^ r < 2 ^ 8"
    using assms power_increasing [of "Suc r" 8 "2 :: nat"] by simp
  then have "unat (a + 2 ^ r) = unat a + unat (2 ^ r :: u8)"
    by (intro unat_add_lem [THEN iffD1]) (simp add: p)
  ultimately show ?thesis using True by simp
qed simp

definition or_bit :: "nat \<Rightarrow> nat \<times> bool \<Rightarrow> u8 list \<Rightarrow> u8 list" where
  "or_bit window = (\<lambda>(i, bit) g. g[i div window := or (g ! (i div window)) (push_bit (i mod window) (of_bool bit))])"

lemma length_or_bits [simp]: "length (fold (or_bit window) ibs g) = length g"
  by (induction ibs arbitrary: g) (auto simp: or_bit_def)

lemma or_bits_digit:
  assumes "0 < window" and "window \<le> 8" and "length bits \<le> L * window" and "b < L"
  shows "unat (fold (or_bit window) (enumerate 0 bits) (replicate L 0) ! b) = bits_nat (take window (drop (b * window) bits))"
  using assms(3,4)
proof (induction bits arbitrary: b rule: rev_induct)
  case (snoc x xs)
  define g where "g = fold (or_bit window) (enumerate 0 xs) (replicate L 0)"
  define q r where "q = length xs div window" and "r = length xs mod window"
  have i: "length xs = q * window + r" and r: "r < window" using assms(1) by (simp_all add: q_def r_def)
  have IH: "unat (g ! b) = bits_nat (take window (drop (b * window) xs))" if "b < L" for b
    unfolding g_def using snoc that by simp
  have step: "fold (or_bit window) (enumerate 0 (xs @ [x])) (replicate L 0) = g[q := or (g ! q) (push_bit r (of_bool x))]"
    by (simp add: enumerate_append_eq g_def or_bit_def q_def r_def)
  have "q < L" unfolding q_def using snoc.prems(1) by (intro less_mult_imp_div_less) simp
  consider "b < q" | "b = q" | "q < b" by linarith
  then show ?case
  proof cases
    case 1
    then have "(b + 1) * window \<le> q * window" by (intro mult_right_mono) simp_all
    then have "window \<le> length xs - b * window" using i by simp
    then show ?thesis using 1 IH [OF snoc.prems(2)] unfolding step by simp
  next
    case 2
    have "length (drop (q * window) xs) = r" using i by simp
    then have d: "take window (drop (q * window) xs) = drop (q * window) xs" "take window (drop (q * window) (xs @ [x])) = drop (q * window) xs @ [x]"
      using r i by simp_all
    have old: "unat (g ! q) = bits_nat (drop (q * window) xs)" using IH [OF \<open>q < L\<close>] d(1) by simp
    then have "unat (g ! q) < 2 ^ r" using bits_nat_less [of "drop (q * window) xs"] i by simp
    then have "unat (or (g ! q) (push_bit r (of_bool x))) = unat (g ! q) + 2 ^ r * of_bool x"
      using r assms(2) by (intro or_push_bit) simp_all
    then show ?thesis using 2 \<open>q < L\<close> d(2) old i unfolding step by (simp add: g_def bits_nat_append)
  next
    case 3
    then have "(q + 1) * window \<le> b * window" by (intro mult_right_mono) simp_all
    then have "length xs + 1 \<le> b * window" using i r by simp
    then show ?thesis using 3 IH [OF snoc.prems(2)] unfolding step by simp
  qed
qed simp

lemma length_prep_row: "length (prep_row window bits) = (length bits + (window - 1)) div window"
  by (simp add: prep_row_def or_bit_def [symmetric])

lemma prep_row_digit:
  assumes "0 < window" and "window \<le> 8" and "b < length (prep_row window bits)"
  shows "unat (prep_row window bits ! b) = bits_nat (take window (drop (b * window) bits))"
proof -
  let ?L = "(length bits + (window - 1)) div window"
  have "length bits + (window - 1) < (?L + 1) * window" using assms(1) by (simp add: dividend_less_div_times)
  then have "length bits \<le> ?L * window" using assms(1) by (simp add: algebra_simps)
  then show ?thesis using assms unfolding length_prep_row
    by (simp add: prep_row_def or_bit_def [symmetric] or_bits_digit)
qed

text \<open>What the digits from \<open>b\<close> on stand for.\<close>

definition high :: "nat \<Rightarrow> nat \<Rightarrow> bool list \<Rightarrow> nat" where
  "high window b bits = bits_nat (drop (b * window) bits)"

lemma high_step:
  "high window b bits = bits_nat (take window (drop (b * window) bits)) + 2 ^ window * high window (Suc b) bits"
proof (cases "window \<le> length (drop (b * window) bits)")
  case True
  have "drop (b * window) bits = take window (drop (b * window) bits) @ drop (Suc b * window) bits"
    using append_take_drop_id [of window "drop (b * window) bits"] by (simp add: add.commute)
  then show ?thesis using True bits_nat_append [of "take window (drop (b * window) bits)" "drop (Suc b * window) bits"]
    by (simp add: high_def)
next
  case False
  then have "drop (Suc b * window) bits = []" by simp
  with False show ?thesis by (simp add: high_def)
qed

lemma high_end: "length bits \<le> b * window \<Longrightarrow> high window b bits = 0"
  by (simp add: high_def)

section \<open>The rounds\<close>

text \<open>One round adds the digits of the current window; the rounds together add the scalars.\<close>

definition digit :: "nat \<Rightarrow> nat \<Rightarrow> bool list \<Rightarrow> nat" where
  "digit window b bits = bits_nat (take window (drop (b * window) bits))"

lemma rounds_sum:
  fixes rows :: "(bool list \<times> 'g::ab_group_add) list"
  assumes step: "\<And>b res. b < n \<Longrightarrow> step b res = Some (res + (\<Sum>(bits, P)\<leftarrow>rows. multiple (digit window b bits) P))"
    and "\<And>bits P. (bits, P) \<in> set rows \<Longrightarrow> length bits \<le> n * window"
    and "m \<le> n" and "res = (\<Sum>(bits, P)\<leftarrow>rows. multiple (high window m bits) P)"
  shows "rounds n (double ^^ window) step (rev [0..<m]) res = Some (\<Sum>(bits, P)\<leftarrow>rows. multiple (bits_nat bits) P)"
  using assms(3,4)
proof (induction m arbitrary: res)
  case 0
  then show ?case by (simp add: high_def)
next
  case (Suc m)
  have shift: "(if m \<noteq> n - 1 then (double ^^ window) res else res) = multiple (2 ^ window) res"
  proof (cases "m = n - 1")
    case True
    then have "Suc m = n" using Suc.prems(1) by simp
    then have "res = (\<Sum>(bits, P)\<leftarrow>rows. 0)"
      unfolding Suc.prems(2) using assms(2) by (intro arg_cong [of _ _ sum_list] map_cong) (auto simp: high_end)
    then have "res = 0" by (simp add: split_def)
    then show ?thesis by (simp add: double_multiple)
  qed (simp add: double_multiple)
  have "multiple (2 ^ window) res + (\<Sum>(bits, P)\<leftarrow>rows. multiple (digit window m bits) P) = (\<Sum>(bits, P)\<leftarrow>rows. multiple (high window m bits) P)"
    unfolding Suc.prems(2)
    by (induction rows) (auto simp: multiple_plus multiple_mult [symmetric] high_step [of window m] digit_def multiple_add algebra_simps)
  moreover have "rounds n (double ^^ window) step (rev [0..<Suc m]) res =
      Option.bind (step m (multiple (2 ^ window) res)) (rounds n (double ^^ window) step (rev [0..<m]))"
    unfolding shift [symmetric] by simp
  ultimately show ?case using Suc.IH [OF _ refl] Suc.prems(1) step [of m] by simp
qed

section \<open>Straus\<close>

lemma prep_table_fold:
  "k \<le> length table \<Longrightarrow> 0 < k \<Longrightarrow>
     fold (\<lambda>i (table, accum). (table[i := accum + P], accum + P)) [1..<k] (table, 0) =
       (map (\<lambda>j. if 1 \<le> j \<and> j < k then multiple j P else table ! j) [0..<length table], multiple (k - 1) P)"
proof (induction k)
  case (Suc k)
  show ?case
  proof (cases "k = 0")
    case True
    then show ?thesis by (auto simp: map_nth intro: nth_equalityI)
  next
    case False
    have "multiple (k - 1) P + P = multiple k P" using False by (cases k) (simp_all add: add.commute)
    with False Suc show ?thesis by (auto intro!: nth_equalityI simp: nth_list_update less_Suc_eq)
  qed
qed simp

lemma prep_table_nth: "j < 2 ^ window \<Longrightarrow> prep_table window P ! j = multiple j P"
  and length_prep_table: "length (prep_table window P) = 2 ^ window"
  using prep_table_fold [of "2 ^ window" "replicate (2 ^ window) 0" P] by (auto simp: prep_table_def Suc_le_eq)

text \<open>The rows of a multiexponentiation: the bits of the scalars with their points.\<close>

definition mx_rows :: "('f, 'g, 'a) ciphersuite_scheme \<Rightarrow> ('f \<times> 'g) list \<Rightarrow> (bool list \<times> 'g) list" where
  "mx_rows C pairs = map (\<lambda>(s, P). (to_le_bits C s, P)) pairs"

definition rows_ok :: "nat \<Rightarrow> nat \<Rightarrow> (bool list \<times> 'g) list \<Rightarrow> bool" where
  "rows_ok window n rows = (0 < window \<and> window \<le> 8 \<and> (\<forall>(bits, P) \<in> set rows. length (prep_row window bits) = n))"

lemma row_digit:
  assumes "rows_ok window n ((bits, P) # rows)" and "b < n"
  shows "slice_get (prep_row window bits) b = Some (prep_row window bits ! b) \<and>
    unat (prep_row window bits ! b) = digit window b bits \<and> digit window b bits < 2 ^ window \<and> rows_ok window n rows"
proof -
  have "digit window b bits < 2 ^ length (take window (drop (b * window) bits))" unfolding digit_def by (rule bits_nat_less)
  also have "\<dots> \<le> 2 ^ window" by (intro power_increasing) simp_all
  finally show ?thesis using assms prep_row_digit [of window b bits] by (auto simp: rows_ok_def slice_get_def digit_def)
qed

lemma straus_add_sum:
  "rows_ok window n rows \<Longrightarrow> b < n \<Longrightarrow>
     straus_add b (zip (map (\<lambda>(_, P). prep_table window P) rows) (map (\<lambda>(bits, _). prep_row window bits) rows)) res =
       Some (res + (\<Sum>(bits, P)\<leftarrow>rows. multiple (digit window b bits) P))"
proof (induction rows arbitrary: res)
  case (Cons row rows)
  obtain bits P where row: "row = (bits, P)" by fastforce
  from row_digit [OF Cons.prems(1) [unfolded row] Cons.prems(2)] Cons show ?case
    by (simp add: row slice_get_def prep_table_nth length_prep_table add.assoc)
qed simp

lemma rows_ok_laws:
  assumes "group_laws C" and "0 < window" and "window \<le> 8" and "pairs = (s, P) # rest"
  shows "rows_ok window (length (prep_row window (to_le_bits C s))) (mx_rows C pairs)"
proof -
  define n where "n = length (to_le_bits C s)"
  have "length (to_le_bits C t) = n" for t unfolding n_def using assms(1) by (simp add: group_laws_def)
  then show ?thesis using assms by (auto simp: rows_ok_def mx_rows_def length_prep_row)
qed

lemma rows_fit: "rows_ok window n rows \<Longrightarrow> (bits, P) \<in> set rows \<Longrightarrow> length bits \<le> n * window"
proof -
  assume "rows_ok window n rows" "(bits, P) \<in> set rows"
  then have n: "n = (length bits + (window - 1)) div window" and "0 < window" by (auto simp: rows_ok_def length_prep_row)
  then have "length bits + (window - 1) < (n + 1) * window" by (simp add: dividend_less_div_times)
  with \<open>0 < window\<close> show ?thesis by (simp add: algebra_simps)
qed

lemma rounds_rows:
  assumes "rows_ok window n rows"
    and "\<And>b res. b < n \<Longrightarrow> step b res = Some (res + (\<Sum>(bits, P)\<leftarrow>rows. multiple (digit window b bits) P))"
  shows "rounds n (double ^^ window) step (rev [0..<n]) 0 = Some (\<Sum>(bits, P)\<leftarrow>rows. multiple (bits_nat bits) P)"
proof (rule rounds_sum [OF assms(2)])
  have "(\<Sum>(bits, P)\<leftarrow>rows. multiple (high window n bits) P) = (\<Sum>(bits, P)\<leftarrow>rows. 0)"
    using rows_fit [OF assms(1)] by (intro arg_cong [of _ _ sum_list] map_cong) (auto simp: high_end)
  then show "0 = (\<Sum>(bits, P)\<leftarrow>rows. multiple (high window n bits) P)" by (simp add: split_def)
qed (use rows_fit [OF assms(1)] in auto)

lemma rows_multiexp_sum:
  "group_laws C \<Longrightarrow> (\<Sum>(bits, P)\<leftarrow>mx_rows C pairs. multiple (bits_nat bits) P) = multiexp_sum C pairs"
  by (induction pairs) (auto simp: mx_rows_def multiexp_sum_def group_laws_def)

lemma mx_rows_maps:
  "prep_bits C pairs window = map (\<lambda>(bits, _). prep_row window bits) (mx_rows C pairs)"
  "prep_tables pairs window = map (\<lambda>(_, P). prep_table window P) (mx_rows C pairs)"
  "map snd pairs = map snd (mx_rows C pairs)"
  by (auto simp: prep_bits_def prep_tables_def mx_rows_def)

lemma straus_sum:
  assumes "group_laws C" and "0 < window" and "window \<le> 8" and "pairs \<noteq> []"
  shows "straus C pairs window = Some (multiexp_sum C pairs)"
proof -
  obtain s P rest where pairs: "pairs = (s, P) # rest" using assms(4) by (cases pairs) auto
  let ?n = "length (prep_row window (to_le_bits C s))"
  have ok: "rows_ok window ?n (mx_rows C pairs)" by (rule rows_ok_laws [OF assms(1-3) pairs])
  have first: "slice_get (prep_bits C pairs window) 0 = Some (prep_row window (to_le_bits C s))"
    by (simp add: pairs prep_bits_def slice_get_def)
  have "rounds ?n (double ^^ window) (\<lambda>b. straus_add b (zip (prep_tables pairs window) (prep_bits C pairs window))) (rev [0..<?n]) 0 =
      Some (multiexp_sum C pairs)"
    unfolding rows_multiexp_sum [OF assms(1), symmetric] mx_rows_maps [where C = C]
    by (rule rounds_rows [OF ok]) (rule straus_add_sum [OF ok])
  then show ?thesis by (simp add: straus_def first)
qed

section \<open>Pippenger\<close>

text \<open>Weighing every bucket by its index.\<close>

definition weighted :: "'g::ab_group_add list \<Rightarrow> 'g" where
  "weighted buckets = (\<Sum>b\<leftarrow>[0..<length buckets]. multiple b (buckets ! b))"

lemma sum_buckets_fold:
  assumes "k \<le> length buckets"
  shows "fold (\<lambda>b (intermediate_sum, res). (intermediate_sum + buckets ! b, res + (intermediate_sum + buckets ! b))) (rev [k..<length buckets]) (0, res) =
    ((\<Sum>b\<leftarrow>[k..<length buckets]. buckets ! b), res + (\<Sum>b\<leftarrow>[k..<length buckets]. multiple (b + 1 - k) (buckets ! b)))"
  using assms
proof (induction "length buckets - k" arbitrary: k)
  case (Suc d)
  have up: "[k..<length buckets] = k # [Suc k..<length buckets]" using Suc by (simp add: upt_conv_Cons)
  have split: "multiple (b + 1 - k) (buckets ! b) = buckets ! b + multiple (b + 1 - Suc k) (buckets ! b)" if "Suc k \<le> b" for b
    using that by (simp add: Suc_diff_le)
  have "(\<Sum>b\<leftarrow>[Suc k..<length buckets]. multiple (b + 1 - k) (buckets ! b)) =
      (\<Sum>b\<leftarrow>[Suc k..<length buckets]. buckets ! b) + (\<Sum>b\<leftarrow>[Suc k..<length buckets]. multiple (b + 1 - Suc k) (buckets ! b))"
    unfolding sum_list_addf [symmetric] by (intro arg_cong [of _ _ sum_list] map_cong refl split) simp
  moreover have "multiple (k + 1 - k) (buckets ! k) = buckets ! k" by simp
  ultimately show ?case using Suc.hyps(1) [of "Suc k"] Suc.hyps(2) unfolding up by (simp add: algebra_simps)
qed simp

lemma sum_buckets_weighted: "0 < length buckets \<Longrightarrow> sum_buckets buckets res = res + weighted buckets"
  using sum_buckets_fold [of 1 buckets res] by (simp add: sum_buckets_def weighted_def upt_conv_Cons Suc_le_eq)

lemma weighted_update:
  assumes "j < length buckets"
  shows "weighted (buckets[j := buckets ! j + P]) = weighted buckets + multiple j P"
proof -
  have *: "(\<Sum>b\<leftarrow>[0..<n]. multiple b (buckets[j := buckets ! j + P] ! b)) =
      (\<Sum>b\<leftarrow>[0..<n]. multiple b (buckets ! b)) + (if j < n then multiple j P else 0)" if "n \<le> length buckets" for n
    using that by (induction n) (auto simp: nth_list_update multiple_plus algebra_simps less_Suc_eq)
  show ?thesis using * [of "length buckets"] assms by (simp add: weighted_def)
qed

lemma fill_buckets_weighted:
  "rows_ok window n rows \<Longrightarrow> b < n \<Longrightarrow> length buckets = 2 ^ window \<Longrightarrow>
     \<exists>filled. fill_buckets b (zip (map snd rows) (map (\<lambda>(bits, _). prep_row window bits) rows)) buckets = Some filled \<and>
       length filled = 2 ^ window \<and> weighted filled = weighted buckets + (\<Sum>(bits, P)\<leftarrow>rows. multiple (digit window b bits) P)"
proof (induction rows arbitrary: buckets)
  case (Cons row rows)
  obtain bits P where row: "row = (bits, P)" by fastforce
  note d = row_digit [OF Cons.prems(1) [unfolded row] Cons.prems(2)]
  let ?b = "buckets[digit window b bits := buckets ! digit window b bits + P]"
  obtain filled where "fill_buckets b (zip (map snd rows) (map (\<lambda>(bits, _). prep_row window bits) rows)) ?b = Some filled"
    "length filled = 2 ^ window" "weighted filled = weighted ?b + (\<Sum>(bits, P)\<leftarrow>rows. multiple (digit window b bits) P)"
    using Cons.IH [of ?b] d Cons.prems by auto
  then show ?case using d Cons.prems(3) weighted_update [of "digit window b bits" buckets P]
    by (simp add: row slice_get_def algebra_simps)
qed simp

lemma weighted_zero [simp]: "weighted (replicate n 0) = 0"
proof -
  have "(\<Sum>b\<leftarrow>[0..<m]. multiple b (replicate n 0 ! b)) = 0" if "m \<le> n" for m
    using that by (induction m) auto
  from this [of n] show ?thesis by (simp add: weighted_def)
qed

lemma pippenger_sum:
  assumes "group_laws C" and "0 < window" and "window \<le> 8" and "pairs \<noteq> []"
  shows "pippenger C pairs window = Some (multiexp_sum C pairs)"
proof -
  obtain s P rest where pairs: "pairs = (s, P) # rest" using assms(4) by (cases pairs) auto
  let ?n = "length (prep_row window (to_le_bits C s))"
  have ok: "rows_ok window ?n (mx_rows C pairs)" by (rule rows_ok_laws [OF assms(1-3) pairs])
  have first: "slice_get (prep_bits C pairs window) 0 = Some (prep_row window (to_le_bits C s))"
    by (simp add: pairs prep_bits_def slice_get_def)
  have step: "map_option (\<lambda>buckets. sum_buckets buckets res) (fill_buckets n (zip (map snd pairs) (prep_bits C pairs window)) (replicate (2 ^ window) 0)) =
      Some (res + (\<Sum>(bits, P)\<leftarrow>mx_rows C pairs. multiple (digit window n bits) P))" if "n < ?n" for n res
    using fill_buckets_weighted [OF ok that, of "replicate (2 ^ window) 0"] unfolding mx_rows_maps [where C = C]
    by (auto simp: sum_buckets_weighted)
  show ?thesis
    using rounds_rows [OF ok step] rows_multiexp_sum [OF assms(1)] by (simp add: pippenger_def first)
qed

section \<open>Variable time\<close>

text \<open>In variable time \<open>None\<close> stands for the identity.\<close>

definition or_identity :: "'g::ab_group_add option \<Rightarrow> 'g" where
  "or_identity x = (case x of Some P \<Rightarrow> P | None \<Rightarrow> 0)"

lemma or_identity_simps [simp]: "or_identity None = 0" "or_identity (Some P) = P"
  by (simp_all add: or_identity_def)

lemma rounds_refine:
  assumes "\<And>b r. map_option f (step' b r) = step b (f r)" and "\<And>r. f (dbl' r) = dbl (f r)"
  shows "map_option f (rounds n dbl' step' bs r) = rounds n dbl step bs (f r)"
proof (induction bs arbitrary: r)
  case (Cons b bs)
  let ?r = "if b \<noteq> n - 1 then dbl' r else r"
  have "f ?r = (if b \<noteq> n - 1 then dbl (f r) else f r)" using assms(2) by simp
  then have "step b (if b \<noteq> n - 1 then dbl (f r) else f r) = map_option f (step' b ?r)" using assms(1) by simp
  then show ?case using Cons by (cases "step' b ?r") simp_all
qed simp

lemma or_identity_double: "or_identity ((map_option double ^^ n) r) = (double ^^ n) (or_identity r)"
  by (induction n) (auto simp: double_def or_identity_def split: option.splits)

lemma straus_add_vartime_refine:
  "list_all (\<lambda>(table, _). table \<noteq> [] \<and> table ! 0 = 0) rows \<Longrightarrow>
     map_option or_identity (straus_add_vartime b rows res) = straus_add b rows (or_identity res)"
proof (induction rows arbitrary: res)
  case (Cons row rows)
  obtain table grouping where row: "row = (table, grouping)" by fastforce
  have "or_identity (case res of None \<Rightarrow> Some P | Some r \<Rightarrow> Some (r + P)) = or_identity res + P" for P
    by (cases res) simp_all
  then show ?case using Cons by (auto simp: row slice_get_def)
qed simp

lemma straus_vartime_eq:
  fixes C :: "('f, 'g::ab_group_add, 'a) ciphersuite_scheme"
  assumes "0 < window"
  shows "straus_vartime C pairs window = straus C pairs window"
proof -
  have table: "prep_table window P \<noteq> [] \<and> prep_table window P ! 0 = 0" for P :: 'g
    using length_prep_table [of window P] prep_table_nth [of 0 window P] by auto
  have "list_all (\<lambda>(table, _). table \<noteq> [] \<and> table ! 0 = 0) (zip (prep_tables pairs window) (prep_bits C pairs window))"
    by (auto simp: list_all_iff prep_tables_def table dest!: set_zip_leftD) (metis table)
  note add = straus_add_vartime_refine [OF this]
  have refine: "map_option or_identity (rounds n (map_option double ^^ window)
        (\<lambda>b. straus_add_vartime b (zip (prep_tables pairs window) (prep_bits C pairs window))) bs None) =
      rounds n (double ^^ window) (\<lambda>b. straus_add b (zip (prep_tables pairs window) (prep_bits C pairs window))) bs (or_identity None)" for n bs
    by (rule rounds_refine) (rule add or_identity_double)+
  have o: "(\<lambda>res. case res of Some r \<Rightarrow> r | None \<Rightarrow> 0) = (or_identity :: 'g option \<Rightarrow> 'g)" by (simp add: fun_eq_iff or_identity_def)
  show ?thesis unfolding straus_vartime_def straus_def Let_def o refine by simp
qed

text \<open>Bucket 0 is never read.\<close>

definition buckets_rel :: "'g::ab_group_add option list \<Rightarrow> 'g list \<Rightarrow> bool" where
  "buckets_rel bv b = (length bv = length b \<and> (\<forall>j. 0 < j \<and> j < length b \<longrightarrow> or_identity (bv ! j) = b ! j))"

lemma buckets_rel_update:
  assumes "buckets_rel bv b" and "j < length b" and "j \<noteq> 0 \<Longrightarrow> or_identity x = y"
  shows "buckets_rel (bv[j := x]) (b[j := y])"
  using assms by (auto simp: buckets_rel_def nth_list_update)

lemma fill_buckets_refine:
  "buckets_rel bv b \<Longrightarrow> 0 < length b \<Longrightarrow> rel_option buckets_rel (fill_buckets_vartime n rows bv) (fill_buckets n rows b)"
proof (induction rows arbitrary: bv b)
  case (Cons row rows)
  obtain P bits where row: "row = (P, bits)" by fastforce
  show ?case
  proof (cases "n < length bits \<and> unat (bits ! n) < length b")
    case True
    define j where "j = unat (bits ! n)"
    have rel: "buckets_rel (if bits ! n = 0 then bv else bv[j := (case bv ! j of Some r \<Rightarrow> Some (r + P) | None \<Rightarrow> Some P)]) (b[j := b ! j + P])"
    proof (cases "bits ! n = 0")
      case True
      then have "j = 0" by (simp add: j_def)
      then show ?thesis using True buckets_rel_update [OF Cons.prems(1), of 0 "bv ! 0" "b ! 0 + P"] Cons.prems(2) by simp
    next
      case False
      have "or_identity (case bv ! j of Some r \<Rightarrow> Some (r + P) | None \<Rightarrow> Some P) = or_identity (bv ! j) + P"
        by (cases "bv ! j") simp_all
      moreover have "or_identity (bv ! j) = b ! j" if "j \<noteq> 0"
        using that True Cons.prems(1) by (simp add: buckets_rel_def j_def)
      ultimately show ?thesis using False True Cons.prems(1) by (auto intro: buckets_rel_update simp: j_def)
    qed
    then show ?thesis
      using Cons.IH [OF rel] Cons.prems True by (cases "bits ! n = 0") (simp_all add: row slice_get_def j_def buckets_rel_def)
  next
    case False
    then show ?thesis using Cons.prems by (auto simp: row slice_get_def buckets_rel_def)
  qed
qed simp

lemma sum_buckets_refine:
  assumes "buckets_rel bv b"
  shows "sum_buckets_vartime bv res = sum_buckets b res"
proof -
  have "or_identity (fst (fold (\<lambda>b (i, res). (add_bucket i (bv ! b), (case add_bucket i (bv ! b) of Some s \<Rightarrow> res + s | None \<Rightarrow> res))) ks (i, res))) =
      fst (fold (\<lambda>j (i, res). (i + b ! j, res + (i + b ! j))) ks (or_identity i, res)) \<and>
    snd (fold (\<lambda>b (i, res). (add_bucket i (bv ! b), (case add_bucket i (bv ! b) of Some s \<Rightarrow> res + s | None \<Rightarrow> res))) ks (i, res)) =
      snd (fold (\<lambda>j (i, res). (i + b ! j, res + (i + b ! j))) ks (or_identity i, res))"
    if "\<forall>j \<in> set ks. 0 < j \<and> j < length b" for ks i
    using that
  proof (induction ks arbitrary: i res)
    case (Cons j ks)
    then have "or_identity (bv ! j) = b ! j" using assms by (simp add: buckets_rel_def)
    then have "or_identity (add_bucket i (bv ! j)) = or_identity i + b ! j"
      by (cases i; cases "bv ! j") (simp_all add: add_bucket_def)
    moreover from this have "(case add_bucket i (bv ! j) of Some s \<Rightarrow> res + s | None \<Rightarrow> res) = res + (or_identity i + b ! j)"
      by (cases "add_bucket i (bv ! j)") simp_all
    ultimately show ?case using Cons by simp
  qed simp
  from this [of "rev [1..<length b]" None] assms show ?thesis
    by (simp add: sum_buckets_vartime_def sum_buckets_def buckets_rel_def)
qed

lemma pippenger_vartime_eq:
  fixes C :: "('f, 'g::ab_group_add, 'a) ciphersuite_scheme"
  shows "pippenger_vartime C pairs window = pippenger C pairs window"
proof -
  have "map_option (\<lambda>buckets. sum_buckets_vartime buckets res) (fill_buckets_vartime n rows (replicate (2 ^ window) None)) =
      map_option (\<lambda>buckets. sum_buckets buckets res) (fill_buckets n rows (replicate (2 ^ window) 0))" for n rows and res :: 'g
  proof -
    have "buckets_rel (replicate (2 ^ window) None) (replicate (2 ^ window) (0 :: 'g))" by (simp add: buckets_rel_def)
    from fill_buckets_refine [OF this, of n rows] show ?thesis
      by (cases "fill_buckets n rows (replicate (2 ^ window) 0)") (auto simp: option_rel_Some2 sum_buckets_refine)
  qed
  then show ?thesis by (simp add: pippenger_vartime_def pippenger_def)
qed

section \<open>Multiexponentiation\<close>

lemma multiexp_correct:
  assumes "group_laws C"
  shows "multiexp C pairs = Some (multiexp_sum C pairs) \<and> multiexp_vartime C pairs = Some (multiexp_sum C pairs)"
proof (cases "length pairs \<le> 1")
  case True
  then show ?thesis
    by (cases pairs) (auto simp: multiexp_def multiexp_vartime_def algorithm_def slice_get_def multiexp_sum_def)
next
  case False
  then have "pairs \<noteq> []" by auto
  with False show ?thesis
    using straus_sum [OF assms] pippenger_sum [OF assms]
    by (auto simp: multiexp_def multiexp_vartime_def algorithm_def straus_vartime_eq pippenger_vartime_eq)
qed

text \<open>
  C7: every algorithm computes the same sum. For any number of pairs, the windowed algorithm that
  \<open>multiexp\<close> selects, and its variable-time variant, never panic and return the sum of the points
  multiplied by their scalars.
\<close>

theorem multiexp_is_sum:
  assumes "group_laws C"
  shows "multiexp C pairs = Some (multiexp_sum C pairs) \<and> multiexp_vartime C pairs = Some (multiexp_sum C pairs)"
  using multiexp_correct [OF assms] .

text \<open>A ciphersuite over the integers modulo \<open>2 ^ 64\<close>, where a scalar multiplies by the ring's product.\<close>

definition example_suite :: "(u64, u64) ciphersuite" where
  "example_suite = \<lparr>to_le_bits = \<lambda>s. map (bit s) [0..<64], point_mul = (*), generator = 3,
     point_to_bytes = to_le_bytes, point_from_bytes = \<lambda>bs. Some (from_le_bytes bs), point_len = 8,
     scalar_to_repr = to_le_bytes, scalar_from_repr = \<lambda>bs. Some (from_le_bytes bs), scalar_len = 8,
     num_bits = 64, suite_hash = \<lambda>bs. replicate 64 (sum_list bs)\<rparr>"

lemma bits_nat_map: "bits_nat (map (bit n) [k..<k + m]) = take_bit m (drop_bit k n)" for n :: nat
proof (induction m arbitrary: k)
  case (Suc m)
  have "bits_nat (map (bit n) [k..<k + Suc m]) = of_bool (bit n k) + 2 * bits_nat (map (bit n) [Suc k..<Suc k + m])"
    by (simp add: upt_conv_Cons del: upt_Suc)
  also have "\<dots> = of_bool (bit n k) + 2 * take_bit m (drop_bit (Suc k) n)" by (simp only: Suc.IH)
  also have "\<dots> = take_bit (Suc m) (drop_bit k n)"
    by (simp add: take_bit_Suc drop_bit_Suc bit_iff_odd_drop_bit mod_2_eq_odd drop_bit_half)
  finally show ?case .
qed simp

lemma example_bits: "bits_nat (map (bit s) [0..<64]) = unat (s :: u64)"
proof -
  have "map (bit s) [0..<64] = map (bit (unat s)) [0..<0 + 64]" by (auto simp: bit_unsigned_iff)
  then have "bits_nat (map (bit s) [0..<64]) = take_bit 64 (drop_bit 0 (unat s))" by (simp only: bits_nat_map)
  also have "\<dots> = unat s" using unat_less_2p [of s] by (simp add: take_bit_nat_eq_self)
  finally show ?thesis .
qed

lemma multiple_of_nat: "multiple n P = of_nat n * (P :: 'a::comm_ring_1)"
  by (induction n) (simp_all add: algebra_simps)

lemma example_laws: "group_laws example_suite"
  unfolding group_laws_def
proof (intro conjI allI)
  show "module (point_mul example_suite)" by unfold_locales (simp_all add: example_suite_def algebra_simps)
qed (simp_all add: example_suite_def example_bits multiple_of_nat)

theorem multiexp_is_sum_witness:
  "group_laws example_suite \<and> multiexp example_suite [(2, 3), (5, 7)] = Some 41"
  using multiexp_is_sum [OF example_laws, of "[(2, 3), (5, 7)]"] example_laws
  by (simp add: multiexp_sum_def example_suite_def)

section \<open>Batches\<close>

lemma multiexp_sum_flat: "multiexp_sum C (flat batch) = (\<Sum>(item, pairs)\<leftarrow>batch. multiexp_sum C pairs)"
  by (induction batch) (auto simp: flat_def multiexp_sum_def)

lemma blame_search_finds:
  assumes "group_laws C" and "multiexp_sum C (flat part) \<noteq> 0"
  shows "\<exists>item pairs. blame_search C part = Some [(item, pairs)] \<and> (item, pairs) \<in> set part \<and> multiexp_sum C pairs \<noteq> 0"
  using assms(2)
proof (induction part rule: length_induct)
  case (1 part)
  show ?case
  proof (cases "length part > 1")
    case True
    let ?split = "length part div 2"
    let ?half = "if multiexp_sum C (flat (take ?split part)) = 0 then drop ?split part else take ?split part"
    have "flat part = flat (take ?split part) @ flat (drop ?split part)"
      unfolding flat_def by (metis append_take_drop_id concat_append map_append)
    then have "multiexp_sum C (flat ?half) \<noteq> 0" using 1(2) by (auto simp: multiexp_sum_def)
    moreover have "length ?half < length part" using True by auto
    ultimately obtain item pairs where "blame_search C ?half = Some [(item, pairs)]" "(item, pairs) \<in> set ?half" "multiexp_sum C pairs \<noteq> 0"
      using 1(1) by blast
    moreover have "set ?half \<subseteq> set part" by (auto dest: in_set_takeD in_set_dropD)
    moreover have "blame_search C part = blame_search C ?half"
      using True multiexp_correct [OF assms(1), of "flat (take ?split part)"] by (subst blame_search.simps) (simp add: Let_def)
    ultimately show ?thesis by auto
  next
    case False
    then show ?thesis using 1(2) by (cases part) (auto simp: blame_search.simps flat_def multiexp_sum_def)
  qed
qed

lemma blame_vartime_finds:
  assumes "group_laws C" and "multiexp_sum C (flat batch) \<noteq> 0"
  shows "\<exists>item pairs. blame_vartime C batch = Some (Some item) \<and> (item, pairs) \<in> set batch \<and> multiexp_sum C pairs \<noteq> 0"
  using blame_search_finds [OF assms] multiexp_correct [OF assms(1)] by (auto simp: blame_vartime_def)

text \<open>
  C20: the batch verifier never panics, accepts exactly the batches whose weighed statements sum to
  the identity, and otherwise blames a statement of the batch that is itself invalid. Its constant
  and variable time variants agree.
\<close>

theorem batch_blames_invalid:
  assumes "group_laws C"
  shows "verify_vartime_with_vartime_blame C batch = verify_with_vartime_blame C batch \<and>
    (if multiexp_sum C (flat batch) = 0 then verify_with_vartime_blame C batch = Some (Inr ())
     else \<exists>item pairs. verify_with_vartime_blame C batch = Some (Inl item) \<and> (item, pairs) \<in> set batch \<and> multiexp_sum C pairs \<noteq> 0)"
  using multiexp_correct [OF assms, of "flat batch"] blame_vartime_finds [OF assms, of batch]
  by (auto simp: verify_with_vartime_blame_def verify_vartime_with_vartime_blame_def batch_verify_def batch_verify_vartime_def) blast

theorem batch_blames_invalid_witness:
  "verify_with_vartime_blame example_suite [(0 :: nat, [(1, 0)]), (1, [(2, 3)])] = Some (Inl 1)"
proof -
  have "multiexp_sum example_suite (flat [(0 :: nat, [(1, 0)]), (1, [(2, 3)])]) = 6"
    by (simp add: flat_def multiexp_sum_def example_suite_def)
  with batch_blames_invalid [OF example_laws, of "[(0 :: nat, [(1, 0)]), (1, [(2, 3)])]"]
  obtain item pairs where "verify_with_vartime_blame example_suite [(0 :: nat, [(1, 0)]), (1, [(2, 3)])] = Some (Inl item)"
    "(item, pairs) \<in> set [(0 :: nat, [(1, 0)]), (1, [(2, 3)])]" "multiexp_sum example_suite pairs \<noteq> 0" by auto
  then show ?thesis by (auto simp: multiexp_sum_def example_suite_def)
qed

text \<open>Weighing keeps valid statements valid, so a batch of valid statements is accepted.\<close>

lemma multiexp_sum_weighed:
  assumes "group_laws C"
  shows "multiexp_sum C (map (\<lambda>(s, P). (s * u, P)) pairs) = point_mul C u (multiexp_sum C pairs)"
proof -
  have m: "module (point_mul C)" using assms by (simp add: group_laws_def)
  show ?thesis
    by (induction pairs) (auto simp: multiexp_sum_def module.scale_right_distrib [OF m] module.scale_scale [OF m] module.scale_zero_right [OF m] mult.commute)
qed

lemma batch_queue_valid:
  assumes "group_laws C" and "multiexp_sum C pairs = 0" and "batch_queue batch rng item pairs = Some (batch', rng')"
  shows "multiexp_sum C (flat batch') = multiexp_sum C (flat batch)"
proof -
  have m: "module (point_mul C)" using assms(1) by (simp add: group_laws_def)
  obtain u where "batch' = batch @ [(item, map (\<lambda>(s, P). (s * u, P)) pairs)]"
    using assms(3) by (auto simp: batch_queue_def bind_eq_Some_conv)
  then show ?thesis using multiexp_sum_weighed [OF assms(1), of u pairs] assms(2)
    by (simp add: multiexp_sum_flat module.scale_zero_right [OF m])
qed

end
