(* ===== verification/Transcript.thy ===== *)
theory Transcript
  imports Database
begin

text \<open>
  The transcripts that challenges are derived from (\<open>crypto/transcript\<close>). A transcript is the
  sequence of bytes its digest has absorbed; the digest itself is a parameter, a function of these
  bytes.
\<close>

section \<open>Model\<close>

datatype DigestTranscriptMember = Name | Domain | Label | Value | Challenge | Continued | Challenged

fun as_u8 :: "DigestTranscriptMember \<Rightarrow> u8" where
  "as_u8 Name = 0"
| "as_u8 Domain = 1"
| "as_u8 Label = 2"
| "as_u8 Value = 3"
| "as_u8 Challenge = 4"
| "as_u8 Continued = 5"
| "as_u8 Challenged = 6"

type_synonym transcript = bytes

definition transcript_append :: "transcript \<Rightarrow> DigestTranscriptMember \<Rightarrow> bytes \<Rightarrow> transcript" where
  "transcript_append t kind v = t @ [as_u8 kind] @ to_le_bytes (of_nat (length v) :: u64) @ v"

definition transcript_new :: "bytes \<Rightarrow> transcript" where
  "transcript_new name = transcript_append [] Name name"

definition domain_separate :: "bytes \<Rightarrow> transcript \<Rightarrow> transcript" where
  "domain_separate label t = transcript_append t Domain label"

definition append_message :: "bytes \<Rightarrow> bytes \<Rightarrow> transcript \<Rightarrow> transcript" where
  "append_message label msg t = transcript_append (transcript_append t Label label) Value msg"

definition challenge :: "(bytes \<Rightarrow> bytes) \<Rightarrow> bytes \<Rightarrow> transcript \<Rightarrow> bytes \<times> transcript" where
  "challenge digest label t =
     (let t1 = transcript_append t Challenge label
      in (digest (t1 @ [as_u8 Challenged]), t1 @ [as_u8 Continued]))"

definition rng_seed :: "(bytes \<Rightarrow> bytes) \<Rightarrow> bytes \<Rightarrow> transcript \<Rightarrow> bytes \<times> transcript" where
  "rng_seed digest label t = (let (c, t1) = challenge digest label t in (take 32 c, t1))"

section \<open>Challenges bind the transcript\<close>

text \<open>The operations on a transcript, in order, and the bytes the next challenge is the digest of.\<close>

datatype transcript_op = DomainSeparate bytes | AppendMessage bytes bytes | TakeChallenge bytes

fun run_op :: "transcript_op \<Rightarrow> transcript \<Rightarrow> transcript" where
  "run_op (DomainSeparate label) t = domain_separate label t"
| "run_op (AppendMessage label msg) t = append_message label msg t"
| "run_op (TakeChallenge label) t = snd (challenge (\<lambda>b. b) label t)"

fun op_fits :: "transcript_op \<Rightarrow> bool" where
  "op_fits (DomainSeparate label) = (length label < 2 ^ 64)"
| "op_fits (AppendMessage label msg) = (length label < 2 ^ 64 \<and> length msg < 2 ^ 64)"
| "op_fits (TakeChallenge label) = (length label < 2 ^ 64)"

definition challenged_bytes :: "bytes \<Rightarrow> transcript_op list \<Rightarrow> bytes \<Rightarrow> bytes" where
  "challenged_bytes name ops label = fst (challenge (\<lambda>b. b) label (fold run_op ops (transcript_new name)))"

definition member_bytes :: "DigestTranscriptMember \<Rightarrow> bytes \<Rightarrow> bytes" where
  "member_bytes kind v = as_u8 kind # to_le_bytes (of_nat (length v) :: u64) @ v"

lemma transcript_append_member: "transcript_append t kind v = t @ member_bytes kind v"
  by (simp add: transcript_append_def member_bytes_def)

fun op_bytes :: "transcript_op \<Rightarrow> bytes" where
  "op_bytes (DomainSeparate label) = member_bytes Domain label"
| "op_bytes (AppendMessage label msg) = member_bytes Label label @ member_bytes Value msg"
| "op_bytes (TakeChallenge label) = member_bytes Challenge label @ [5]"

lemma run_ops: "fold run_op ops t = t @ concat (map op_bytes ops)"
proof (induction ops arbitrary: t)
  case (Cons x ops)
  then show ?case
    by (cases x) (simp_all add: domain_separate_def append_message_def challenge_def transcript_append_member Let_def)
qed simp

lemma challenged_bytes_eq:
  "challenged_bytes name ops label = member_bytes Name name @ concat (map op_bytes ops) @ member_bytes Challenge label @ [6]"
  by (simp add: challenged_bytes_def challenge_def run_ops transcript_new_def transcript_append_member Let_def)

lemma member_bytes_inject:
  assumes "length v < 2 ^ 64" and "length w < 2 ^ 64" and "member_bytes k v @ r = member_bytes k w @ t"
  shows "v = w \<and> r = t"
proof -
  from assms(3) have eq: "to_le_bytes (of_nat (length v) :: u64) @ v @ r = to_le_bytes (of_nat (length w) :: u64) @ w @ t"
    by (simp add: member_bytes_def)
  have "prefix_free (to_le_bytes :: u64 \<Rightarrow> bytes)" by (rule prefix_free_le) simp
  from eq [unfolded prefix_freeD [OF this]]
  have lens: "(of_nat (length v) :: u64) = of_nat (length w)" and vw: "v @ r = w @ t" by simp_all
  have "length v = length w" using assms(1,2) arg_cong [OF lens, of unat] by (simp add: unat_of_nat)
  with vw show ?thesis by simp
qed

lemma op_bytes_inject:
  assumes "op_fits x" and "op_fits y" and "op_bytes x @ r = op_bytes y @ t"
  shows "x = y \<and> r = t"
proof (cases x; cases y)
  fix l m l' m' assume xy: "x = AppendMessage l m" "y = AppendMessage l' m'"
  with assms have "l = l' \<and> member_bytes Value m @ r = member_bytes Value m' @ t"
    by (intro member_bytes_inject [where k = Label]) simp_all
  with assms xy show ?thesis using member_bytes_inject [of m m' Value r t] by simp
next
  fix l l' assume xy: "x = DomainSeparate l" "y = DomainSeparate l'"
  with assms show ?thesis using member_bytes_inject [of l l' Domain r t] by simp
next
  fix l l' assume xy: "x = TakeChallenge l" "y = TakeChallenge l'"
  with assms show ?thesis using member_bytes_inject [of l l' Challenge "5 # r" "5 # t"] by simp
qed (use assms(3) in \<open>simp_all add: member_bytes_def\<close>)

lemma ops_inject:
  assumes "list_all op_fits ops" and "list_all op_fits ops'" and "length label < 2 ^ 64" and "length label' < 2 ^ 64"
    and "concat (map op_bytes ops) @ member_bytes Challenge label @ [6] = concat (map op_bytes ops') @ member_bytes Challenge label' @ [6]"
  shows "ops = ops' \<and> label = label'"
  using assms
proof (induction ops arbitrary: ops')
  case Nil
  show ?case
  proof (cases ops')
    case Nil
    with Nil.prems show ?thesis using member_bytes_inject [of label label' Challenge "[6]" "[6]"] by simp
  next
    case (Cons y ys)
    with Nil.prems have eq: "member_bytes Challenge label @ [6] = op_bytes y @ concat (map op_bytes ys) @ member_bytes Challenge label' @ [6]"
      and "op_fits y" by simp_all
    have False
    proof (cases y)
      case (TakeChallenge l)
      with eq \<open>op_fits y\<close> Nil.prems(3) member_bytes_inject [of label l Challenge "[6]" "5 # concat (map op_bytes ys) @ member_bytes Challenge label' @ [6]"]
      show ?thesis by simp
    qed (use eq in \<open>simp_all add: member_bytes_def\<close>)
    then show ?thesis ..
  qed
next
  case (Cons x xs)
  show ?case
  proof (cases ops')
    case Nil
    with Cons.prems have eq: "op_bytes x @ concat (map op_bytes xs) @ member_bytes Challenge label @ [6] = member_bytes Challenge label' @ [6]"
      and "op_fits x" by simp_all
    have False
    proof (cases x)
      case (TakeChallenge l)
      with eq \<open>op_fits x\<close> Cons.prems(4) member_bytes_inject [of l label' Challenge "5 # concat (map op_bytes xs) @ member_bytes Challenge label @ [6]" "[6]"]
      show ?thesis by simp
    qed (use eq in \<open>simp_all add: member_bytes_def\<close>)
    then show ?thesis ..
  next
    case (Cons y ys)
    with Cons.prems have "x = y \<and> concat (map op_bytes xs) @ member_bytes Challenge label @ [6] = concat (map op_bytes ys) @ member_bytes Challenge label' @ [6]"
      by (intro op_bytes_inject) simp_all
    with Cons.IH [of ys] Cons.prems Cons show ?thesis by simp
  qed
qed

text \<open>
  C25: a challenge binds everything its transcript contains. When two challenges are the digests of
  the same bytes, their transcripts have the same name and were given the same domain separators,
  labels, messages and earlier challenges in the same order, and the challenges have the same label
  (for values of fewer than \<open>2 ^ 64\<close> bytes).
\<close>

theorem challenges_bind_transcript:
  assumes "length name < 2 ^ 64" and "length name' < 2 ^ 64" and "length label < 2 ^ 64" and "length label' < 2 ^ 64"
    and "list_all op_fits ops" and "list_all op_fits ops'"
  shows "challenged_bytes name ops label = challenged_bytes name' ops' label' \<longleftrightarrow> name = name' \<and> ops = ops' \<and> label = label'"
  using member_bytes_inject [OF assms(1,2), of Name] ops_inject [OF assms(5,6,3,4)]
  unfolding challenged_bytes_eq by blast

theorem challenges_bind_transcript_witness:
  "challenged_bytes [1] [AppendMessage [2] [3]] [4] \<noteq> challenged_bytes [1] [AppendMessage [2, 3] []] [4]"
  using challenges_bind_transcript [of "[1]" "[1]" "[4]" "[4]" "[AppendMessage [2] [3]]" "[AppendMessage [2, 3] []]"] by simp

end
