(* ===== verification/Schnorr.thy ===== *)
theory Schnorr
  imports Multiexp_Props Transcript
begin

text \<open>
  Schnorr signatures and their half-aggregation (\<open>crypto/schnorr\<close>), with the canonical reading of
  points and scalars (\<open>crypto/ciphersuite\<close>). A reader takes bytes and returns what it read with the
  rest, or \<open>None\<close> for an I/O error.
\<close>

section \<open>Model\<close>

subsection \<open>Reading\<close>

type_synonym 'a reader = "bytes \<Rightarrow> ('a \<times> bytes) option"

definition read_exact :: "nat \<Rightarrow> bytes reader" where
  "read_exact n bs = (if n \<le> length bs then Some (take n bs, drop n bs) else None)"

definition read_F :: "('f, 'g, 'a) ciphersuite_scheme \<Rightarrow> 'f reader" where
  "read_F C bs = Option.bind (read_exact (scalar_len C) bs) (\<lambda>(encoding, rest).
     Option.bind (scalar_from_repr C encoding) (\<lambda>s. Some (s, rest)))"

definition read_G :: "('f, 'g, 'a) ciphersuite_scheme \<Rightarrow> 'g reader" where
  "read_G C bs = Option.bind (read_exact (point_len C) bs) (\<lambda>(encoding, rest).
     Option.bind (point_from_bytes C encoding) (\<lambda>point.
       if point_to_bytes C point \<noteq> encoding then None else Some (point, rest)))"

subsection \<open>Signatures\<close>

record ('f, 'g) SchnorrSignature =
  sig_R :: 'g
  sig_s :: 'f

definition SchnorrSignature_read :: "('f, 'g, 'a) ciphersuite_scheme \<Rightarrow> ('f, 'g) SchnorrSignature reader" where
  "SchnorrSignature_read C bs = Option.bind (read_G C bs) (\<lambda>(R, rest).
     Option.bind (read_F C rest) (\<lambda>(s, rest). Some (\<lparr>sig_R = R, sig_s = s\<rparr>, rest)))"

definition SchnorrSignature_serialize :: "('f, 'g, 'a) ciphersuite_scheme \<Rightarrow> ('f, 'g) SchnorrSignature \<Rightarrow> bytes" where
  "SchnorrSignature_serialize C sig = point_to_bytes C (sig_R sig) @ scalar_to_repr C (sig_s sig)"

definition SchnorrSignature_sign :: "('f::comm_ring_1, 'g, 'a) ciphersuite_scheme \<Rightarrow> 'f \<Rightarrow> 'f \<Rightarrow> 'f \<Rightarrow> ('f, 'g) SchnorrSignature" where
  "SchnorrSignature_sign C private_key nonce chal =
     \<lparr>sig_R = point_mul C nonce (generator C), sig_s = chal * private_key + nonce\<rparr>"

definition batch_statements :: "('f::comm_ring_1, 'g, 'a) ciphersuite_scheme \<Rightarrow> ('f, 'g) SchnorrSignature \<Rightarrow> 'g \<Rightarrow> 'f \<Rightarrow> ('f \<times> 'g) list" where
  "batch_statements C sig public_key chal = [(1, sig_R sig), (chal, public_key), (- sig_s sig, generator C)]"

definition SchnorrSignature_verify :: "('f::comm_ring_1, 'g::ab_group_add, 'a) ciphersuite_scheme \<Rightarrow> ('f, 'g) SchnorrSignature \<Rightarrow> 'g \<Rightarrow> 'f \<Rightarrow> bool option" where
  "SchnorrSignature_verify C sig public_key chal =
     map_option (\<lambda>P. P = 0) (multiexp_vartime C (batch_statements C sig public_key chal))"

definition SchnorrSignature_batch_verify :: "('f::comm_ring_1, 'g, 'a) ciphersuite_scheme \<Rightarrow> 'f list \<Rightarrow> ('i, 'f, 'g) BatchVerifier \<Rightarrow> 'i \<Rightarrow> ('f, 'g) SchnorrSignature \<Rightarrow> 'g \<Rightarrow> 'f \<Rightarrow> (('i, 'f, 'g) BatchVerifier \<times> 'f list) option" where
  "SchnorrSignature_batch_verify C rng batch item sig public_key chal =
     batch_queue batch rng item (batch_statements C sig public_key chal)"

subsection \<open>Half-aggregation\<close>

text \<open>
  The weight of a signature: words of 64 bits from the challenges of a transcript, until there are
  128 bits more than the scalars have. Reading past the end of a challenge panics, and the
  subtraction of \<open>usize\<close>s wraps around; a loop that does not end is \<open>None\<close>.
\<close>

definition usize_sub :: "nat \<Rightarrow> nat \<Rightarrow> nat" where
  "usize_sub a b = (if b \<le> a then a - b else 2 ^ 64 + a - b)"

partial_function (option) weight_loop ::
  "(bytes \<Rightarrow> bytes) \<Rightarrow> bytes \<Rightarrow> nat \<Rightarrow> nat \<Rightarrow> bool \<Rightarrow> 'f::comm_ring_1 \<Rightarrow> transcript \<Rightarrow> ('f \<times> transcript) option" where
  "weight_loop digest bs remaining i first res t =
     (if i < remaining
      then if i + 8 \<le> length bs
        then let res = (if first then res else ((\<lambda>r. r + r) ^^ 64) res) + of_nat (unat (from_be_bytes (take 8 (drop i bs)) :: u64));
                 i = i + 8
             in if i = length bs
                then case challenge digest (ascii ''aggregation_weight_continued'') t of
                       (bs, t) \<Rightarrow> weight_loop digest bs (usize_sub remaining i) 0 False res t
                else weight_loop digest bs remaining i False res t
        else None
      else Some (res, t))"

definition weight :: "('f::comm_ring_1, 'g, 'a) ciphersuite_scheme \<Rightarrow> transcript \<Rightarrow> ('f \<times> transcript) option" where
  "weight C t = (case challenge (suite_hash C) (ascii ''aggregation_weight'') t of
     (bs, t) \<Rightarrow> weight_loop (suite_hash C) bs (((num_bits C + 128) + 7) div 8) 0 True 0 t)"

record ('f, 'g) SchnorrAggregate =
  agg_Rs :: "'g list"
  agg_s :: 'f

fun read_points :: "('f, 'g, 'a) ciphersuite_scheme \<Rightarrow> nat \<Rightarrow> 'g list reader" where
  "read_points C 0 bs = Some ([], bs)"
| "read_points C (Suc n) bs = Option.bind (read_G C bs) (\<lambda>(R, rest).
     Option.bind (read_points C n rest) (\<lambda>(Rs, rest). Some (R # Rs, rest)))"

definition SchnorrAggregate_read :: "('f, 'g, 'a) ciphersuite_scheme \<Rightarrow> ('f, 'g) SchnorrAggregate reader" where
  "SchnorrAggregate_read C bs = Option.bind (read_exact 4 bs) (\<lambda>(len, rest).
     Option.bind (read_points C (unat (from_le_bytes len :: u32)) rest) (\<lambda>(Rs, rest).
       Option.bind (read_F C rest) (\<lambda>(s, rest). Some (\<lparr>agg_Rs = Rs, agg_s = s\<rparr>, rest))))"

definition SchnorrAggregate_serialize :: "('f, 'g, 'a) ciphersuite_scheme \<Rightarrow> ('f, 'g) SchnorrAggregate \<Rightarrow> bytes option" where
  "SchnorrAggregate_serialize C agg =
     (if length (agg_Rs agg) < 2 ^ 32
      then Some (to_le_bytes (of_nat (length (agg_Rs agg)) :: u32) @ concat (map (point_to_bytes C) (agg_Rs agg)) @ scalar_to_repr C (agg_s agg))
      else None)"

fun weigh_keys :: "('f::comm_ring_1, 'g, 'a) ciphersuite_scheme \<Rightarrow> ('g \<times> 'g \<times> 'f) list \<Rightarrow> transcript \<Rightarrow> ('f \<times> 'g) list option" where
  "weigh_keys C [] digest = Some []"
| "weigh_keys C ((R, key, chal) # rest) digest = Option.bind (weight C digest) (\<lambda>(z, digest).
     Option.bind (weigh_keys C rest digest) (\<lambda>pairs. Some ((z, R) # (z * chal, key) # pairs)))"

definition SchnorrAggregate_verify :: "('f::comm_ring_1, 'g::ab_group_add, 'a) ciphersuite_scheme \<Rightarrow> ('f, 'g) SchnorrAggregate \<Rightarrow> bytes \<Rightarrow> ('g \<times> 'f) list \<Rightarrow> bool option" where
  "SchnorrAggregate_verify C agg dst keys_and_challenges =
     (if length (agg_Rs agg) \<noteq> length keys_and_challenges then Some False
      else let digest = fold (\<lambda>(_, chal). append_message (ascii ''challenge'') (scalar_to_repr C chal)) keys_and_challenges
                          (domain_separate (ascii ''signatures'') (transcript_new dst))
           in Option.bind (weigh_keys C (zip (agg_Rs agg) keys_and_challenges) digest) (\<lambda>pairs.
                map_option (\<lambda>P. P = 0) (multiexp_vartime C (pairs @ [(- agg_s agg, generator C)]))))"

record ('f, 'g) SchnorrAggregator =
  aggr_digest :: transcript
  aggr_sigs :: "('f, 'g) SchnorrSignature list"

definition SchnorrAggregator_new :: "bytes \<Rightarrow> ('f, 'g) SchnorrAggregator" where
  "SchnorrAggregator_new dst = \<lparr>aggr_digest = domain_separate (ascii ''signatures'') (transcript_new dst), aggr_sigs = []\<rparr>"

definition SchnorrAggregator_aggregate :: "('f, 'g, 'a) ciphersuite_scheme \<Rightarrow> 'f \<Rightarrow> ('f, 'g) SchnorrSignature \<Rightarrow> ('f, 'g) SchnorrAggregator \<Rightarrow> ('f, 'g) SchnorrAggregator" where
  "SchnorrAggregator_aggregate C chal sig aggr =
     aggr\<lparr>aggr_digest := append_message (ascii ''challenge'') (scalar_to_repr C chal) (aggr_digest aggr), aggr_sigs := aggr_sigs aggr @ [sig]\<rparr>"

fun weigh_sigs :: "('f::comm_ring_1, 'g, 'a) ciphersuite_scheme \<Rightarrow> ('f, 'g) SchnorrSignature list \<Rightarrow> transcript \<Rightarrow> ('f, 'g) SchnorrAggregate \<Rightarrow> ('f, 'g) SchnorrAggregate option" where
  "weigh_sigs C [] digest agg = Some agg"
| "weigh_sigs C (sig # sigs) digest agg = Option.bind (weight C digest) (\<lambda>(z, digest).
     weigh_sigs C sigs digest (agg\<lparr>agg_Rs := agg_Rs agg @ [sig_R sig], agg_s := agg_s agg + sig_s sig * z\<rparr>))"

text \<open>\<open>complete\<close>: \<open>Some None\<close> when nothing was aggregated.\<close>

definition SchnorrAggregator_complete :: "('f::comm_ring_1, 'g, 'a) ciphersuite_scheme \<Rightarrow> ('f, 'g) SchnorrAggregator \<Rightarrow> ('f, 'g) SchnorrAggregate option option" where
  "SchnorrAggregator_complete C aggr =
     (if aggr_sigs aggr = [] then Some None
      else map_option Some (weigh_sigs C (aggr_sigs aggr) (aggr_digest aggr) \<lparr>agg_Rs = [], agg_s = 0\<rparr>))"

section \<open>Signing and verifying\<close>

lemma schnorr_verify_iff:
  assumes "group_laws C"
  shows "SchnorrSignature_verify C sig key chal = Some (point_mul C (sig_s sig) (generator C) = sig_R sig + point_mul C chal key)"
proof -
  have m: "module (point_mul C)" using assms by (simp add: group_laws_def)
  have "multiexp_sum C (batch_statements C sig key chal) = sig_R sig + point_mul C chal key - point_mul C (sig_s sig) (generator C)"
    by (simp add: multiexp_sum_def batch_statements_def module.scale_one [OF m] module.scale_minus_left [OF m])
  then show ?thesis using multiexp_correct [OF assms] by (auto simp: SchnorrSignature_verify_def)
qed

lemma schnorr_sign_verifies:
  assumes "group_laws C"
  shows "SchnorrSignature_verify C (SchnorrSignature_sign C k r chal) (point_mul C k (generator C)) chal = Some True"
proof -
  have m: "module (point_mul C)" using assms by (simp add: group_laws_def)
  show ?thesis by (simp add: schnorr_verify_iff [OF assms] SchnorrSignature_sign_def module.scale_left_distrib [OF m] module.scale_scale [OF m] add.commute)
qed

text \<open>Canonical encodings: reading back what was written.\<close>

definition encoding_laws :: "('f, 'g, 'a) ciphersuite_scheme \<Rightarrow> bool" where
  "encoding_laws C \<longleftrightarrow>
     (\<forall>P. length (point_to_bytes C P) = point_len C \<and> point_from_bytes C (point_to_bytes C P) = Some P) \<and>
     (\<forall>s. length (scalar_to_repr C s) = scalar_len C \<and> scalar_from_repr C (scalar_to_repr C s) = Some s)"

lemma read_point [simp]: "encoding_laws C \<Longrightarrow> read_G C (point_to_bytes C P @ rest) = Some (P, rest)"
  by (simp add: read_G_def read_exact_def encoding_laws_def)

lemma read_scalar [simp]: "encoding_laws C \<Longrightarrow> read_F C (scalar_to_repr C s @ rest) = Some (s, rest)"
  by (simp add: read_F_def read_exact_def encoding_laws_def)

lemma schnorr_read_serialize:
  "encoding_laws C \<Longrightarrow> SchnorrSignature_read C (SchnorrSignature_serialize C sig @ rest) = Some (sig, rest)"
  by (simp add: SchnorrSignature_read_def SchnorrSignature_serialize_def)

lemma read_points_concat: "encoding_laws C \<Longrightarrow> read_points C (length Rs) (concat (map (point_to_bytes C) Rs) @ rest) = Some (Rs, rest)"
  by (induction Rs) simp_all

lemma aggregate_read_serialize:
  "encoding_laws C \<Longrightarrow> SchnorrAggregate_serialize C agg = Some bs \<Longrightarrow> SchnorrAggregate_read C (bs @ rest) = Some (agg, rest)"
  by (auto simp: SchnorrAggregate_serialize_def SchnorrAggregate_read_def read_exact_def from_to_le_bytes unat_of_nat
      read_points_concat split: if_splits)

section \<open>Aggregates verify\<close>

lemma weight_loop_returns:
  fixes res :: "'f::comm_ring_1"
  assumes "\<And>b. length (digest b) = n" and "8 dvd n" and "0 < n"
    and "8 dvd remaining" and "8 dvd i" and "i < n" and "length bs = n"
  shows "weight_loop digest bs remaining i first res t \<noteq> None"
  using assms(4-7)
proof (induction "remaining - i" arbitrary: remaining i bs first res t rule: less_induct)
  case less
  show ?case
  proof (cases "i < remaining")
    case True
    have fit: "i + 8 \<le> n" "i + 8 \<le> remaining" using less.prems assms(2) True by (auto elim!: dvdE)
    show ?thesis
    proof (cases "i + 8 = n")
      case full: True
      obtain bs' t' where ch: "challenge digest (ascii ''aggregation_weight_continued'') t = (bs', t')" by fastforce
      then have "length bs' = n" using assms(1) by (auto simp: challenge_def Let_def)
      then have "weight_loop digest bs' (remaining - n) 0 False r t' \<noteq> None" for r :: 'f
        using full fit less.prems(1) assms(2,3) by (intro less.hyps) auto
      moreover have "usize_sub remaining n = remaining - n" using full fit by (simp add: usize_sub_def)
      ultimately show ?thesis using True fit full less.prems(4) by (subst weight_loop.simps) (simp add: Let_def ch)
    next
      case False
      then show ?thesis
        using less.hyps [of remaining "i + 8"] True fit less.prems by (subst weight_loop.simps) (auto simp: Let_def)
    qed
  qed (subst weight_loop.simps, simp)
qed

text \<open>The digest and the field are of sizes for which weights can be drawn.\<close>

definition weights_drawn :: "('f, 'g, 'a) ciphersuite_scheme \<Rightarrow> bool" where
  "weights_drawn C \<longleftrightarrow> (\<exists>n. 0 < n \<and> 8 dvd n \<and> (\<forall>b. length (suite_hash C b) = n)) \<and> 8 dvd ((num_bits C + 128) + 7) div 8"

lemma weight_returns:
  fixes C :: "('f::comm_ring_1, 'g, 'a) ciphersuite_scheme"
  shows "weights_drawn C \<Longrightarrow> \<exists>z t'. weight C t = Some (z, t')"
proof -
  assume "weights_drawn C"
  then obtain n where "0 < n" "8 dvd n" "\<And>b. length (suite_hash C b) = n" "8 dvd ((num_bits C + 128) + 7) div 8"
    by (auto simp: weights_drawn_def)
  then have "weight_loop (suite_hash C) (suite_hash C x) (((num_bits C + 128) + 7) div 8) 0 True (0 :: 'f) t' \<noteq> None" for x t'
    by (intro weight_loop_returns [of _ n]) auto
  then show ?thesis by (auto simp: weight_def challenge_def Let_def)
qed

text \<open>A valid signature with its key and challenge.\<close>

definition signed_by_key :: "('f::comm_ring_1, 'g::ab_group_add, 'a) ciphersuite_scheme \<Rightarrow> 'g \<times> 'f \<times> ('f, 'g) SchnorrSignature \<Rightarrow> bool" where
  "signed_by_key C = (\<lambda>(key, chal, sig). SchnorrSignature_verify C sig key chal = Some True)"

lemma weigh_sigs_keys:
  assumes "group_laws C" and "weights_drawn C"
  shows "list_all (signed_by_key C) items \<Longrightarrow>
    \<exists>agg' pairs. weigh_sigs C (map (\<lambda>(_, _, sig). sig) items) digest agg = Some agg' \<and>
      agg_Rs agg' = agg_Rs agg @ map (\<lambda>(_, _, sig). sig_R sig) items \<and>
      weigh_keys C (map (\<lambda>(key, chal, sig). (sig_R sig, key, chal)) items) digest = Some pairs \<and>
      multiexp_sum C pairs + point_mul C (agg_s agg) (generator C) = point_mul C (agg_s agg') (generator C)"
proof (induction items arbitrary: digest agg)
  case (Cons item items)
  have m: "module (point_mul C)" using assms(1) by (simp add: group_laws_def)
  obtain key chal sig where item: "item = (key, chal, sig)" by (cases item) auto
  obtain z digest' where z: "weight C digest = Some (z, digest')" using weight_returns [OF assms(2)] by blast
  let ?agg = "agg\<lparr>agg_Rs := agg_Rs agg @ [sig_R sig], agg_s := agg_s agg + sig_s sig * z\<rparr>"
  obtain agg' pairs where IH: "weigh_sigs C (map (\<lambda>(_, _, sig). sig) items) digest' ?agg = Some agg'"
    "agg_Rs agg' = agg_Rs ?agg @ map (\<lambda>(_, _, sig). sig_R sig) items"
    "weigh_keys C (map (\<lambda>(key, chal, sig). (sig_R sig, key, chal)) items) digest' = Some pairs"
    "multiexp_sum C pairs + point_mul C (agg_s ?agg) (generator C) = point_mul C (agg_s agg') (generator C)"
    using Cons by force
  have "point_mul C (sig_s sig) (generator C) = sig_R sig + point_mul C chal key"
    using Cons.prems by (simp add: item signed_by_key_def schnorr_verify_iff [OF assms(1)])
  then have "point_mul C (sig_s sig * z) (generator C) = point_mul C z (sig_R sig) + point_mul C (z * chal) key"
    using module.scale_scale [OF m, of z "sig_s sig" "generator C"]
    by (simp add: module.scale_right_distrib [OF m] module.scale_scale [OF m] mult.commute)
  then have "multiexp_sum C ((z, sig_R sig) # (z * chal, key) # pairs) + point_mul C (agg_s agg) (generator C) = point_mul C (agg_s agg') (generator C)"
    using IH(4) by (simp add: multiexp_sum_def module.scale_left_distrib [OF m] algebra_simps)
  then show ?case using IH z by (simp add: item)
qed (simp add: multiexp_sum_def)

lemma aggregate_folds:
  "fold (\<lambda>(_, chal, sig). SchnorrAggregator_aggregate C chal sig) items aggr =
     aggr\<lparr>aggr_digest := fold (\<lambda>(_, chal). append_message (ascii ''challenge'') (scalar_to_repr C chal)) (map (\<lambda>(key, chal, _). (key, chal)) items) (aggr_digest aggr),
       aggr_sigs := aggr_sigs aggr @ map (\<lambda>(_, _, sig). sig) items\<rparr>"
  by (induction items arbitrary: aggr) (auto simp: SchnorrAggregator_aggregate_def)

text \<open>
  An aggregate of valid signatures verifies. When signatures that verify for their keys and
  challenges are aggregated, the aggregation returns, for digests and fields whose sizes fit the
  64-bit words it draws, and the aggregate verifies for the same keys and challenges in the same
  order.
\<close>

theorem aggregate_verifies:
  assumes "group_laws C" and "weights_drawn C" and "items \<noteq> []" and "list_all (signed_by_key C) items"
  shows "\<exists>agg. SchnorrAggregator_complete C (fold (\<lambda>(_, chal, sig). SchnorrAggregator_aggregate C chal sig) items (SchnorrAggregator_new dst)) = Some (Some agg) \<and>
    SchnorrAggregate_verify C agg dst (map (\<lambda>(key, chal, _). (key, chal)) items) = Some True"
proof -
  have m: "module (point_mul C)" using assms(1) by (simp add: group_laws_def)
  define digest where "digest = fold (\<lambda>(_, chal). append_message (ascii ''challenge'') (scalar_to_repr C chal))
    (map (\<lambda>(key, chal, _). (key, chal)) items) (domain_separate (ascii ''signatures'') (transcript_new dst))"
  obtain agg pairs where agg: "weigh_sigs C (map (\<lambda>(_, _, sig). sig) items) digest \<lparr>agg_Rs = [], agg_s = 0\<rparr> = Some agg"
    "agg_Rs agg = map (\<lambda>(_, _, sig). sig_R sig) items"
    "weigh_keys C (map (\<lambda>(key, chal, sig). (sig_R sig, key, chal)) items) digest = Some pairs"
    "multiexp_sum C pairs = point_mul C (agg_s agg) (generator C)"
    using weigh_sigs_keys [OF assms(1,2,4), of digest "\<lparr>agg_Rs = [], agg_s = 0\<rparr>"] module.scale_zero_left [OF m] by auto
  have "zip (agg_Rs agg) (map (\<lambda>(key, chal, _). (key, chal)) items) = map (\<lambda>(key, chal, sig). (sig_R sig, key, chal)) items"
    unfolding agg(2) by (induction items) auto
  moreover have "multiexp_sum C (pairs @ [(- agg_s agg, generator C)]) = 0"
    using agg(4) by (simp add: multiexp_sum_def module.scale_minus_left [OF m])
  ultimately have "SchnorrAggregate_verify C agg dst (map (\<lambda>(key, chal, _). (key, chal)) items) = Some True"
    using agg(2,3) multiexp_correct [OF assms(1)] by (simp add: SchnorrAggregate_verify_def digest_def [symmetric] Let_def)
  then show ?thesis
    using agg(1) assms(3) by (simp add: SchnorrAggregator_complete_def aggregate_folds SchnorrAggregator_new_def digest_def [symmetric])
qed

theorem aggregate_verifies_witness:
  "\<exists>agg. SchnorrAggregator_complete example_suite
      (SchnorrAggregator_aggregate example_suite 7 (SchnorrSignature_sign example_suite 5 2 7) (SchnorrAggregator_new [1])) = Some (Some agg) \<and>
    SchnorrAggregate_verify example_suite agg [1] [(15, 7)] = Some True"
proof -
  have key: "point_mul example_suite 5 (generator example_suite) = 15" by (simp add: example_suite_def)
  have "weights_drawn example_suite"
    unfolding weights_drawn_def by (rule conjI, rule exI [of _ 64]) (simp_all add: example_suite_def)
  moreover have "list_all (signed_by_key example_suite) [(15, 7, SchnorrSignature_sign example_suite 5 2 7)]"
    using schnorr_sign_verifies [OF example_laws, of 5 2 7, unfolded key] by (simp add: signed_by_key_def)
  ultimately show ?thesis
    using aggregate_verifies [OF example_laws, of "[(15, 7, SchnorrSignature_sign example_suite 5 2 7)]" "[1]"] by simp
qed

end
