(* ===== verification/Message_Queue.thy ===== *)
theory Message_Queue
  imports Schnorr
begin

text \<open>
  The message queue between the coordinator and the processors (\<open>message-queue\<close>): its messages and
  the challenges their senders sign, the queues in the database, the three RPC methods and the
  registration of the services. A panic, which ends the process, is \<open>None\<close>. Borsh encodes an
  enumeration by the index of the variant and a sequence with a 32-bit length.
\<close>

section \<open>Model\<close>

subsection \<open>Messages\<close>

datatype Service = Processor NetworkId | Coordinator

record QueuedMessage =
  qm_from :: Service
  qm_id :: u64
  qm_msg :: bytes
  qm_sig :: bytes

record Metadata =
  meta_from :: Service
  meta_to :: Service
  meta_intent :: bytes

fun borsh_Service :: "Service \<Rightarrow> bytes" where
  "borsh_Service (Processor net) = 0 # encode_NetworkId net"
| "borsh_Service Coordinator = [1]"

definition borsh_bytes :: "bytes \<Rightarrow> bytes option" where
  "borsh_bytes bs = (if length bs < 2 ^ 32 then Some (to_le_bytes (of_nat (length bs) :: u32) @ bs) else None)"

definition borsh_QueuedMessage :: "QueuedMessage \<Rightarrow> bytes option" where
  "borsh_QueuedMessage m = Option.bind (borsh_bytes (qm_msg m)) (\<lambda>msg. Option.bind (borsh_bytes (qm_sig m)) (\<lambda>sig.
     Some (borsh_Service (qm_from m) @ to_le_bytes (qm_id m) @ msg @ sig)))"

definition borsh_read_Service :: "Service reader" where
  "borsh_read_Service bs = (case bs of
       [] \<Rightarrow> None
     | variant # rest \<Rightarrow>
         if variant = 0
         then (case rest of
             [] \<Rightarrow> None
           | net # rest \<Rightarrow>
               if net = 0 then Some (Processor NetworkId.Serai, rest)
               else if net = 1 then Some (Processor NetworkId.Bitcoin, rest)
               else if net = 2 then Some (Processor NetworkId.Ethereum, rest)
               else if net = 3 then Some (Processor NetworkId.Monero, rest)
               else None)
         else if variant = 1 then Some (Coordinator, rest)
         else None)"

definition borsh_read_bytes :: "bytes reader" where
  "borsh_read_bytes bs = Option.bind (read_exact 4 bs) (\<lambda>(len, rest). read_exact (unat (from_le_bytes len :: u32)) rest)"

text \<open>\<open>borsh::from_slice\<close> also demands that nothing is left.\<close>

definition borsh_from_slice_QueuedMessage :: "bytes \<Rightarrow> QueuedMessage option" where
  "borsh_from_slice_QueuedMessage bs =
     Option.bind (borsh_read_Service bs) (\<lambda>(from_service, bs). Option.bind (read_exact 8 bs) (\<lambda>(i, bs).
       Option.bind (borsh_read_bytes bs) (\<lambda>(msg, bs). Option.bind (borsh_read_bytes bs) (\<lambda>(sig, bs).
         if bs = [] then Some \<lparr>qm_from = from_service, qm_id = from_le_bytes i, qm_msg = msg, qm_sig = sig\<rparr> else None))))"

text \<open>The group is Ristretto, the transcript's digest Blake2b; both are parameters.\<close>

record ('f, 'g) mq_config =
  mq_suite :: "('f, 'g) ciphersuite"
  mq_blake2b :: "bytes \<Rightarrow> bytes"
  mq_hash_to_F :: "bytes \<Rightarrow> bytes \<Rightarrow> 'f"

definition message_challenge :: "('f, 'g) mq_config \<Rightarrow> Service \<Rightarrow> 'g \<Rightarrow> Service \<Rightarrow> bytes \<Rightarrow> bytes \<Rightarrow> 'g \<Rightarrow> 'f" where
  "message_challenge cfg from_service from_key to_service intent msg nonce =
     (let t = transcript_new (ascii ''Serai Message Queue v0.1 Message'');
          t = domain_separate (ascii ''metadata'') t;
          t = append_message (ascii ''from'') (borsh_Service from_service) t;
          t = append_message (ascii ''from_key'') (point_to_bytes (mq_suite cfg) from_key) t;
          t = append_message (ascii ''to'') (borsh_Service to_service) t;
          t = append_message (ascii ''intent'') intent t;
          t = domain_separate (ascii ''message'') t;
          t = append_message (ascii ''msg'') msg t;
          t = domain_separate (ascii ''signature'') t;
          t = append_message (ascii ''nonce'') (point_to_bytes (mq_suite cfg) nonce) t
      in mq_hash_to_F cfg (ascii ''message_challenge'') (fst (challenge (mq_blake2b cfg) (ascii ''challenge'') t)))"

definition ack_challenge :: "('f, 'g) mq_config \<Rightarrow> Service \<Rightarrow> 'g \<Rightarrow> Service \<Rightarrow> u64 \<Rightarrow> 'g \<Rightarrow> 'f" where
  "ack_challenge cfg to_service to_key from_service i nonce =
     (let t = transcript_new (ascii ''Serai Message Queue v0.1 Acknowledgement'');
          t = domain_separate (ascii ''metadata'') t;
          t = append_message (ascii ''to'') (borsh_Service to_service) t;
          t = append_message (ascii ''to_key'') (point_to_bytes (mq_suite cfg) to_key) t;
          t = append_message (ascii ''from'') (borsh_Service from_service) t;
          t = domain_separate (ascii ''message'') t;
          t = append_message (ascii ''id'') (to_le_bytes i) t;
          t = domain_separate (ascii ''signature'') t;
          t = append_message (ascii ''nonce'') (point_to_bytes (mq_suite cfg) nonce) t
      in mq_hash_to_F cfg (ascii ''ack_challenge'') (fst (challenge (mq_blake2b cfg) (ascii ''challenge'') t)))"

subsection \<open>Queues\<close>

text \<open>A queue is the database with the two services it connects.\<close>

definition Queue_key :: "bytes \<Rightarrow> bytes \<Rightarrow> bytes" where
  "Queue_key domain k = of_nat (length domain) # domain @ k"

definition message_count_key :: "Service \<Rightarrow> Service \<Rightarrow> bytes" where
  "message_count_key f t = Queue_key (ascii ''message_count'') (borsh_Service f @ borsh_Service t)"

definition last_acknowledged_key :: "Service \<Rightarrow> Service \<Rightarrow> bytes" where
  "last_acknowledged_key f t = Queue_key (ascii ''last_acknowledged'') (borsh_Service f @ borsh_Service t)"

definition message_key :: "Service \<Rightarrow> Service \<Rightarrow> u64 \<Rightarrow> bytes" where
  "message_key f t i = Queue_key (ascii ''message'') (borsh_Service f @ borsh_Service t @ to_le_bytes i)"

definition read_u64 :: "bytes \<Rightarrow> u64 option" where
  "read_u64 bs = (if length bs = 8 then Some (from_le_bytes bs) else None)"

definition message_count :: "db \<Rightarrow> Service \<Rightarrow> Service \<Rightarrow> u64 option" where
  "message_count d f t = (case d (message_count_key f t) of None \<Rightarrow> Some 0 | Some bs \<Rightarrow> read_u64 bs)"

definition last_acknowledged :: "db \<Rightarrow> Service \<Rightarrow> Service \<Rightarrow> u64 option option" where
  "last_acknowledged d f t = (case d (last_acknowledged_key f t) of None \<Rightarrow> Some None | Some bs \<Rightarrow> map_option Some (read_u64 bs))"

definition Queue_queue_message :: "db \<Rightarrow> db \<Rightarrow> Service \<Rightarrow> Service \<Rightarrow> QueuedMessage \<Rightarrow> (u64 \<times> db) option" where
  "Queue_queue_message d txn f t msg =
     Option.bind (message_count d f t) (\<lambda>i. Option.bind (borsh_QueuedMessage (msg\<lparr>qm_id := i\<rparr>)) (\<lambda>bs.
       Some (i, txn(message_key f t i \<mapsto> bs, message_count_key f t \<mapsto> to_le_bytes (i + 1)))))"

definition Queue_get_message :: "db \<Rightarrow> Service \<Rightarrow> Service \<Rightarrow> u64 \<Rightarrow> QueuedMessage option option" where
  "Queue_get_message d f t i = (case d (message_key f t i) of
       None \<Rightarrow> Some None
     | Some bs \<Rightarrow> Option.bind (borsh_from_slice_QueuedMessage bs) (\<lambda>msg. if qm_id msg = i then Some (Some msg) else None))"

definition Queue_ack_message :: "db \<Rightarrow> Service \<Rightarrow> Service \<Rightarrow> u64 \<Rightarrow> db" where
  "Queue_ack_message d f t i = d(last_acknowledged_key f t \<mapsto> to_le_bytes i)"

subsection \<open>The service\<close>

record 'g mq_state =
  mq_db :: db
  mq_keys :: "(Service \<times> 'g) list"
  mq_queues :: "(Service \<times> Service) list"

definition intent_key :: "Service \<Rightarrow> Service \<Rightarrow> bytes \<Rightarrow> bytes option" where
  "intent_key f t intent = map_option (\<lambda>bs. Queue_key (ascii ''intent_seen'') (borsh_Service f @ borsh_Service t @ bs)) (borsh_bytes intent)"

definition queue_message :: "('f::comm_ring_1, 'g::ab_group_add) mq_config \<Rightarrow> 'g mq_state \<Rightarrow> Metadata \<Rightarrow> bytes \<Rightarrow> ('f, 'g) SchnorrSignature \<Rightarrow> 'g mq_state option" where
  "queue_message cfg st meta msg sig =
     Option.bind (map_of (mq_keys st) (meta_from meta)) (\<lambda>from_key.
     if SchnorrSignature_verify (mq_suite cfg) sig from_key
          (message_challenge cfg (meta_from meta) from_key (meta_to meta) (meta_intent meta) msg (sig_R sig)) \<noteq> Some True then None
     else if (meta_from meta = Coordinator) = (meta_to meta = Coordinator) then None
     else Option.bind (intent_key (meta_from meta) (meta_to meta) (meta_intent meta)) (\<lambda>key.
       if mq_db st key \<noteq> None then Some st
       else if (meta_from meta, meta_to meta) \<notin> set (mq_queues st) then None
       else Option.bind (Queue_queue_message (mq_db st) ((mq_db st)(key \<mapsto> [])) (meta_from meta) (meta_to meta)
              \<lparr>qm_from = meta_from meta, qm_id = - 1, qm_msg = msg, qm_sig = SchnorrSignature_serialize (mq_suite cfg) sig\<rparr>)
              (\<lambda>(_, txn). Some (st\<lparr>mq_db := txn\<rparr>))))"

definition get_next_message :: "'g mq_state \<Rightarrow> Service \<Rightarrow> Service \<Rightarrow> QueuedMessage option option" where
  "get_next_message st f t =
     (if (f, t) \<notin> set (mq_queues st) then None
      else Option.bind (last_acknowledged (mq_db st) f t) (\<lambda>last.
             Queue_get_message (mq_db st) f t (case last of None \<Rightarrow> 0 | Some i \<Rightarrow> i + 1)))"

definition mq_ack_message :: "('f::comm_ring_1, 'g::ab_group_add) mq_config \<Rightarrow> 'g mq_state \<Rightarrow> Service \<Rightarrow> Service \<Rightarrow> u64 \<Rightarrow> ('f, 'g) SchnorrSignature \<Rightarrow> 'g mq_state option" where
  "mq_ack_message cfg st f t i sig =
     Option.bind (map_of (mq_keys st) t) (\<lambda>to_key.
     if SchnorrSignature_verify (mq_suite cfg) sig to_key (ack_challenge cfg t to_key f i (sig_R sig)) \<noteq> Some True then None
     else if (f, t) \<notin> set (mq_queues st) then None
     else Some (st\<lparr>mq_db := Queue_ack_message (mq_db st) f t i\<rparr>))"

text \<open>\<open>register_service\<close> and the startup of \<open>main\<close>, given the keys of the environment.\<close>

definition register_service :: "Service \<Rightarrow> 'g \<Rightarrow> 'g mq_state \<Rightarrow> 'g mq_state" where
  "register_service service key st =
     (let st = st\<lparr>mq_keys := AList.update service key (mq_keys st)\<rparr>
      in if service = Coordinator
         then st\<lparr>mq_queues := fold (\<lambda>net qs. if net = NetworkId.Serai then qs else List.insert (service, Processor net) qs) NETWORKS (mq_queues st)\<rparr>
         else st\<lparr>mq_queues := List.insert (service, Coordinator) (mq_queues st)\<rparr>)"

definition mq_start :: "db \<Rightarrow> (NetworkId \<Rightarrow> 'g option) \<Rightarrow> 'g option \<Rightarrow> 'g mq_state option" where
  "mq_start d processor_keys coordinator_key =
     (let st = fold (\<lambda>net st. if net = NetworkId.Serai then st else case processor_keys net of None \<Rightarrow> st | Some key \<Rightarrow> register_service (Processor net) key st)
                 NETWORKS \<lparr>mq_db = d, mq_keys = [], mq_queues = []\<rparr>
      in Option.bind coordinator_key (\<lambda>key. Some (register_service Coordinator key st)))"

text \<open>The requests of the RPC that change the state.\<close>

datatype ('f, 'g) MessageQueueRequest = Queue Metadata bytes "('f, 'g) SchnorrSignature" | Ack Service Service u64 "('f, 'g) SchnorrSignature"

fun mq_request :: "('f::comm_ring_1, 'g::ab_group_add) mq_config \<Rightarrow> 'g mq_state \<Rightarrow> ('f, 'g) MessageQueueRequest \<Rightarrow> 'g mq_state option" where
  "mq_request cfg st (Queue meta msg sig) = queue_message cfg st meta msg sig"
| "mq_request cfg st (Ack f t i sig) = mq_ack_message cfg st f t i sig"

section \<open>Encodings\<close>

lemma read_Service [simp]: "borsh_read_Service (borsh_Service s @ rest) = Some (s, rest)"
proof (cases s)
  case (Processor net)
  then show ?thesis by (cases net) (simp_all add: borsh_read_Service_def)
qed (simp add: borsh_read_Service_def)

lemma Service_prefix [simp]: "borsh_Service s @ r = borsh_Service s' @ r' \<longleftrightarrow> s = s' \<and> r = r'"
proof
  assume "borsh_Service s @ r = borsh_Service s' @ r'"
  then show "s = s' \<and> r = r'" using read_Service [of s r] by simp
qed simp

lemma read_bytes: "borsh_bytes bs = Some enc \<Longrightarrow> borsh_read_bytes (enc @ rest) = Some (bs, rest)"
  by (auto simp: borsh_bytes_def borsh_read_bytes_def read_exact_def from_to_le_bytes unat_of_nat split: if_splits)

lemma borsh_bytes_inject: "borsh_bytes x = Some enc \<Longrightarrow> borsh_bytes y = Some enc \<Longrightarrow> x = y"
  using read_bytes [of x enc "[]"] read_bytes [of y enc "[]"] by simp

lemma read_QueuedMessage: "borsh_QueuedMessage m = Some bs \<Longrightarrow> borsh_from_slice_QueuedMessage bs = Some m"
proof -
  assume "borsh_QueuedMessage m = Some bs"
  then obtain msg sig where "borsh_bytes (qm_msg m) = Some msg" "borsh_bytes (qm_sig m) = Some sig"
    "bs = borsh_Service (qm_from m) @ to_le_bytes (qm_id m) @ msg @ sig" by (auto simp: borsh_QueuedMessage_def bind_eq_Some_conv)
  then show ?thesis using read_bytes [of "qm_msg m" msg sig] read_bytes [of "qm_sig m" sig "[]"]
    by (simp add: borsh_from_slice_QueuedMessage_def read_exact_def from_to_le_bytes)
qed

text \<open>The four kinds of keys do not overlap.\<close>

lemma Queue_key_length: "length d \<noteq> length d' \<Longrightarrow> length d < 256 \<Longrightarrow> length d' < 256 \<Longrightarrow> Queue_key d k \<noteq> Queue_key d' k'"
  by (auto simp: Queue_key_def dest!: arg_cong [of _ _ unat] simp: unat_of_nat)

lemma Queue_key_inject [simp]: "Queue_key d k = Queue_key d k' \<longleftrightarrow> k = k'"
  by (simp add: Queue_key_def)

lemma mq_key_kinds [simp]:
  "message_count_key f t \<noteq> last_acknowledged_key f' t'" "message_count_key f t \<noteq> message_key f' t' i"
  "last_acknowledged_key f t \<noteq> message_key f' t' i" "last_acknowledged_key f t \<noteq> message_count_key f' t'"
  "message_key f t i \<noteq> message_count_key f' t'" "message_key f t i \<noteq> last_acknowledged_key f' t'"
  by (simp_all add: message_count_key_def last_acknowledged_key_def message_key_def Queue_key_length ascii_def)

lemma intent_key_kinds:
  assumes "intent_key f t intent = Some k"
  shows "k \<noteq> message_count_key f' t'" and "k \<noteq> last_acknowledged_key f' t'" and "k \<noteq> message_key f' t' i"
  using assms by (auto simp: intent_key_def message_count_key_def last_acknowledged_key_def message_key_def Queue_key_length ascii_def)

lemma not_intent_key [simp]:
  "intent_key f t intent \<noteq> Some (message_count_key f' t')" "intent_key f t intent \<noteq> Some (last_acknowledged_key f' t')"
  "intent_key f t intent \<noteq> Some (message_key f' t' i)"
  using intent_key_kinds(1) [of f t intent "message_count_key f' t'" f' t'] intent_key_kinds(2) [of f t intent "last_acknowledged_key f' t'" f' t']
    intent_key_kinds(3) [of f t intent "message_key f' t' i" f' t' i] by auto

lemma mq_key_inject [simp]:
  "message_count_key f t = message_count_key f' t' \<longleftrightarrow> f = f' \<and> t = t'"
  "last_acknowledged_key f t = last_acknowledged_key f' t' \<longleftrightarrow> f = f' \<and> t = t'"
  "message_key f t i = message_key f' t' i' \<longleftrightarrow> f = f' \<and> t = t' \<and> i = i'"
  using Service_prefix [of t "[]" t' "[]"]
  by (simp_all add: message_count_key_def last_acknowledged_key_def message_key_def to_le_bytes_inject)

lemma intent_key_inject:
  "intent_key f t x = Some k \<Longrightarrow> intent_key f' t' y = Some k \<Longrightarrow> f = f' \<and> t = t' \<and> x = y"
  by (auto simp: intent_key_def dest: borsh_bytes_inject)

section \<open>Delivery\<close>

fun mq_run :: "('f::comm_ring_1, 'g::ab_group_add) mq_config \<Rightarrow> 'g mq_state \<Rightarrow> ('f, 'g) MessageQueueRequest list \<Rightarrow> 'g mq_state option" where
  "mq_run cfg st [] = Some st"
| "mq_run cfg st (r # rs) = Option.bind (mq_request cfg st r) (\<lambda>st. mq_run cfg st rs)"

text \<open>
  What a request means for one queue: its messages in order, the intents seen, and the last
  acknowledgement.
\<close>

fun queue_step :: "('f, 'g) mq_config \<Rightarrow> Service \<Rightarrow> Service \<Rightarrow> ('f, 'g) MessageQueueRequest \<Rightarrow>
    (bytes \<times> bytes) list \<times> bytes set \<times> u64 option \<Rightarrow> (bytes \<times> bytes) list \<times> bytes set \<times> u64 option" where
  "queue_step cfg f t (Queue meta msg sig) (msgs, seen, acked) =
     (if meta_from meta = f \<and> meta_to meta = t \<and> meta_intent meta \<notin> seen
      then (msgs @ [(msg, SchnorrSignature_serialize (mq_suite cfg) sig)], insert (meta_intent meta) seen, acked)
      else (msgs, seen, acked))"
| "queue_step cfg f t (Ack f' t' i sig) (msgs, seen, acked) = (msgs, seen, if f' = f \<and> t' = t then Some i else acked)"

definition queue_run :: "('f, 'g) mq_config \<Rightarrow> Service \<Rightarrow> Service \<Rightarrow> ('f, 'g) MessageQueueRequest list \<Rightarrow> (bytes \<times> bytes) list \<times> bytes set \<times> u64 option" where
  "queue_run cfg f t rs = fold (queue_step cfg f t) rs ([], {}, None)"

text \<open>The message the queue delivers next: the one after the last acknowledged.\<close>

definition queue_next :: "Service \<Rightarrow> (bytes \<times> bytes) list \<times> bytes set \<times> u64 option \<Rightarrow> QueuedMessage option" where
  "queue_next f q = (let i = (case snd (snd q) of None \<Rightarrow> 0 | Some i \<Rightarrow> i + 1)
     in if unat i < length (fst q)
        then Some \<lparr>qm_from = f, qm_id = i, qm_msg = fst (fst q ! unat i), qm_sig = snd (fst q ! unat i)\<rparr> else None)"

text \<open>The database holds the messages \<open>msgs\<close>, the intents \<open>seen\<close> and the acknowledgement \<open>acked\<close> of a queue.\<close>

definition queue_repr :: "db \<Rightarrow> Service \<Rightarrow> Service \<Rightarrow> (bytes \<times> bytes) list \<Rightarrow> bytes set \<Rightarrow> u64 option \<Rightarrow> bool" where
  "queue_repr d f t msgs seen acked \<longleftrightarrow>
     message_count d f t = Some (of_nat (length msgs)) \<and> last_acknowledged d f t = Some acked \<and>
     (\<forall>intent k. intent_key f t intent = Some k \<longrightarrow> (d k \<noteq> None \<longleftrightarrow> intent \<in> seen)) \<and>
     (\<forall>i. Queue_get_message d f t i = Some (if unat i < length msgs
        then Some \<lparr>qm_from = f, qm_id = i, qm_msg = fst (msgs ! unat i), qm_sig = snd (msgs ! unat i)\<rparr> else None))"

lemma queue_repr_unrelated:
  assumes "queue_repr d f t msgs seen acked"
    and "\<And>k. d' k \<noteq> d k \<Longrightarrow> k \<noteq> message_count_key f t \<and> k \<noteq> last_acknowledged_key f t \<and> (\<forall>i. k \<noteq> message_key f t i) \<and>
      (\<forall>intent. intent_key f t intent \<noteq> Some k)"
  shows "queue_repr d' f t msgs seen acked"
proof -
  have "d' (message_count_key f t) = d (message_count_key f t)" "d' (last_acknowledged_key f t) = d (last_acknowledged_key f t)"
    "\<And>i. d' (message_key f t i) = d (message_key f t i)" "\<And>intent k. intent_key f t intent = Some k \<Longrightarrow> d' k = d k"
    using assms(2) by blast+
  then show ?thesis
    using assms(1) by (simp add: queue_repr_def message_count_def last_acknowledged_def Queue_get_message_def)
qed

lemma queue_repr_ack:
  assumes "queue_repr d f t msgs seen acked"
  shows "queue_repr (d(last_acknowledged_key f t \<mapsto> to_le_bytes i)) f t msgs seen (Some i)"
proof -
  have "k \<noteq> last_acknowledged_key f t" if "intent_key f t intent = Some k" for intent k by (rule intent_key_kinds(2) [OF that])
  with assms show ?thesis
    by (simp add: queue_repr_def message_count_def last_acknowledged_def Queue_get_message_def read_u64_def from_to_le_bytes)
qed

lemma queue_repr_queue:
  assumes repr: "queue_repr d f t msgs seen acked" and key: "intent_key f t intent = Some k" and "length msgs < 2 ^ 64 - 1"
    and q: "Queue_queue_message d (d(k \<mapsto> [])) f t \<lparr>qm_from = f, qm_id = j, qm_msg = msg, qm_sig = sig\<rparr> = Some (i, d')"
  shows "queue_repr d' f t (msgs @ [(msg, sig)]) (insert intent seen) acked"
proof -
  define n where "n = (of_nat (length msgs) :: u64)"
  have un: "unat n = length msgs" using assms(3) by (simp add: n_def unat_of_nat)
  obtain bs where bs: "borsh_QueuedMessage \<lparr>qm_from = f, qm_id = n, qm_msg = msg, qm_sig = sig\<rparr> = Some bs"
    and d': "d' = d(k \<mapsto> [], message_key f t n \<mapsto> bs, message_count_key f t \<mapsto> to_le_bytes (n + 1))"
    using q repr by (auto simp: Queue_queue_message_def queue_repr_def n_def bind_eq_Some_conv)
  note kinds = intent_key_kinds [OF key]
  have "message_count d' f t = Some (of_nat (length (msgs @ [(msg, sig)])))"
  proof -
    have "of_nat (length (msgs @ [(msg, sig)])) = n + 1" by (simp add: n_def)
    then show ?thesis using d' kinds by (simp add: message_count_def read_u64_def from_to_le_bytes)
  qed
  moreover have "last_acknowledged d' f t = Some acked"
    using repr d' kinds(2) [THEN not_sym] by (simp add: queue_repr_def last_acknowledged_def)
  moreover have "d' k' \<noteq> None \<longleftrightarrow> intent' \<in> insert intent seen" if "intent_key f t intent' = Some k'" for intent' k'
  proof (cases "k' = k")
    case True
    then have "intent' = intent" using intent_key_inject [OF key, of f t intent'] that by simp
    then show ?thesis using True by (simp add: d')
  next
    case False
    then have "intent' \<noteq> intent" using key that by auto
    moreover have "d' k' = d k'" using False intent_key_kinds(1,3) [OF that] by (simp add: d')
    moreover have "d k' \<noteq> None \<longleftrightarrow> intent' \<in> seen" using repr that unfolding queue_repr_def by blast
    ultimately show ?thesis by simp
  qed
  moreover have "Queue_get_message d' f t i = Some (if unat i < length (msgs @ [(msg, sig)])
      then Some \<lparr>qm_from = f, qm_id = i, qm_msg = fst ((msgs @ [(msg, sig)]) ! unat i), qm_sig = snd ((msgs @ [(msg, sig)]) ! unat i)\<rparr> else None)" for i
  proof (cases "i = n")
    case True
    then show ?thesis using un read_QueuedMessage [OF bs] by (simp add: Queue_get_message_def d')
  next
    case False
    then have ne: "unat i \<noteq> length msgs" using un word_unat_eq_iff by metis
    have "Queue_get_message d' f t i = Queue_get_message d f t i" using False kinds(3) [of f t i] by (simp add: Queue_get_message_def d')
    with repr ne show ?thesis by (simp add: queue_repr_def nth_append)
  qed
  ultimately show ?thesis by (simp add: queue_repr_def)
qed

lemma queue_message_Some:
  assumes "queue_message cfg st meta msg sig = Some st'"
  shows "\<exists>k. intent_key (meta_from meta) (meta_to meta) (meta_intent meta) = Some k \<and>
    (if mq_db st k = None
     then \<exists>i d. Queue_queue_message (mq_db st) ((mq_db st)(k \<mapsto> [])) (meta_from meta) (meta_to meta)
            \<lparr>qm_from = meta_from meta, qm_id = - 1, qm_msg = msg, qm_sig = SchnorrSignature_serialize (mq_suite cfg) sig\<rparr> = Some (i, d)
            \<and> st' = st\<lparr>mq_db := d\<rparr>
     else st' = st)"
proof -
  obtain key k where k: "intent_key (meta_from meta) (meta_to meta) (meta_intent meta) = Some k"
    and "map_of (mq_keys st) (meta_from meta) = Some key"
    using assms by (auto simp: queue_message_def bind_eq_Some_conv split: if_splits)
  then show ?thesis using assms
    by (cases "mq_db st k = None") (auto simp: queue_message_def bind_eq_Some_conv split: if_splits)
qed

lemma queued_changes:
  assumes "Queue_queue_message d txn f t m = Some (i, d')" "d' k \<noteq> txn k"
  shows "k = message_count_key f t \<or> (\<exists>i. k = message_key f t i)"
  using assms by (auto simp: Queue_queue_message_def bind_eq_Some_conv split: if_splits)

lemma queue_repr_other:
  assumes repr: "queue_repr d f t msgs seen acked" and key: "intent_key f' t' intent = Some k" and ne: "(f', t') \<noteq> (f, t)"
    and q: "Queue_queue_message d (d(k \<mapsto> [])) f' t' m = Some (i, d')"
  shows "queue_repr d' f t msgs seen acked"
proof (rule queue_repr_unrelated [OF repr])
  fix k' assume "d' k' \<noteq> d k'"
  then have "k' = k \<or> k' = message_count_key f' t' \<or> (\<exists>i. k' = message_key f' t' i)"
    using queued_changes [OF q, of k'] by (auto split: if_splits)
  moreover have "intent_key f t intent' \<noteq> Some k" for intent' using intent_key_inject [OF key] ne by auto
  ultimately show "k' \<noteq> message_count_key f t \<and> k' \<noteq> last_acknowledged_key f t \<and> (\<forall>i. k' \<noteq> message_key f t i) \<and>
      (\<forall>intent. intent_key f t intent \<noteq> Some k')"
    using ne key by auto
qed

lemma request_repr:
  assumes repr: "queue_repr (mq_db st) f t msgs seen acked" and "mq_request cfg st r = Some st'" and room: "length msgs < 2 ^ 64 - 1"
    and step: "queue_step cfg f t r (msgs, seen, acked) = (msgs', seen', acked')"
  shows "queue_repr (mq_db st') f t msgs' seen' acked'"
proof (cases r)
  case (Queue meta msg sig)
  then obtain k where k: "intent_key (meta_from meta) (meta_to meta) (meta_intent meta) = Some k"
    and upd: "if mq_db st k = None
     then \<exists>i d. Queue_queue_message (mq_db st) ((mq_db st)(k \<mapsto> [])) (meta_from meta) (meta_to meta)
            \<lparr>qm_from = meta_from meta, qm_id = - 1, qm_msg = msg, qm_sig = SchnorrSignature_serialize (mq_suite cfg) sig\<rparr> = Some (i, d)
            \<and> st' = st\<lparr>mq_db := d\<rparr>
     else st' = st"
    using queue_message_Some [of cfg st meta msg sig st'] assms(2) by auto
  show ?thesis
  proof (cases "mq_db st k = None")
    case False
    then have "meta_from meta = f \<and> meta_to meta = t \<longrightarrow> meta_intent meta \<in> seen" "st' = st"
      using repr k upd by (auto simp: queue_repr_def)
    then show ?thesis using repr Queue step by (auto split: if_splits)
  next
    case True
    with upd obtain i d where q: "Queue_queue_message (mq_db st) ((mq_db st)(k \<mapsto> [])) (meta_from meta) (meta_to meta)
        \<lparr>qm_from = meta_from meta, qm_id = - 1, qm_msg = msg, qm_sig = SchnorrSignature_serialize (mq_suite cfg) sig\<rparr> = Some (i, d)"
      and st': "mq_db st' = d" by auto
    show ?thesis
    proof (cases "(meta_from meta, meta_to meta) = (f, t)")
      case here: True
      have "\<forall>k. intent_key f t (meta_intent meta) = Some k \<longrightarrow> (mq_db st k \<noteq> None \<longleftrightarrow> meta_intent meta \<in> seen)"
        using repr unfolding queue_repr_def by blast
      with here True k have "meta_intent meta \<notin> seen" by simp
      then show ?thesis using queue_repr_queue [OF repr _ room] here k q st' step Queue by auto
    next
      case False
      then show ?thesis using queue_repr_other [OF repr k False q] st' step Queue by auto
    qed
  qed
next
  case (Ack f' t' i sig)
  with assms(2) have st': "mq_db st' = (mq_db st)(last_acknowledged_key f' t' \<mapsto> to_le_bytes i)"
    by (auto simp: mq_ack_message_def Queue_ack_message_def bind_eq_Some_conv split: if_splits)
  show ?thesis
  proof (cases "(f', t') = (f, t)")
    case True
    then show ?thesis using queue_repr_ack [OF repr, of i] st' step Ack by auto
  next
    case False
    have "queue_repr (mq_db st') f t msgs seen acked"
    proof (rule queue_repr_unrelated [OF repr])
      fix k assume "mq_db st' k \<noteq> mq_db st k"
      then have "k = last_acknowledged_key f' t'" by (auto simp: st' split: if_splits)
      then show "k \<noteq> message_count_key f t \<and> k \<noteq> last_acknowledged_key f t \<and> (\<forall>i. k \<noteq> message_key f t i) \<and>
          (\<forall>intent. intent_key f t intent \<noteq> Some k)"
        using False by auto
    qed
    then show ?thesis using step Ack False by auto
  qed
qed

lemma queue_step_length: "length (fst (queue_step cfg f t r q)) \<le> length (fst q) + 1"
  by (cases r; cases q) auto

lemma mq_request_queues: "mq_request cfg st r = Some st' \<Longrightarrow> mq_queues st' = mq_queues st"
  by (cases r) (auto simp: queue_message_def mq_ack_message_def bind_eq_Some_conv split: if_splits)

lemma run_repr:
  "mq_run cfg st rs = Some st' \<Longrightarrow> queue_repr (mq_db st) f t (fst q) (fst (snd q)) (snd (snd q)) \<Longrightarrow> length (fst q) + length rs < 2 ^ 64 \<Longrightarrow>
   let q' = fold (queue_step cfg f t) rs q in
     queue_repr (mq_db st') f t (fst q') (fst (snd q')) (snd (snd q')) \<and> mq_queues st' = mq_queues st"
proof (induction rs arbitrary: st q)
  case (Cons r rs)
  from Cons.prems(1) obtain st1 where r: "mq_request cfg st r = Some st1" "mq_run cfg st1 rs = Some st'"
    by (auto simp: bind_eq_Some_conv)
  define q1 where "q1 = queue_step cfg f t r q"
  have len: "length (fst q1) \<le> length (fst q) + 1" unfolding q1_def by (rule queue_step_length)
  have "queue_repr (mq_db st1) f t (fst q1) (fst (snd q1)) (snd (snd q1))"
    by (rule request_repr [OF Cons.prems(2) r(1)]) (use Cons.prems(3) in \<open>simp_all add: q1_def\<close>)
  from Cons.IH [OF r(2) this] len Cons.prems(3) show ?case by (simp add: q1_def Let_def mq_request_queues [OF r(1)])
qed (simp add: Let_def)

lemma empty_repr: "queue_repr Map.empty f t [] {} None"
  by (simp add: queue_repr_def message_count_def last_acknowledged_def Queue_get_message_def)

text \<open>
  C11: the message queue delivers what it was sent. Started on an empty database, after any
  sequence of requests it accepted, the next message of a registered queue is the oldest one
  after the last acknowledged: the messages are numbered in the order they were queued, a
  repeated intent is not queued again, and the requests of other queues do not interfere.
\<close>

theorem message_queue_delivers:
  assumes "mq_db st = Map.empty" "mq_run cfg st rs = Some st'" "length rs < 2 ^ 64" "(f, t) \<in> set (mq_queues st)"
  shows "get_next_message st' f t = Some (queue_next f (queue_run cfg f t rs))"
proof -
  have "queue_repr (mq_db st) f t (fst ([], {}, None)) (fst (snd ([], {}, None))) (snd (snd ([], {}, None)))"
    by (simp add: assms(1) empty_repr)
  from run_repr [OF assms(2) this] assms(3)
  have "let q = queue_run cfg f t rs in queue_repr (mq_db st') f t (fst q) (fst (snd q)) (snd (snd q)) \<and> mq_queues st' = mq_queues st"
    by (simp add: queue_run_def)
  with assms(4) show ?thesis
    by (simp add: get_next_message_def queue_repr_def queue_next_def Let_def)
qed

definition example_mq :: "(u64, u64) mq_config" where
  "example_mq = \<lparr>mq_suite = example_suite, mq_blake2b = (\<lambda>bs. bs), mq_hash_to_F = (\<lambda>_ _. 7)\<rparr>"

definition example_mq_request :: "(u64, u64) MessageQueueRequest" where
  "example_mq_request = Queue \<lparr>meta_from = Processor NetworkId.Bitcoin, meta_to = Coordinator, meta_intent = [1]\<rparr> [8] (SchnorrSignature_sign example_suite 5 2 7)"

definition example_mq_state :: "u64 mq_state" where
  "example_mq_state = \<lparr>mq_db = Map.empty, mq_keys = [(Processor NetworkId.Bitcoin, 15)], mq_queues = [(Processor NetworkId.Bitcoin, Coordinator)]\<rparr>"

lemma example_mq_accepts: "\<exists>st'. mq_run example_mq example_mq_state [example_mq_request] = Some st'"
proof -
  have "point_mul example_suite 5 (generator example_suite) = 15" by (simp add: example_suite_def)
  then have "SchnorrSignature_verify example_suite (SchnorrSignature_sign example_suite 5 2 7) 15 7 = Some True"
    using schnorr_sign_verifies [OF example_laws, of 5 2 7] by simp
  then show ?thesis
    by (simp add: example_mq_def example_mq_request_def example_mq_state_def queue_message_def message_challenge_def Let_def
        intent_key_def borsh_bytes_def Queue_queue_message_def message_count_def borsh_QueuedMessage_def SchnorrSignature_serialize_def
        SchnorrSignature_sign_def example_suite_def)
qed

theorem message_queue_delivers_witness:
  "\<exists>st'. mq_run example_mq example_mq_state [example_mq_request] = Some st' \<and>
    get_next_message st' (Processor NetworkId.Bitcoin) Coordinator =
      Some (Some \<lparr>qm_from = Processor NetworkId.Bitcoin, qm_id = 0, qm_msg = [8],
        qm_sig = SchnorrSignature_serialize example_suite (SchnorrSignature_sign example_suite 5 2 7)\<rparr>)"
proof -
  obtain st' where st': "mq_run example_mq example_mq_state [example_mq_request] = Some st'" using example_mq_accepts by blast
  have "get_next_message st' (Processor NetworkId.Bitcoin) Coordinator =
      Some (queue_next (Processor NetworkId.Bitcoin) (queue_run example_mq (Processor NetworkId.Bitcoin) Coordinator [example_mq_request]))"
    by (rule message_queue_delivers [OF _ st']) (simp_all add: example_mq_state_def)
  also have "queue_next (Processor NetworkId.Bitcoin) (queue_run example_mq (Processor NetworkId.Bitcoin) Coordinator [example_mq_request]) =
      Some \<lparr>qm_from = Processor NetworkId.Bitcoin, qm_id = 0, qm_msg = [8],
        qm_sig = SchnorrSignature_serialize example_suite (SchnorrSignature_sign example_suite 5 2 7)\<rparr>"
    by (simp add: queue_next_def queue_run_def example_mq_request_def example_mq_def)
  finally show ?thesis using st' by blast
qed

end
