(* ===== verification/Tendermint.thy ===== *)
theory Tendermint
  imports Schnorr
begin

text \<open>
  The Tendermint machine (\<open>coordinator/tributary/tendermint\<close>): its messages and their encoding,
  rounds and their timeouts, the log of the messages of a block, the state of the block being
  decided, the handler of a message, and the loop that runs the machine. The network the machine is
  generic over is a record of the functions the traits of \<open>ext.rs\<close> demand. What an asynchronous call
  returns, whether a block validates and which block to propose next, is an argument of the handler
  that makes the call. A panic is \<open>None\<close>. A hash map is an association list, a clock an integer of
  milliseconds. The calls the machine makes on the network are recorded in their order.
\<close>

section \<open>Data\<close>

subsection \<open>Messages (\<open>lib.rs\<close>)\<close>

datatype Step = Propose | Prevote | Precommit

datatype ('b, 's) Data = Proposal "u32 option" 'b | Prevote "bytes option" | Precommit "(bytes \<times> 's) option"

fun data_eq :: "('b, 's) Data \<Rightarrow> ('b, 's) Data \<Rightarrow> bool" where
  "data_eq (Proposal valid_round block) (Proposal valid_round2 block2) \<longleftrightarrow> valid_round = valid_round2 \<and> block = block2"
| "data_eq (Prevote block_id) (Prevote block_id2) \<longleftrightarrow> block_id = block_id2"
| "data_eq (Precommit None) (Precommit None) \<longleftrightarrow> True"
| "data_eq (Precommit (Some (block_id, _))) (Precommit (Some (block_id2, _))) \<longleftrightarrow> block_id = block_id2"
| "data_eq _ _ \<longleftrightarrow> False"

fun data_step :: "('b, 's) Data \<Rightarrow> Step" where
  "data_step (Proposal _ _) = Step.Propose"
| "data_step (Prevote _) = Step.Prevote"
| "data_step (Precommit _) = Step.Precommit"

record ('v, 'b, 's) Message =
  sender :: 'v
  msg_block :: u64
  msg_round :: u32
  data :: "('b, 's) Data"

record ('v, 'b, 's) SignedMessage =
  msg :: "('v, 'b, 's) Message"
  msg_sig :: 's

definition message_eq :: "('v, 'b, 's) Message \<Rightarrow> ('v, 'b, 's) Message \<Rightarrow> bool" where
  "message_eq a b \<longleftrightarrow> sender a = sender b \<and> msg_block a = msg_block b \<and> msg_round a = msg_round b \<and> data_eq (data a) (data b)"

datatype Evidence = ConflictingMessages bytes bytes | InvalidPrecommit bytes | InvalidValidRound bytes

datatype 'v TendermintError = Malicious 'v "Evidence option" | Temporal | AlreadyHandled | InvalidEvidence

datatype SlashReason = FailToPropose | InvalidBlock | InvalidMessage

datatype SlashEvent = Id SlashReason u64 u32 | WithEvidence Evidence

subsection \<open>The network (\<open>ext.rs\<close>)\<close>

record ('v, 'b, 's, 'a) Network_trait =
  validator_id :: "'v option"
  sign :: "bytes \<Rightarrow> 's"
  verify :: "'v \<Rightarrow> bytes \<Rightarrow> 's \<Rightarrow> bool"
  aggregate :: "'v list \<Rightarrow> bytes \<Rightarrow> 's list \<Rightarrow> 'a"
  verify_aggregate :: "'v list \<Rightarrow> bytes \<Rightarrow> 'a \<Rightarrow> bool"
  total_weight :: u64
  weight_of :: "'v \<Rightarrow> u64"
  proposer :: "u64 \<Rightarrow> u32 \<Rightarrow> 'v"
  block_id :: "'b \<Rightarrow> bytes option"
  BLOCK_PROCESSING_TIME :: u32
  LATENCY_TIME :: u32
  genesis :: bytes
  encode_validator :: "'v \<Rightarrow> bytes"
  encode_block :: "'b \<Rightarrow> bytes"
  encode_signature :: "'s \<Rightarrow> bytes"
  decode_validator :: "'v reader"
  decode_block :: "'b reader"
  decode_signature :: "'s reader"

record ('v, 'a) Commit =
  commit_end_time :: u64
  commit_validators :: "'v list"
  commit_signature :: 'a

datatype BlockError = Fatal | TemporalBlock

definition threshold :: "('v, 'b, 's, 'a) Network_trait \<Rightarrow> u64" where
  "threshold N = total_weight N * 2 div 3 + 1"

definition fault_threshold :: "('v, 'b, 's, 'a) Network_trait \<Rightarrow> u64" where
  "fault_threshold N = (total_weight N - threshold N) + 1"

definition block_time :: "('v, 'b, 's, 'a) Network_trait \<Rightarrow> u32 option" where
  "block_time N = (let raw = BLOCK_PROCESSING_TIME N + 3 * LATENCY_TIME N; res = raw div 1000
     in if res * 1000 = raw then Some res else None)"

definition commit_msg :: "u64 \<Rightarrow> bytes \<Rightarrow> bytes" where
  "commit_msg end_time i = to_le_bytes end_time @ i"

definition verify_commit :: "('v, 'b, 's, 'a) Network_trait \<Rightarrow> bytes \<Rightarrow> ('v, 'a) Commit \<Rightarrow> bool" where
  "verify_commit N i commit =
     (if \<not> distinct (commit_validators commit) then False
      else if \<not> verify_aggregate N (commit_validators commit) (commit_msg (commit_end_time commit) i) (commit_signature commit) then False
      else sum_list (map (weight_of N) (commit_validators commit)) \<ge> threshold N)"

subsection \<open>Encodings\<close>

fun encode_Step :: "Step \<Rightarrow> bytes" where
  "encode_Step Step.Propose = [0]"
| "encode_Step Step.Prevote = [1]"
| "encode_Step Step.Precommit = [2]"

fun encode_Data :: "('v, 'b, 's, 'a) Network_trait \<Rightarrow> ('b, 's) Data \<Rightarrow> bytes" where
  "encode_Data N (Proposal valid_round block) = 0 # encode_option to_le_bytes valid_round @ encode_block N block"
| "encode_Data N (Prevote i) = 1 # encode_option (\<lambda>i. i) i"
| "encode_Data N (Precommit p) = 2 # encode_option (\<lambda>(i, s). i @ encode_signature N s) p"

definition encode_Message :: "('v, 'b, 's, 'a) Network_trait \<Rightarrow> ('v, 'b, 's) Message \<Rightarrow> bytes" where
  "encode_Message N m = encode_validator N (sender m) @ to_le_bytes (msg_block m) @ to_le_bytes (msg_round m) @ encode_Data N (data m)"

definition encode_SignedMessage :: "('v, 'b, 's, 'a) Network_trait \<Rightarrow> ('v, 'b, 's) SignedMessage \<Rightarrow> bytes" where
  "encode_SignedMessage N s = encode_Message N (msg s) @ encode_signature N (msg_sig s)"

definition read_option :: "'x reader \<Rightarrow> 'x option reader" where
  "read_option rd bs = (case bs of [] \<Rightarrow> None
     | tag # rest \<Rightarrow> if tag = 0 then Some (None, rest) else if tag = 1 then map_option (\<lambda>(x, rest). (Some x, rest)) (rd rest) else None)"

definition read_u32_le :: "u32 reader" where
  "read_u32_le bs = map_option (\<lambda>(x, rest). (from_le_bytes x, rest)) (read_exact 4 bs)"

definition read_u64_le :: "u64 reader" where
  "read_u64_le bs = map_option (\<lambda>(x, rest). (from_le_bytes x, rest)) (read_exact 8 bs)"

definition decode_Data :: "('v, 'b, 's, 'a) Network_trait \<Rightarrow> ('b, 's) Data reader" where
  "decode_Data N bs = (case bs of [] \<Rightarrow> None
     | tag # rest \<Rightarrow>
         if tag = 0 then Option.bind (read_option read_u32_le rest) (\<lambda>(vr, rest). Option.bind (decode_block N rest) (\<lambda>(b, rest). Some (Proposal vr b, rest)))
         else if tag = 1 then Option.bind (read_option (read_exact 32) rest) (\<lambda>(i, rest). Some (Prevote i, rest))
         else if tag = 2 then Option.bind (read_option (\<lambda>rest. Option.bind (read_exact 32 rest) (\<lambda>(i, rest).
             Option.bind (decode_signature N rest) (\<lambda>(s, rest). Some ((i, s), rest)))) rest) (\<lambda>(p, rest). Some (Precommit p, rest))
         else None)"

definition decode_signed_message :: "('v, 'b, 's, 'a) Network_trait \<Rightarrow> bytes \<Rightarrow> ('v, 'b, 's) SignedMessage option" where
  "decode_signed_message N bs =
     Option.bind (decode_validator N bs) (\<lambda>(v, bs). Option.bind (read_u64_le bs) (\<lambda>(block, bs).
     Option.bind (read_u32_le bs) (\<lambda>(rnd, bs). Option.bind (decode_Data N bs) (\<lambda>(d, bs).
     Option.bind (decode_signature N bs) (\<lambda>(s, bs).
       Some \<lparr>msg = \<lparr>sender = v, msg_block = block, msg_round = rnd, data = d\<rparr>, msg_sig = s\<rparr>)))))"

definition verify_signature :: "('v, 'b, 's, 'a) Network_trait \<Rightarrow> ('v, 'b, 's) SignedMessage \<Rightarrow> bool" where
  "verify_signature N s = verify N (sender (msg s)) (encode_Message N (msg s)) (msg_sig s)"

section \<open>Rounds (\<open>time.rs\<close>, \<open>round.rs\<close>)\<close>

record CanonicalInstant =
  canonical :: u64
  instant :: int

text \<open>The clocks are read at the call: the monotonic one and the system's, in milliseconds.\<close>

definition CanonicalInstant_new :: "int \<Rightarrow> int \<Rightarrow> u64 \<Rightarrow> CanonicalInstant" where
  "CanonicalInstant_new instant_now sys_now time =
     \<lparr>canonical = time, instant = instant_now - max 0 (sys_now - 1000 * uint time)\<rparr>"

definition add_duration :: "CanonicalInstant \<Rightarrow> u64 \<Rightarrow> CanonicalInstant" where
  "add_duration t millis = \<lparr>canonical = canonical t + millis div 1000, instant = instant t + uint millis\<rparr>"

record RoundData =
  rd_number :: u32
  rd_start_time :: CanonicalInstant
  rd_step :: Step
  rd_timeouts :: "(Step \<times> int) list"

definition RoundData_new :: "u32 \<Rightarrow> CanonicalInstant \<Rightarrow> RoundData" where
  "RoundData_new number start_time = \<lparr>rd_number = number, rd_start_time = start_time, rd_step = Step.Propose, rd_timeouts = []\<rparr>"

definition round_timeout :: "('v, 'b, 's, 'a) Network_trait \<Rightarrow> RoundData \<Rightarrow> Step \<Rightarrow> CanonicalInstant" where
  "round_timeout N rd step =
     (let adjusted_block = BLOCK_PROCESSING_TIME N * (rd_number rd + 1);
          adjusted_latency = LATENCY_TIME N * (rd_number rd + 1);
          offset = (case step of Step.Propose \<Rightarrow> adjusted_block + adjusted_latency
             | Step.Prevote \<Rightarrow> adjusted_block + 2 * adjusted_latency
             | Step.Precommit \<Rightarrow> adjusted_block + 3 * adjusted_latency)
      in add_duration (rd_start_time rd) (ucast offset))"

definition round_end_time :: "('v, 'b, 's, 'a) Network_trait \<Rightarrow> RoundData \<Rightarrow> CanonicalInstant" where
  "round_end_time N rd = round_timeout N rd Step.Precommit"

definition set_timeout :: "('v, 'b, 's, 'a) Network_trait \<Rightarrow> Step \<Rightarrow> RoundData \<Rightarrow> RoundData" where
  "set_timeout N step rd =
     (case map_of (rd_timeouts rd) step of
       None \<Rightarrow> rd\<lparr>rd_timeouts := AList.update step (instant (round_timeout N rd step)) (rd_timeouts rd)\<rparr>
     | Some _ \<Rightarrow> rd)"

text \<open>The step whose timeout has expired at \<open>now\<close>; the selection prefers the earlier step.\<close>

definition timeout_future :: "int \<Rightarrow> RoundData \<Rightarrow> Step option" where
  "timeout_future now rd = List.find (\<lambda>step. case map_of (rd_timeouts rd) step of None \<Rightarrow> False | Some t \<Rightarrow> t \<le> now)
     [Step.Propose, Step.Prevote, Step.Precommit]"

section \<open>The message log (\<open>message_log.rs\<close>)\<close>

type_synonym ('v, 'b, 's) RoundLog = "('v \<times> (Step \<times> ('v, 'b, 's) SignedMessage) list) list"
type_synonym ('v, 'b, 's) MessageLog = "(u32 \<times> ('v, 'b, 's) RoundLog) list"

definition log_message :: "('v, 'b, 's, 'a) Network_trait \<Rightarrow> ('v, 'b, 's) SignedMessage \<Rightarrow> ('v, 'b, 's) MessageLog \<Rightarrow>
    ('v, 'b, 's) MessageLog \<times> ('v TendermintError + bool)" where
  "log_message N sm l =
     (let m = msg sm;
          rnd = (case map_of l (msg_round m) of None \<Rightarrow> [] | Some rnd \<Rightarrow> rnd);
          msgs = (case map_of rnd (sender m) of None \<Rightarrow> [] | Some msgs \<Rightarrow> msgs);
          step = data_step (data m);
          entry = (\<lambda>msgs. AList.update (msg_round m) (AList.update (sender m) msgs rnd) l)
      in case map_of msgs step of
           Some existing \<Rightarrow>
             if \<not> data_eq (data (msg existing)) (data m)
             then (entry msgs, Inl (Malicious (sender m) (Some (ConflictingMessages (encode_SignedMessage N existing) (encode_SignedMessage N sm)))))
             else (entry msgs, Inr False)
         | None \<Rightarrow> (entry (AList.update step sm msgs), Inr True))"

definition count_instance :: "('v, 'b, 's, 'a) Network_trait \<Rightarrow> ('b, 's) Data \<Rightarrow> 'v \<times> (Step \<times> ('v, 'b, 's) SignedMessage) list \<Rightarrow> u64 \<times> u64 \<Rightarrow> u64 \<times> u64" where
  "count_instance N d = (\<lambda>(participant, msgs) (participating, weight).
     case map_of msgs (data_step d) of None \<Rightarrow> (participating, weight)
     | Some m \<Rightarrow> (participating + weight_of N participant,
         if data_eq d (data (msg m)) then weight + weight_of N participant else weight))"

definition message_instances :: "('v, 'b, 's, 'a) Network_trait \<Rightarrow> ('v, 'b, 's) MessageLog \<Rightarrow> u32 \<Rightarrow> ('b, 's) Data \<Rightarrow> (u64 \<times> u64) option" where
  "message_instances N l rnd d = map_option (\<lambda>rnd. fold (count_instance N d) rnd (0, 0)) (map_of l rnd)"

definition round_participation :: "('v, 'b, 's, 'a) Network_trait \<Rightarrow> ('v, 'b, 's) MessageLog \<Rightarrow> u32 \<Rightarrow> u64" where
  "round_participation N l rnd = (case map_of l rnd of None \<Rightarrow> 0
     | Some rnd \<Rightarrow> fold (\<lambda>participant weight. weight + weight_of N participant) (map fst rnd) 0)"

definition has_participation :: "('v, 'b, 's, 'a) Network_trait \<Rightarrow> ('v, 'b, 's) MessageLog \<Rightarrow> u32 \<Rightarrow> Step \<Rightarrow> bool option" where
  "has_participation N l rnd step = map_option
     (\<lambda>rnd. fold (\<lambda>(participant, msgs) participating. if map_of msgs step \<noteq> None then participating + weight_of N participant else participating) rnd 0
        \<ge> threshold N) (map_of l rnd)"

definition has_consensus :: "('v, 'b, 's, 'a) Network_trait \<Rightarrow> ('v, 'b, 's) MessageLog \<Rightarrow> u32 \<Rightarrow> ('b, 's) Data \<Rightarrow> bool option" where
  "has_consensus N l rnd d = map_option (\<lambda>(_, weight). weight \<ge> threshold N) (message_instances N l rnd d)"

definition log_get :: "('v, 'b, 's) MessageLog \<Rightarrow> u32 \<Rightarrow> 'v \<Rightarrow> Step \<Rightarrow> ('v, 'b, 's) SignedMessage option" where
  "log_get l rnd s step = Option.bind (map_of l rnd) (\<lambda>rnd. Option.bind (map_of rnd s) (\<lambda>msgs. map_of msgs step))"

section \<open>The block being decided (\<open>block.rs\<close>)\<close>

text \<open>The database, of which the machine and the block have handles, is kept with the machine.\<close>

record ('v, 'b, 's) BlockData =
  number :: u64
  bd_validator_id :: "'v option"
  bd_proposal :: "'b option"
  msg_log :: "('v, 'b, 's) MessageLog"
  slashes :: "'v list"
  end_time :: "(u32 \<times> CanonicalInstant) list"
  bd_round :: "RoundData option"
  locked :: "(u32 \<times> bytes) option"
  valid :: "(u32 \<times> 'b) option"

definition BlockData_new :: "u64 \<Rightarrow> 'v option \<Rightarrow> 'b option \<Rightarrow> ('v, 'b, 's) BlockData" where
  "BlockData_new n v proposal = \<lparr>number = n, bd_validator_id = v, bd_proposal = proposal, msg_log = [], slashes = [],
     end_time = [], bd_round = None, locked = None, valid = None\<rparr>"

fun populate_rounds :: "('v, 'b, 's, 'a) Network_trait \<Rightarrow> u32 list \<Rightarrow> (u32 \<times> CanonicalInstant) list \<Rightarrow> (u32 \<times> CanonicalInstant) list option" where
  "populate_rounds N [] ends = Some ends"
| "populate_rounds N (r # rs) ends =
     Option.bind (map_of ends (r - 1)) (\<lambda>prior. populate_rounds N rs (AList.update r (round_end_time N (RoundData_new r prior)) ends))"

definition populate_end_time :: "('v, 'b, 's, 'a) Network_trait \<Rightarrow> u32 \<Rightarrow> ('v, 'b, 's) BlockData \<Rightarrow> ('v, 'b, 's) BlockData option" where
  "populate_end_time N rnd b =
     Option.bind (bd_round b) (\<lambda>rd. Option.bind (populate_rounds N (map of_nat [unat (rd_number rd + 1)..<Suc (unat rnd)]) (end_time b))
       (\<lambda>ends. Some (b\<lparr>end_time := ends\<rparr>)))"

definition new_round :: "('v, 'b, 's, 'a) Network_trait \<Rightarrow> u32 \<Rightarrow> 'v \<Rightarrow> CanonicalInstant option \<Rightarrow> ('v, 'b, 's) BlockData \<Rightarrow>
    (('v, 'b, 's) BlockData \<times> ('b, 's) Data option) option" where
  "new_round N rnd prop time b =
     Option.bind (if rnd \<noteq> 0 then populate_end_time N rnd b else Some b) (\<lambda>b.
     Option.bind (case time of Some t \<Rightarrow> Some t | None \<Rightarrow> map_of (end_time b) (rnd - 1)) (\<lambda>start.
     let rd = RoundData_new rnd start;
         b = b\<lparr>bd_round := Some rd, end_time := AList.update rnd (round_end_time N rd) (end_time b)\<rparr>
     in if Some prop = bd_validator_id b
        then Some (b, map_option (Proposal (map_option fst (valid b)))
               (case map_option snd (valid b) of Some block \<Rightarrow> Some block | None \<Rightarrow> bd_proposal b))
        else Some (b\<lparr>bd_round := Some (set_timeout N Step.Propose rd)\<rparr>, None)))"

definition sent_key :: "('v, 'b, 's, 'a) Network_trait \<Rightarrow> u64 \<Rightarrow> u32 \<Rightarrow> Step \<Rightarrow> bytes" where
  "sent_key N n r step = ascii ''tendermint-machine_already_sent_message'' @ genesis N @ to_le_bytes n @ to_le_bytes r @ encode_Step step"

definition block_message :: "('v, 'b, 's, 'a) Network_trait \<Rightarrow> ('b, 's) Data \<Rightarrow> db \<Rightarrow> ('v, 'b, 's) BlockData \<Rightarrow>
    (db \<times> ('v, 'b, 's) BlockData \<times> ('v, 'b, 's) Message option) option" where
  "block_message N d db b =
     Option.bind (bd_round b) (\<lambda>rd.
     let b = b\<lparr>bd_round := Some (rd\<lparr>rd_step := data_step d\<rparr>)\<rparr>;
         key = sent_key N (number b) (rd_number rd) (data_step d)
     in case bd_validator_id b of
          None \<Rightarrow> Some (db, b, None)
        | Some v \<Rightarrow>
            if db key \<noteq> None then Some (db, b, None)
            else Some (db(key \<mapsto> []), b, Some \<lparr>sender = v, msg_block = number b, msg_round = rd_number rd, data = d\<rparr>))"

section \<open>The machine (\<open>lib.rs\<close>)\<close>

datatype ('v, 'b, 's, 'a) net_call =
    NetBroadcast "('v, 'b, 's) SignedMessage"
  | NetSlash 'v SlashEvent
  | NetAddBlock 'b "('v, 'a) Commit"
  | Produced u64 bytes
  | SyncedBlockResult bool

text \<open>\<open>Produced\<close> stands for the log line that the machine produced a block, with the block's number.\<close>

record ('v, 'b, 's, 'a) TendermintMachine =
  tm_db :: db
  queue :: "('v, 'b, 's) Message list"
  block :: "('v, 'b, 's) BlockData"
  calls :: "('v, 'b, 's, 'a) net_call list"

definition net_call :: "('v, 'b, 's, 'a) net_call \<Rightarrow> ('v, 'b, 's, 'a) TendermintMachine \<Rightarrow> ('v, 'b, 's, 'a) TendermintMachine" where
  "net_call c m = m\<lparr>calls := calls m @ [c]\<rparr>"

definition broadcast :: "('v, 'b, 's, 'a) Network_trait \<Rightarrow> ('b, 's) Data \<Rightarrow> ('v, 'b, 's, 'a) TendermintMachine \<Rightarrow> ('v, 'b, 's, 'a) TendermintMachine option" where
  "broadcast N d m = Option.bind (block_message N d (tm_db m) (block m)) (\<lambda>(db, b, res).
     Some (m\<lparr>tm_db := db, block := b, queue := queue m @ (case res of None \<Rightarrow> [] | Some x \<Rightarrow> [x])\<rparr>))"

definition machine_round :: "('v, 'b, 's, 'a) Network_trait \<Rightarrow> u32 \<Rightarrow> CanonicalInstant option \<Rightarrow> ('v, 'b, 's, 'a) TendermintMachine \<Rightarrow>
    (('v, 'b, 's, 'a) TendermintMachine \<times> bool) option" where
  "machine_round N rnd time m =
     Option.bind (new_round N rnd (proposer N (number (block m)) rnd) time (block m)) (\<lambda>(b, res).
     case res of
       Some d \<Rightarrow> Option.bind (broadcast N d (m\<lparr>block := b\<rparr>)) (\<lambda>m. Some (m, True))
     | None \<Rightarrow> Some (m\<lparr>block := b\<rparr>, False))"

definition reset :: "('v, 'b, 's, 'a) Network_trait \<Rightarrow> u32 \<Rightarrow> 'b option \<Rightarrow> ('v, 'b, 's, 'a) TendermintMachine \<Rightarrow> ('v, 'b, 's, 'a) TendermintMachine option" where
  "reset N end_round proposal m =
     Option.bind (populate_end_time N end_round (block m)) (\<lambda>b. Option.bind (map_of (end_time b) end_round) (\<lambda>round_end.
     Option.bind (machine_round N 0 (Some round_end)
       (m\<lparr>queue := [], block := BlockData_new (number b + 1) (validator_id N) proposal\<rparr>)) (\<lambda>(m, _). Some m)))"

partial_function (option) later_commit_round :: "('v, 'b, 's, 'a) Network_trait \<Rightarrow> u64 \<Rightarrow> u32 \<Rightarrow> ('v, 'b, 's) BlockData \<Rightarrow> (u32 \<times> ('v, 'b, 's) BlockData) option" where
  "later_commit_round N time rnd b =
     Option.bind (map_of (end_time b) rnd) (\<lambda>t.
     if canonical t < time then Option.bind (populate_end_time N (rnd + 1) b) (\<lambda>b. later_commit_round N time (rnd + 1) b)
     else Some (rnd, b))"

function prior_commit_round :: "u64 \<Rightarrow> u32 \<Rightarrow> (u32 \<times> CanonicalInstant) list \<Rightarrow> u32 option" where
  "prior_commit_round time rnd ends =
     Option.bind (map_of ends rnd) (\<lambda>t.
     if canonical t > time then if rnd = 0 then None else prior_commit_round time (rnd - 1) ends
     else Some rnd)"
  by pat_completeness auto
termination
  by (relation "measure (\<lambda>(_, r, _). unat r)") (auto simp: unat_minus_one unat_gt_0)

definition reset_by_commit :: "('v, 'b, 's, 'a) Network_trait \<Rightarrow> ('v, 'a) Commit \<Rightarrow> 'b option \<Rightarrow> ('v, 'b, 's, 'a) TendermintMachine \<Rightarrow> ('v, 'b, 's, 'a) TendermintMachine option" where
  "reset_by_commit N commit proposal m =
     Option.bind (bd_round (block m)) (\<lambda>rd.
     Option.bind (later_commit_round N (commit_end_time commit) (rd_number rd) (block m)) (\<lambda>(rnd, b).
     Option.bind (prior_commit_round (commit_end_time commit) rnd (end_time b)) (\<lambda>rnd.
     reset N rnd proposal (m\<lparr>block := b\<rparr>))))"

definition slash :: "'v \<Rightarrow> SlashEvent \<Rightarrow> ('v, 'b, 's, 'a) TendermintMachine \<Rightarrow> ('v, 'b, 's, 'a) TendermintMachine" where
  "slash v ev m =
     (if v \<notin> set (slashes (block m))
      then net_call (NetSlash v ev) (m\<lparr>block := (block m)\<lparr>slashes := List.insert v (slashes (block m))\<rparr>\<rparr>)
      else m)"

text \<open>\<open>new\<close>, after the sleep until the last block ended.\<close>

definition machine_new :: "('v, 'b, 's, 'a) Network_trait \<Rightarrow> db \<Rightarrow> int \<Rightarrow> int \<Rightarrow> u64 \<Rightarrow> u64 \<Rightarrow> 'b \<Rightarrow> ('v, 'b, 's, 'a) TendermintMachine option" where
  "machine_new N db instant_now sys_now last_block last_time proposal =
     Option.bind (machine_round N 0 (Some (CanonicalInstant_new instant_now sys_now last_time))
       \<lparr>tm_db = db, queue = [], block = BlockData_new (last_block + 1) (validator_id N) (Some proposal), calls = []\<rparr>) (\<lambda>(m, _). Some m)"

subsection \<open>Messages\<close>

definition verify_precommit_signature :: "('v, 'b, 's, 'a) Network_trait \<Rightarrow> ('v, 'b, 's) BlockData \<Rightarrow> ('v, 'b, 's) SignedMessage \<Rightarrow> 'v TendermintError + bool" where
  "verify_precommit_signature N b sm =
     (case data (msg sm) of
       Precommit None \<Rightarrow> Inr True
     | Precommit (Some (i, sig)) \<Rightarrow>
         (case map_of (end_time b) (msg_round (msg sm)) of
            Some t \<Rightarrow>
              if \<not> verify N (sender (msg sm)) (commit_msg (canonical t) i) sig
              then Inl (Malicious (sender (msg sm)) (Some (InvalidPrecommit (encode_SignedMessage N sm))))
              else Inr True
          | None \<Rightarrow> Inr False)
     | _ \<Rightarrow> Inr False)"

text \<open>
  The handler of a message, \<open>message\<close>, in parts: the finalizer, the jump to a later round, and what
  is done in the current round, for prevotes, without a vote, and with a supermajority of prevotes.
\<close>

fun is_proposal :: "('b, 's) Data \<Rightarrow> bool" where
  "is_proposal (Proposal _ _) = True"
| "is_proposal _ = False"

fun is_precommit :: "('b, 's) Data \<Rightarrow> bool" where
  "is_precommit (Precommit _) = True"
| "is_precommit _ = False"

fun is_prevote :: "('b, 's) Data \<Rightarrow> bool" where
  "is_prevote (Prevote _) = True"
| "is_prevote _ = False"

definition finalizer :: "('v, 'b, 's, 'a) Network_trait \<Rightarrow> ('v, 'b, 's) Message \<Rightarrow> ('v, 'b, 's) BlockData \<Rightarrow> 'b option option" where
  "finalizer N m b =
     (if is_proposal (data m) \<or> is_precommit (data m)
      then (case log_get (msg_log b) (msg_round m) (proposer N (number b) (msg_round m)) Step.Propose of
          Some proposal_signed \<Rightarrow>
            (case data (msg proposal_signed) of
               Proposal _ proposed \<Rightarrow>
                 Option.bind (block_id N proposed) (\<lambda>i.
                 Option.bind (has_consensus N (msg_log b) (msg_round m) (Precommit (Some (i, sign N [])))) (\<lambda>consensus.
                 if consensus
                 then Option.bind (bd_round b) (\<lambda>rd. if msg_round m \<le> rd_number rd then Some (Some proposed) else None)
                 else Some None))
             | _ \<Rightarrow> Some None)
        | None \<Rightarrow> Some None)
      else Some None)"

fun recheck_precommits :: "('v, 'b, 's, 'a) Network_trait \<Rightarrow> u32 \<Rightarrow> ('v, 'b, 's) RoundLog \<Rightarrow> ('v, 'b, 's, 'a) TendermintMachine \<Rightarrow> ('v, 'b, 's, 'a) TendermintMachine option" where
  "recheck_precommits N rnd [] m = Some m"
| "recheck_precommits N rnd ((v, msgs) # rest) m =
     (case map_of msgs Step.Precommit of
        None \<Rightarrow> recheck_precommits N rnd rest m
      | Some existing \<Rightarrow>
          (case verify_precommit_signature N (block m) existing of
             Inr res \<Rightarrow> if res then recheck_precommits N rnd rest m else None
           | Inl _ \<Rightarrow>
               Option.bind (map_of (msg_log (block m)) rnd) (\<lambda>round_log. Option.bind (map_of round_log v) (\<lambda>v_log.
               Option.bind (map_of v_log Step.Precommit) (\<lambda>removed.
               let b = (block m)\<lparr>msg_log := AList.update rnd (AList.update v (AList.delete Step.Precommit v_log) round_log) (msg_log (block m))\<rparr>
               in recheck_precommits N rnd rest
                    (slash v (WithEvidence (InvalidPrecommit (encode_SignedMessage N removed))) (m\<lparr>block := b\<rparr>)))))))"

definition jump :: "('v, 'b, 's, 'a) Network_trait \<Rightarrow> u32 \<Rightarrow> ('v, 'b, 's, 'a) TendermintMachine \<Rightarrow> (('v, 'b, 's, 'a) TendermintMachine \<times> bool) option" where
  "jump N rnd m =
     Option.bind (machine_round N rnd None m) (\<lambda>(m, proposed).
     Option.bind (map_of (msg_log (block m)) rnd) (\<lambda>round_msgs.
     Option.bind (recheck_precommits N rnd round_msgs m) (\<lambda>m. Some (m, proposed))))"

definition update_round :: "(RoundData \<Rightarrow> RoundData) \<Rightarrow> ('v, 'b, 's, 'a) TendermintMachine \<Rightarrow> ('v, 'b, 's, 'a) TendermintMachine" where
  "update_round f m = m\<lparr>block := (block m)\<lparr>bd_round := map_option f (bd_round (block m))\<rparr>\<rparr>"

type_synonym ('v, 'b, 's, 'a) handled = "('v, 'b, 's, 'a) TendermintMachine \<times> ('v TendermintError + 'b option)"

text \<open>Lines 814 to 827; \<open>None\<close> inside means that the handler goes on.\<close>

definition on_prevote :: "('v, 'b, 's, 'a) Network_trait \<Rightarrow> ('v, 'b, 's) Message \<Rightarrow> RoundData \<Rightarrow> ('v, 'b, 's, 'a) TendermintMachine \<Rightarrow>
    (('v, 'b, 's, 'a) TendermintMachine \<times> bool) option" where
  "on_prevote N x rd m =
     (if rd_step rd = Step.Prevote \<and> is_prevote (data x)
      then Option.bind (message_instances N (msg_log (block m)) (rd_number rd) (Prevote None)) (\<lambda>(participation, weight).
        let m = (if participation \<ge> threshold N then update_round (set_timeout N Step.Prevote) m else m)
        in if weight \<ge> threshold N then Option.bind (broadcast N (Precommit None) m) (\<lambda>m. Some (m, True))
           else Some (m, False))
      else Some (m, False))"

definition on_proposal :: "('v, 'b, 's, 'a) Network_trait \<Rightarrow> ('b \<Rightarrow> BlockError option) \<Rightarrow> ('v, 'b, 's) SignedMessage \<Rightarrow> 'v \<Rightarrow> u32 option \<Rightarrow> 'b \<Rightarrow> RoundData \<Rightarrow>
    ('v, 'b, 's, 'a) TendermintMachine \<Rightarrow> ('v, 'b, 's, 'a) handled option" where
  "on_proposal N validate sm prop vr proposed rd m =
     Option.bind (block_id N proposed) (\<lambda>i.
     let is_valid = (validate proposed = None);
         err = (if validate proposed = Some Fatal then Inl (Malicious prop None) else Inr None);
         raw_vote = (if is_valid then Some i else None);
         unlocked = (case locked (block m) of None \<Rightarrow> True | Some (_, locked_id) \<Rightarrow> locked_id = i);
         vote = (if unlocked then raw_vote else None)
     in case vr of
          Some vr \<Rightarrow>
            if vr \<ge> rd_number rd
            then Some (m, Inl (Malicious (sender (msg sm)) (Some (InvalidValidRound (encode_SignedMessage N sm)))))
            else Option.bind (has_consensus N (msg_log (block m)) vr (Prevote (Some i))) (\<lambda>consensus.
              if consensus
              then let vote = (case locked (block m) of
                                 Some (locked_round, _) \<Rightarrow> if vote = None \<and> locked_round \<le> vr then raw_vote else vote
                               | None \<Rightarrow> vote)
                   in Option.bind (broadcast N (Prevote vote) m) (\<lambda>m. Some (m, err))
              else Some (m, Inr None))
        | None \<Rightarrow> Option.bind (broadcast N (Prevote vote) m) (\<lambda>m. Some (m, err)))"

definition on_polka :: "('v, 'b, 's, 'a) Network_trait \<Rightarrow> ('b \<Rightarrow> BlockError option) \<Rightarrow> 'v \<Rightarrow> 'b \<Rightarrow> RoundData \<Rightarrow>
    ('v, 'b, 's, 'a) TendermintMachine \<Rightarrow> ('v, 'b, 's, 'a) handled option" where
  "on_polka N validate prop proposed rd m =
     (if (case valid (block m) of None \<Rightarrow> True | Some (r, _) \<Rightarrow> r \<noteq> rd_number rd)
      then Option.bind (block_id N proposed) (\<lambda>i. Option.bind (has_consensus N (msg_log (block m)) (rd_number rd) (Prevote (Some i))) (\<lambda>consensus.
        if consensus
        then if validate proposed = Some Fatal then Some (m, Inl (Malicious prop None))
             else let m = m\<lparr>block := (block m)\<lparr>valid := Some (rd_number rd, proposed)\<rparr>\<rparr>
                  in if rd_step rd = Step.Prevote
                     then let m = m\<lparr>block := (block m)\<lparr>locked := Some (rd_number rd, i)\<rparr>\<rparr>
                          in Option.bind (map_of (end_time (block m)) (rd_number rd)) (\<lambda>t.
                             Option.bind (broadcast N (Precommit (Some (i, sign N (commit_msg (canonical t) i)))) m) (\<lambda>m. Some (m, Inr None)))
                     else Some (m, Inr None)
        else Some (m, Inr None)))
      else Some (m, Inr None))"

definition current_round :: "('v, 'b, 's, 'a) Network_trait \<Rightarrow> ('b \<Rightarrow> BlockError option) \<Rightarrow> ('v, 'b, 's) SignedMessage \<Rightarrow> ('v, 'b, 's, 'a) TendermintMachine \<Rightarrow>
    ('v, 'b, 's, 'a) handled option" where
  "current_round N validate sm m =
     Option.bind (bd_round (block m)) (\<lambda>rd.
     Option.bind (on_prevote N (msg sm) rd m) (\<lambda>(m, returns).
     if returns then Some (m, Inr None)
     else Option.bind (if is_precommit (data (msg sm)) then has_participation N (msg_log (block m)) (rd_number rd) Step.Precommit else Some False) (\<lambda>participated.
       let m = (if participated then update_round (set_timeout N Step.Precommit) m else m);
           prop = proposer N (number (block m)) (rd_number rd)
       in case log_get (msg_log (block m)) (rd_number rd) prop Step.Propose of
            None \<Rightarrow> Some (m, Inr None)
          | Some proposal_signed \<Rightarrow>
              (case data (msg proposal_signed) of
                 Proposal vr proposed \<Rightarrow>
                   if rd_step rd = Step.Propose then on_proposal N validate sm prop vr proposed rd m
                   else on_polka N validate prop proposed rd m
               | _ \<Rightarrow> None))))"

definition message :: "('v, 'b, 's, 'a) Network_trait \<Rightarrow> ('b \<Rightarrow> BlockError option) \<Rightarrow> ('v, 'b, 's) SignedMessage \<Rightarrow> ('v, 'b, 's, 'a) TendermintMachine \<Rightarrow>
    ('v, 'b, 's, 'a) handled option" where
  "message N validate sm m =
     (let x = msg sm in
      if msg_block x \<noteq> number (block m) then Some (m, Inl Temporal)
      else Option.bind (bd_round (block m)) (\<lambda>rd.
        case verify_precommit_signature N (block m) sm of
          Inl e \<Rightarrow> Some (m, Inl e)
        | Inr _ \<Rightarrow>
            if is_proposal (data x) \<and> sender x \<noteq> proposer N (msg_block x) (msg_round x) then Some (m, Inl (Malicious (sender x) None))
            else (case log_message N sm (msg_log (block m)) of
                (l, res) \<Rightarrow>
                  let m = m\<lparr>block := (block m)\<lparr>msg_log := l\<rparr>\<rparr>
                  in case res of
                       Inl e \<Rightarrow> Some (m, Inl e)
                     | Inr new \<Rightarrow>
                         if \<not> new then Some (m, Inl AlreadyHandled)
                         else Option.bind (finalizer N x (block m)) (\<lambda>final.
                           case final of
                             Some decided \<Rightarrow> Some (m, Inr (Some decided))
                           | None \<Rightarrow>
                               if msg_round x < rd_number rd then Some (m, Inr None)
                               else if msg_round x > rd_number rd
                               then if round_participation N (msg_log (block m)) (msg_round x) > fault_threshold N
                                    then Option.bind (jump N (msg_round x) m) (\<lambda>(m, proposed).
                                      if proposed then Some (m, Inr None) else current_round N validate sm m)
                                    else Some (m, Inr None)
                               else current_round N validate sm m))))"

subsection \<open>The loop\<close>

text \<open>The commit for a block: the precommits of the round for its identifier, in the log's order.\<close>

definition block_precommits :: "('v, 'b, 's) RoundLog \<Rightarrow> bytes \<Rightarrow> ('v \<times> 's) list" where
  "block_precommits l i = List.map_filter (\<lambda>(v, msgs). case map_of msgs Step.Precommit of
       Some sm \<Rightarrow> (case data (msg sm) of Precommit (Some (j, sig)) \<Rightarrow> if j = i then Some (v, sig) else None | _ \<Rightarrow> None)
     | None \<Rightarrow> None) l"

definition produce_block :: "('v, 'b, 's, 'a) Network_trait \<Rightarrow> u32 \<Rightarrow> 'b \<Rightarrow> 'b option \<Rightarrow> ('v, 'b, 's, 'a) TendermintMachine \<Rightarrow> ('v, 'b, 's, 'a) TendermintMachine option" where
  "produce_block N rnd decided proposal m =
     Option.bind (map_of (msg_log (block m)) rnd) (\<lambda>l. Option.bind (block_id N decided) (\<lambda>i.
     Option.bind (map_of (end_time (block m)) rnd) (\<lambda>t.
     let precommits = block_precommits l i;
         validators = map fst precommits;
         commit = \<lparr>commit_end_time = canonical t, commit_validators = validators,
           commit_signature = aggregate N validators (commit_msg (canonical t) i) (map snd precommits)\<rparr>
     in reset N rnd proposal (net_call (NetAddBlock decided commit) (net_call (Produced (number (block m)) i) m)))))"

definition malicious :: "('v, 'b, 's) SignedMessage \<Rightarrow> 'v \<Rightarrow> Evidence option \<Rightarrow> ('v, 'b, 's, 'a) TendermintMachine \<Rightarrow> ('v, 'b, 's, 'a) TendermintMachine option" where
  "malicious sm v evidence m =
     Option.bind (bd_round (block m)) (\<lambda>rd.
     let vote = (\<lambda>reason. Id reason (number (block m)) (rd_number rd));
         event = (case evidence of
             Some ev \<Rightarrow> if is_proposal (data (msg sm)) then vote InvalidBlock else WithEvidence ev
           | None \<Rightarrow> vote InvalidMessage);
         m = (case event of Id _ _ _ \<Rightarrow> net_call (NetBroadcast sm) m | WithEvidence _ \<Rightarrow> m)
     in Some (slash v event m))"

definition handle_message :: "('v, 'b, 's, 'a) Network_trait \<Rightarrow> bool \<Rightarrow> ('v, 'b, 's) SignedMessage \<Rightarrow> ('b \<Rightarrow> BlockError option) \<Rightarrow> ('b \<Rightarrow> 'b option) \<Rightarrow>
    ('v, 'b, 's, 'a) TendermintMachine \<Rightarrow> ('v, 'b, 's, 'a) TendermintMachine option" where
  "handle_message N our_message sm validate add_block m =
     Option.bind (message N validate sm m) (\<lambda>(m, res).
     case res of
       Inr None \<Rightarrow> Some (net_call (NetBroadcast sm) m)
     | Inr (Some decided) \<Rightarrow> produce_block N (msg_round (msg sm)) decided (add_block decided) (net_call (NetBroadcast sm) m)
     | Inl e \<Rightarrow>
         if our_message then None
         else (case e of Malicious v evidence \<Rightarrow> malicious sm v evidence m | _ \<Rightarrow> Some m))"

definition on_timeout :: "('v, 'b, 's, 'a) Network_trait \<Rightarrow> Step \<Rightarrow> ('v, 'b, 's, 'a) TendermintMachine \<Rightarrow> ('v, 'b, 's, 'a) TendermintMachine option" where
  "on_timeout N step m =
     (let m = update_round (\<lambda>rd. rd\<lparr>rd_timeouts := AList.delete step (rd_timeouts rd)\<rparr>) m
      in Option.bind (bd_round (block m)) (\<lambda>rd.
         if rd_step rd = step
         then (case step of
             Step.Propose \<Rightarrow> broadcast N (Prevote None)
               (slash (proposer N (number (block m)) (rd_number rd)) (Id FailToPropose (number (block m)) (rd_number rd)) m)
           | Step.Prevote \<Rightarrow> broadcast N (Precommit None) m
           | Step.Precommit \<Rightarrow> map_option fst (machine_round N (rd_number rd + 1) None m))
         else Some m))"

text \<open>
  What wakes the loop: a synced block, the machine's own message, a timeout, or a received message,
  in the order of their priority. A source is served only when those before it are not ready.
\<close>

datatype ('v, 'b, 's, 'a) event =
    Synced u64 'b "('v, 'a) Commit"
  | Own
  | Timeout int
  | Received int "('v, 'b, 's) SignedMessage"

fun enabled :: "('v, 'b, 's, 'a) event \<Rightarrow> ('v, 'b, 's, 'a) TendermintMachine \<Rightarrow> bool" where
  "enabled (Synced n blk commit) m \<longleftrightarrow> True"
| "enabled Own m \<longleftrightarrow> queue m \<noteq> []"
| "enabled (Timeout now) m \<longleftrightarrow> queue m = [] \<and> (case bd_round (block m) of None \<Rightarrow> False | Some rd \<Rightarrow> timeout_future now rd \<noteq> None)"
| "enabled (Received now sm) m \<longleftrightarrow> queue m = [] \<and> (case bd_round (block m) of None \<Rightarrow> False | Some rd \<Rightarrow> timeout_future now rd = None)"

fun run_event :: "('v, 'b, 's, 'a) Network_trait \<Rightarrow> ('b \<Rightarrow> BlockError option) \<Rightarrow> ('b \<Rightarrow> 'b option) \<Rightarrow> ('v, 'b, 's, 'a) event \<Rightarrow>
    ('v, 'b, 's, 'a) TendermintMachine \<Rightarrow> ('v, 'b, 's, 'a) TendermintMachine option" where
  "run_event N validate add_block (Synced n blk commit) m =
     (if n \<noteq> number (block m) then Some (net_call (SyncedBlockResult False) m)
      else Option.bind (block_id N blk) (\<lambda>i.
        if \<not> verify_commit N i commit then Some (net_call (SyncedBlockResult False) m)
        else Option.bind (reset_by_commit N commit (add_block blk) (net_call (NetAddBlock blk commit) m)) (\<lambda>m.
          Some (net_call (SyncedBlockResult True) m))))"
| "run_event N validate add_block Own m =
     (case queue m of [] \<Rightarrow> None
      | x # rest \<Rightarrow> handle_message N True \<lparr>msg = x, msg_sig = sign N (encode_Message N x)\<rparr> validate add_block (m\<lparr>queue := rest\<rparr>))"
| "run_event N validate add_block (Timeout now) m =
     Option.bind (bd_round (block m)) (\<lambda>rd. Option.bind (timeout_future now rd) (\<lambda>step. on_timeout N step m))"
| "run_event N validate add_block (Received now sm) m =
     (if \<not> verify_signature N sm then Some m else handle_message N False sm validate add_block m)"

section \<open>Evidence (\<open>lib.rs\<close>)\<close>

definition decode_and_verify_signed_message :: "('v, 'b, 's, 'a) Network_trait \<Rightarrow> bytes \<Rightarrow> 'v TendermintError + ('v, 'b, 's) SignedMessage" where
  "decode_and_verify_signed_message N bs = (case decode_signed_message N bs of
     None \<Rightarrow> Inl InvalidEvidence | Some sm \<Rightarrow> if \<not> verify_signature N sm then Inl InvalidEvidence else Inr sm)"

definition round_ends :: "('v, 'b, 's, 'a) Network_trait \<Rightarrow> u32 \<Rightarrow> CanonicalInstant \<Rightarrow> CanonicalInstant" where
  "round_ends N rnd start = fold (\<lambda>r last_end. round_end_time N (RoundData_new (of_nat r) last_end)) [0..<Suc (unat rnd)] start"

fun verify_tendermint_evience :: "('v, 'b, 's, 'a) Network_trait \<Rightarrow> int \<Rightarrow> int \<Rightarrow> (u64 \<Rightarrow> ('v, 'a) Commit option) \<Rightarrow> Evidence \<Rightarrow> ('v TendermintError + unit) option" where
  "verify_tendermint_evience N instant_now sys_now commits (ConflictingMessages fst_bytes snd_bytes) =
     Some (case decode_and_verify_signed_message N fst_bytes of Inl e \<Rightarrow> Inl e
       | Inr a \<Rightarrow> (case decode_and_verify_signed_message N snd_bytes of Inl e \<Rightarrow> Inl e
           | Inr b \<Rightarrow>
               if message_eq (msg a) (msg b) \<or> sender (msg a) \<noteq> sender (msg b) \<or> msg_block (msg a) \<noteq> msg_block (msg b) then Inl InvalidEvidence
               else if \<not> (msg_round (msg a) = msg_round (msg b) \<and> data_step (data (msg a)) = data_step (data (msg b))) then Inl InvalidEvidence
               else Inr ()))"
| "verify_tendermint_evience N instant_now sys_now commits (InvalidPrecommit bs) =
     (case decode_and_verify_signed_message N bs of Inl e \<Rightarrow> Some (Inl e)
      | Inr sm \<Rightarrow>
          (case data (msg sm) of
             Precommit (Some (i, sig)) \<Rightarrow>
               if msg_block (msg sm) = 0 then None
               else (case commits (msg_block (msg sm) - 1) of
                   None \<Rightarrow> Some (Inl InvalidEvidence)
                 | Some prior_commit \<Rightarrow>
                     let last_end_time = round_ends N (msg_round (msg sm)) (CanonicalInstant_new instant_now sys_now (commit_end_time prior_commit))
                     in if verify N (sender (msg sm)) (commit_msg (canonical last_end_time) i) sig then Some (Inl InvalidEvidence) else Some (Inr ()))
           | _ \<Rightarrow> Some (Inl InvalidEvidence)))"
| "verify_tendermint_evience N instant_now sys_now commits (InvalidValidRound bs) =
     Some (case decode_and_verify_signed_message N bs of Inl e \<Rightarrow> Inl e
       | Inr sm \<Rightarrow> (case data (msg sm) of
             Proposal (Some vr) _ \<Rightarrow> if vr < msg_round (msg sm) then Inl InvalidEvidence else Inr ()
           | _ \<Rightarrow> Inl InvalidEvidence))"

end
