(* ===== verification/Tendermint_Votes.thy ===== *)
theory Tendermint_Votes
  imports Tendermint
begin

text \<open>
  Quorums of the Tendermint machine: a supermajority found in a message log is a quorum of
  validators, two quorums share an honest validator when less than a third of the weight is
  dishonest, and votes that follow the locking rule let at most one block gather a quorum of
  precommits.
\<close>

section \<open>Weights\<close>

definition wsum :: "('v, 'b, 's, 'a) Network_trait \<Rightarrow> 'v set \<Rightarrow> nat" where
  "wsum N A = (\<Sum>v\<in>A. unat (weight_of N v))"

definition weights_ok :: "('v, 'b, 's, 'a) Network_trait \<Rightarrow> 'v set \<Rightarrow> bool" where
  "weights_ok N V \<longleftrightarrow> finite V \<and> wsum N V = unat (total_weight N) \<and> unat (total_weight N) * 2 < 2 ^ 64 \<and>
     (\<forall>v bs s. verify N v bs s \<longrightarrow> v \<in> V)"

definition honest_majority :: "('v, 'b, 's, 'a) Network_trait \<Rightarrow> 'v set \<Rightarrow> 'v set \<Rightarrow> bool" where
  "honest_majority N V H \<longleftrightarrow> H \<subseteq> V \<and> 3 * wsum N (V - H) < unat (total_weight N)"

definition quorum :: "('v, 'b, 's, 'a) Network_trait \<Rightarrow> 'v set \<Rightarrow> 'v set \<Rightarrow> bool" where
  "quorum N V Q \<longleftrightarrow> Q \<subseteq> V \<and> unat (threshold N) \<le> wsum N Q"

lemma unat_threshold: "weights_ok N V \<Longrightarrow> unat (threshold N) = unat (total_weight N) * 2 div 3 + 1"
proof -
  assume ok: "weights_ok N V"
  then have "unat (total_weight N * 2) = unat (total_weight N) * 2"
    by (simp add: weights_ok_def unat_mult_lem [THEN iffD1])
  then have d: "unat (total_weight N * 2 div 3) = unat (total_weight N) * 2 div 3" by (simp add: unat_div)
  moreover have "unat (total_weight N) * 2 div 3 + 1 < 2 ^ 64"
  proof -
    have "unat (total_weight N) * 2 < 2 ^ 64" using ok by (simp only: weights_ok_def)
    then show ?thesis by simp
  qed
  ultimately show ?thesis by (simp add: threshold_def unat_plus_simple [THEN iffD1] no_olen_add_nat unat_word_ariths)
qed

lemma wsum_Un: "finite A \<Longrightarrow> finite B \<Longrightarrow> wsum N A + wsum N B = wsum N (A \<union> B) + wsum N (A \<inter> B)"
  by (simp add: wsum_def sum.union_inter)

lemma wsum_mono: "finite B \<Longrightarrow> A \<subseteq> B \<Longrightarrow> wsum N A \<le> wsum N B"
  by (simp add: wsum_def sum_mono2)

lemma quorums_share_honest:
  assumes ok: "weights_ok N V" and h: "honest_majority N V H" and q: "quorum N V A" "quorum N V B"
  shows "\<exists>v. v \<in> A \<and> v \<in> B \<and> v \<in> H"
proof (rule ccontr)
  assume "\<nexists>v. v \<in> A \<and> v \<in> B \<and> v \<in> H"
  then have sub: "A \<inter> B \<subseteq> V - H" using q by (auto simp: quorum_def)
  have fin: "finite V" "finite A" "finite B" using ok q by (auto simp: weights_ok_def quorum_def intro: finite_subset)
  have "wsum N (A \<inter> B) \<le> wsum N (V - H)" by (rule wsum_mono [OF _ sub]) (simp add: fin)
  moreover have "wsum N (A \<union> B) \<le> wsum N V" by (rule wsum_mono) (use fin q in \<open>auto simp: quorum_def\<close>)
  moreover have "wsum N A + wsum N B = wsum N (A \<union> B) + wsum N (A \<inter> B)" by (rule wsum_Un [OF fin(2,3)])
  moreover have "wsum N V = unat (total_weight N)" using ok by (simp add: weights_ok_def)
  moreover have "3 * wsum N (V - H) < unat (total_weight N)" using h by (simp add: honest_majority_def)
  moreover have "unat (total_weight N) * 2 div 3 + 1 \<le> wsum N A" "unat (total_weight N) * 2 div 3 + 1 \<le> wsum N B"
    using q unat_threshold [OF ok] by (auto simp: quorum_def)
  ultimately show False by linarith
qed

section \<open>Supermajorities of a log\<close>

definition log_wf :: "'v set \<Rightarrow> ('v, 'b, 's) MessageLog \<Rightarrow> bool" where
  "log_wf V l \<longleftrightarrow> (\<forall>r rl. map_of l r = Some rl \<longrightarrow> distinct (map fst rl) \<and> set (map fst rl) \<subseteq> V)"

definition supporters :: "('v, 'b, 's) MessageLog \<Rightarrow> u32 \<Rightarrow> ('b, 's) Data \<Rightarrow> 'v set" where
  "supporters l r d = {v. \<exists>sm. log_get l r v (data_step d) = Some sm \<and> data_eq d (data (msg sm))}"

definition supports :: "('b, 's) Data \<Rightarrow> 'v \<times> (Step \<times> ('v, 'b, 's) SignedMessage) list \<Rightarrow> bool" where
  "supports d e \<longleftrightarrow> (case map_of (snd e) (data_step d) of None \<Rightarrow> False | Some m \<Rightarrow> data_eq d (data (msg m)))"

lemma count_weight:
  "snd (fold (count_instance N d) rl (p, w)) = w + sum_list (map (\<lambda>e. if supports d e then weight_of N (fst e) else 0) rl)"
proof (induction rl arbitrary: p w)
  case (Cons e rl)
  obtain v msgs where e: "e = (v, msgs)" by (cases e)
  obtain p' w' where c: "count_instance N d e (p, w) = (p', w')" by force
  then have "w' = w + (if supports d e then weight_of N (fst e) else 0)"
    by (auto simp: e count_instance_def supports_def split: option.splits if_splits)
  then show ?case by (simp add: c Cons.IH add.assoc)
qed simp

lemma unat_sum_list_le: "unat (sum_list (map f xs)) \<le> (\<Sum>x\<leftarrow>xs. unat (f x))" for f :: "'x \<Rightarrow> 'l::len word"
proof (induction xs)
  case (Cons x xs)
  have "unat (f x + sum_list (map f xs)) \<le> unat (f x) + unat (sum_list (map f xs))" by (simp add: unat_word_ariths)
  with Cons show ?case by simp
qed simp

text \<open>A sum of 64-bit words is at most the sum of their values, whether or not it wraps.\<close>

lemma consensus_quorum:
  assumes wf: "log_wf V l" and fin: "finite V" and c: "has_consensus N l r d = Some True"
  shows "quorum N V (supporters l r d)"
proof -
  from c obtain rl where rl: "map_of l r = Some rl" and w: "threshold N \<le> snd (fold (count_instance N d) rl (0, 0))"
    by (auto simp: has_consensus_def message_instances_def prod.case_eq_if)
  have dist: "distinct (map fst rl)" and sub: "set (map fst rl) \<subseteq> V" using wf rl by (auto simp: log_wf_def)
  have sup: "supporters l r d = fst ` set (filter (supports d) rl)"
  proof (intro set_eqI iffI)
    fix v assume "v \<in> supporters l r d"
    then obtain msgs where "map_of rl v = Some msgs" "supports d (v, msgs)"
      using rl by (auto simp: supporters_def log_get_def bind_eq_Some_conv supports_def)
    then show "v \<in> fst ` set (filter (supports d) rl)" by (force dest: map_of_SomeD)
  next
    fix v assume "v \<in> fst ` set (filter (supports d) rl)"
    then obtain msgs where "(v, msgs) \<in> set rl" "supports d (v, msgs)" by auto
    moreover from this have "map_of rl v = Some msgs" using dist by simp
    ultimately show "v \<in> supporters l r d"
      using rl by (auto simp: supporters_def log_get_def supports_def split: option.splits)
  qed
  have "snd (fold (count_instance N d) rl (0, 0)) = sum_list (map (\<lambda>e. if supports d e then weight_of N (fst e) else 0) rl)"
    unfolding count_weight by simp
  then have "unat (threshold N) \<le> (\<Sum>e\<leftarrow>rl. unat (if supports d e then weight_of N (fst e) else 0))"
    using w unat_sum_list_le [of "\<lambda>e. if supports d e then weight_of N (fst e) else 0" rl] by (simp add: word_le_nat_alt)
  also have "\<dots> = (\<Sum>e\<leftarrow>filter (supports d) rl. unat (weight_of N (fst e)))" by (induction rl) auto
  also have "\<dots> = wsum N (supporters l r d)"
  proof -
    have "distinct (map fst (filter (supports d) rl))" using dist by (simp add: distinct_map_filter)
    then have "(\<Sum>v\<leftarrow>map fst (filter (supports d) rl). unat (weight_of N v)) = (\<Sum>v\<in>set (map fst (filter (supports d) rl)). unat (weight_of N v))"
      by (rule sum_list_distinct_conv_sum_set)
    then show ?thesis by (simp add: sup wsum_def comp_def)
  qed
  finally show ?thesis using sub by (auto simp: quorum_def sup)
qed

section \<open>The locking rule\<close>

text \<open>
  Of the messages \<open>S\<close> honest validators sent, a quorum voted for a block in a round: every honest
  validator of the quorum sent that vote.
\<close>

definition polka :: "('v, 'b, 's, 'a) Network_trait \<Rightarrow> 'v set \<Rightarrow> 'v set \<Rightarrow> ('v, 'b, 's) Message set \<Rightarrow> u64 \<Rightarrow> u32 \<Rightarrow> bytes \<Rightarrow> bool" where
  "polka N V H S n r i \<longleftrightarrow> (\<exists>Q. quorum N V Q \<and>
     (\<forall>v\<in>Q \<inter> H. \<exists>x\<in>S. sender x = v \<and> msg_block x = n \<and> msg_round x = r \<and> data x = Prevote (Some i)))"

definition committed :: "('v, 'b, 's, 'a) Network_trait \<Rightarrow> 'v set \<Rightarrow> 'v set \<Rightarrow> ('v, 'b, 's) Message set \<Rightarrow> u64 \<Rightarrow> u32 \<Rightarrow> bytes \<Rightarrow> bool" where
  "committed N V H S n r i \<longleftrightarrow> (\<exists>Q. quorum N V Q \<and>
     (\<forall>v\<in>Q \<inter> H. \<exists>x\<in>S. \<exists>s. sender x = v \<and> msg_block x = n \<and> msg_round x = r \<and> data x = Precommit (Some (i, s))))"

lemma polka_mono: "polka N V H S n r i \<Longrightarrow> S \<subseteq> S' \<Longrightarrow> polka N V H S' n r i"
  unfolding polka_def by blast

lemma committed_mono: "committed N V H S n r i \<Longrightarrow> S \<subseteq> S' \<Longrightarrow> committed N V H S' n r i"
  unfolding committed_def by blast

text \<open>
  The rules the messages \<open>A\<close> of one validator follow: one message per round and step, a proposal
  names an earlier round, a precommit for a block follows a polka, and a vote for another block
  than one precommitted follows a later polka for it.
\<close>

definition votes_ok :: "('v, 'b, 's, 'a) Network_trait \<Rightarrow> 'v set \<Rightarrow> 'v set \<Rightarrow> ('v, 'b, 's) Message set \<Rightarrow> ('v, 'b, 's) Message set \<Rightarrow> bool" where
  "votes_ok N V H S A \<longleftrightarrow>
     (\<forall>x\<in>A. \<forall>y\<in>A. msg_block x = msg_block y \<longrightarrow> msg_round x = msg_round y \<longrightarrow> data_step (data x) = data_step (data y) \<longrightarrow> x = y) \<and>
     (\<forall>x\<in>A. \<forall>vr b. data x = Proposal (Some vr) b \<longrightarrow> vr < msg_round x) \<and>
     (\<forall>x\<in>A. \<forall>i s. data x = Precommit (Some (i, s)) \<longrightarrow> polka N V H S (msg_block x) (msg_round x) i) \<and>
     (\<forall>x\<in>A. \<forall>y\<in>A. \<forall>i s j. data x = Precommit (Some (i, s)) \<longrightarrow> data y = Prevote (Some j) \<longrightarrow> msg_block x = msg_block y \<longrightarrow>
        msg_round x < msg_round y \<longrightarrow> i \<noteq> j \<longrightarrow> (\<exists>vr. msg_round x \<le> vr \<and> vr < msg_round y \<and> polka N V H S (msg_block y) vr j))"

lemma votes_ok_unique:
  "votes_ok N V H S A \<Longrightarrow> x \<in> A \<Longrightarrow> y \<in> A \<Longrightarrow> msg_block x = msg_block y \<Longrightarrow> msg_round x = msg_round y \<Longrightarrow>
    data_step (data x) = data_step (data y) \<Longrightarrow> x = y"
  unfolding votes_ok_def by blast

lemma votes_ok_precommit: "votes_ok N V H S A \<Longrightarrow> x \<in> A \<Longrightarrow> data x = Precommit (Some (i, s)) \<Longrightarrow> polka N V H S (msg_block x) (msg_round x) i"
  unfolding votes_ok_def by blast

lemma votes_ok_lock:
  "votes_ok N V H S A \<Longrightarrow> x \<in> A \<Longrightarrow> y \<in> A \<Longrightarrow> data x = Precommit (Some (i, s)) \<Longrightarrow> data y = Prevote (Some j) \<Longrightarrow>
    msg_block x = msg_block y \<Longrightarrow> msg_round x < msg_round y \<Longrightarrow> i \<noteq> j \<Longrightarrow>
    \<exists>vr. msg_round x \<le> vr \<and> vr < msg_round y \<and> polka N V H S (msg_block y) vr j"
  unfolding votes_ok_def by blast

lemma votes_ok_subset: "votes_ok N V H S A \<Longrightarrow> B \<subseteq> A \<Longrightarrow> votes_ok N V H S B"
  unfolding votes_ok_def by blast

lemma votes_ok_mono: "votes_ok N V H S A \<Longrightarrow> S \<subseteq> S' \<Longrightarrow> votes_ok N V H S' A"
  unfolding votes_ok_def using polka_mono by meson

text \<open>After a quorum of precommits for a block, every later polka is for that block.\<close>

lemma later_polkas_agree:
  assumes ok: "weights_ok N V" "honest_majority N V H"
    and votes: "\<And>v. v \<in> H \<Longrightarrow> votes_ok N V H S {x \<in> S. sender x = v}"
    and c: "committed N V H S n r i"
  shows "r \<le> r' \<Longrightarrow> polka N V H S n r' j \<Longrightarrow> j = i"
proof (induction r' rule: less_induct)
  case (less r')
  obtain Q where Q: "quorum N V Q"
    "\<And>v. v \<in> Q \<Longrightarrow> v \<in> H \<Longrightarrow> \<exists>x\<in>S. \<exists>s. sender x = v \<and> msg_block x = n \<and> msg_round x = r \<and> data x = Precommit (Some (i, s))"
    using c unfolding committed_def by blast
  obtain P where P: "quorum N V P"
    "\<And>v. v \<in> P \<Longrightarrow> v \<in> H \<Longrightarrow> \<exists>x\<in>S. sender x = v \<and> msg_block x = n \<and> msg_round x = r' \<and> data x = Prevote (Some j)"
    using less.prems(2) unfolding polka_def by blast
  obtain v where v: "v \<in> Q" "v \<in> P" "v \<in> H" using quorums_share_honest [OF ok Q(1) P(1)] by blast
  obtain x s where x: "x \<in> S" "sender x = v" "msg_block x = n" "msg_round x = r" "data x = Precommit (Some (i, s))"
    using Q(2) [OF v(1,3)] by blast
  obtain y where y: "y \<in> S" "sender y = v" "msg_block y = n" "msg_round y = r'" "data y = Prevote (Some j)"
    using P(2) [OF v(2,3)] by blast
  show ?case
  proof (rule ccontr)
    assume ne: "j \<noteq> i"
    show False
    proof (cases "r = r'")
      case True
      have "polka N V H S n r i" using votes_ok_precommit [OF votes [OF v(3)], of x i s] x by simp
      then obtain P' where P': "quorum N V P'"
        "\<And>v. v \<in> P' \<Longrightarrow> v \<in> H \<Longrightarrow> \<exists>x\<in>S. sender x = v \<and> msg_block x = n \<and> msg_round x = r \<and> data x = Prevote (Some i)"
        unfolding polka_def by blast
      obtain w where w: "w \<in> P" "w \<in> P'" "w \<in> H" using quorums_share_honest [OF ok P(1) P'(1)] by blast
      obtain a b where ab: "a \<in> S" "sender a = w" "msg_block a = n" "msg_round a = r" "data a = Prevote (Some j)"
        "b \<in> S" "sender b = w" "msg_block b = n" "msg_round b = r" "data b = Prevote (Some i)"
        using P(2) [OF w(1,3)] P'(2) [OF w(2,3)] True by blast
      have "a = b" by (rule votes_ok_unique [OF votes [OF w(3)]]) (simp_all add: ab)
      then show False using ab ne by simp
    next
      case False
      then have "r < r'" using less.prems(1) by simp
      then obtain vr where vr: "r \<le> vr" "vr < r'" "polka N V H S n vr j"
        using votes_ok_lock [OF votes [OF v(3)], of x y i s j] x y ne by auto
      from less.IH [OF vr(2,1,3)] ne show False by simp
    qed
  qed
qed

lemma committed_agree:
  assumes ok: "weights_ok N V" "honest_majority N V H"
    and votes: "\<And>v. v \<in> H \<Longrightarrow> votes_ok N V H S {x \<in> S. sender x = v}"
    and c: "committed N V H S n r i" "committed N V H S n r' j"
  shows "i = j"
proof -
  have poll: "polka N V H S n r i" if com: "committed N V H S n r i" for r i
  proof -
    obtain Q where Q: "quorum N V Q"
      "\<And>v. v \<in> Q \<Longrightarrow> v \<in> H \<Longrightarrow> \<exists>x\<in>S. \<exists>s. sender x = v \<and> msg_block x = n \<and> msg_round x = r \<and> data x = Precommit (Some (i, s))"
      using com unfolding committed_def by blast
    obtain v where v: "v \<in> Q" "v \<in> H" using quorums_share_honest [OF ok Q(1) Q(1)] by blast
    obtain x s where "x \<in> S" "sender x = v" "msg_block x = n" "msg_round x = r" "data x = Precommit (Some (i, s))"
      using Q(2) [OF v] by blast
    then show ?thesis using votes_ok_precommit [OF votes [OF v(2)], of x i s] by simp
  qed
  show ?thesis
  proof (cases "r \<le> r'")
    case True
    then show ?thesis using later_polkas_agree [OF ok votes c(1) True poll [OF c(2)]] by simp
  next
    case False
    then show ?thesis using later_polkas_agree [OF ok votes c(2) _ poll [OF c(1)]] by simp
  qed
qed

end
