(* ===== verification/Tendermint_Invariant.thy ===== *)
theory Tendermint_Invariant
  imports Tendermint_Votes
begin

text \<open>
  The invariant of an honest Tendermint machine: its log holds messages their senders sent, the
  messages it issued follow the locking rule and come before its current step, and its lock is at
  least as recent as its last precommit. Every event keeps it.
\<close>

section \<open>The invariant\<close>

fun step_index :: "Step \<Rightarrow> nat" where
  "step_index Step.Propose = 0"
| "step_index Step.Prevote = 1"
| "step_index Step.Precommit = 2"

definition before :: "u64 \<Rightarrow> u32 \<Rightarrow> nat \<Rightarrow> ('v, 'b, 's) Message \<Rightarrow> bool" where
  "before n r k x \<longleftrightarrow> msg_block x < n \<or> msg_block x = n \<and>
     (msg_round x < r \<or> msg_round x = r \<and> step_index (data_step (data x)) < k)"

definition log_ok :: "'v set \<Rightarrow> 'v set \<Rightarrow> ('v, 'b, 's) Message set \<Rightarrow> u64 \<Rightarrow> ('v, 'b, 's) MessageLog \<Rightarrow> bool" where
  "log_ok V H S n l \<longleftrightarrow> log_wf V l \<and> (\<forall>r v st sm. log_get l r v st = Some sm \<longrightarrow>
     sender (msg sm) = v \<and> msg_block (msg sm) = n \<and> msg_round (msg sm) = r \<and> data_step (data (msg sm)) = st \<and> (v \<in> H \<longrightarrow> msg sm \<in> S))"

definition core :: "('v, 'b, 's, 'a) Network_trait \<Rightarrow> 'v set \<Rightarrow> 'v set \<Rightarrow> ('v, 'b, 's) Message set \<Rightarrow> 'v \<Rightarrow> ('v, 'b, 's) Message set \<Rightarrow> u32 \<Rightarrow> nat \<Rightarrow>
    ('v, 'b, 's) BlockData \<Rightarrow> bool" where
  "core N V H S v A r k b \<longleftrightarrow>
     bd_validator_id b = Some v \<and> log_ok V H S (number b) (msg_log b) \<and>
     (\<forall>x\<in>A. sender x = v \<and> before (number b) r k x) \<and> votes_ok N V H S A \<and>
     (\<forall>lr li. locked b = Some (lr, li) \<longrightarrow> lr \<le> r \<and> (k \<le> 1 \<longrightarrow> lr < r) \<and> polka N V H S (number b) lr li) \<and>
     (\<forall>x\<in>A. \<forall>i s. data x = Precommit (Some (i, s)) \<longrightarrow> msg_block x = number b \<longrightarrow>
        (\<exists>lr li. locked b = Some (lr, li) \<and> msg_round x \<le> lr \<and> (lr = msg_round x \<longrightarrow> li = i))) \<and>
     (\<forall>vr vb. valid b = Some (vr, vb) \<longrightarrow> vr \<le> r \<and> (k = 0 \<longrightarrow> vr < r))"

text \<open>\<open>I\<close> are the messages issued before, those of the queue are yet to be sent.\<close>

definition tm_inv :: "('v, 'b, 's, 'a) Network_trait \<Rightarrow> 'v set \<Rightarrow> 'v set \<Rightarrow> ('v, 'b, 's) Message set \<Rightarrow> 'v \<Rightarrow> ('v, 'b, 's) Message set \<Rightarrow>
    ('v, 'b, 's, 'a) TendermintMachine \<Rightarrow> bool" where
  "tm_inv N V H S v I m \<longleftrightarrow> (\<exists>rd. bd_round (block m) = Some rd \<and>
     core N V H S v (I \<union> set (queue m)) (rd_number rd) (Suc (step_index (rd_step rd))) (block m))"

lemma before_mono: "before n r k x \<Longrightarrow> k \<le> k' \<Longrightarrow> before n r k' x"
  by (auto simp: before_def)

lemma before_round: "before n r k x \<Longrightarrow> r < r' \<Longrightarrow> before n r' k' x"
  by (auto simp: before_def)

lemma core_block:
  assumes "core N V H S v A r k b" "number b' = number b" "bd_validator_id b' = bd_validator_id b" "msg_log b' = msg_log b"
    "locked b' = locked b" "valid b' = valid b"
  shows "core N V H S v A r k b'"
  using assms by (simp add: core_def)

lemma core_round:
  assumes c: "core N V H S v A r k b" and r: "r < r'"
  shows "core N V H S v A r' k' b"
proof -
  have "\<forall>x\<in>A. sender x = v \<and> before (number b) r' k' x" using c before_round [OF _ r] unfolding core_def by blast
  moreover have "\<forall>lr li. locked b = Some (lr, li) \<longrightarrow> lr \<le> r' \<and> (k' \<le> 1 \<longrightarrow> lr < r') \<and> polka N V H S (number b) lr li"
    "\<forall>vr vb. valid b = Some (vr, vb) \<longrightarrow> vr \<le> r' \<and> (k' = 0 \<longrightarrow> vr < r')"
    using c r unfolding core_def by (meson order_le_less_trans less_imp_le)+
  ultimately show ?thesis using c unfolding core_def by blast
qed

lemma core_step:
  assumes c: "core N V H S v A r k b" and k: "k \<le> k'"
  shows "core N V H S v A r k' b"
proof -
  have "\<forall>x\<in>A. sender x = v \<and> before (number b) r k' x" using c before_mono [OF _ k] unfolding core_def by blast
  moreover have "\<forall>lr li. locked b = Some (lr, li) \<longrightarrow> lr \<le> r \<and> (k' \<le> 1 \<longrightarrow> lr < r) \<and> polka N V H S (number b) lr li"
    "\<forall>vr vb. valid b = Some (vr, vb) \<longrightarrow> vr \<le> r \<and> (k' = 0 \<longrightarrow> vr < r)"
    using c k unfolding core_def by (meson le_trans le_zero_eq)+
  ultimately show ?thesis using c unfolding core_def by blast
qed

lemma core_log: "core N V H S v A r k b \<Longrightarrow> log_ok V H S (number b) l \<Longrightarrow> core N V H S v A r k (b\<lparr>msg_log := l\<rparr>)"
  by (simp add: core_def)

lemma log_ok_mono: "log_ok V H S n l \<Longrightarrow> S \<subseteq> S' \<Longrightarrow> log_ok V H S' n l"
  unfolding log_ok_def by blast

lemma core_mono: "core N V H S v A r k b \<Longrightarrow> S \<subseteq> S' \<Longrightarrow> core N V H S' v A r k b"
  unfolding core_def using log_ok_mono [of V H S _ _ S'] votes_ok_mono [of N V H S A S'] polka_mono [of N V H S _ _ _ S'] by blast

lemma core_subset: "core N V H S v A r k b \<Longrightarrow> B \<subseteq> A \<Longrightarrow> core N V H S v B r k b"
  unfolding core_def using votes_ok_subset [of N V H S A B] by blast

lemma log_ok_empty: "log_ok V H S n []"
  by (simp add: log_ok_def log_wf_def log_get_def)

text \<open>A block starts with nothing locked.\<close>

lemma core_new_block:
  assumes "core N V H S v A r k b" "number b < n"
  shows "core N V H S v A 0 0 (BlockData_new n (Some v) proposal)"
proof -
  have "before n 0 0 x" "msg_block x \<noteq> n" if "x \<in> A" for x
    using assms that by (auto simp: core_def before_def)
  then show ?thesis using assms(1) by (simp add: core_def BlockData_new_def log_ok_empty)
qed

section \<open>Issuing a message\<close>

lemma votes_ok_insert:
  assumes ok: "votes_ok N V H S A" and bef: "\<And>y. y \<in> A \<Longrightarrow> before (msg_block x) (msg_round x) k y" and k: "k \<le> step_index (data_step (data x))"
    and propose: "\<And>vr b. data x = Proposal (Some vr) b \<Longrightarrow> vr < msg_round x"
    and commit: "\<And>i s. data x = Precommit (Some (i, s)) \<Longrightarrow> polka N V H S (msg_block x) (msg_round x) i"
    and vote: "\<And>y i s j. y \<in> A \<Longrightarrow> data y = Precommit (Some (i, s)) \<Longrightarrow> data x = Prevote (Some j) \<Longrightarrow> msg_block y = msg_block x \<Longrightarrow>
      i \<noteq> j \<Longrightarrow> \<exists>vr. msg_round y \<le> vr \<and> vr < msg_round x \<and> polka N V H S (msg_block x) vr j"
  shows "votes_ok N V H S (insert x A)"
proof -
  have fresh: "\<not> (msg_block y = msg_block x \<and> msg_round y = msg_round x \<and> data_step (data y) = data_step (data x))" if "y \<in> A" for y
    using bef [OF that] k by (auto simp: before_def)
  have first: "\<not> (msg_block y = msg_block x \<and> msg_round x < msg_round y)" if "y \<in> A" for y
    using bef [OF that] by (auto simp: before_def)
  have u1: "a = b" if "a \<in> insert x A" "b \<in> insert x A" "msg_block a = msg_block b" "msg_round a = msg_round b" "data_step (data a) = data_step (data b)" for a b
    using that fresh votes_ok_unique [OF ok] by (metis insert_iff)
  have u2: "vr < msg_round a" if "a \<in> insert x A" "data a = Proposal (Some vr) b" for a vr b
    using that propose ok unfolding votes_ok_def by blast
  have u3: "polka N V H S (msg_block a) (msg_round a) i" if "a \<in> insert x A" "data a = Precommit (Some (i, s))" for a i s
    using that commit votes_ok_precommit [OF ok] by blast
  have u4: "\<exists>vr. msg_round a \<le> vr \<and> vr < msg_round b \<and> polka N V H S (msg_block b) vr j"
    if "a \<in> insert x A" "b \<in> insert x A" "data a = Precommit (Some (i, s))" "data b = Prevote (Some j)" "msg_block a = msg_block b"
      "msg_round a < msg_round b" "i \<noteq> j" for a b i s j
  proof -
    have "a \<in> A" using that first by auto
    show ?thesis
    proof (cases "b = x")
      case True
      then show ?thesis using vote [OF \<open>a \<in> A\<close> that(3)] that by auto
    next
      case False
      then show ?thesis using votes_ok_lock [OF ok \<open>a \<in> A\<close> _ that(3-7)] that(2) by auto
    qed
  qed
  show ?thesis unfolding votes_ok_def
    by (intro conjI ballI allI impI, use u1 in blast, use u2 in blast, use u3 in blast, rule u4)
qed

lemma core_insert:
  assumes c: "core N V H S v A r k b" and x: "sender x = v" "msg_block x = number b" "msg_round x = r" and k: "k \<le> step_index (data_step (data x))"
    and propose: "\<And>vr b. data x = Proposal (Some vr) b \<Longrightarrow> vr < r"
    and commit: "\<And>i s. data x = Precommit (Some (i, s)) \<Longrightarrow> locked b = Some (r, i)"
    and vote: "\<And>y i s j. y \<in> A \<Longrightarrow> data y = Precommit (Some (i, s)) \<Longrightarrow> data x = Prevote (Some j) \<Longrightarrow> msg_block y = number b \<Longrightarrow>
      i \<noteq> j \<Longrightarrow> \<exists>vr. msg_round y \<le> vr \<and> vr < r \<and> polka N V H S (number b) vr j"
  shows "core N V H S v (insert x A) r (Suc (step_index (data_step (data x)))) b"
proof -
  have "core N V H S v A r (Suc (step_index (data_step (data x)))) b" by (rule core_step [OF c]) (use k in simp)
  moreover have "votes_ok N V H S (insert x A)"
  proof (rule votes_ok_insert [OF _ _ k])
    show "votes_ok N V H S A" "\<And>y. y \<in> A \<Longrightarrow> before (msg_block x) (msg_round x) k y" using c x by (auto simp: core_def)
    show "polka N V H S (msg_block x) (msg_round x) i" if "data x = Precommit (Some (i, s))" for i s
      using c commit [OF that] x by (auto simp: core_def)
  qed (use x propose vote in auto)
  moreover have "before (number b) r (Suc (step_index (data_step (data x)))) x" using x by (simp add: before_def)
  ultimately show ?thesis using x commit by (auto simp: core_def)
qed

section \<open>Operations\<close>

text \<open>What a call tells the network, slashes apart.\<close>

definition outs :: "('v, 'b, 's, 'a) TendermintMachine \<Rightarrow> ('v, 'b, 's, 'a) net_call list" where
  "outs m = [c \<leftarrow> calls m. case c of NetSlash _ _ \<Rightarrow> False | _ \<Rightarrow> True]"

lemma outs_update [simp]: "outs (m\<lparr>block := b\<rparr>) = outs m" "outs (m\<lparr>queue := q\<rparr>) = outs m" "outs (update_round f m) = outs m"
  by (simp_all add: outs_def update_round_def)

lemma broadcast_block:
  assumes "broadcast N d m = Some m'" "bd_round (block m) = Some rd"
  shows "block m' = (block m)\<lparr>bd_round := Some (rd\<lparr>rd_step := data_step d\<rparr>)\<rparr>" and "calls m' = calls m"
  using assms by (cases "bd_validator_id (block m)"; auto simp: broadcast_def block_message_def Let_def split: if_splits)+

lemma broadcast_inv:
  assumes b: "broadcast N d m = Some m'" and rd: "bd_round (block m) = Some rd"
    and c: "core N V H S v (I \<union> set (queue m)) (rd_number rd) k (block m)" and k: "k \<le> step_index (data_step d)"
    and propose: "\<And>vr b. d = Proposal (Some vr) b \<Longrightarrow> vr < rd_number rd"
    and commit: "\<And>i s. d = Precommit (Some (i, s)) \<Longrightarrow> locked (block m) = Some (rd_number rd, i)"
    and vote: "\<And>y i s j. y \<in> I \<union> set (queue m) \<Longrightarrow> data y = Precommit (Some (i, s)) \<Longrightarrow> d = Prevote (Some j) \<Longrightarrow> msg_block y = number (block m) \<Longrightarrow>
      i \<noteq> j \<Longrightarrow> \<exists>vr. msg_round y \<le> vr \<and> vr < rd_number rd \<and> polka N V H S (number (block m)) vr j"
  shows "tm_inv N V H S v I m' \<and> number (block m') = number (block m) \<and> outs m' = outs m"
proof -
  define x where "x = \<lparr>sender = v, msg_block = number (block m), msg_round = rd_number rd, data = d\<rparr>"
  have v: "bd_validator_id (block m) = Some v" using c by (simp add: core_def)
  have b': "block m' = (block m)\<lparr>bd_round := Some (rd\<lparr>rd_step := data_step d\<rparr>)\<rparr>" and q: "queue m' = queue m \<or> queue m' = queue m @ [x]"
    and o: "outs m' = outs m"
    using b rd v by (auto simp: broadcast_def block_message_def x_def Let_def outs_def split: if_splits)
  have "core N V H S v (insert x (I \<union> set (queue m))) (rd_number rd) (Suc (step_index (data_step (data x)))) (block m)"
    by (rule core_insert [OF c]) (use k propose commit vote in \<open>auto simp: x_def\<close>)
  moreover have "I \<union> set (queue m') \<subseteq> insert x (I \<union> set (queue m))" using q by auto
  ultimately have "core N V H S v (I \<union> set (queue m')) (rd_number rd) (Suc (step_index (data_step (data x)))) (block m)"
    by (rule core_subset)
  then have "core N V H S v (I \<union> set (queue m')) (rd_number rd) (Suc (step_index (data_step d))) (block m)" by (simp add: x_def)
  then have "core N V H S v (I \<union> set (queue m')) (rd_number rd) (Suc (step_index (data_step d))) (block m')"
    by (rule core_block) (simp_all add: b')
  then show ?thesis using o by (auto simp: tm_inv_def b')
qed

lemma populate_end_time_spec: "populate_end_time N r b = Some b' \<Longrightarrow> \<exists>ends. b' = b\<lparr>end_time := ends\<rparr>"
  by (auto simp: populate_end_time_def bind_eq_Some_conv)

lemma set_timeout_spec [simp]: "rd_number (set_timeout N st rd) = rd_number rd" "rd_step (set_timeout N st rd) = rd_step rd"
  by (simp_all add: set_timeout_def split: option.split)

lemma new_round_spec:
  assumes "new_round N r p t b = Some (b', d)"
  shows "(\<exists>rd. bd_round b' = Some rd \<and> rd_number rd = r \<and> rd_step rd = Step.Propose) \<and>
    number b' = number b \<and> bd_validator_id b' = bd_validator_id b \<and> msg_log b' = msg_log b \<and> locked b' = locked b \<and> valid b' = valid b \<and>
    (case d of None \<Rightarrow> True | Some d \<Rightarrow> \<exists>blk. d = Proposal (map_option fst (valid b)) blk)"
proof -
  from assms obtain b1 start where b1: "(if r \<noteq> 0 then populate_end_time N r b else Some b) = Some b1"
    and res: "(let rd = RoundData_new r start;
         b = b1\<lparr>bd_round := Some rd, end_time := AList.update r (round_end_time N rd) (end_time b1)\<rparr>
     in if Some p = bd_validator_id b
        then Some (b, map_option (Proposal (map_option fst (valid b)))
               (case map_option snd (valid b) of Some blk \<Rightarrow> Some blk | None \<Rightarrow> bd_proposal b))
        else Some (b\<lparr>bd_round := Some (set_timeout N Step.Propose rd)\<rparr>, None)) = Some (b', d)"
    unfolding new_round_def bind_eq_Some_conv by blast
  have "\<exists>ends. b1 = b\<lparr>end_time := ends\<rparr>"
  proof (cases "r = 0")
    case True
    then have "b1 = b\<lparr>end_time := end_time b\<rparr>" using b1 by simp
    then show ?thesis by blast
  qed (use b1 populate_end_time_spec [of N r b b1] in simp)
  then obtain ends where b1: "b1 = b\<lparr>end_time := ends\<rparr>" ..
  show ?thesis
  proof (cases "Some p = bd_validator_id b")
    case True
    with res show ?thesis by (auto simp: Let_def b1 RoundData_new_def split: option.split)
  next
    case False
    with res show ?thesis by (auto simp: Let_def b1 RoundData_new_def)
  qed
qed

lemma machine_round_inv:
  assumes "machine_round N r t m = Some (m', p)" and c: "core N V H S v (I \<union> set (queue m)) r 0 (block m)"
  shows "tm_inv N V H S v I m' \<and> number (block m') = number (block m) \<and> msg_log (block m') = msg_log (block m) \<and> outs m' = outs m \<and>
    (\<exists>rd. bd_round (block m') = Some rd \<and> rd_number rd = r)"
proof -
  obtain b d where nr: "new_round N r (proposer N (number (block m)) r) t (block m) = Some (b, d)"
    and m': "case d of Some d \<Rightarrow> broadcast N d (m\<lparr>block := b\<rparr>) = Some m' | None \<Rightarrow> m' = m\<lparr>block := b\<rparr>"
    using assms(1) by (auto simp: machine_round_def bind_eq_Some_conv split: option.splits)
  note s = new_round_spec [OF nr]
  then obtain rd where rd: "bd_round b = Some rd" "rd_number rd = r" "rd_step rd = Step.Propose" by blast
  have cb: "core N V H S v (I \<union> set (queue m)) (rd_number rd) 0 b" by (rule core_block [OF c [folded rd(2)]]) (use s in simp_all)
  show ?thesis
  proof (cases d)
    case None
    then have "m' = m\<lparr>block := b\<rparr>" using m' by simp
    then show ?thesis using core_step [OF cb, of 1] rd s by (auto simp: tm_inv_def outs_def)
  next
    case (Some d')
    then obtain blk where d': "d' = Proposal (map_option fst (valid (block m))) blk" and br: "broadcast N d' (m\<lparr>block := b\<rparr>) = Some m'"
      using s m' by auto
    have "vr < rd_number rd" if "d' = Proposal (Some vr) x" for vr x
      using that d' c rd(2) by (auto simp: core_def)
    then have "tm_inv N V H S v I m' \<and> number (block m') = number (block (m\<lparr>block := b\<rparr>)) \<and> outs m' = outs (m\<lparr>block := b\<rparr>)"
      by (intro broadcast_inv [OF br, where k = 0 and rd = rd]) (simp_all add: rd(1) cb d')
    then have inv: "tm_inv N V H S v I m'" "number (block m') = number b" "outs m' = outs m" by (simp_all add: outs_def)
    have "msg_log (block m') = msg_log b" "\<exists>rd. bd_round (block m') = Some rd \<and> rd_number rd = r"
      using broadcast_block(1) [OF br, of rd] rd by simp_all
    then show ?thesis using s inv by simp
  qed
qed

section \<open>The log\<close>

lemma log_get_update:
  assumes "map_of l r = Some rl \<or> map_of l r = None \<and> rl = []"
  shows "log_get (AList.update r (AList.update v msgs rl) l) r' v' st =
    (if r' = r \<and> v' = v then map_of msgs st else log_get l r' v' st)"
  using assms by (auto simp: log_get_def update_conv')

lemma log_wf_update:
  assumes wf: "log_wf V l" and "map_of l r = Some rl \<or> map_of l r = None \<and> rl = []" and "v \<in> V"
  shows "log_wf V (AList.update r (AList.update v msgs rl) l)"
proof -
  have "distinct (map fst rl)" "set (map fst rl) \<subseteq> V" using assms by (auto simp: log_wf_def)
  then have "distinct (map fst (AList.update v msgs rl))" "set (map fst (AList.update v msgs rl)) \<subseteq> V"
    using assms(3) by (auto simp: distinct_update update_keys)
  then show ?thesis using wf by (auto simp: log_wf_def update_conv')
qed

lemma log_message_ok:
  assumes l: "log_ok V H S n l" and x: "msg_block (msg sm) = n" "sender (msg sm) \<in> V" "sender (msg sm) \<in> H \<Longrightarrow> msg sm \<in> S"
    and res: "log_message N sm l = (l', res)"
  shows "log_ok V H S n l'"
proof -
  define r v st where "r = msg_round (msg sm)" and "v = sender (msg sm)" and "st = data_step (data (msg sm))"
  define rl where "rl = (case map_of l r of None \<Rightarrow> [] | Some rl \<Rightarrow> rl)"
  define msgs where "msgs = (case map_of rl v of None \<Rightarrow> [] | Some msgs \<Rightarrow> msgs)"
  have rl: "map_of l r = Some rl \<or> map_of l r = None \<and> rl = []" by (simp add: rl_def split: option.split)
  have msgs: "map_of msgs st' = log_get l r v st'" for st'
    by (simp add: msgs_def rl_def log_get_def split: option.split)
  have "l' = AList.update r (AList.update v msgs rl) l \<or> l' = AList.update r (AList.update v (AList.update st sm msgs) rl) l"
    using res by (auto simp: log_message_def Let_def r_def v_def st_def rl_def msgs_def split: option.splits if_splits)
  then obtain msgs' where l': "l' = AList.update r (AList.update v msgs' rl) l" and m': "msgs' = msgs \<or> msgs' = AList.update st sm msgs" by blast
  have "log_get l' r' v' st' = Some sm' \<Longrightarrow> log_get l r' v' st' = Some sm' \<or> r' = r \<and> v' = v \<and> st' = st \<and> sm' = sm" for r' v' st' sm'
    using m' by (auto simp: l' log_get_update [OF rl] msgs update_conv' split: if_splits)
  then show ?thesis
    using l x log_wf_update [OF _ rl, of V v msgs'] unfolding log_ok_def l' r_def v_def st_def by blast
qed

lemma log_ok_delete:
  assumes l: "log_ok V H S n l" and rl: "map_of l r = Some rl" "map_of rl v = Some msgs"
  shows "log_ok V H S n (AList.update r (AList.update v (AList.delete st msgs) rl) l)"
proof -
  have v: "v \<in> V" using l rl by (force simp: log_ok_def log_wf_def dest: map_of_SomeD)
  have "log_get (AList.update r (AList.update v (AList.delete st msgs) rl) l) r' v' st' = Some sm \<Longrightarrow> log_get l r' v' st' = Some sm" for r' v' st' sm
    using rl by (auto simp: log_get_def update_conv' delete_conv' split: if_splits)
  then show ?thesis using l log_wf_update [of V l r rl v] rl v unfolding log_ok_def by blast
qed

lemma slash_same [simp]:
  "bd_round (block (slash v ev m)) = bd_round (block m)" "number (block (slash v ev m)) = number (block m)"
  "bd_validator_id (block (slash v ev m)) = bd_validator_id (block m)" "msg_log (block (slash v ev m)) = msg_log (block m)"
  "locked (block (slash v ev m)) = locked (block m)" "valid (block (slash v ev m)) = valid (block m)"
  "queue (slash v ev m) = queue m" "outs (slash v ev m) = outs m" "end_time (block (slash v ev m)) = end_time (block m)"
  by (simp_all add: slash_def net_call_def outs_def)

lemma recheck_inv:
  "recheck_precommits N r rl m = Some m' \<Longrightarrow> core N V H S v A r' k (block m) \<Longrightarrow>
   core N V H S v A r' k (block m') \<and> bd_round (block m') = bd_round (block m) \<and> number (block m') = number (block m) \<and>
   queue m' = queue m \<and> outs m' = outs m"
proof (induction N r rl m rule: recheck_precommits.induct)
  case (2 N r w msgs rest m)
  show ?case
  proof (cases "map_of msgs Step.Precommit")
    case None
    then show ?thesis using 2 by simp
  next
    case (Some existing)
    show ?thesis
    proof (cases "verify_precommit_signature N (block m) existing")
      case (Inr res)
      then show ?thesis using 2 Some by (simp split: if_splits)
    next
      case (Inl e)
      with 2(4) Some obtain rl vl rem where g: "map_of (msg_log (block m)) r = Some rl" "map_of rl w = Some vl" "map_of vl Step.Precommit = Some rem"
        by (auto simp: bind_eq_Some_conv)
      define b where "b = (block m)\<lparr>msg_log := AList.update r (AList.update w (AList.delete Step.Precommit vl) rl) (msg_log (block m))\<rparr>"
      define m1 where "m1 = slash w (WithEvidence (InvalidPrecommit (encode_SignedMessage N rem))) (m\<lparr>block := b\<rparr>)"
      have "log_ok V H S (number (block m)) (msg_log (block m))" using 2(5) by (simp add: core_def)
      then have "core N V H S v A r' k b" unfolding b_def by (intro core_log [OF 2(5)] log_ok_delete g)
      then have "core N V H S v A r' k (block m1)" by (rule core_block) (simp_all add: m1_def)
      moreover have "recheck_precommits N r rest m1 = Some m'"
        using 2(4) Some Inl g by (simp add: m1_def b_def)
      ultimately have "core N V H S v A r' k (block m') \<and> bd_round (block m') = bd_round (block m1) \<and> number (block m') = number (block m1) \<and>
          queue m' = queue m1 \<and> outs m' = outs m1"
        using 2(2) [OF Some Inl g, of b] by (simp add: m1_def b_def)
      then show ?thesis by (simp add: m1_def b_def)
    qed
  qed
qed simp

section \<open>Handling a message\<close>

text \<open>What the parts of the handler keep: the invariant, the block's number and the calls but slashes.\<close>

definition tm_kept :: "('v, 'b, 's, 'a) Network_trait \<Rightarrow> 'v set \<Rightarrow> 'v set \<Rightarrow> ('v, 'b, 's) Message set \<Rightarrow> 'v \<Rightarrow> ('v, 'b, 's) Message set \<Rightarrow>
    ('v, 'b, 's, 'a) TendermintMachine \<Rightarrow> ('v, 'b, 's, 'a) TendermintMachine \<Rightarrow> bool" where
  "tm_kept N V H S v I m m' \<longleftrightarrow> tm_inv N V H S v I m' \<and> number (block m') = number (block m) \<and> outs m' = outs m"

lemma jump_inv:
  assumes j: "jump N r m = Some (m', p)" and inv: "tm_inv N V H S v I m" "bd_round (block m) = Some rd" "rd_number rd < r"
  shows "tm_kept N V H S v I m m'"
proof -
  obtain m1 rl where m1: "machine_round N r None m = Some (m1, p)" and rl: "recheck_precommits N r rl m1 = Some m'"
    using j by (auto simp: jump_def bind_eq_Some_conv)
  have "core N V H S v (I \<union> set (queue m)) r 0 (block m)" using inv core_round by (auto simp: tm_inv_def)
  from machine_round_inv [OF m1 this] have m1': "tm_inv N V H S v I m1" "number (block m1) = number (block m)" "outs m1 = outs m" by auto
  then obtain rd1 where rd1: "bd_round (block m1) = Some rd1"
    "core N V H S v (I \<union> set (queue m1)) (rd_number rd1) (Suc (step_index (rd_step rd1))) (block m1)" by (auto simp: tm_inv_def)
  from recheck_inv [OF rl rd1(2)] show ?thesis using rd1 m1' by (auto simp: tm_kept_def tm_inv_def)
qed

lemma tm_inv_timeout:
  assumes "tm_inv N V H S v I m" "\<And>rd. rd_number (f rd) = rd_number rd" "\<And>rd. rd_step (f rd) = rd_step rd"
  shows "tm_kept N V H S v I m (update_round f m)"
proof -
  obtain rd where rd: "bd_round (block m) = Some rd"
    "core N V H S v (I \<union> set (queue m)) (rd_number rd) (Suc (step_index (rd_step rd))) (block m)" using assms(1) by (auto simp: tm_inv_def)
  have "core N V H S v (I \<union> set (queue m)) (rd_number rd) (Suc (step_index (rd_step rd))) (block (update_round f m))"
    by (rule core_block [OF rd(2)]) (simp_all add: update_round_def)
  then show ?thesis using rd(1) assms(2,3) by (simp add: tm_kept_def tm_inv_def update_round_def)
qed

lemma tm_kept_trans: "tm_kept N V H S v I m m1 \<Longrightarrow> tm_kept N V H S v I m1 m2 \<Longrightarrow> tm_kept N V H S v I m m2"
  by (simp add: tm_kept_def)

lemma tm_kept_refl: "tm_inv N V H S v I m \<Longrightarrow> tm_kept N V H S v I m m"
  by (simp add: tm_kept_def)

lemma vote_nil_inv:
  assumes b: "broadcast N d m = Some m'" and d: "d = Prevote None \<or> d = Precommit None" and inv: "tm_inv N V H S v I m"
    and rd: "bd_round (block m) = Some rd" "step_index (rd_step rd) < step_index (data_step d)"
  shows "tm_kept N V H S v I m m'"
proof -
  have "core N V H S v (I \<union> set (queue m)) (rd_number rd) (Suc (step_index (rd_step rd))) (block m)" using inv rd by (auto simp: tm_inv_def)
  then show ?thesis unfolding tm_kept_def by (rule broadcast_inv [OF b rd(1)]) (use rd d in auto)
qed

lemma on_prevote_inv:
  assumes p: "on_prevote N x rd m = Some (m', fin)" and inv: "tm_inv N V H S v I m" "bd_round (block m) = Some rd"
  shows "tm_kept N V H S v I m m' \<and> (\<not> fin \<longrightarrow> (\<exists>rd'. bd_round (block m') = Some rd' \<and> rd_number rd' = rd_number rd \<and> rd_step rd' = rd_step rd))"
proof (cases "rd_step rd = Step.Prevote \<and> is_prevote (data x)")
  case True
  then obtain pw w where "message_instances N (msg_log (block m)) (rd_number rd) (Prevote None) = Some (pw, w)"
    and m': "(let m = (if pw \<ge> threshold N then update_round (set_timeout N Step.Prevote) m else m)
        in if w \<ge> threshold N then Option.bind (broadcast N (Precommit None) m) (\<lambda>m. Some (m, True)) else Some (m, False)) = Some (m', fin)"
    using p by (auto simp: on_prevote_def bind_eq_Some_conv)
  define m1 where "m1 = (if pw \<ge> threshold N then update_round (set_timeout N Step.Prevote) m else m)"
  have k1: "tm_kept N V H S v I m m1" using tm_inv_timeout [OF inv(1)] tm_kept_refl [OF inv(1)] by (simp add: m1_def)
  have rd1: "\<exists>rd'. bd_round (block m1) = Some rd' \<and> rd_number rd' = rd_number rd \<and> rd_step rd' = rd_step rd"
    using inv(2) by (simp add: m1_def update_round_def)
  show ?thesis
  proof (cases "w \<ge> threshold N")
    case w: True
    then have b: "broadcast N (Precommit None) m1 = Some m'" and fin using m' by (auto simp: Let_def m1_def bind_eq_Some_conv)
    from rd1 obtain rd' where rd': "bd_round (block m1) = Some rd'" "rd_step rd' = Step.Prevote" using True by auto
    have "tm_kept N V H S v I m1 m'" by (rule vote_nil_inv [OF b]) (use k1 rd' in \<open>auto simp: tm_kept_def\<close>)
    then show ?thesis using tm_kept_trans [OF k1] \<open>fin\<close> by blast
  next
    case False
    then show ?thesis using m' k1 rd1 by (simp add: Let_def m1_def)
  qed
next
  case False
  then show ?thesis using p inv tm_kept_refl by (auto simp: on_prevote_def)
qed

text \<open>A supermajority of prevotes in the log is a polka.\<close>

lemma consensus_polka:
  assumes "log_ok V H S n l" "finite V" "has_consensus N l r (Prevote (Some i)) = Some True"
  shows "polka N V H S n r i"
proof -
  have "quorum N V (supporters l r (Prevote (Some i)))" using assms by (intro consensus_quorum) (auto simp: log_ok_def)
  moreover have "\<exists>x\<in>S. sender x = w \<and> msg_block x = n \<and> msg_round x = r \<and> data x = Prevote (Some i)"
    if w: "w \<in> supporters l r (Prevote (Some i)) \<inter> H" for w
  proof -
    obtain sm where sm: "log_get l r w Step.Prevote = Some sm" "data_eq (Prevote (Some i)) (data (msg sm))"
      using w by (auto simp: supporters_def)
    then have "data (msg sm) = Prevote (Some i)" by (cases "data (msg sm)") auto
    moreover have "sender (msg sm) = w \<and> msg_block (msg sm) = n \<and> msg_round (msg sm) = r \<and> msg sm \<in> S"
      using assms(1) sm(1) w unfolding log_ok_def by blast
    ultimately show ?thesis by blast
  qed
  ultimately show ?thesis unfolding polka_def by blast
qed

text \<open>A vote for a block is for the one locked, or follows a polka since the lock.\<close>

lemma vote_inv:
  assumes b: "broadcast N (Prevote vote) m = Some m'" and inv: "tm_inv N V H S v I m" and rd: "bd_round (block m) = Some rd" "rd_step rd = Step.Propose"
    and vote: "\<And>j lr li. vote = Some j \<Longrightarrow> locked (block m) = Some (lr, li) \<Longrightarrow> li \<noteq> j \<Longrightarrow>
      \<exists>vr. lr \<le> vr \<and> vr < rd_number rd \<and> polka N V H S (number (block m)) vr j"
  shows "tm_kept N V H S v I m m'"
proof -
  have c: "core N V H S v (I \<union> set (queue m)) (rd_number rd) 1 (block m)" using inv rd by (auto simp: tm_inv_def)
  show ?thesis unfolding tm_kept_def
  proof (rule broadcast_inv [OF b rd(1) c])
    fix y i s j
    assume y: "y \<in> I \<union> set (queue m)" "data y = Precommit (Some (i, s))" "Prevote vote = Prevote (Some j)" "msg_block y = number (block m)" "i \<noteq> j"
    then obtain lr li where l: "locked (block m) = Some (lr, li)" "msg_round y \<le> lr" "lr = msg_round y \<longrightarrow> li = i"
      using c unfolding core_def by blast
    have lock: "lr < rd_number rd" "polka N V H S (number (block m)) lr li" using c l(1) by (auto simp: core_def)
    show "\<exists>vr. msg_round y \<le> vr \<and> vr < rd_number rd \<and> polka N V H S (number (block m)) vr j"
    proof (cases "li = j")
      case True
      then show ?thesis using l(2) lock by blast
    next
      case False
      then obtain vr where "lr \<le> vr" "vr < rd_number rd" "polka N V H S (number (block m)) vr j" using vote [OF _ l(1) False] y(3) by auto
      then show ?thesis using l(2) order_trans by blast
    qed
  qed simp_all
qed

lemma on_proposal_inv:
  assumes p: "on_proposal N validate sm p vr blk rd m = Some (m', res)" and inv: "tm_inv N V H S v I m" "bd_round (block m) = Some rd'"
    and num: "rd_number rd' = rd_number rd" and step: "rd_step rd' = Step.Propose" and fin: "finite V"
  shows "tm_kept N V H S v I m m' \<and> res \<noteq> Inr (Some d)"
proof -
  obtain i where i: "block_id N blk = Some i" using p by (auto simp: on_proposal_def bind_eq_Some_conv)
  define raw where "raw = (if validate blk = None then Some i else None)"
  define vote where "vote = (if (case locked (block m) of None \<Rightarrow> True | Some (_, li) \<Rightarrow> li = i) then raw else None)"
  define vote' where "vote' vr = (case locked (block m) of Some (lr, _) \<Rightarrow> if vote = None \<and> lr \<le> vr then raw else vote | None \<Rightarrow> vote)" for vr
  define err where "err = (if validate blk = Some Fatal then Inl (Malicious p None) else Inr None :: 'a TendermintError + 'b option)"
  have unfolded: "on_proposal N validate sm p vr blk rd m = (case vr of
       Some r \<Rightarrow> if r \<ge> rd_number rd then Some (m, Inl (Malicious (sender (msg sm)) (Some (InvalidValidRound (encode_SignedMessage N sm)))))
         else Option.bind (has_consensus N (msg_log (block m)) r (Prevote (Some i)))
           (\<lambda>c. if c then Option.bind (broadcast N (Prevote (vote' r)) m) (\<lambda>m. Some (m, err)) else Some (m, Inr None))
     | None \<Rightarrow> Option.bind (broadcast N (Prevote vote) m) (\<lambda>m. Some (m, err)))"
    unfolding on_proposal_def i Option.bind.simps Let_def raw_def vote_def vote'_def err_def ..
  have err: "err \<noteq> Inr (Some d)" by (simp add: err_def)
  have l: "log_ok V H S (number (block m)) (msg_log (block m))" using inv(1) by (auto simp: tm_inv_def core_def)
  show ?thesis
  proof (cases vr)
    case None
    then have b: "broadcast N (Prevote vote) m = Some m'" and res: "res \<noteq> Inr (Some d)"
      using p [unfolded unfolded] err by (auto simp: bind_eq_Some_conv)
    have "tm_kept N V H S v I m m'" by (rule vote_inv [OF b inv step]) (auto simp: vote_def raw_def split: if_splits)
    then show ?thesis using res by blast
  next
    case (Some r)
    show ?thesis
    proof (cases "r < rd_number rd \<and> has_consensus N (msg_log (block m)) r (Prevote (Some i)) = Some True")
      case True
      then have b: "broadcast N (Prevote (vote' r)) m = Some m'" and res: "res \<noteq> Inr (Some d)"
        using p [unfolded unfolded] err Some by (auto simp: bind_eq_Some_conv split: if_splits)
      have "tm_kept N V H S v I m m'"
        by (rule vote_inv [OF b inv step])
          (use True num consensus_polka [OF l fin, of N r i] in \<open>auto simp: vote'_def vote_def raw_def split: if_splits\<close>)
      then show ?thesis using res by blast
    next
      case False
      then have "m' = m \<and> res \<noteq> Inr (Some d)"
        using p [unfolded unfolded] Some by (auto simp: bind_eq_Some_conv split: if_splits)
      then show ?thesis using tm_kept_refl [OF inv(1)] by simp
    qed
  qed
qed

lemma set_valid_inv:
  assumes inv: "tm_inv N V H S v I m" "bd_round (block m) = Some rd"
  shows "tm_kept N V H S v I m (m\<lparr>block := (block m)\<lparr>valid := Some (rd_number rd, blk)\<rparr>\<rparr>)"
  using inv by (auto simp: tm_kept_def tm_inv_def core_def)

text \<open>Locking a block with a polka and precommitting it.\<close>

lemma lock_inv:
  assumes b: "broadcast N (Precommit (Some (i, s))) (m\<lparr>block := (block m)\<lparr>locked := Some (rd_number rd, i)\<rparr>\<rparr>) = Some m'"
    and inv: "tm_inv N V H S v I m" and rd: "bd_round (block m) = Some rd" "rd_step rd = Step.Prevote"
    and polka: "polka N V H S (number (block m)) (rd_number rd) i"
  shows "tm_kept N V H S v I m m'"
proof -
  define m1 where "m1 = m\<lparr>block := (block m)\<lparr>locked := Some (rd_number rd, i)\<rparr>\<rparr>"
  have c: "core N V H S v (I \<union> set (queue m)) (rd_number rd) 2 (block m)" using inv rd by (auto simp: tm_inv_def numeral_2_eq_2)
  have "msg_round x \<le> rd_number rd \<and> rd_number rd \<noteq> msg_round x"
    if "x \<in> I \<union> set (queue m)" "data x = Precommit (Some (j, t))" "msg_block x = number (block m)" for x j t
  proof -
    have "before (number (block m)) (rd_number rd) 2 x" using c that(1) unfolding core_def by blast
    then show ?thesis using that by (auto simp: before_def)
  qed
  then have c1: "core N V H S v (I \<union> set (queue m1)) (rd_number rd) 2 (block m1)"
    using c polka unfolding core_def m1_def by auto
  have "tm_inv N V H S v I m' \<and> number (block m') = number (block m1) \<and> outs m' = outs m1"
    by (rule broadcast_inv [OF b [folded m1_def] _ c1]) (auto simp: m1_def rd)
  then show ?thesis by (simp add: tm_kept_def m1_def)
qed

lemma on_polka_inv:
  assumes p: "on_polka N validate p blk rd m = Some (m', res)" and inv: "tm_inv N V H S v I m" "bd_round (block m) = Some rd'"
    and rd: "rd_number rd' = rd_number rd" "rd_step rd' = rd_step rd" and fin: "finite V"
  shows "tm_kept N V H S v I m m' \<and> res \<noteq> Inr (Some d)"
proof -
  define m1 where "m1 = m\<lparr>block := (block m)\<lparr>valid := Some (rd_number rd', blk)\<rparr>\<rparr>"
  have k1: "tm_kept N V H S v I m m1" unfolding m1_def by (rule set_valid_inv [OF inv])
  consider (same) "m' = m" "res \<noteq> Inr (Some d)" | (valid) "m' = m1" "res = Inr None"
    | (lock) i s where "has_consensus N (msg_log (block m)) (rd_number rd') (Prevote (Some i)) = Some True" "rd_step rd' = Step.Prevote" "res = Inr None"
        "broadcast N (Precommit (Some (i, s))) (m1\<lparr>block := (block m1)\<lparr>locked := Some (rd_number rd', i)\<rparr>\<rparr>) = Some m'"
    using p unfolding on_polka_def by (auto simp: Let_def bind_eq_Some_conv m1_def rd split: if_splits)
  then show ?thesis
  proof cases
    case same
    then show ?thesis using tm_kept_refl [OF inv(1)] by simp
  next
    case valid
    then show ?thesis using k1 by simp
  next
    case (lock i s)
    have "log_ok V H S (number (block m)) (msg_log (block m))" using inv(1) by (auto simp: tm_inv_def core_def)
    from consensus_polka [OF this fin lock(1)] have "tm_kept N V H S v I m1 m'"
      by (intro lock_inv [OF lock(4)]) (use k1 inv lock(2) in \<open>auto simp: tm_kept_def m1_def\<close>)
    then show ?thesis using tm_kept_trans [OF k1] lock(3) by blast
  qed
qed

lemma current_round_inv:
  assumes p: "current_round N validate sm m = Some (m', res)" and inv: "tm_inv N V H S v I m" and fin: "finite V"
  shows "tm_kept N V H S v I m m' \<and> res \<noteq> Inr (Some d)"
proof -
  obtain rd m1 f where rd: "bd_round (block m) = Some rd" and m1: "on_prevote N (msg sm) rd m = Some (m1, f)"
    using p by (auto simp: current_round_def bind_eq_Some_conv)
  note k1 = on_prevote_inv [OF m1 inv rd]
  show ?thesis
  proof (cases f)
    case True
    then show ?thesis using p rd m1 k1 by (auto simp: current_round_def)
  next
    case False
    then obtain rd1 where rd1: "bd_round (block m1) = Some rd1" "rd_number rd1 = rd_number rd" "rd_step rd1 = rd_step rd" using k1 by blast
    define upd where "upd part = (if part then update_round (set_timeout N Step.Precommit) m1 else m1)" for part
    have k2: "tm_kept N V H S v I m (upd part)" for part
      using k1 tm_kept_trans [OF _ tm_inv_timeout [of N V H S v I m1 "set_timeout N Step.Precommit"]] by (simp add: upd_def tm_kept_def)
    have rd2: "\<exists>rd2. bd_round (block (upd part)) = Some rd2 \<and> rd_number rd2 = rd_number rd \<and> rd_step rd2 = rd_step rd" for part
      using rd1 by (simp add: upd_def update_round_def)
    consider (none) part where "m' = upd part" "res = Inr None"
      | (proposal) part pr vr blk where "rd_step rd = Step.Propose" "on_proposal N validate sm pr vr blk rd (upd part) = Some (m', res)"
      | (polka) part pr blk where "on_polka N validate pr blk rd (upd part) = Some (m', res)"
    proof -
      obtain part where rest: "(case log_get (msg_log (block (upd part))) (rd_number rd) (proposer N (number (block (upd part))) (rd_number rd)) Step.Propose of
          None \<Rightarrow> Some (upd part, Inr None)
        | Some ps \<Rightarrow> (case data (msg ps) of
              Proposal vr blk \<Rightarrow>
                if rd_step rd = Step.Propose then on_proposal N validate sm (proposer N (number (block (upd part))) (rd_number rd)) vr blk rd (upd part)
                else on_polka N validate (proposer N (number (block (upd part))) (rd_number rd)) blk rd (upd part)
            | _ \<Rightarrow> None)) = Some (m', res)"
        using p rd m1 False unfolding current_round_def Let_def upd_def by (auto simp: bind_eq_Some_conv)
      then show ?thesis by (auto split: option.splits Data.splits if_splits intro: that)
    qed
    then show ?thesis
    proof cases
      case (polka part pr blk)
      obtain rd2 where r2: "bd_round (block (upd part)) = Some rd2" "rd_number rd2 = rd_number rd" "rd_step rd2 = rd_step rd" using rd2 by blast
      have inv2: "tm_inv N V H S v I (upd part)" using k2 by (simp add: tm_kept_def)
      have "tm_kept N V H S v I (upd part) m' \<and> res \<noteq> Inr (Some d)"
        using on_polka_inv [OF polka inv2 r2 fin] .
      then show ?thesis using tm_kept_trans [OF k2] by blast
    next
      case (proposal part pr vr blk)
      obtain rd2 where r2: "bd_round (block (upd part)) = Some rd2" "rd_number rd2 = rd_number rd" "rd_step rd2 = rd_step rd" using rd2 by blast
      have inv2: "tm_inv N V H S v I (upd part)" using k2 by (simp add: tm_kept_def)
      have "tm_kept N V H S v I (upd part) m' \<and> res \<noteq> Inr (Some d)"
        using on_proposal_inv [OF proposal(2) inv2 r2(1,2) _ fin] r2(3) proposal(1) by simp
      then show ?thesis using tm_kept_trans [OF k2] by blast
    qed (use k2 in simp)
  qed
qed

fun_cases data_eq_precommit: "data_eq (Precommit (Some (i, t))) d"

lemma consensus_committed:
  assumes "log_ok V H S n l" "finite V" "has_consensus N l r (Precommit (Some (i, t))) = Some True"
  shows "committed N V H S n r i"
proof -
  have "quorum N V (supporters l r (Precommit (Some (i, t))))" using assms by (intro consensus_quorum) (auto simp: log_ok_def)
  moreover have "\<exists>x\<in>S. \<exists>s. sender x = w \<and> msg_block x = n \<and> msg_round x = r \<and> data x = Precommit (Some (i, s))"
    if w: "w \<in> supporters l r (Precommit (Some (i, t))) \<inter> H" for w
  proof -
    obtain sm where sm: "log_get l r w Step.Precommit = Some sm" "data_eq (Precommit (Some (i, t))) (data (msg sm))"
      using w by (auto simp: supporters_def)
    then have "\<exists>s. data (msg sm) = Precommit (Some (i, s))"
      by (elim data_eq_precommit) blast
    moreover have "sender (msg sm) = w \<and> msg_block (msg sm) = n \<and> msg_round (msg sm) = r \<and> msg sm \<in> S"
      using assms(1) sm(1) w unfolding log_ok_def by blast
    ultimately show ?thesis by blast
  qed
  ultimately show ?thesis unfolding committed_def by blast
qed

lemma finalizer_committed:
  assumes "finalizer N x b = Some (Some d)" "log_ok V H S (number b) (msg_log b)" "finite V"
  shows "\<exists>i. block_id N d = Some i \<and> committed N V H S (number b) (msg_round x) i"
proof -
  obtain i where "block_id N d = Some i" "has_consensus N (msg_log b) (msg_round x) (Precommit (Some (i, sign N []))) = Some True"
    using assms(1) by (auto simp: finalizer_def bind_eq_Some_conv split: if_splits option.splits Data.splits)
  then show ?thesis using consensus_committed [OF assms(2,3)] by blast
qed

lemma message_inv:
  assumes p: "message N validate sm m = Some (m', res)" and inv: "tm_inv N V H S v I m" and fin: "finite V"
    and x: "sender (msg sm) \<in> V" "sender (msg sm) \<in> H \<Longrightarrow> msg sm \<in> S"
  shows "tm_kept N V H S v I m m' \<and>
    (res = Inr (Some d) \<longrightarrow> (\<exists>i. block_id N d = Some i \<and> committed N V H S (number (block m)) (msg_round (msg sm)) i))"
proof -
  obtain l lres where lm: "log_message N sm (msg_log (block m)) = (l, lres)" by force
  define m1 where "m1 = m\<lparr>block := (block m)\<lparr>msg_log := l\<rparr>\<rparr>"
  have early: "tm_kept N V H S v I m m" by (rule tm_kept_refl [OF inv])
  obtain rd where rd: "bd_round (block m) = Some rd" using inv by (auto simp: tm_inv_def)
  show ?thesis
  proof (cases "msg_block (msg sm) = number (block m)")
    case False
    then show ?thesis using p early by (auto simp: message_def Let_def)
  next
    case True
    have lo: "log_ok V H S (number (block m)) l"
      by (rule log_message_ok [OF _ True x lm]) (use inv in \<open>auto simp: tm_inv_def core_def\<close>)
    then have k1: "tm_kept N V H S v I m m1" and inv1: "tm_inv N V H S v I m1"
      using inv core_log unfolding tm_kept_def tm_inv_def m1_def by fastforce+
    have rd1: "bd_round (block m1) = Some rd" using rd by (simp add: m1_def)
    have lo1: "log_ok V H S (number (block m1)) (msg_log (block m1))" using lo by (simp add: m1_def)
    consider (early) e where "m' = m" "res = Inl e" | (logged) e where "m' = m1" "res = Inl e \<or> res = Inr None"
      | (final) b where "finalizer N (msg sm) (block m1) = Some (Some b)" "m' = m1" "res = Inr (Some b)"
      | (here) "current_round N validate sm m1 = Some (m', res)"
      | (jump) m2 b where "rd_number rd < msg_round (msg sm)" "jump N (msg_round (msg sm)) m1 = Some (m2, b)"
          "if b then m' = m2 \<and> res = Inr None else current_round N validate sm m2 = Some (m', res)"
    proof (cases "(\<exists>e. verify_precommit_signature N (block m) sm = Inl e) \<or> is_proposal (data (msg sm)) \<and> sender (msg sm) \<noteq> proposer N (msg_block (msg sm)) (msg_round (msg sm))")
      case True
      with p rd \<open>msg_block (msg sm) = number (block m)\<close> have "\<exists>e. m' = m \<and> res = Inl e"
        by (cases "verify_precommit_signature N (block m) sm") (auto simp: message_def)
      then show ?thesis using that(1) by blast
    next
      case False
      then obtain ok where ok: "verify_precommit_signature N (block m) sm = Inr ok"
        "\<not> (is_proposal (data (msg sm)) \<and> sender (msg sm) \<noteq> proposer N (msg_block (msg sm)) (msg_round (msg sm)))"
        by (cases "verify_precommit_signature N (block m) sm") auto
      show ?thesis
      proof (cases "lres = Inr True")
        case True
        have "message N validate sm m = Option.bind (finalizer N (msg sm) (block m1)) (\<lambda>final. case final of
            Some decided \<Rightarrow> Some (m1, Inr (Some decided))
          | None \<Rightarrow> if msg_round (msg sm) < rd_number rd then Some (m1, Inr None)
              else if msg_round (msg sm) > rd_number rd
              then if round_participation N (msg_log (block m1)) (msg_round (msg sm)) > fault_threshold N
                   then Option.bind (jump N (msg_round (msg sm)) m1) (\<lambda>(m, proposed).
                     if proposed then Some (m, Inr None) else current_round N validate sm m)
                   else Some (m1, Inr None)
              else current_round N validate sm m1)"
          unfolding message_def Let_def rd Option.bind.simps ok(1) lm True prod.case sum.case m1_def [symmetric]
          using ok(2) \<open>msg_block (msg sm) = number (block m)\<close> by (simp only: simp_thms if_True if_False)
        with p show ?thesis by (auto simp: bind_eq_Some_conv split: option.splits if_splits intro: that)
      next
        case False
        with p rd lm ok \<open>msg_block (msg sm) = number (block m)\<close> have "m' = m1 \<and> (\<exists>e. res = Inl e)"
          by (cases lres) (auto simp: message_def m1_def Let_def)
        then show ?thesis using that(2) by blast
      qed
    qed
    then show ?thesis
    proof cases
      case early
      then show ?thesis using tm_kept_refl [OF inv] by simp
    next
      case logged
      then show ?thesis using k1 by auto
    next
      case (final b)
      then show ?thesis using finalizer_committed [OF final(1) lo1 fin] k1 by (auto simp: m1_def)
    next
      case here
      then show ?thesis using current_round_inv [OF here inv1 fin] tm_kept_trans [OF k1] by blast
    next
      case (jump m2 b)
      have k2: "tm_kept N V H S v I m m2" using tm_kept_trans [OF k1 jump_inv [OF jump(2) inv1 rd1 jump(1)]] .
      show ?thesis
      proof (cases b)
        case True
        then show ?thesis using jump(3) k2 by simp
      next
        case False
        then have cur: "current_round N validate sm m2 = Some (m', res)" using jump(3) by simp
        have "tm_inv N V H S v I m2" using k2 by (simp add: tm_kept_def)
        then show ?thesis using current_round_inv [OF cur _ fin] tm_kept_trans [OF k2] by blast
      qed
    qed
  qed
qed

end
