(* ===== verification/Tendermint_Agreement.thy ===== *)
theory Tendermint_Agreement
  imports Tendermint_Invariant
begin

text \<open>
  A network of Tendermint machines. The honest validators run the machine, the others send what
  they like, and the network delivers messages in any order or not at all. Machines that produced a
  block of the same number by consensus produced the same one, and no evidence that a machine
  equivocated or named a future round convicts an honest validator.
\<close>

section \<open>Events keep the invariant\<close>

definition own :: "'v \<Rightarrow> ('v, 'b, 's, 'a) TendermintMachine \<Rightarrow> ('v, 'b, 's) Message set" where
  "own v m = {msg sm | sm. NetBroadcast sm \<in> set (calls m) \<and> sender (msg sm) = v}"

definition produced :: "('v, 'b, 's, 'a) TendermintMachine \<Rightarrow> (u64 \<times> bytes) set" where
  "produced m = {(n, i). Produced n i \<in> set (calls m)}"

lemma own_outs: "own v m = {msg sm | sm. NetBroadcast sm \<in> set (outs m) \<and> sender (msg sm) = v}"
  by (auto simp: own_def outs_def)

lemma produced_outs: "produced m = {(n, i). Produced n i \<in> set (outs m)}"
  by (auto simp: produced_def outs_def)

lemma outs_call [simp]: "outs (net_call c m) = outs m @ (case c of NetSlash _ _ \<Rightarrow> [] | _ \<Rightarrow> [c])"
  by (auto simp: outs_def net_call_def split: net_call.split)

lemma net_call_same [simp]: "block (net_call c m) = block m" "queue (net_call c m) = queue m"
  by (simp_all add: net_call_def)

lemma tm_inv_call [simp]: "tm_inv N V H S v I (net_call c m) = tm_inv N V H S v I m"
  by (simp add: tm_inv_def)

lemma tm_inv_slash [simp]: "tm_inv N V H S v I (slash w ev m) = tm_inv N V H S v I m"
  by (simp add: tm_inv_def core_def)

lemma word_less_inc: "x < - 1 \<Longrightarrow> x < x + 1" for x :: "'l::len word"
proof -
  assume "x < - 1"
  then have "1 + x \<noteq> 0" using eq_neg_iff_add_eq_0 [of x 1] by (auto simp: add.commute)
  then show ?thesis using unatSuc [of x] by (simp add: word_less_nat_alt add.commute)
qed

lemma reset_inv:
  assumes r: "reset N e proposal m = Some m'" and inv: "tm_inv N V H S v I m" and v: "validator_id N = Some v" and n: "number (block m) < - 1"
  shows "tm_inv N V H S v I m' \<and> outs m' = outs m"
proof -
  obtain b t p where b: "populate_end_time N e (block m) = Some b"
    and m': "machine_round N 0 (Some t) (m\<lparr>queue := [], block := BlockData_new (number b + 1) (validator_id N) proposal\<rparr>) = Some (m', p)"
    using r by (auto simp: reset_def bind_eq_Some_conv)
  have num: "number b = number (block m)" using populate_end_time_spec [OF b] by auto
  obtain r k where c: "core N V H S v (I \<union> set (queue m)) r k (block m)" using inv by (auto simp: tm_inv_def)
  have "number (block m) < number (block m) + 1" by (rule word_less_inc [OF n])
  then have "core N V H S v I 0 0 (BlockData_new (number (block m) + 1) (Some v) proposal)"
    using core_new_block [OF core_subset [OF c, of I]] by simp
  then have "tm_inv N V H S v I m' \<and> outs m' = outs (m\<lparr>queue := [], block := BlockData_new (number b + 1) (validator_id N) proposal\<rparr>)"
    using machine_round_inv [OF m', of V H S v I] by (simp add: v num)
  then show ?thesis by (simp add: outs_def)
qed

lemma later_commit_round_spec:
  assumes "later_commit_round N t r b = Some y"
  shows "\<exists>ends. snd y = b\<lparr>end_time := ends\<rparr>"
proof (rule later_commit_round.raw_induct [OF _ assms], goal_cases)
  case (1 f N t r b y)
  then obtain x where x: "map_of (end_time b) r = Some x" by (auto simp: bind_eq_Some_conv)
  show ?case
  proof (cases "canonical x < t")
    case True
    then obtain b1 where b1: "populate_end_time N (r + 1) b = Some b1" "f N t (r + 1) b1 = Some y"
      using 1(2) x by (auto simp: bind_eq_Some_conv)
    then show ?thesis using 1(1) [OF b1(2)] populate_end_time_spec [OF b1(1)] by auto
  next
    case False
    then have "snd y = b\<lparr>end_time := end_time b\<rparr>" using 1(2) x by auto
    then show ?thesis by blast
  qed
qed

lemma tm_inv_end_time [simp]: "tm_inv N V H S v I (m\<lparr>block := (block m)\<lparr>end_time := ends\<rparr>\<rparr>) = tm_inv N V H S v I m"
  by (simp add: tm_inv_def core_def)

lemma reset_by_commit_inv:
  assumes r: "reset_by_commit N commit proposal m = Some m'" and inv: "tm_inv N V H S v I m" and v: "validator_id N = Some v" and n: "number (block m) < - 1"
  shows "tm_inv N V H S v I m' \<and> outs m' = outs m"
proof -
  obtain r r' r2 b where b: "later_commit_round N (commit_end_time commit) r (block m) = Some (r', b)"
    and m': "reset N r2 proposal (m\<lparr>block := b\<rparr>) = Some m'"
    using r by (auto simp: reset_by_commit_def bind_eq_Some_conv)
  obtain ends where "b = (block m)\<lparr>end_time := ends\<rparr>" using later_commit_round_spec [OF b] by auto
  then show ?thesis using reset_inv [OF m' _ v, of V H S I] inv n by simp
qed

text \<open>What an event adds: at most the message handled, and blocks a quorum precommitted.\<close>

definition steps_ok :: "('v, 'b, 's, 'a) Network_trait \<Rightarrow> 'v set \<Rightarrow> 'v set \<Rightarrow> ('v, 'b, 's) Message set \<Rightarrow> 'v \<Rightarrow> ('v, 'b, 's) Message set \<Rightarrow>
    ('v, 'b, 's) Message set \<Rightarrow> ('v, 'b, 's, 'a) TendermintMachine \<Rightarrow> ('v, 'b, 's, 'a) TendermintMachine \<Rightarrow> bool" where
  "steps_ok N V H S v I X m m' \<longleftrightarrow> tm_inv N V H S v I m' \<and> own v m \<subseteq> own v m' \<and> own v m' \<subseteq> own v m \<union> X \<and>
     (\<forall>n i. (n, i) \<in> produced m' \<longrightarrow> (n, i) \<in> produced m \<or> (\<exists>r. committed N V H S n r i))"

lemma steps_ok_quiet: "tm_inv N V H S v I m' \<Longrightarrow> outs m' = outs m \<Longrightarrow> steps_ok N V H S v I X m m'"
  by (auto simp: steps_ok_def own_outs produced_outs)

lemma own_broadcast:
  "own v (net_call (NetBroadcast sm) m) = (if sender (msg sm) = v then insert (msg sm) (own v m) else own v m)"
  by (auto simp: own_outs)

lemma produce_block_inv:
  assumes p: "produce_block N r d proposal m = Some m'" and inv: "tm_inv N V H S v I m" and v: "validator_id N = Some v" and n: "number (block m) < - 1"
    and c: "block_id N d = Some i" "committed N V H S (number (block m)) r i"
  shows "steps_ok N V H S v I {} m m'"
proof -
  obtain commit where m': "reset N r proposal (net_call (NetAddBlock d commit) (net_call (Produced (number (block m)) i) m)) = Some m'"
    using p c(1) by (auto simp: produce_block_def bind_eq_Some_conv Let_def)
  have "tm_inv N V H S v I m' \<and> outs m' = outs m @ [Produced (number (block m)) i, NetAddBlock d commit]"
    using reset_inv [OF m' _ v, of V H S I] inv n by simp
  then show ?thesis using c(2) by (auto simp: steps_ok_def own_outs produced_outs)
qed

lemma handle_message_inv:
  assumes h: "handle_message N our sm validate add m = Some m'" and inv: "tm_inv N V H S v I m" and v: "validator_id N = Some v"
    and n: "number (block m) < - 1" and fin: "finite V" and x: "sender (msg sm) \<in> V" "sender (msg sm) \<in> H \<Longrightarrow> msg sm \<in> S"
  shows "steps_ok N V H S v I {msg sm} m m' \<and> (our \<longrightarrow> sender (msg sm) = v \<longrightarrow> msg sm \<in> own v m')"
proof -
  obtain m1 res where m1: "message N validate sm m = Some (m1, res)" using h by (auto simp: handle_message_def bind_eq_Some_conv)
  have k1: "tm_inv N V H S v I m1" "number (block m1) = number (block m)" "outs m1 = outs m"
    using message_inv [OF m1 inv fin x, of undefined] by (auto simp: tm_kept_def)
  have o1: "own v m1 = own v m" "produced m1 = produced m" by (simp_all add: own_outs produced_outs k1)
  define m2 where "m2 = net_call (NetBroadcast sm) m1"
  have o2: "own v m2 = (if sender (msg sm) = v then insert (msg sm) (own v m) else own v m)" "produced m2 = produced m"
    by (auto simp: m2_def own_broadcast o1 produced_outs k1)
  have ok2: "steps_ok N V H S v I {msg sm} m m2" using k1(1) o2 by (auto simp: steps_ok_def m2_def)
  show ?thesis
  proof (cases res)
    case (Inr fin_block)
    show ?thesis
    proof (cases fin_block)
      case None
      then have "m' = m2" using h m1 Inr by (simp add: handle_message_def m2_def)
      then show ?thesis using ok2 o2 by simp
    next
      case (Some d)
      then obtain i where i: "block_id N d = Some i" "committed N V H S (number (block m)) (msg_round (msg sm)) i"
        using message_inv [OF m1 inv fin x, of d] Inr by auto
      have "produce_block N (msg_round (msg sm)) d (add d) m2 = Some m'" using h m1 Inr Some by (simp add: handle_message_def m2_def)
      then have "steps_ok N V H S v I {} m2 m'"
        by (rule produce_block_inv [OF _ _ v]) (use k1 n i in \<open>simp_all add: m2_def\<close>)
      then show ?thesis using ok2 o2 unfolding steps_ok_def by auto
    qed
  next
    case (Inl e)
    then have "\<not> our" using h m1 by (auto simp: handle_message_def)
    show ?thesis
    proof (cases "\<exists>w ev. e = Malicious w ev")
      case True
      then obtain w ev where "malicious sm w ev m1 = Some m'" using h m1 Inl \<open>\<not> our\<close> by (auto simp: handle_message_def)
      then obtain event where "m' = slash w event m1 \<or> m' = slash w event m2"
        by (auto simp: malicious_def bind_eq_Some_conv Let_def m2_def split: SlashEvent.splits if_splits option.splits)
      then show ?thesis using k1(1) o1 o2 \<open>\<not> our\<close> by (auto simp: steps_ok_def own_outs produced_outs m2_def k1)
    next
      case False
      then have "m' = m1" using h m1 Inl \<open>\<not> our\<close> by (cases e) (auto simp: handle_message_def)
      then show ?thesis using steps_ok_quiet [OF k1(1,3)] \<open>\<not> our\<close> by simp
    qed
  qed
qed

lemma on_timeout_inv:
  assumes t: "on_timeout N st m = Some m'" and inv: "tm_inv N V H S v I m" and r: "\<And>rd. bd_round (block m) = Some rd \<Longrightarrow> rd_number rd < - 1"
  shows "tm_inv N V H S v I m' \<and> outs m' = outs m"
proof -
  define m1 where "m1 = update_round (\<lambda>rd. rd\<lparr>rd_timeouts := AList.delete st (rd_timeouts rd)\<rparr>) m"
  have k1: "tm_inv N V H S v I m1" "outs m1 = outs m" using tm_inv_timeout [OF inv] by (auto simp: tm_kept_def m1_def)
  obtain rd where rd: "bd_round (block m1) = Some rd" using k1(1) by (auto simp: tm_inv_def)
  have num: "rd_number rd < - 1" using rd r by (auto simp: m1_def update_round_def)
  note eq = t [unfolded on_timeout_def Let_def, folded m1_def, unfolded rd, simplified]
  show ?thesis
  proof (cases "rd_step rd = st")
    case False
    then show ?thesis using eq k1 by simp
  next
    case True
    show ?thesis
    proof (cases st)
      case Propose
      define m2 where "m2 = slash (proposer N (number (block m1)) (rd_number rd)) (Id FailToPropose (number (block m1)) (rd_number rd)) m1"
      have "broadcast N (Prevote None) m2 = Some m'" using eq True Propose by (simp add: m2_def)
      then have "tm_kept N V H S v I m2 m'" by (rule vote_nil_inv [where rd = rd]) (use k1 rd True Propose in \<open>simp_all add: m2_def\<close>)
      then show ?thesis using k1 by (simp add: tm_kept_def m2_def)
    next
      case Prevote
      have "broadcast N (Precommit None) m1 = Some m'" using eq True Prevote by simp
      then have "tm_kept N V H S v I m1 m'" by (rule vote_nil_inv [where rd = rd]) (use k1 rd True Prevote in simp_all)
      then show ?thesis using k1 by (simp add: tm_kept_def)
    next
      case Precommit
      then obtain p where m': "machine_round N (rd_number rd + 1) None m1 = Some (m', p)" using eq True by auto
      have "core N V H S v (I \<union> set (queue m1)) (rd_number rd + 1) 0 (block m1)"
        using k1(1) rd core_round [OF _ word_less_inc [OF num]] by (auto simp: tm_inv_def)
      from machine_round_inv [OF m' this] show ?thesis using k1 by simp
    qed
  qed
qed

section \<open>The network\<close>

text \<open>The network as a validator sees it: with its own identity and key.\<close>

definition node :: "('v, 'b, 's, 'a) Network_trait \<Rightarrow> ('v \<Rightarrow> bytes \<Rightarrow> 's) \<Rightarrow> 'v \<Rightarrow> ('v, 'b, 's, 'a) Network_trait" where
  "node N keys v = N\<lparr>validator_id := Some v, sign := keys v\<rparr>"

definition sent :: "'v set \<Rightarrow> ('v \<Rightarrow> ('v, 'b, 's, 'a) TendermintMachine) \<Rightarrow> ('v, 'b, 's) Message set" where
  "sent H gs = (\<Union>v\<in>H. own v (gs v))"

text \<open>
  Signatures are not forged: a received message that verifies as an honest validator's is one that
  validator sent. The counters do not wrap: a round or a block of the largest number is not reached.
\<close>

fun authentic :: "('v, 'b, 's, 'a) Network_trait \<Rightarrow> 'v set \<Rightarrow> ('v \<Rightarrow> ('v, 'b, 's, 'a) TendermintMachine) \<Rightarrow> ('v, 'b, 's, 'a) event \<Rightarrow> bool" where
  "authentic N H gs (Received _ sm) \<longleftrightarrow> (verify_signature N sm \<longrightarrow> sender (msg sm) \<in> H \<longrightarrow> msg sm \<in> sent H gs)"
| "authentic N H gs _ \<longleftrightarrow> True"

definition counters_left :: "('v, 'b, 's, 'a) TendermintMachine \<Rightarrow> bool" where
  "counters_left m \<longleftrightarrow> number (block m) < - 1 \<and> (case bd_round (block m) of None \<Rightarrow> True | Some rd \<Rightarrow> rd_number rd < - 1)"

inductive tm_reachable :: "('v, 'b, 's, 'a) Network_trait \<Rightarrow> ('v \<Rightarrow> bytes \<Rightarrow> 's) \<Rightarrow> 'v set \<Rightarrow> ('v \<Rightarrow> ('v, 'b, 's, 'a) TendermintMachine) \<Rightarrow> bool"
  for N :: "('v, 'b, 's, 'a) Network_trait" and keys :: "'v \<Rightarrow> bytes \<Rightarrow> 's" and H :: "'v set" where
  start: "(\<And>v. v \<in> H \<Longrightarrow> \<exists>db now sys_now last_block last_time proposal.
      machine_new (node N keys v) db now sys_now last_block last_time proposal = Some (gs v)) \<Longrightarrow> tm_reachable N keys H gs"
| event: "tm_reachable N keys H gs \<Longrightarrow> v \<in> H \<Longrightarrow> enabled ev (gs v) \<Longrightarrow> authentic N H gs ev \<Longrightarrow> counters_left (gs v) \<Longrightarrow>
      run_event (node N keys v) validate add_block ev (gs v) = Some m' \<Longrightarrow> tm_reachable N keys H (gs(v := m'))"

lemma encode_Data_node [simp]: "encode_Data (node N keys v) d = encode_Data N d"
  by (cases d) (simp_all add: node_def)

lemma node_same [simp]:
  "validator_id (node N keys v) = Some v" "verify (node N keys v) = verify N" "threshold (node N keys v) = threshold N"
  "weight_of (node N keys v) = weight_of N" "encode_validator (node N keys v) = encode_validator N"
  by (simp_all add: node_def threshold_def)

lemma quorum_node [simp]:
  "verify_signature (node N keys v) = verify_signature N" "polka (node N keys v) = polka N" "committed (node N keys v) = committed N" "votes_ok (node N keys v) = votes_ok N"
  by (simp_all add: fun_eq_iff polka_def committed_def votes_ok_def quorum_def wsum_def verify_signature_def encode_Message_def)

lemma machine_new_inv:
  assumes "machine_new N db a b c d e = Some m" "validator_id N = Some v"
  shows "tm_inv N V H S v {} m \<and> outs m = []"
proof -
  obtain p where m: "machine_round N 0 (Some (CanonicalInstant_new a b d))
      \<lparr>tm_db = db, queue = [], block = BlockData_new (c + 1) (validator_id N) (Some e), calls = []\<rparr> = Some (m, p)"
    using assms by (auto simp: machine_new_def bind_eq_Some_conv)
  have "core N V H S v {} 0 0 (BlockData_new (c + 1) (Some v) (Some e))"
    by (simp add: core_def BlockData_new_def log_ok_empty votes_ok_def)
  then show ?thesis using machine_round_inv [OF m, of V H S v "{}"] by (simp add: assms(2) outs_def)
qed

lemma run_event_inv:
  assumes e: "run_event N validate add_block ev m = Some m'" and inv: "tm_inv N V H S v I m" and v: "validator_id N = Some v" "v \<in> H" "H \<subseteq> V"
    and ok: "weights_ok N V" and left: "counters_left m"
    and auth: "\<And>now sm. ev = Received now sm \<Longrightarrow> verify_signature N sm \<Longrightarrow> sender (msg sm) \<in> H \<Longrightarrow> msg sm \<in> S"
  shows "\<exists>X. steps_ok N V H (S \<union> X) v (I \<union> X) (X \<union> {x \<in> S. sender x = v}) m m' \<and> X \<subseteq> own v m'"
proof -
  have fin: "finite V" using ok by (simp add: weights_ok_def)
  have quiet: ?thesis if "tm_inv N V H S v I m'" "outs m' = outs m \<or> (\<exists>b blk c. outs m' = outs m @ [NetAddBlock blk c, SyncedBlockResult b] \<or> outs m' = outs m @ [SyncedBlockResult b])"
    using that by (intro exI [of _ "{}"]) (auto simp: steps_ok_def own_outs produced_outs)
  have n: "number (block m) < - 1" using left by (simp add: counters_left_def)
  show ?thesis
  proof (cases ev)
    case (Synced k blk commit)
    show ?thesis
    proof (cases "\<exists>i. k = number (block m) \<and> block_id N blk = Some i \<and> verify_commit N i commit")
      case True
      then obtain m1 where m1: "reset_by_commit N commit (add_block blk) (net_call (NetAddBlock blk commit) m) = Some m1"
        and m': "m' = net_call (SyncedBlockResult True) m1" using e Synced by (auto simp: bind_eq_Some_conv)
      show ?thesis using reset_by_commit_inv [OF m1 _ v(1), of V H S I] inv n by (intro quiet) (auto simp: m')
    next
      case False
      then have "m' = net_call (SyncedBlockResult False) m" using e Synced by (auto simp: bind_eq_Some_conv split: if_splits)
      then show ?thesis using inv by (intro quiet) auto
    qed
  next
    case Own
    then obtain x rest where q: "queue m = x # rest"
      and h: "handle_message N True \<lparr>msg = x, msg_sig = sign N (encode_Message N x)\<rparr> validate add_block (m\<lparr>queue := rest\<rparr>) = Some m'"
      using e by (auto split: list.splits)
    obtain rd where rd: "bd_round (block m) = Some rd" "core N V H S v (I \<union> set (queue m)) (rd_number rd) (Suc (step_index (rd_step rd))) (block m)"
      using inv by (auto simp: tm_inv_def)
    have x: "sender x = v" using rd(2) q by (simp add: core_def)
    have "core N V H (S \<union> {x}) v (I \<union> {x} \<union> set rest) (rd_number rd) (Suc (step_index (rd_step rd))) (block m)"
      using core_mono [OF rd(2), of "S \<union> {x}"] q by (simp add: subset_insertI)
    then have "tm_inv N V H (S \<union> {x}) v (I \<union> {x}) (m\<lparr>queue := rest\<rparr>)" using rd(1) by (simp add: tm_inv_def)
    from handle_message_inv [OF h this v(1) _ fin] n x v
    have "steps_ok N V H (S \<union> {x}) v (I \<union> {x}) {x} (m\<lparr>queue := rest\<rparr>) m' \<and> x \<in> own v m'" by auto
    then show ?thesis by (intro exI [of _ "{x}"]) (auto simp: steps_ok_def own_outs produced_outs)
  next
    case (Timeout now)
    then obtain st where st: "on_timeout N st m = Some m'" using e by (auto simp: bind_eq_Some_conv)
    have "tm_inv N V H S v I m' \<and> outs m' = outs m"
      by (rule on_timeout_inv [OF st inv]) (use left in \<open>simp add: counters_left_def\<close>)
    then show ?thesis by (intro quiet) auto
  next
    case (Received now sm)
    show ?thesis
    proof (cases "verify_signature N sm")
      case False
      then show ?thesis using e Received inv by (intro quiet) auto
    next
      case True
      then have h: "handle_message N False sm validate add_block m = Some m'" using e Received by simp
      have s: "sender (msg sm) \<in> V" using True ok by (auto simp: verify_signature_def weights_ok_def)
      from handle_message_inv [OF h inv v(1) n fin s auth [OF Received True]]
      have "steps_ok N V H S v I {msg sm} m m'" by blast
      moreover have "sender (msg sm) = v \<Longrightarrow> msg sm \<in> S" using auth [OF Received True] v(2) by simp
      ultimately show ?thesis by (intro exI [of _ "{}"]) (auto simp: steps_ok_def own_def)
    qed
  qed
qed

definition network_inv :: "('v, 'b, 's, 'a) Network_trait \<Rightarrow> ('v \<Rightarrow> bytes \<Rightarrow> 's) \<Rightarrow> 'v set \<Rightarrow> 'v set \<Rightarrow> ('v \<Rightarrow> ('v, 'b, 's, 'a) TendermintMachine) \<Rightarrow> bool" where
  "network_inv N keys V H gs \<longleftrightarrow> (\<forall>v\<in>H. tm_inv (node N keys v) V H (sent H gs) v (own v (gs v)) (gs v) \<and>
     (\<forall>n i. (n, i) \<in> produced (gs v) \<longrightarrow> (\<exists>r. committed N V H (sent H gs) n r i)))"

lemma tm_inv_mono: "tm_inv N V H S v I m \<Longrightarrow> S \<subseteq> S' \<Longrightarrow> tm_inv N V H S' v I m"
  by (auto simp: tm_inv_def intro: core_mono)

lemma sender_own: "x \<in> own v m \<Longrightarrow> sender x = v"
  by (auto simp: own_def)

lemma sent_sender: "v \<in> H \<Longrightarrow> {x \<in> sent H gs. sender x = v} = own v (gs v)"
  by (auto simp: sent_def dest: sender_own)

lemma reachable_inv:
  assumes "tm_reachable N keys H gs" and ok: "weights_ok N V" "H \<subseteq> V"
  shows "network_inv N keys V H gs"
  using assms(1)
proof induction
  case (start gs)
  have "tm_inv (node N keys v) V H (sent H gs) v (own v (gs v)) (gs v) \<and> produced (gs v) = {}" if "v \<in> H" for v
  proof -
    have "tm_inv (node N keys v) V H (sent H gs) v {} (gs v) \<and> outs (gs v) = []" using start [OF that] machine_new_inv by fastforce
    then show ?thesis by (simp add: own_outs produced_outs)
  qed
  then show ?case by (simp add: network_inv_def)
next
  case (event gs v ev validate add_block m')
  define gs' where "gs' = gs(v := m')"
  have ok': "weights_ok (node N keys v) V" using ok(1) by (simp add: weights_ok_def wsum_def node_def)
  have inv: "tm_inv (node N keys v) V H (sent H gs) v (own v (gs v)) (gs v)" using event by (simp add: network_inv_def)
  have auth: "msg sm \<in> sent H gs" if "ev = Received now sm" "verify_signature (node N keys v) sm" "sender (msg sm) \<in> H" for now sm
    using event.hyps(4) that by simp
  have "\<exists>X. steps_ok (node N keys v) V H (sent H gs \<union> X) v (own v (gs v) \<union> X) (X \<union> {x \<in> sent H gs. sender x = v}) (gs v) m' \<and> X \<subseteq> own v m'"
    by (rule run_event_inv [OF event.hyps(6) inv _ event.hyps(2) ok(2) ok' event.hyps(5)]) (simp, rule auth)
  then obtain X where X: "steps_ok (node N keys v) V H (sent H gs \<union> X) v (own v (gs v) \<union> X) (X \<union> {x \<in> sent H gs. sender x = v}) (gs v) m'" "X \<subseteq> own v m'"
    by blast
  have own': "own v m' = own v (gs v) \<union> X"
    using X sent_sender [OF event.hyps(2), of gs] unfolding steps_ok_def by auto
  then have sent': "sent H gs \<union> X \<subseteq> sent H gs'" using event.hyps(2) by (auto simp: sent_def gs'_def)
  have inv': "tm_inv (node N keys v) V H (sent H gs') v (own v m') m'"
    using X(1) tm_inv_mono [OF _ sent'] unfolding steps_ok_def own' by blast
  have com: "\<exists>r. committed N V H (sent H gs') n r i" if w: "w \<in> H" "(n, i) \<in> produced (gs' w)" for w n i
  proof -
    have "\<exists>r. committed N V H (sent H gs \<union> X) n r i"
    proof (cases "(n, i) \<in> produced (gs w)")
      case True
      then obtain r where "committed N V H (sent H gs) n r i" using event.IH w(1) unfolding network_inv_def by blast
      then show ?thesis using committed_mono [of N V H "sent H gs" n r i "sent H gs \<union> X"] by auto
    next
      case False
      then have "w = v" using w(2) by (auto simp: gs'_def split: if_splits)
      then show ?thesis using X(1) False w(2) by (auto simp: steps_ok_def gs'_def)
    qed
    then show ?thesis using committed_mono [OF _ sent'] by blast
  qed
  have "tm_inv (node N keys w) V H (sent H gs') w (own w (gs' w)) (gs' w)" if "w \<in> H" for w
  proof (cases "w = v")
    case True
    then show ?thesis using inv' by (simp add: gs'_def)
  next
    case False
    then have "tm_inv (node N keys w) V H (sent H gs) w (own w (gs' w)) (gs' w)" using event.IH that by (simp add: network_inv_def gs'_def)
    moreover have "sent H gs \<subseteq> sent H gs'" using sent' by blast
    ultimately show ?thesis by (rule tm_inv_mono)
  qed
  then show ?case using com unfolding network_inv_def gs'_def [symmetric] by blast
qed

lemma reachable_votes:
  assumes "tm_reachable N keys H gs" "weights_ok N V" "H \<subseteq> V" "v \<in> H"
  shows "votes_ok N V H (sent H gs) {x \<in> sent H gs. sender x = v}"
proof -
  have "tm_inv (node N keys v) V H (sent H gs) v (own v (gs v)) (gs v)" using reachable_inv [OF assms(1-3)] assms(4) by (simp add: network_inv_def)
  then have "votes_ok N V H (sent H gs) (own v (gs v) \<union> set (queue (gs v)))" by (auto simp: tm_inv_def core_def)
  then show ?thesis unfolding sent_sender [OF assms(4)] by (rule votes_ok_subset) simp
qed

text \<open>
  C1: Tendermint agreement. Whatever the dishonest validators send and however the network delays,
  reorders or drops messages, two honest machines, with less than a third of the weight dishonest,
  never produce different blocks of the same number.
\<close>

theorem tendermint_agreement:
  assumes "weights_ok N V" "honest_majority N V H" "tm_reachable N keys H gs" "v \<in> H" "w \<in> H"
    and "Produced n i \<in> set (calls (gs v))" "Produced n j \<in> set (calls (gs w))"
  shows "i = j"
proof -
  have H: "H \<subseteq> V" using assms(2) by (simp add: honest_majority_def)
  have "(n, i) \<in> produced (gs v)" "(n, j) \<in> produced (gs w)" using assms(6,7) by (auto simp: produced_def)
  then obtain r r' where "committed N V H (sent H gs) n r i" "committed N V H (sent H gs) n r' j"
    using reachable_inv [OF assms(3,1) H] assms(4,5) unfolding network_inv_def by blast
  then show ?thesis using committed_agree [OF assms(1,2) reachable_votes [OF assms(3,1) H]] by blast
qed

text \<open>A network of one validator that decides the block it proposed.\<close>

definition example_net :: "(nat, nat, nat, unit) Network_trait" where
  "example_net = \<lparr>validator_id = Some 0, sign = (\<lambda>_. 0), verify = (\<lambda>v _ _. v = 0), aggregate = (\<lambda>_ _ _. ()), verify_aggregate = (\<lambda>_ _ _. True),
     total_weight = 1, weight_of = (\<lambda>_. 1), proposer = (\<lambda>_ _. 0), block_id = (\<lambda>b. Some [of_nat b]), BLOCK_PROCESSING_TIME = 999,
     LATENCY_TIME = 1667, genesis = [], encode_validator = (\<lambda>_. []), encode_block = (\<lambda>_. []), encode_signature = (\<lambda>_. []),
     decode_validator = (\<lambda>_. None), decode_block = (\<lambda>_. None), decode_signature = (\<lambda>_. None)\<rparr>"

definition example_start :: "(nat, nat, nat, unit) TendermintMachine option" where
  "example_start = machine_new example_net Map.empty 0 0 0 0 7"

definition example_step :: "(nat, nat, nat, unit) TendermintMachine \<Rightarrow> (nat, nat, nat, unit) TendermintMachine option" where
  "example_step m = (if enabled Own m \<and> counters_left m then run_event example_net (\<lambda>_. None) Some Own m else None)"

definition example_run :: "(nat, nat, nat, unit) TendermintMachine option" where
  "example_run = Option.bind (Option.bind (Option.bind example_start example_step) example_step) example_step"

lemma example_node: "node example_net (\<lambda>_ _. 0) 0 = example_net"
  by (simp add: node_def example_net_def)

lemma example_step_reachable:
  assumes "tm_reachable example_net (\<lambda>_ _. 0) {0} gs" "example_step (gs 0) = Some m'"
  shows "tm_reachable example_net (\<lambda>_ _. 0) {0} (gs(0 := m'))"
proof -
  have e: "enabled Own (gs 0)" "counters_left (gs 0)" "run_event (node example_net (\<lambda>_ _. 0) 0) (\<lambda>_. None) Some Own (gs 0) = Some m'"
    using assms(2) by (auto simp: example_step_def example_node split: if_splits)
  show ?thesis by (rule tm_reachable.event [OF assms(1) _ e(1) _ e(2,3)]) simp_all
qed

lemma example_reachable:
  "\<exists>gs. tm_reachable example_net (\<lambda>_ _. 0) {0} gs \<and> Produced 1 [7] \<in> set (calls (gs 0))"
proof -
  have "case example_run of None \<Rightarrow> False | Some m \<Rightarrow> Produced 1 [7] \<in> set (calls m)" by code_simp
  then obtain m0 m1 m2 m3 where m: "example_start = Some m0" "example_step m0 = Some m1" "example_step m1 = Some m2" "example_step m2 = Some m3"
    "Produced 1 [7] \<in> set (calls m3)"
    by (auto simp: example_run_def bind_eq_Some_conv split: option.splits)
  have "tm_reachable example_net (\<lambda>_ _. 0) {0} (\<lambda>_. m0)"
    by (rule tm_reachable.start) (use m(1) in \<open>auto simp: example_start_def example_node intro!: exI\<close>)
  then have "tm_reachable example_net (\<lambda>_ _. 0) {0} ((\<lambda>_. m0)(0 := m1))" by (rule example_step_reachable) (simp add: m)
  then have "tm_reachable example_net (\<lambda>_ _. 0) {0} ((\<lambda>_. m0)(0 := m1, 0 := m2))" by (rule example_step_reachable) (simp add: m)
  then have "tm_reachable example_net (\<lambda>_ _. 0) {0} ((\<lambda>_. m0)(0 := m1, 0 := m2, 0 := m3))" by (rule example_step_reachable) (simp add: m)
  then show ?thesis using m(5) by (intro exI [of _ "(\<lambda>_. m0)(0 := m1, 0 := m2, 0 := m3)"]) simp
qed

lemma example_weights: "weights_ok example_net {0}" "honest_majority example_net {0} {0}"
  by (simp_all add: weights_ok_def honest_majority_def wsum_def example_net_def)

theorem tendermint_agreement_witness:
  "\<exists>gs. tm_reachable example_net (\<lambda>_ _. 0) {0} gs \<and> Produced 1 [7] \<in> set (calls (gs 0)) \<and>
    (\<forall>j. Produced 1 j \<in> set (calls (gs 0)) \<longrightarrow> j = [7])"
proof -
  obtain gs where gs: "tm_reachable example_net (\<lambda>_ _. 0) {0} gs" "Produced 1 [7] \<in> set (calls (gs 0))" using example_reachable by blast
  then show ?thesis using tendermint_agreement [OF example_weights gs(1), of 0 0] by blast
qed

section \<open>Evidence\<close>

fun accused :: "('v, 'b, 's, 'a) Network_trait \<Rightarrow> Evidence \<Rightarrow> 'v option" where
  "accused N (ConflictingMessages bs _) = map_option (\<lambda>sm. sender (msg sm)) (decode_signed_message N bs)"
| "accused N (InvalidPrecommit bs) = map_option (\<lambda>sm. sender (msg sm)) (decode_signed_message N bs)"
| "accused N (InvalidValidRound bs) = map_option (\<lambda>sm. sender (msg sm)) (decode_signed_message N bs)"

lemma data_eq_refl [simp]: "data_eq d d"
proof (cases d)
  case (Precommit p)
  then show ?thesis by (cases p) auto
qed simp_all

lemma decode_and_verify: "decode_and_verify_signed_message N bs = Inr sm \<longleftrightarrow> decode_signed_message N bs = Some sm \<and> verify_signature N sm"
  by (auto simp: decode_and_verify_signed_message_def split: option.split)

text \<open>
  C12: honest validators are not convicted. When signatures cannot be forged, evidence of conflicting
  messages or of a proposal naming a round that is not before its own is never valid against a
  validator that runs the machine, in every state the network reaches.
\<close>

theorem evidence_spares_honest:
  assumes "weights_ok N V" "H \<subseteq> V" "tm_reachable N keys H gs"
    and unforged: "\<forall>sm. verify_signature N sm \<longrightarrow> sender (msg sm) \<in> H \<longrightarrow> msg sm \<in> sent H gs"
    and valid: "verify_tendermint_evience N now sys_now commits ev = Some (Inr ())" and "\<forall>bs. ev \<noteq> InvalidPrecommit bs"
    and acc: "accused N ev = Some v"
  shows "v \<notin> H"
proof
  assume v: "v \<in> H"
  note votes = reachable_votes [OF assms(3,1,2) v]
  show False
  proof (cases ev)
    case (ConflictingMessages x y)
    then obtain a b where ab: "decode_and_verify_signed_message N x = Inr a" "decode_and_verify_signed_message N y = Inr b"
      "\<not> message_eq (msg a) (msg b)" "sender (msg a) = sender (msg b)" "msg_block (msg a) = msg_block (msg b)"
      "msg_round (msg a) = msg_round (msg b)" "data_step (data (msg a)) = data_step (data (msg b))"
      using valid by (auto split: sum.splits if_splits)
    then have s: "sender (msg a) = v" "verify_signature N a" "verify_signature N b" using acc ConflictingMessages by (auto simp: decode_and_verify)
    then have "msg a \<in> sent H gs" "msg b \<in> sent H gs" using unforged v ab(4) by auto
    then have "msg a = msg b" using s ab by (intro votes_ok_unique [OF votes]) auto
    then show False using ab(3) by (simp add: message_eq_def)
  next
    case (InvalidValidRound x)
    then obtain a vr b where a: "decode_and_verify_signed_message N x = Inr a" "data (msg a) = Proposal (Some vr) b" "\<not> vr < msg_round (msg a)"
      using valid by (auto split: sum.splits if_splits Data.splits option.splits)
    then have "sender (msg a) = v" "msg a \<in> sent H gs" using acc InvalidValidRound unforged v by (auto simp: decode_and_verify)
    then have "vr < msg_round (msg a)" using votes a(2) unfolding votes_ok_def by blast
    then show False using a(3) by simp
  qed (use assms(6) in blast)
qed

definition example_bad_net :: "(nat, nat, nat, unit) Network_trait" where
  "example_bad_net = example_net\<lparr>total_weight := 2, verify := (\<lambda>v _ _. v = 1),
     decode_validator := (\<lambda>bs. map_option (\<lambda>(x, rest). (unat (hd x), rest)) (read_exact 1 bs)),
     decode_block := (\<lambda>bs. Some (0, bs)), decode_signature := (\<lambda>bs. Some (0, bs))\<rparr>"

definition example_bad_proposal :: Evidence where
  "example_bad_proposal = InvalidValidRound ([1] @ to_le_bytes (1 :: u64) @ to_le_bytes (0 :: u32) @ [0, 1] @ to_le_bytes (5 :: u32))"

theorem evidence_spares_honest_witness:
  "verify_tendermint_evience example_bad_net 0 0 (\<lambda>_. None) example_bad_proposal = Some (Inr ()) \<and>
   accused example_bad_net example_bad_proposal = Some 1 \<and> (1 :: nat) \<notin> {0}"
proof -
  have v: "verify_tendermint_evience example_bad_net 0 0 (\<lambda>_. None) example_bad_proposal = Some (Inr ())"
    "accused example_bad_net example_bad_proposal = Some 1" by code_simp+
  have w: "weights_ok example_bad_net {0, 1}" by (simp add: weights_ok_def wsum_def example_bad_net_def example_net_def)
  have "\<exists>m. machine_new (node example_bad_net (\<lambda>_ _. 0) 0) Map.empty 0 0 0 0 7 = Some m"
    by (simp add: machine_new_def machine_round_def new_round_def node_def example_bad_net_def example_net_def BlockData_new_def
        broadcast_def block_message_def Let_def)
  then obtain m where "machine_new (node example_bad_net (\<lambda>_ _. 0) 0) Map.empty 0 0 0 0 7 = Some m" ..
  then have r: "tm_reachable example_bad_net (\<lambda>_ _. 0) {0} (\<lambda>_. m)" by (intro tm_reachable.start) (simp, blast)
  have u: "\<forall>sm. verify_signature example_bad_net sm \<longrightarrow> sender (msg sm) \<in> {0} \<longrightarrow> msg sm \<in> sent {0} (\<lambda>_. m)"
    by (simp add: verify_signature_def example_bad_net_def)
  show ?thesis using evidence_spares_honest [OF w _ r u v(1) _ v(2)] v by (simp add: example_bad_proposal_def)
qed

end
