(* ===== verification/Tendermint_Faults.thy ===== *)
theory Tendermint_Faults
  imports Tendermint_Agreement
begin

text \<open>
  Two messages the Tendermint machine does not handle as it means to: a proposal that names a valid
  round of which the machine logged no message, and a message that arrives when the proposal of the
  round names a round that is not before it.
\<close>

section \<open>A valid round that was skipped\<close>

lemma log_message_new:
  assumes "log_message N sm l = (l', Inr True)"
  shows "log_get l' (msg_round (msg sm)) (sender (msg sm)) (data_step (data (msg sm))) = Some sm"
    and "r \<noteq> msg_round (msg sm) \<Longrightarrow> map_of l' r = map_of l r"
  using assms by (auto simp: log_message_def Let_def log_get_def update_conv' split: option.splits if_splits)

lemma recheck_keeps:
  assumes "recheck_precommits N rnd rl m = Some m'"
  shows "bd_round (block m') = bd_round (block m) \<and> number (block m') = number (block m) \<and>
    (\<forall>r. r \<noteq> rnd \<longrightarrow> map_of (msg_log (block m')) r = map_of (msg_log (block m)) r) \<and>
    (\<forall>v. log_get (msg_log (block m')) rnd v Step.Propose = log_get (msg_log (block m)) rnd v Step.Propose)"
  using assms
proof (induction N rnd rl m rule: recheck_precommits.induct)
  case (2 N rnd w msgs rest m)
  show ?case
  proof (cases "map_of msgs Step.Precommit")
    case (Some existing)
    show ?thesis
    proof (cases "verify_precommit_signature N (block m) existing")
      case (Inl e)
      with 2(4) Some obtain rl vl rem where g: "map_of (msg_log (block m)) rnd = Some rl" "map_of rl w = Some vl" "map_of vl Step.Precommit = Some rem"
        by (auto split: Option.bind_splits)
      define b where "b = (block m)\<lparr>msg_log := AList.update rnd (AList.update w (AList.delete Step.Precommit vl) rl) (msg_log (block m))\<rparr>"
      have "recheck_precommits N rnd rest (slash w (WithEvidence (InvalidPrecommit (encode_SignedMessage N rem))) (m\<lparr>block := b\<rparr>)) = Some m'"
        using 2(4) Some Inl g by (simp add: b_def)
      from 2(2) [OF Some Inl g b_def this] g show ?thesis
        by (auto simp: b_def log_get_def update_conv' delete_conv')
    qed (use 2 Some in \<open>simp split: if_splits\<close>)
  qed (use 2 in simp)
qed simp

lemma jump_keeps:
  assumes "jump N rnd m = Some (m', p)" and "bd_validator_id (block m) \<noteq> Some (proposer N (number (block m)) rnd)"
  shows "\<not> p" and "\<exists>rd. bd_round (block m') = Some rd \<and> rd_number rd = rnd \<and> rd_step rd = Step.Propose"
    and "number (block m') = number (block m)" and "r \<noteq> rnd \<Longrightarrow> map_of (msg_log (block m')) r = map_of (msg_log (block m)) r"
    and "log_get (msg_log (block m')) rnd v Step.Propose = log_get (msg_log (block m)) rnd v Step.Propose"
proof -
  obtain m1 rl where m1: "machine_round N rnd None m = Some (m1, p)" and rl: "recheck_precommits N rnd rl m1 = Some m'"
    using assms(1) by (auto simp: jump_def split: Option.bind_splits)
  have "\<not> p \<and> (\<exists>rd. bd_round (block m1) = Some rd \<and> rd_number rd = rnd \<and> rd_step rd = Step.Propose) \<and>
      number (block m1) = number (block m) \<and> msg_log (block m1) = msg_log (block m)"
    using m1 assms(2) by (auto simp: machine_round_def new_round_def populate_end_time_def Let_def RoundData_new_def set_timeout_def
        split: Option.bind_splits option.splits if_splits)
  with recheck_keeps [OF rl] show "\<not> p" "\<exists>rd. bd_round (block m') = Some rd \<and> rd_number rd = rnd \<and> rd_step rd = Step.Propose"
    "number (block m') = number (block m)" "r \<noteq> rnd \<Longrightarrow> map_of (msg_log (block m')) r = map_of (msg_log (block m)) r"
    "log_get (msg_log (block m')) rnd v Step.Propose = log_get (msg_log (block m)) rnd v Step.Propose" by auto
qed

lemma current_round_skipped:
  assumes "bd_round (block m) = Some rd" "rd_step rd = Step.Propose" and "data (msg sm) = Proposal (Some vr) blk"
    and "log_get (msg_log (block m)) (rd_number rd) (proposer N (number (block m)) (rd_number rd)) Step.Propose = Some sm"
    and "vr < rd_number rd" "map_of (msg_log (block m)) vr = None"
  shows "current_round N validate sm m = None"
  using assms by (simp add: current_round_def on_prevote_def on_proposal_def has_consensus_def message_instances_def Let_def not_le [symmetric] split: Option.bind_split)

text \<open>
  C35: a proposal can stop the machine. Let the proposer of a round name an earlier valid round of which
  the machine has logged no message. When the proposal is the first of its round, its block is
  not yet decided there, and the machine is in the propose step of that round, or the proposal
  makes it jump there from an earlier one, then receiving the proposal panics, whether or not the block is valid.
\<close>

theorem skipped_valid_round_panics:
  assumes rd: "bd_round (block m) = Some rd"
    and sm: "verify_signature N sm" "msg_block (msg sm) = number (block m)" "sender (msg sm) = proposer N (number (block m)) (msg_round (msg sm))"
      "data (msg sm) = Proposal (Some vr) blk" "block_id N blk = Some i"
    and new: "log_message N sm (msg_log (block m)) = (l, Inr True)"
    and undecided: "has_consensus N l (msg_round (msg sm)) (Precommit (Some (i, sign N []))) = Some False"
    and here: "msg_round (msg sm) = rd_number rd \<and> rd_step rd = Step.Propose \<or>
      rd_number rd < msg_round (msg sm) \<and> fault_threshold N < round_participation N l (msg_round (msg sm)) \<and>
        bd_validator_id (block m) \<noteq> Some (sender (msg sm))"
    and skipped: "vr < msg_round (msg sm)" "map_of (msg_log (block m)) vr = None"
  shows "run_event N validate add_block (Received now sm) m = None"
proof -
  define m1 where "m1 = m\<lparr>block := (block m)\<lparr>msg_log := l\<rparr>\<rparr>"
  have get: "log_get l (msg_round (msg sm)) (proposer N (number (block m)) (msg_round (msg sm))) Step.Propose = Some sm"
    using log_message_new(1) [OF new] sm(3,4) by simp
  have vr: "map_of l vr = None" using log_message_new(2) [OF new, of vr] skipped by auto
  have log: "msg_log (block m1) = l" by (simp add: m1_def)
  have final: "finalizer N (msg sm) (block m1) = Some None" using get sm undecided by (simp add: finalizer_def m1_def)
  have "message N validate sm m = None"
  proof (cases "msg_round (msg sm) = rd_number rd")
    case True
    then have "current_round N validate sm m1 = None"
      using here rd get vr sm(4) skipped(1) by (intro current_round_skipped [of _ rd]) (auto simp: m1_def)
    then show ?thesis using True rd sm new final by (simp add: message_def Let_def verify_precommit_signature_def m1_def [symmetric])
  next
    case False
    then have j: "rd_number rd < msg_round (msg sm)" "fault_threshold N < round_participation N l (msg_round (msg sm))"
      "bd_validator_id (block m1) \<noteq> Some (proposer N (number (block m1)) (msg_round (msg sm)))"
      using here sm(3) by (auto simp: m1_def)
    have "Option.bind (jump N (msg_round (msg sm)) m1) (\<lambda>(m, proposed). if proposed then Some (m, Inr None) else current_round N validate sm m) = None"
    proof (cases "jump N (msg_round (msg sm)) m1")
      case (Some r)
      then obtain m2 p where m2: "jump N (msg_round (msg sm)) m1 = Some (m2, p)" by (cases r) auto
      note k = jump_keeps [OF m2 j(3)]
      have "current_round N validate sm m2 = None"
        using k(2,3) k(4) [of vr] k(5) get vr sm(4) skipped(1) by (auto simp: m1_def intro: current_round_skipped)
      then show ?thesis using m2 k(1) by simp
    qed simp
    moreover have "\<not> msg_round (msg sm) < rd_number rd" using j(1) by simp
    ultimately show ?thesis using j rd sm new final by (simp add: message_def Let_def verify_precommit_signature_def m1_def [symmetric] log)
  qed
  then show ?thesis using sm(1) by (simp add: handle_message_def)
qed

text \<open>
  A run that ends this way. Validator 0 goes through round 0 alone and votes in round 1; validator 2
  has received nothing yet, jumps to round 1 on that vote, and then receives a proposal of
  the dishonest validator 1, who names round 0. Less than a third of the weight is dishonest.
\<close>

definition example_lag_net :: "(nat, nat, nat, unit) Network_trait" where
  "example_lag_net = example_net\<lparr>total_weight := 10, weight_of := (\<lambda>v. if v = 0 then 7 else if v = 1 then 2 else 1),
     proposer := (\<lambda>_ _. 1), verify := (\<lambda>v _ _. v < 3)\<rparr>"

fun run_alone :: "('v, 'b, 's, 'a) Network_trait \<Rightarrow> ('v, 'b, 's, 'a) event list \<Rightarrow> ('v, 'b, 's, 'a) TendermintMachine \<Rightarrow> ('v, 'b, 's, 'a) TendermintMachine option" where
  "run_alone N [] m = Some m"
| "run_alone N (ev # evs) m =
     (if enabled ev m \<and> counters_left m \<and> (case ev of Received _ _ \<Rightarrow> False | _ \<Rightarrow> True)
      then Option.bind (run_event N (\<lambda>_. None) Some ev m) (run_alone N evs) else None)"

lemma run_alone_reachable:
  assumes "run_alone (node N keys v) evs (gs v) = Some m'" and "tm_reachable N keys H gs" "v \<in> H"
  shows "tm_reachable N keys H (gs(v := m'))"
  using assms(1,2)
proof (induction evs arbitrary: gs)
  case (Cons ev evs)
  then obtain m1 where e: "enabled ev (gs v)" "counters_left (gs v)" "run_event (node N keys v) (\<lambda>_. None) Some ev (gs v) = Some m1"
    "run_alone (node N keys v) evs m1 = Some m'" "authentic N H gs ev" by (cases ev) (auto split: Option.bind_splits if_splits)
  from tm_reachable.event [OF Cons.prems(2) assms(3) e(1,5,2,3)] have "tm_reachable N keys H (gs(v := m1))" .
  from Cons.IH [OF _ this] e(4) show ?case by (simp del: fun_upd_apply add: fun_upd_same)
qed (auto simp: fun_upd_idem)

definition example_leader :: "(nat, nat, nat, unit) TendermintMachine option" where
  "example_leader = Option.bind (machine_new (node example_lag_net (\<lambda>_ _. 0) 0) Map.empty 0 0 0 0 7)
     (run_alone (node example_lag_net (\<lambda>_ _. 0) 0) [Timeout 100000, Own, Own, Timeout 100000, Timeout 100000, Timeout 100000, Own])"

definition example_vote :: "(nat, nat, nat) SignedMessage" where
  "example_vote = \<lparr>msg = \<lparr>sender = 0, msg_block = 1, msg_round = 1, data = Prevote None\<rparr>, msg_sig = 0\<rparr>"

definition example_laggard :: "(nat, nat, nat, unit) TendermintMachine option" where
  "example_laggard = Option.bind (machine_new (node example_lag_net (\<lambda>_ _. 0) 2) Map.empty 0 0 0 0 8)
     (run_event (node example_lag_net (\<lambda>_ _. 0) 2) (\<lambda>_. None) Some (Received 0 example_vote))"

definition example_reproposal :: "(nat, nat, nat) SignedMessage" where
  "example_reproposal = \<lparr>msg = \<lparr>sender = 1, msg_block = 1, msg_round = 1, data = Proposal (Some 0) 7\<rparr>, msg_sig = 0\<rparr>"

lemma example_leader_votes: "case example_leader of None \<Rightarrow> False | Some m \<Rightarrow> NetBroadcast example_vote \<in> set (calls m)"
  by code_simp

lemma example_laggard_jumps:
  "case example_laggard of None \<Rightarrow> False
   | Some m \<Rightarrow> enabled (Received 0 example_reproposal) m \<and> number (block m) = 1 \<and>
       (case bd_round (block m) of None \<Rightarrow> False | Some rd \<Rightarrow> rd_number rd = 1 \<and> rd_step rd = Step.Propose) \<and>
       map_of (msg_log (block m)) 0 = None \<and>
       (case log_message (node example_lag_net (\<lambda>_ _. 0) 2) example_reproposal (msg_log (block m)) of
          (l, Inr new) \<Rightarrow> new \<and> has_consensus (node example_lag_net (\<lambda>_ _. 0) 2) l 1 (Precommit (Some ([7], 0))) = Some False
        | (l, Inl _) \<Rightarrow> False)"
  by code_simp

lemma example_lag_start:
  "machine_new (node example_lag_net (\<lambda>_ _. 0) 2) Map.empty 0 0 0 0 8 = Some m \<Longrightarrow> enabled (Received 0 example_vote) m \<and> counters_left m"
proof -
  have "case machine_new (node example_lag_net (\<lambda>_ _. 0) 2) Map.empty 0 0 0 0 8 of None \<Rightarrow> False
    | Some m \<Rightarrow> enabled (Received 0 example_vote) m \<and> counters_left m" by code_simp
  then show "machine_new (node example_lag_net (\<lambda>_ _. 0) 2) Map.empty 0 0 0 0 8 = Some m \<Longrightarrow> ?thesis" by simp
qed

lemma example_lag_reachable:
  "\<exists>gs. tm_reachable example_lag_net (\<lambda>_ _. 0) {0, 2} gs \<and> example_laggard = Some (gs 2)"
proof -
  let ?N = example_lag_net and ?k = "\<lambda>_ _. 0 :: nat"
  obtain a0 a1 where a: "machine_new (node ?N ?k 0) Map.empty 0 0 0 0 7 = Some a0"
    "run_alone (node ?N ?k 0) [Timeout 100000, Own, Own, Timeout 100000, Timeout 100000, Timeout 100000, Own] a0 = Some a1" "NetBroadcast example_vote \<in> set (calls a1)"
    using example_leader_votes by (auto simp: example_leader_def split: option.splits Option.bind_splits)
  obtain b0 b1 where b: "machine_new (node ?N ?k 2) Map.empty 0 0 0 0 8 = Some b0"
    "run_event (node ?N ?k 2) (\<lambda>_. None) Some (Received 0 example_vote) b0 = Some b1" "example_laggard = Some b1"
    using example_laggard_jumps by (auto simp: example_laggard_def split: option.splits Option.bind_splits)
  define gs where "gs = (\<lambda>v :: nat. if v = 0 then a0 else b0)"
  have "tm_reachable ?N ?k {0, 2} gs" by (rule tm_reachable.start) (use a(1) b(1) in \<open>auto simp: gs_def intro!: exI\<close>)
  moreover have "gs 0 = a0" by (simp add: gs_def)
  ultimately have r: "tm_reachable ?N ?k {0, 2} (gs(0 := a1))" using run_alone_reachable [of ?N ?k 0 _ gs] a(2) by blast
  have "sender (msg example_vote) = 0" by (simp add: example_vote_def)
  then have "msg example_vote \<in> own 0 a1" using a(3) by (auto simp: own_def)
  then have "authentic ?N {0, 2} (gs(0 := a1)) (Received 0 example_vote)" by (simp add: sent_def)
  then have "tm_reachable ?N ?k {0, 2} (gs(0 := a1, 2 := b1))"
    by (intro tm_reachable.event [OF r, of 2 "Received 0 example_vote" "\<lambda>_. None" Some b1])
      (use b(2) example_lag_start [OF b(1)] in \<open>auto simp: gs_def\<close>)
  then show ?thesis using b(3) by (intro exI [of _ "gs(0 := a1, 2 := b1)"]) simp
qed

theorem skipped_valid_round_panics_witness:
  "weights_ok example_lag_net {0, 1, 2} \<and> honest_majority example_lag_net {0, 1, 2} {0, 2} \<and>
   (\<exists>gs. tm_reachable example_lag_net (\<lambda>_ _. 0) {0, 2} gs \<and> enabled (Received 0 example_reproposal) (gs 2) \<and>
      authentic example_lag_net {0, 2} gs (Received 0 example_reproposal) \<and>
      run_event (node example_lag_net (\<lambda>_ _. 0) 2) (\<lambda>_. None) Some (Received 0 example_reproposal) (gs 2) = None)"
proof -
  let ?N = "node example_lag_net (\<lambda>_ _. 0) 2"
  have w: "weights_ok example_lag_net {0, 1, 2}" "honest_majority example_lag_net {0, 1, 2} {0, 2}"
    by (auto simp: weights_ok_def honest_majority_def wsum_def example_lag_net_def insert_Diff_if)
  obtain gs where gs: "tm_reachable example_lag_net (\<lambda>_ _. 0) {0, 2} gs" "example_laggard = Some (gs 2)" using example_lag_reachable by blast
  obtain rd l where m: "enabled (Received 0 example_reproposal) (gs 2)" "number (block (gs 2)) = 1" "bd_round (block (gs 2)) = Some rd" "rd_number rd = 1"
    "rd_step rd = Step.Propose" "map_of (msg_log (block (gs 2))) 0 = None" "log_message ?N example_reproposal (msg_log (block (gs 2))) = (l, Inr True)"
    "has_consensus ?N l 1 (Precommit (Some ([7], 0))) = Some False"
    using example_laggard_jumps by (auto simp: gs(2) split: option.splits prod.splits sum.splits)
  have "run_event ?N (\<lambda>_. None) Some (Received 0 example_reproposal) (gs 2) = None"
    by (rule skipped_valid_round_panics [OF m(3) _ _ _ _ _ m(7), where vr = 0 and blk = 7 and i = "[7]"])
      (use m in \<open>simp_all add: example_reproposal_def example_lag_net_def example_net_def node_def verify_signature_def\<close>)
  moreover have "authentic example_lag_net {0, 2} gs (Received 0 example_reproposal)" by (simp add: example_reproposal_def)
  ultimately show ?thesis using w gs(1) m(1) by blast
qed

section \<open>The wrong validator is blamed\<close>

text \<open>
  C36: whoever speaks next is blamed for a malformed proposal. When the logged proposal of the current
  round names a round that is not before it, a prevote of any validator in that round is answered by
  blaming its sender, with that prevote as evidence, and the proposer is not blamed. The evidence
  is not valid.
\<close>

theorem prevote_blamed_for_proposal:
  assumes rd: "bd_round (block m) = Some rd" "rd_step rd = Step.Propose"
    and proposal: "log_get (msg_log (block m)) (rd_number rd) (proposer N (number (block m)) (rd_number rd)) Step.Propose = Some psm"
      "data (msg psm) = Proposal (Some vr) blk" "block_id N blk \<noteq> None" "rd_number rd \<le> vr"
    and sm: "data (msg sm) = Prevote vote" "decode_signed_message N (encode_SignedMessage N sm) = Some sm" "verify_signature N sm"
  shows "current_round N validate sm m = Some (m, Inl (Malicious (sender (msg sm)) (Some (InvalidValidRound (encode_SignedMessage N sm))))) \<and>
    verify_tendermint_evience N now sys_now commits (InvalidValidRound (encode_SignedMessage N sm)) = Some (Inl InvalidEvidence)"
proof
  obtain i where i: "block_id N blk = Some i" using proposal(3) by auto
  show "current_round N validate sm m = Some (m, Inl (Malicious (sender (msg sm)) (Some (InvalidValidRound (encode_SignedMessage N sm)))))"
    using rd proposal(1,2,4) i sm(1) by (simp add: current_round_def on_prevote_def on_proposal_def Let_def)
  show "verify_tendermint_evience N now sys_now commits (InvalidValidRound (encode_SignedMessage N sm)) = Some (Inl InvalidEvidence)"
    using sm decode_and_verify [of N "encode_SignedMessage N sm" sm] by simp
qed

definition example_open_net :: "(nat, nat, nat, unit) Network_trait" where
  "example_open_net = example_bad_net\<lparr>encode_validator := (\<lambda>v. [of_nat v])\<rparr>"

definition example_malformed :: "(nat, nat, nat, unit) TendermintMachine" where
  "example_malformed = \<lparr>tm_db = Map.empty, queue = [],
     block = (BlockData_new 1 (Some 3) None)\<lparr>bd_round := Some (RoundData_new 0 \<lparr>canonical = 0, instant = 0\<rparr>),
       msg_log := [(0, [(0, [(Step.Propose, \<lparr>msg = \<lparr>sender = 0, msg_block = 1, msg_round = 0, data = Proposal (Some 5) 7\<rparr>, msg_sig = 0\<rparr>)])])]\<rparr>,
     calls = []\<rparr>"

definition example_prevote :: "(nat, nat, nat) SignedMessage" where
  "example_prevote = \<lparr>msg = \<lparr>sender = 1, msg_block = 1, msg_round = 0, data = Prevote None\<rparr>, msg_sig = 0\<rparr>"

theorem prevote_blamed_for_proposal_witness:
  "current_round example_open_net (\<lambda>_. None) example_prevote example_malformed =
    Some (example_malformed, Inl (Malicious 1 (Some (InvalidValidRound (encode_SignedMessage example_open_net example_prevote)))))"
proof -
  have d: "decode_signed_message example_open_net (encode_SignedMessage example_open_net example_prevote) = Some example_prevote" by code_simp
  have v: "verify_signature example_open_net example_prevote" by code_simp
  have "current_round example_open_net (\<lambda>_. None) example_prevote example_malformed =
    Some (example_malformed, Inl (Malicious (sender (msg example_prevote)) (Some (InvalidValidRound (encode_SignedMessage example_open_net example_prevote)))))"
    by (rule prevote_blamed_for_proposal [where vr = 5 and blk = 7 and rd = "RoundData_new 0 \<lparr>canonical = 0, instant = 0\<rparr>"
        and psm = "\<lparr>msg = \<lparr>sender = 0, msg_block = 1, msg_round = 0, data = Proposal (Some 5) 7\<rparr>, msg_sig = 0\<rparr>", THEN conjunct1, OF _ _ _ _ _ _ _ d v])
      (simp_all add: example_malformed_def BlockData_new_def RoundData_new_def log_get_def example_open_net_def example_bad_net_def example_net_def example_prevote_def)
  then show ?thesis by (simp add: example_prevote_def)
qed

end
