(* ===== verification/Tributary.thy ===== *)
theory Tributary
  imports Tendermint
begin

text \<open>
  The data of a Tributary (\<open>coordinator/tributary\<close>), the chain the validators of a set keep: the
  Merkle tree, transactions and their verification, slash evidence as a transaction, and blocks.
  The application's transactions, the digests and the encoding of evidence are fields of a record. A
  panic is \<open>None\<close>, an error \<open>Inl\<close>.
\<close>

section \<open>Transactions (\<open>transaction.rs\<close>, \<open>tendermint/tx.rs\<close>, \<open>lib.rs\<close>)\<close>

datatype TransactionError = TooLargeTransaction | InvalidSigner | InvalidNonce | InvalidSignature | InvalidContent
  | TooManyInMempool | ProvidedAddedToMempool

record ('f, 'g) Signed =
  signer :: 'g
  nonce :: u32
  signature :: "('f, 'g) SchnorrSignature"

datatype ('f, 'g) TransactionKind = Provided bytes | Unsigned | Signed bytes "('f, 'g) Signed"

text \<open>The network a Tributary's Tendermint machine runs on: validators, blocks, signatures and aggregates are bytes.\<close>

type_synonym trib_network = "(bytes, bytes, bytes, bytes) Network_trait"

datatype TendermintTx = SlashEvidence Evidence

datatype 't Transaction = Tendermint TendermintTx | Application 't

record ('t, 'f, 'g) tributary =
  suite :: "('f, 'g) ciphersuite"
  trib_genesis :: bytes
  blake2s :: "bytes \<Rightarrow> bytes"
  blake2b_to_F :: "bytes \<Rightarrow> 'f"
  app_kind :: "'t \<Rightarrow> ('f, 'g) TransactionKind"
  app_hash :: "'t \<Rightarrow> bytes"
  app_verify :: "'t \<Rightarrow> TransactionError option"
  app_serialize :: "'t \<Rightarrow> bytes"
  app_read :: "'t reader"
  decode_evidence :: "Evidence reader"
  clock_instant :: int
  clock_sys :: int
  decode_commit :: "bytes \<Rightarrow> (bytes, bytes) Commit option"

definition TRANSACTION_SIZE_LIMIT :: nat where "TRANSACTION_SIZE_LIMIT = 3000000"
definition ACCOUNT_MEMPOOL_LIMIT :: u32 where "ACCOUNT_MEMPOOL_LIMIT = 50"
definition BLOCK_SIZE_LIMIT :: nat where "BLOCK_SIZE_LIMIT = 3001000"

definition read_check_identity :: "('f, 'g::zero, 'x) ciphersuite_scheme \<Rightarrow> ('f, 'g) SchnorrSignature reader" where
  "read_check_identity C bs = Option.bind (SchnorrSignature_read C bs) (\<lambda>(s, rest). if sig_R s = 0 then None else Some (s, rest))"

definition Signed_read :: "('f, 'g::zero, 'x) ciphersuite_scheme \<Rightarrow> ('f, 'g) Signed reader" where
  "Signed_read C bs =
     Option.bind (read_G C bs) (\<lambda>(who, rest). Option.bind (read_u32_le rest) (\<lambda>(n, rest).
     if n \<ge> - 2 then None
     else Option.bind (read_check_identity C rest) (\<lambda>(s, rest). Some (\<lparr>signer = who, nonce = n, signature = s\<rparr>, rest))))"

definition Signed_write :: "('f, 'g::zero, 'x) ciphersuite_scheme \<Rightarrow> ('f, 'g) Signed \<Rightarrow> bytes option" where
  "Signed_write C s =
     (if sig_R (signature s) = 0 then None
      else Some (point_to_bytes C (signer s) @ to_le_bytes (nonce s) @ SchnorrSignature_serialize C (signature s)))"

definition read_without_nonce :: "('f, 'g::zero, 'x) ciphersuite_scheme \<Rightarrow> u32 \<Rightarrow> ('f, 'g) Signed reader" where
  "read_without_nonce C n bs =
     Option.bind (read_G C bs) (\<lambda>(who, rest).
     Option.bind (read_check_identity C rest) (\<lambda>(s, rest). Some (\<lparr>signer = who, nonce = n, signature = s\<rparr>, rest)))"

definition write_without_nonce :: "('f, 'g::zero, 'x) ciphersuite_scheme \<Rightarrow> ('f, 'g) Signed \<Rightarrow> bytes option" where
  "write_without_nonce C s =
     (if sig_R (signature s) = 0 then None
      else Some (point_to_bytes C (signer s) @ SchnorrSignature_serialize C (signature s)))"

fun encode_Evidence :: "Evidence \<Rightarrow> bytes" where
  "encode_Evidence (ConflictingMessages a b) = 0 # encode_bytes a @ encode_bytes b"
| "encode_Evidence (InvalidPrecommit a) = 1 # encode_bytes a"
| "encode_Evidence (InvalidValidRound a) = 2 # encode_bytes a"

fun TendermintTx_serialize :: "TendermintTx \<Rightarrow> bytes" where
  "TendermintTx_serialize (SlashEvidence ev) = encode_Evidence ev"

fun Transaction_serialize :: "('t, 'f, 'g) tributary \<Rightarrow> 't Transaction \<Rightarrow> bytes" where
  "Transaction_serialize c (Tendermint tx) = 0 # TendermintTx_serialize tx"
| "Transaction_serialize c (Application tx) = 1 # app_serialize c tx"

definition Transaction_read :: "('t, 'f, 'g) tributary \<Rightarrow> 't Transaction reader" where
  "Transaction_read c bs = Option.bind (read_exact 1 bs) (\<lambda>(tag, rest).
     if tag = [0] then map_option (\<lambda>(ev, rest). (Tendermint (SlashEvidence ev), rest)) (decode_evidence c rest)
     else if tag = [1] then map_option (\<lambda>(tx, rest). (Application tx, rest)) (app_read c rest)
     else None)"

fun hash_of :: "('t, 'f, 'g) tributary \<Rightarrow> 't Transaction \<Rightarrow> bytes" where
  "hash_of c (Tendermint tx) = blake2s c (TendermintTx_serialize tx)"
| "hash_of c (Application tx) = app_hash c tx"

fun kind_of :: "('t, 'f, 'g) tributary \<Rightarrow> 't Transaction \<Rightarrow> ('f, 'g) TransactionKind" where
  "kind_of c (Tendermint _) = Unsigned"
| "kind_of c (Application tx) = app_kind c tx"

definition sig_hash :: "('t, 'f, 'g) tributary \<Rightarrow> 't \<Rightarrow> 'f option" where
  "sig_hash c tx = (case app_kind c tx of
       Signed order s \<Rightarrow> Some (blake2b_to_F c (ascii ''Tributary Signed Transaction'' @ trib_genesis c @ app_hash c tx @ order @
         point_to_bytes (suite c) (sig_R (signature s))))
     | _ \<Rightarrow> None)"

text \<open>
  The closure that returns the next nonce and increments it is a function on the state \<open>st\<close> it
  captures; it panics when the database holds something else than a nonce.
\<close>

definition verify_transaction :: "('t, 'f::comm_ring_1, 'g::ab_group_add) tributary \<Rightarrow> 't \<Rightarrow> ('st \<Rightarrow> 'g \<Rightarrow> bytes \<Rightarrow> (u32 option \<times> 'st) option) \<Rightarrow> 'st \<Rightarrow>
    ('st \<times> (TransactionError + unit)) option" where
  "verify_transaction c tx get_and_increment_nonce st =
     (if length (app_serialize c tx) > TRANSACTION_SIZE_LIMIT then Some (st, Inl TooLargeTransaction)
      else case app_verify c tx of
        Some e \<Rightarrow> Some (st, Inl e)
      | None \<Rightarrow>
          (case app_kind c tx of
             Signed order s \<Rightarrow>
               Option.bind (get_and_increment_nonce st (signer s) order) (\<lambda>(next_nonce, st). case next_nonce of
                  None \<Rightarrow> Some (st, Inl InvalidSigner)
                | Some next_nonce \<Rightarrow>
                    if nonce s \<noteq> next_nonce then Some (st, Inl InvalidNonce)
                    else Option.bind (sig_hash c tx) (\<lambda>chal. Option.bind (SchnorrSignature_verify (suite c) (signature s) (signer s) chal) (\<lambda>ok.
                      if ok then Some (st, Inr ()) else Some (st, Inl InvalidSignature))))
           | _ \<Rightarrow> Some (st, Inr ())))"

definition verify_tendermint_tx :: "('t, 'f, 'g) tributary \<Rightarrow> trib_network \<Rightarrow> TendermintTx \<Rightarrow> (u64 \<Rightarrow> (bytes, bytes) Commit option) \<Rightarrow> (TransactionError + unit) option" where
  "verify_tendermint_tx c N tx commits = (case tx of SlashEvidence ev \<Rightarrow>
     map_option (case_sum (\<lambda>_. Inl InvalidContent) Inr) (verify_tendermint_evience N (clock_instant c) (clock_sys c) commits ev))"

section \<open>The Merkle tree (\<open>merkle.rs\<close>)\<close>

fun merkle_level :: "(bytes \<Rightarrow> bytes) \<Rightarrow> bytes list \<Rightarrow> bytes list" where
  "merkle_level h [] = []"
| "merkle_level h [x] = [h (ascii ''branch_hash'' @ x @ replicate 32 0)]"
| "merkle_level h (x # y # hashes) = h (ascii ''branch_hash'' @ x @ y) # merkle_level h hashes"

lemma length_merkle_level: "length (merkle_level h xs) = (length xs + 1) div 2"
  by (induction h xs rule: merkle_level.induct) simp_all

function merkle_loop :: "(bytes \<Rightarrow> bytes) \<Rightarrow> bytes list \<Rightarrow> bytes list" where
  "merkle_loop h hashes = (if length hashes > 1 then merkle_loop h (merkle_level h hashes) else hashes)"
  by pat_completeness auto
termination
  by (relation "measure (\<lambda>(h, hashes). length hashes)") (auto simp: length_merkle_level)

definition merkle :: "(bytes \<Rightarrow> bytes) \<Rightarrow> bytes list \<Rightarrow> bytes" where
  "merkle h hash_args = (case merkle_loop h (map (\<lambda>x. h (ascii ''leaf_hash'' @ x)) hash_args) of
     [] \<Rightarrow> replicate 32 0 | r # _ \<Rightarrow> r)"

declare merkle_loop.simps [simp del]

section \<open>Blocks (\<open>block.rs\<close>)\<close>

datatype BlockError = TooLargeBlock | InvalidParent | InvalidTransactions | UnsignedAlreadyIncluded | ProvidedAlreadyIncluded
  | WrongTransactionOrder | NonLocalProvided bytes | DistinctProvided | InvalidTransaction TransactionError

record BlockHeader =
  parent :: bytes
  txs_root :: bytes

record 't Block =
  header :: BlockHeader
  block_txs :: "'t Transaction list"

definition BlockHeader_serialize :: "BlockHeader \<Rightarrow> bytes" where
  "BlockHeader_serialize h = parent h @ txs_root h"

definition BlockHeader_read :: "BlockHeader reader" where
  "BlockHeader_read bs = Option.bind (read_exact 32 bs) (\<lambda>(p, rest). Option.bind (read_exact 32 rest) (\<lambda>(t, rest).
     Some (\<lparr>parent = p, txs_root = t\<rparr>, rest)))"

definition header_hash :: "('t, 'f, 'g) tributary \<Rightarrow> BlockHeader \<Rightarrow> bytes" where
  "header_hash c h = blake2s c (ascii ''tributary_block'' @ BlockHeader_serialize h)"

definition Block_serialize :: "('t, 'f, 'g) tributary \<Rightarrow> 't Block \<Rightarrow> bytes option" where
  "Block_serialize c b =
     (if length (block_txs b) < 2 ^ 32
      then Some (BlockHeader_serialize (header b) @ to_le_bytes (of_nat (length (block_txs b)) :: u32) @ concat (map (Transaction_serialize c) (block_txs b)))
      else None)"

fun read_transactions :: "('t, 'f, 'g) tributary \<Rightarrow> nat \<Rightarrow> 't Transaction list reader" where
  "read_transactions c 0 bs = Some ([], bs)"
| "read_transactions c (Suc n) bs = Option.bind (Transaction_read c bs) (\<lambda>(tx, rest).
     Option.bind (read_transactions c n rest) (\<lambda>(txs, rest). Some (tx # txs, rest)))"

definition Block_read :: "('t, 'f, 'g) tributary \<Rightarrow> 't Block reader" where
  "Block_read c bs = Option.bind (BlockHeader_read bs) (\<lambda>(h, rest). Option.bind (read_u32_le rest) (\<lambda>(n, rest).
     Option.bind (read_transactions c (unat n) rest) (\<lambda>(txs, rest). Some (\<lparr>header = h, block_txs = txs\<rparr>, rest))))"

fun is_signed :: "('f, 'g) TransactionKind \<Rightarrow> bool" where
  "is_signed (Signed _ _) = True"
| "is_signed _ = False"

fun is_provided :: "('f, 'g) TransactionKind \<Rightarrow> bool" where
  "is_provided (Provided _) = True"
| "is_provided _ = False"

fun kind_nonce :: "('f, 'g) TransactionKind \<Rightarrow> u32" where
  "kind_nonce (Signed _ s) = nonce s"
| "kind_nonce _ = 0"

text \<open>Dropping the last transactions until the block is below the limit; an empty block that is not panics.\<close>

function trim_block :: "('t, 'f, 'g) tributary \<Rightarrow> 't Block \<Rightarrow> 't Block option" where
  "trim_block c b = Option.bind (Block_serialize c b) (\<lambda>bs.
     if length bs > BLOCK_SIZE_LIMIT
     then if block_txs b = [] then None else trim_block c (b\<lparr>block_txs := butlast (block_txs b)\<rparr>)
     else Some b)"
  by pat_completeness auto
termination
  by (relation "measure (\<lambda>(c, b). length (block_txs b))") auto

declare trim_block.simps [simp del]

definition Block_new :: "('t, 'f, 'g) tributary \<Rightarrow> bytes \<Rightarrow> 't list \<Rightarrow> 't Transaction list \<Rightarrow> 't Block option" where
  "Block_new c par provided mempool =
     (if list_ex (\<lambda>tx. is_provided (kind_of c tx)) mempool then None
      else let sgn = filter (\<lambda>tx. is_signed (kind_of c tx)) mempool;
               unsgn = filter (\<lambda>tx. \<not> is_signed (kind_of c tx)) mempool;
               txs = map Application provided @ unsgn @ sgn
           in if \<not> sorted (map (\<lambda>tx. kind_nonce (kind_of c tx)) txs) then None
              else Option.bind (trim_block c \<lparr>header = \<lparr>parent = par, txs_root = replicate 32 0\<rparr>, block_txs = txs\<rparr>) (\<lambda>res.
                Some (res\<lparr>header := \<lparr>parent = par, txs_root = merkle (blake2s c) (map (hash_of c) (block_txs res))\<rparr>\<rparr>)))"

definition block_hash :: "('t, 'f, 'g) tributary \<Rightarrow> 't Block \<Rightarrow> bytes" where
  "block_hash c b = header_hash c (header b)"

text \<open>
  The loop of \<open>verify\<close> over the transactions: the order of the last one, the hashes of the unsigned
  ones, what is left of the locally provided ones, and the state of the nonces.
\<close>

fun order_index :: "('f, 'g) TransactionKind \<Rightarrow> nat" where
  "order_index (Provided _) = 0"
| "order_index Unsigned = 1"
| "order_index (Signed _ _) = 2"

text \<open>A provided transaction is compared with the next one provided locally for its order.\<close>

definition check_provided :: "('t, 'f, 'g) tributary \<Rightarrow> (bytes \<Rightarrow> bool) \<Rightarrow> bool \<Rightarrow> bytes \<Rightarrow> 't Transaction \<Rightarrow> (bytes \<times> 't list) list \<Rightarrow>
    BlockError + (bytes \<times> 't list) list" where
  "check_provided c in_chain allow_non_local order tx loc =
     (if in_chain (hash_of c tx) then Inl ProvidedAlreadyIncluded
      else case map_of loc order of
        Some (l # rest) \<Rightarrow>
          (case tx of
             Application t \<Rightarrow> if t \<noteq> l then Inl DistinctProvided else Inr (AList.update order rest loc)
           | Tendermint _ \<Rightarrow> Inl (NonLocalProvided (hash_of c tx)))
      | _ \<Rightarrow> if allow_non_local then Inr loc else Inl (NonLocalProvided (hash_of c tx)))"

fun verify_txs :: "('t, 'f::comm_ring_1, 'g::ab_group_add) tributary \<Rightarrow> trib_network \<Rightarrow> (u64 \<Rightarrow> (bytes, bytes) Commit option) \<Rightarrow> (bytes \<Rightarrow> bool) \<Rightarrow> bool \<Rightarrow>
    ('st \<Rightarrow> 'g \<Rightarrow> bytes \<Rightarrow> (u32 option \<times> 'st) option) \<Rightarrow> 't Transaction list \<Rightarrow> nat \<Rightarrow> bytes list \<Rightarrow> (bytes \<times> 't list) list \<Rightarrow> 'st \<Rightarrow> (BlockError + unit) option" where
  "verify_txs c N commits in_chain allow gain [] last_order included loc st = Some (Inr ())"
| "verify_txs c N commits in_chain allow gain (tx # txs) last_order included loc st =
     (case (case kind_of c tx of
          Provided order \<Rightarrow> map_sum id (\<lambda>loc. (included, loc)) (check_provided c in_chain allow order tx loc)
        | Unsigned \<Rightarrow>
            if in_chain (hash_of c tx) \<or> hash_of c tx \<in> set included then Inl UnsignedAlreadyIncluded
            else Inr (List.insert (hash_of c tx) included, loc)
        | Signed _ _ \<Rightarrow> Inr (included, loc)) of
        Inl e \<Rightarrow> Some (Inl e)
      | Inr (included, loc) \<Rightarrow>
          if order_index (kind_of c tx) < last_order then Some (Inl WrongTransactionOrder)
          else (case tx of
              Tendermint t \<Rightarrow> Option.bind (verify_tendermint_tx c N t commits) (\<lambda>res. case res of
                  Inl e \<Rightarrow> Some (Inl (InvalidTransaction e))
                | Inr _ \<Rightarrow> verify_txs c N commits in_chain allow gain txs (order_index (kind_of c tx)) included loc st)
            | Application t \<Rightarrow> Option.bind (verify_transaction c t gain st) (\<lambda>(st, res). case res of
                  Inl e \<Rightarrow> Some (Inl (InvalidTransaction e))
                | Inr _ \<Rightarrow> verify_txs c N commits in_chain allow gain txs (order_index (kind_of c tx)) included loc st)))"

definition Block_verify :: "('t, 'f::comm_ring_1, 'g::ab_group_add) tributary \<Rightarrow> trib_network \<Rightarrow> 't Block \<Rightarrow> bytes \<Rightarrow> (bytes \<times> 't list) list \<Rightarrow>
    ('st \<Rightarrow> 'g \<Rightarrow> bytes \<Rightarrow> (u32 option \<times> 'st) option) \<Rightarrow> 'st \<Rightarrow> (u64 \<Rightarrow> (bytes, bytes) Commit option) \<Rightarrow> (bytes \<Rightarrow> bool) \<Rightarrow> bool \<Rightarrow> (BlockError + unit) option" where
  "Block_verify c N b last_block loc gain st commits in_chain allow =
     Option.bind (Block_serialize c b) (\<lambda>bs.
     if length bs > BLOCK_SIZE_LIMIT then Some (Inl TooLargeBlock)
     else if parent (header b) \<noteq> last_block then Some (Inl InvalidParent)
     else Option.bind (verify_txs c N commits in_chain allow gain (block_txs b) 0 [] loc st) (\<lambda>res. case res of
         Inl e \<Rightarrow> Some (Inl e)
       | Inr _ \<Rightarrow> if merkle (blake2s c) (map (hash_of c) (block_txs b)) \<noteq> txs_root (header b) then Some (Inl InvalidTransactions) else Some (Inr ())))"

end
