(* ===== verification/Tributary_Chain.thy ===== *)
theory Tributary_Chain
  imports Tributary
begin

text \<open>
  The state of a Tributary: the transactions provided locally, the mempool and the chain, all kept in
  one database. A database transaction is the map of what it has put; it reads through to the
  database and is merged into it when committed, as the backends do. The commits of the chain are
  taken to be stored and to decode, as the code asserts when it looks one up for a piece of evidence.
\<close>

definition lit_key :: "bytes \<Rightarrow> bytes \<Rightarrow> bytes \<Rightarrow> bytes" where
  "lit_key db_dst item_dst key = [of_nat (length db_dst)] @ db_dst @ [of_nat (length item_dst)] @ item_dst @ key"

lemma lit_key: "length db_dst < 256 \<Longrightarrow> length item_dst < 256 \<Longrightarrow> Db_key db_dst item_dst key = Some (lit_key db_dst item_dst key)"
  by (simp add: Db_key_def lit_key_def)

definition txn_get :: "db \<Rightarrow> db \<Rightarrow> bytes \<Rightarrow> bytes option" where
  "txn_get d txn k = (case txn k of Some v \<Rightarrow> Some v | None \<Rightarrow> d k)"

definition read_u32 :: "bytes option \<Rightarrow> u32 option" where
  "read_u32 v = (case v of None \<Rightarrow> Some 0 | Some bs \<Rightarrow> if length bs = 4 then Some (from_le_bytes bs) else None)"

section \<open>Provided transactions (\<open>provided.rs\<close>)\<close>

datatype ProvidedError = NotProvided | InvalidProvided TransactionError | AlreadyProvided | LocalMismatchesOnChain

type_synonym 't ProvidedTransactions = "(bytes \<times> 't list) list"

definition provided_transaction_key :: "bytes \<Rightarrow> bytes \<Rightarrow> bytes" where
  "provided_transaction_key gen h = lit_key (ascii ''tributary_provided'') (ascii ''transaction'') (gen @ h)"

definition current_provided_key :: "bytes \<Rightarrow> bytes" where
  "current_provided_key gen = lit_key (ascii ''tributary_provided'') (ascii ''current'') gen"

definition locally_provided_quantity_key :: "bytes \<Rightarrow> bytes \<Rightarrow> bytes" where
  "locally_provided_quantity_key gen order = lit_key (ascii ''tributary_provided'') (ascii ''local_quantity'') (gen @ order)"

definition on_chain_provided_quantity_key :: "bytes \<Rightarrow> bytes \<Rightarrow> bytes" where
  "on_chain_provided_quantity_key gen order = lit_key (ascii ''tributary_provided'') (ascii ''on_chain_quantity'') (gen @ order)"

definition block_provided_quantity_key :: "bytes \<Rightarrow> bytes \<Rightarrow> bytes \<Rightarrow> bytes" where
  "block_provided_quantity_key gen blk order = lit_key (ascii ''tributary_provided'') (ascii ''block_quantity'') (gen @ blk @ order)"

definition on_chain_provided_key :: "bytes \<Rightarrow> bytes \<Rightarrow> u32 \<Rightarrow> bytes" where
  "on_chain_provided_key gen order i = lit_key (ascii ''tributary_provided'') (ascii ''on_chain_tx'') (gen @ order @ to_le_bytes i)"

definition push_provided :: "bytes \<Rightarrow> 't \<Rightarrow> 't ProvidedTransactions \<Rightarrow> 't ProvidedTransactions" where
  "push_provided order tx prov = AList.update order ((case map_of prov order of None \<Rightarrow> [] | Some q \<Rightarrow> q) @ [tx]) prov"

function load_provided :: "('t, 'f, 'g) tributary \<Rightarrow> db \<Rightarrow> bytes \<Rightarrow> 't ProvidedTransactions \<Rightarrow> 't ProvidedTransactions option" where
  "load_provided c d cur prov =
     (if cur = [] then Some prov
      else if length cur < 32 then None
      else Option.bind (d (provided_transaction_key (trib_genesis c) (take 32 cur))) (\<lambda>bs. Option.bind (app_read c bs) (\<lambda>(tx, _).
        case app_kind c tx of
          Provided order \<Rightarrow> load_provided c d (drop 32 cur) (push_provided order tx prov)
        | _ \<Rightarrow> None)))"
  by pat_completeness auto
termination
  by (relation "measure (\<lambda>(c, d, cur, prov). length cur)") auto

definition provided_new :: "('t, 'f, 'g) tributary \<Rightarrow> db \<Rightarrow> 't ProvidedTransactions option" where
  "provided_new c d = load_provided c d (case d (current_provided_key (trib_genesis c)) of None \<Rightarrow> [] | Some bs \<Rightarrow> bs) []"

definition provide :: "('t, 'f::comm_ring_1, 'g::ab_group_add) tributary \<Rightarrow> 't \<Rightarrow> db \<Rightarrow> 't ProvidedTransactions \<Rightarrow>
    (db \<times> 't ProvidedTransactions \<times> (ProvidedError + unit)) option" where
  "provide c tx d prov = (case app_kind c tx of
       Provided order \<Rightarrow>
         Option.bind (verify_transaction c tx (\<lambda>st _ _. Some (None, st)) ()) (\<lambda>(_, res). case res of
             Inl e \<Rightarrow> Some (d, prov, Inl (InvalidProvided e))
           | Inr _ \<Rightarrow>
               let gen = trib_genesis c; h = app_hash c tx; provided_key = provided_transaction_key gen h in
               if d provided_key \<noteq> None then Some (d, prov, Inl AlreadyProvided)
               else Option.bind (read_u32 (d (locally_provided_quantity_key gen order))) (\<lambda>local_quantity.
                 Option.bind (read_u32 (d (on_chain_provided_quantity_key gen order))) (\<lambda>on_chain_quantity.
                 let txn = [provided_key \<mapsto> app_serialize c tx, locally_provided_quantity_key gen order \<mapsto> to_le_bytes (local_quantity + 1)] in
                 if local_quantity < on_chain_quantity
                 then Option.bind (txn_get d txn (on_chain_provided_key gen order local_quantity)) (\<lambda>on_chain.
                   if h \<noteq> on_chain then Some (d, prov, Inl LocalMismatchesOnChain)
                   else Some (d ++ txn, prov, Inr ()))
                 else
                   let cur = (case txn_get d txn (current_provided_key gen) of None \<Rightarrow> [] | Some bs \<Rightarrow> bs)
                   in Some (d ++ txn(current_provided_key gen \<mapsto> cur @ h), push_provided order tx prov, Inr ()))))
     | _ \<Rightarrow> Some (d, prov, Inl NotProvided))"

text \<open>The search for the hash of a completed transaction panics when it is not found.\<close>

function remove_hash :: "bytes \<Rightarrow> bytes \<Rightarrow> bytes option" where
  "remove_hash h cur =
     (if length cur < 32 then None
      else if take 32 cur = h then Some (drop 32 cur)
      else map_option (\<lambda>rest. take 32 cur @ rest) (remove_hash h (drop 32 cur)))"
  by pat_completeness auto
termination
  by (relation "measure (\<lambda>(h, cur). length cur)") auto

declare load_provided.simps [simp del] remove_hash.simps [simp del]

definition complete :: "('t, 'f, 'g) tributary \<Rightarrow> bytes \<Rightarrow> bytes \<Rightarrow> bytes \<Rightarrow> db \<Rightarrow> db \<Rightarrow> 't ProvidedTransactions \<Rightarrow> (db \<times> 't ProvidedTransactions) option" where
  "complete c order blk h d txn prov =
     (let gen = trib_genesis c in
      Option.bind (case map_of prov order of
          Some (next_tx # rest) \<Rightarrow>
            if app_hash c next_tx \<noteq> h then None
            else Option.bind (txn_get d txn (current_provided_key gen)) (\<lambda>cur. Option.bind (remove_hash h cur) (\<lambda>cur.
              Some (txn(current_provided_key gen \<mapsto> cur), AList.update order rest prov)))
        | _ \<Rightarrow> Some (txn, prov)) (\<lambda>(txn, prov).
      Option.bind (read_u32 (d (on_chain_provided_quantity_key gen order))) (\<lambda>on_chain_quantity.
        Some (txn(on_chain_provided_key gen order on_chain_quantity \<mapsto> h,
          on_chain_provided_quantity_key gen order \<mapsto> to_le_bytes (on_chain_quantity + 1),
          block_provided_quantity_key gen blk order \<mapsto> to_le_bytes (on_chain_quantity + 1)), prov))))"

section \<open>The mempool (\<open>mempool.rs\<close>)\<close>

record ('t, 'g) Mempool =
  last_nonce_in_mempool :: "(('g \<times> bytes) \<times> u32) list"
  mempool_txs :: "(bytes \<times> 't Transaction) list"
  txs_per_signer :: "('g \<times> u32) list"

definition mempool_transaction_key :: "bytes \<Rightarrow> bytes \<Rightarrow> bytes" where
  "mempool_transaction_key gen h = lit_key (ascii ''tributary_mempool'') (ascii ''transaction'') (gen @ h)"

definition current_mempool_key :: "bytes \<Rightarrow> bytes" where
  "current_mempool_key gen = lit_key (ascii ''tributary_mempool'') (ascii ''current'') gen"

definition current_mempool :: "('t, 'f, 'g) tributary \<Rightarrow> db \<Rightarrow> bytes" where
  "current_mempool c d = (case d (current_mempool_key (trib_genesis c)) of None \<Rightarrow> [] | Some bs \<Rightarrow> bs)"

definition save_tx :: "('t, 'f, 'g) tributary \<Rightarrow> 't Transaction \<Rightarrow> db \<Rightarrow> ('t, 'g) Mempool \<Rightarrow> db \<times> ('t, 'g) Mempool" where
  "save_tx c tx d mp =
     (d(mempool_transaction_key (trib_genesis c) (hash_of c tx) \<mapsto> Transaction_serialize c tx,
        current_mempool_key (trib_genesis c) \<mapsto> current_mempool c d @ hash_of c tx),
      mp\<lparr>mempool_txs := AList.update (hash_of c tx) tx (mempool_txs mp)\<rparr>)"

definition unsigned_already_exist :: "bytes \<Rightarrow> (bytes \<Rightarrow> bool) \<Rightarrow> ('t, 'g) Mempool \<Rightarrow> bool" where
  "unsigned_already_exist h unsigned_in_chain mp \<longleftrightarrow> unsigned_in_chain h \<or> map_of (mempool_txs mp) h \<noteq> None"

definition signer_amount :: "'g \<Rightarrow> ('t, 'g) Mempool \<Rightarrow> u32" where
  "signer_amount s mp = (case map_of (txs_per_signer mp) s of None \<Rightarrow> 0 | Some n \<Rightarrow> n)"

function load_mempool :: "('t, 'f, 'g) tributary \<Rightarrow> db \<Rightarrow> bytes \<Rightarrow> ('t, 'g) Mempool \<Rightarrow> ('t, 'g) Mempool option" where
  "load_mempool c d cur mp =
     (if cur = [] then Some mp
      else if length cur < 32 then None
      else Option.bind (d (mempool_transaction_key (trib_genesis c) (take 32 cur))) (\<lambda>bs. Option.bind (Transaction_read c bs) (\<lambda>(tx, _).
        let insert_tx = mp\<lparr>mempool_txs := AList.update (take 32 cur) tx (mempool_txs mp)\<rparr> in
        case kind_of c tx of
          Unsigned \<Rightarrow> load_mempool c d (drop 32 cur) insert_tx
        | Signed order s \<Rightarrow>
            if (case map_of (last_nonce_in_mempool mp) (signer s, order) of None \<Rightarrow> False | Some prior \<Rightarrow> prior \<noteq> nonce s - 1) then None
            else load_mempool c d (drop 32 cur) (insert_tx\<lparr>txs_per_signer := AList.update (signer s) (signer_amount (signer s) mp + 1) (txs_per_signer mp),
                last_nonce_in_mempool := AList.update (signer s, order) (nonce s) (last_nonce_in_mempool mp)\<rparr>)
        | Provided _ \<Rightarrow> None)))"
  by pat_completeness auto
termination
  by (relation "measure (\<lambda>(c, d, cur, mp). length cur)") auto

declare load_mempool.simps [simp del]

definition mempool_new :: "('t, 'f, 'g) tributary \<Rightarrow> db \<Rightarrow> ('t, 'g) Mempool option" where
  "mempool_new c d = load_mempool c d (current_mempool c d) \<lparr>last_nonce_in_mempool = [], mempool_txs = [], txs_per_signer = []\<rparr>"

definition mempool_add :: "('t, 'f::comm_ring_1, 'g::ab_group_add) tributary \<Rightarrow> trib_network \<Rightarrow> ('g \<Rightarrow> bytes \<Rightarrow> u32 option option) \<Rightarrow> bool \<Rightarrow> 't Transaction \<Rightarrow>
    (bytes \<Rightarrow> bool) \<Rightarrow> (u64 \<Rightarrow> (bytes, bytes) Commit option) \<Rightarrow> db \<Rightarrow> ('t, 'g) Mempool \<Rightarrow> (db \<times> ('t, 'g) Mempool \<times> (TransactionError + bool)) option" where
  "mempool_add c N blockchain_next_nonce internal tx unsigned_in_chain commits d mp =
     (let save = (\<lambda>mp. case save_tx c tx d mp of (d, mp) \<Rightarrow> Some (d, mp, Inr True)) in
      case tx of
        Tendermint t \<Rightarrow>
          if unsigned_already_exist (hash_of c tx) unsigned_in_chain mp then Some (d, mp, Inr False)
          else Option.bind (verify_tendermint_tx c N t commits) (\<lambda>res. case res of Inl e \<Rightarrow> Some (d, mp, Inl e) | Inr _ \<Rightarrow> save mp)
      | Application t \<Rightarrow>
          (case app_kind c t of
             Signed order s \<Rightarrow>
               Option.bind (blockchain_next_nonce (signer s) order) (\<lambda>chain. case chain of
                   None \<Rightarrow> Some (d, mp, Inl InvalidSigner)
                 | Some chain_nonce \<Rightarrow>
                     let last = map_of (last_nonce_in_mempool mp) (signer s, order) in
                     if (case last of None \<Rightarrow> False | Some n \<Rightarrow> n < chain_nonce) then None
                     else let next_nonce = (case last of None \<Rightarrow> chain_nonce | Some n \<Rightarrow> n + 1);
                              amount_in_pool = signer_amount (signer s) mp + 1
                          in if \<not> internal \<and> amount_in_pool > ACCOUNT_MEMPOOL_LIMIT then Some (d, mp, Inl TooManyInMempool)
                             else Option.bind (verify_transaction c t (\<lambda>st _ _. Some (Some next_nonce, st)) ()) (\<lambda>(_, res). case res of
                                 Inl e \<Rightarrow> Some (d, mp, Inl e)
                               | Inr _ \<Rightarrow> save (mp\<lparr>last_nonce_in_mempool := AList.update (signer s, order) next_nonce (last_nonce_in_mempool mp),
                                   txs_per_signer := AList.update (signer s) amount_in_pool (txs_per_signer mp)\<rparr>)))
           | Unsigned \<Rightarrow>
               if unsigned_already_exist (hash_of c tx) unsigned_in_chain mp then Some (d, mp, Inr False)
               else (case app_verify c t of Some e \<Rightarrow> Some (d, mp, Inl e) | None \<Rightarrow> save mp)
           | Provided _ \<Rightarrow> Some (d, mp, Inl ProvidedAddedToMempool)))"

definition next_nonce_in_mempool :: "'g \<Rightarrow> bytes \<Rightarrow> ('t, 'g) Mempool \<Rightarrow> u32 option" where
  "next_nonce_in_mempool s order mp = map_option (\<lambda>n. n + 1) (map_of (last_nonce_in_mempool mp) (s, order))"

definition mempool_block :: "('t, 'f, 'g) tributary \<Rightarrow> ('t, 'g) Mempool \<Rightarrow> 't Transaction list option" where
  "mempool_block c mp =
     (let txs = map snd (mempool_txs mp) in
      if list_ex (\<lambda>tx. is_provided (kind_of c tx)) txs then None
      else Some (filter (\<lambda>tx. \<not> is_signed (kind_of c tx)) txs @
        sort_key (\<lambda>tx. kind_nonce (kind_of c tx)) (filter (\<lambda>tx. is_signed (kind_of c tx)) txs)))"

text \<open>Searching the list of hashes for one; a list that ends in a partial hash panics.\<close>

function drop_hash :: "bytes \<Rightarrow> bytes \<Rightarrow> bytes option" where
  "drop_hash h cur =
     (if cur = [] then Some []
      else if length cur < 32 then None
      else if take 32 cur = h then Some (drop 32 cur)
      else map_option (\<lambda>rest. take 32 cur @ rest) (drop_hash h (drop 32 cur)))"
  by pat_completeness auto
termination
  by (relation "measure (\<lambda>(h, cur). length cur)") auto

declare drop_hash.simps [simp del]

definition mempool_remove :: "('t, 'f, 'g) tributary \<Rightarrow> bytes \<Rightarrow> db \<Rightarrow> ('t, 'g) Mempool \<Rightarrow> (db \<times> ('t, 'g) Mempool) option" where
  "mempool_remove c h d mp =
     (let cur = current_mempool c d in
      Option.bind (drop_hash h cur) (\<lambda>cur'.
      let d' = d(mempool_transaction_key (trib_genesis c) h := None);
          d' = (if cur' = cur then d' else d'(current_mempool_key (trib_genesis c) \<mapsto> cur'))
      in case map_of (mempool_txs mp) h of
           None \<Rightarrow> Some (d', mp)
         | Some tx \<Rightarrow>
             let mp' = mp\<lparr>mempool_txs := AList.delete h (mempool_txs mp)\<rparr> in
             (case kind_of c tx of
                Signed order s \<Rightarrow>
                  Option.bind (map_of (txs_per_signer mp) (signer s)) (\<lambda>amount.
                  Some (d', mp'\<lparr>txs_per_signer := AList.update (signer s) (amount - 1) (txs_per_signer mp),
                    last_nonce_in_mempool := (if map_of (last_nonce_in_mempool mp) (signer s, order) = Some (nonce s)
                      then AList.delete (signer s, order) (last_nonce_in_mempool mp) else last_nonce_in_mempool mp)\<rparr>))
              | _ \<Rightarrow> Some (d', mp'))))"

section \<open>The chain (\<open>blockchain.rs\<close>)\<close>

record ('t, 'g) Blockchain =
  bc_db :: db
  block_number :: u64
  tip :: bytes
  participants :: "'g list"
  provided :: "'t ProvidedTransactions"
  mempool :: "('t, 'g) Mempool"

definition chain_key :: "string \<Rightarrow> bytes \<Rightarrow> bytes" where
  "chain_key item k = lit_key (ascii ''tributary_blockchain'') (ascii item) k"

definition tip_key :: "bytes \<Rightarrow> bytes" where "tip_key gen = chain_key ''tip'' gen"
definition block_number_key :: "bytes \<Rightarrow> bytes" where "block_number_key gen = chain_key ''block_number'' gen"
definition block_key :: "bytes \<Rightarrow> bytes \<Rightarrow> bytes" where "block_key gen h = chain_key ''block'' (gen @ h)"
definition block_hash_key :: "bytes \<Rightarrow> u64 \<Rightarrow> bytes" where "block_hash_key gen n = chain_key ''block_hash'' (gen @ to_le_bytes n)"
definition commit_key :: "bytes \<Rightarrow> bytes \<Rightarrow> bytes" where "commit_key gen h = chain_key ''commit'' (gen @ h)"
definition block_after_key :: "bytes \<Rightarrow> bytes \<Rightarrow> bytes" where "block_after_key gen h = chain_key ''block_after'' (gen @ h)"
definition unsigned_included_key :: "bytes \<Rightarrow> bytes \<Rightarrow> bytes" where "unsigned_included_key gen h = chain_key ''unsigned_included'' (gen @ h)"
definition provided_included_key :: "bytes \<Rightarrow> bytes \<Rightarrow> bytes" where "provided_included_key gen h = chain_key ''provided_included'' (gen @ h)"

definition next_nonce_key :: "('t, 'f, 'g) tributary \<Rightarrow> 'g \<Rightarrow> bytes \<Rightarrow> bytes" where
  "next_nonce_key c s order = chain_key ''next_nonce'' (trib_genesis c @ point_to_bytes (suite c) s @ order)"

definition blockchain_new :: "('t, 'f, 'g) tributary \<Rightarrow> db \<Rightarrow> 'g list \<Rightarrow> ('t, 'g) Blockchain option" where
  "blockchain_new c d parts =
     Option.bind (provided_new c d) (\<lambda>prov. Option.bind (mempool_new c d) (\<lambda>mp.
     let bc = \<lparr>bc_db = d, block_number = 0, tip = trib_genesis c, participants = remdups parts, provided = prov, mempool = mp\<rparr> in
     case d (block_number_key (trib_genesis c)) of
       None \<Rightarrow> Some bc
     | Some bs \<Rightarrow> Option.bind (d (tip_key (trib_genesis c))) (\<lambda>t.
         if length bs = 8 \<and> length t = 32 then Some (bc\<lparr>block_number := from_le_bytes bs, tip := t\<rparr>) else None)))"

definition block_from_db :: "('t, 'f, 'g) tributary \<Rightarrow> db \<Rightarrow> bytes \<Rightarrow> 't Block option option" where
  "block_from_db c d h = (case d (block_key (trib_genesis c) h) of None \<Rightarrow> Some None | Some bs \<Rightarrow> map_option (\<lambda>(b, _). Some b) (Block_read c bs))"

definition as_hash :: "bytes option \<Rightarrow> bytes option option" where
  "as_hash v = (case v of None \<Rightarrow> Some None | Some bs \<Rightarrow> if length bs = 32 then Some (Some bs) else None)"

definition commit_from_db :: "('t, 'f, 'g) tributary \<Rightarrow> db \<Rightarrow> bytes \<Rightarrow> bytes option" where
  "commit_from_db c d h = d (commit_key (trib_genesis c) h)"

definition block_hash_from_db :: "('t, 'f, 'g) tributary \<Rightarrow> db \<Rightarrow> u64 \<Rightarrow> bytes option option" where
  "block_hash_from_db c d n = as_hash (d (block_hash_key (trib_genesis c) n))"

definition commit_by_block_number :: "('t, 'f, 'g) tributary \<Rightarrow> db \<Rightarrow> u64 \<Rightarrow> bytes option option" where
  "commit_by_block_number c d n = map_option (\<lambda>h. Option.bind h (commit_from_db c d)) (block_hash_from_db c d n)"

definition block_after :: "('t, 'f, 'g) tributary \<Rightarrow> db \<Rightarrow> bytes \<Rightarrow> bytes option option" where
  "block_after c d h = as_hash (d (block_after_key (trib_genesis c) h))"

definition tip_from_db :: "('t, 'f, 'g) tributary \<Rightarrow> db \<Rightarrow> bytes option" where
  "tip_from_db c d = map_option (case_option (trib_genesis c) (\<lambda>t. t)) (as_hash (d (tip_key (trib_genesis c))))"

definition locally_provided_txs_in_block :: "('t, 'f, 'g) tributary \<Rightarrow> db \<Rightarrow> bytes \<Rightarrow> bytes \<Rightarrow> bool option" where
  "locally_provided_txs_in_block c d h order =
     Option.bind (read_u32 (d (locally_provided_quantity_key (trib_genesis c) order))) (\<lambda>loc.
     Option.bind (read_u32 (d (block_provided_quantity_key (trib_genesis c) h order))) (\<lambda>blk. Some (loc \<ge> blk)))"

definition chain_commits :: "('t, 'f, 'g) tributary \<Rightarrow> db \<Rightarrow> u64 \<Rightarrow> (bytes, bytes) Commit option" where
  "chain_commits c d n = (case commit_by_block_number c d n of Some (Some bs) \<Rightarrow> decode_commit c bs | _ \<Rightarrow> None)"

definition add_transaction :: "('t, 'f::comm_ring_1, 'g::ab_group_add) tributary \<Rightarrow> trib_network \<Rightarrow> bool \<Rightarrow> 't Transaction \<Rightarrow> ('t, 'g) Blockchain \<Rightarrow>
    (('t, 'g) Blockchain \<times> (TransactionError + bool)) option" where
  "add_transaction c N internal tx bc =
     Option.bind (mempool_add c N
       (\<lambda>s order. if s \<in> set (participants bc) then map_option Some (read_u32 (bc_db bc (next_nonce_key c s order))) else Some None)
       internal tx (\<lambda>h. bc_db bc (unsigned_included_key (trib_genesis c) h) \<noteq> None) (chain_commits c (bc_db bc)) (bc_db bc) (mempool bc))
       (\<lambda>(d, mp, res). Some (bc\<lparr>bc_db := d, mempool := mp\<rparr>, res))"

definition provide_transaction :: "('t, 'f::comm_ring_1, 'g::ab_group_add) tributary \<Rightarrow> 't \<Rightarrow> ('t, 'g) Blockchain \<Rightarrow> (('t, 'g) Blockchain \<times> (ProvidedError + unit)) option" where
  "provide_transaction c tx bc = Option.bind (provide c tx (bc_db bc) (provided bc)) (\<lambda>(d, prov, res). Some (bc\<lparr>bc_db := d, provided := prov\<rparr>, res))"

definition next_nonce :: "('t, 'f, 'g) tributary \<Rightarrow> 'g \<Rightarrow> bytes \<Rightarrow> ('t, 'g) Blockchain \<Rightarrow> u32 option option" where
  "next_nonce c s order bc = (case next_nonce_in_mempool s order (mempool bc) of
       Some n \<Rightarrow> Some (Some n)
     | None \<Rightarrow> if s \<in> set (participants bc) then map_option Some (read_u32 (bc_db bc (next_nonce_key c s order))) else Some None)"

text \<open>The closure of \<open>verify_block\<close>: it reads and increments nonces in a transaction that is dropped.\<close>

definition take_nonce :: "('t, 'f, 'g) tributary \<Rightarrow> ('t, 'g) Blockchain \<Rightarrow> db \<Rightarrow> 'g \<Rightarrow> bytes \<Rightarrow> (u32 option \<times> db) option" where
  "take_nonce c bc txn s order =
     (if s \<in> set (participants bc)
      then Option.bind (read_u32 (txn_get (bc_db bc) txn (next_nonce_key c s order))) (\<lambda>n.
        Some (Some n, txn(next_nonce_key c s order \<mapsto> to_le_bytes (n + 1))))
      else Some (None, txn))"

definition verify_block :: "('t, 'f::comm_ring_1, 'g::ab_group_add) tributary \<Rightarrow> trib_network \<Rightarrow> 't Block \<Rightarrow> bool \<Rightarrow> ('t, 'g) Blockchain \<Rightarrow> (BlockError + unit) option" where
  "verify_block c N b allow_non_local_provided bc =
     Block_verify c N b (tip bc) (provided bc) (take_nonce c bc) Map.empty (chain_commits c (bc_db bc))
       (\<lambda>h. bc_db bc (unsigned_included_key (trib_genesis c) h) \<noteq> None \<or> bc_db bc (provided_included_key (trib_genesis c) h) \<noteq> None)
       allow_non_local_provided"

definition build_block :: "('t, 'f::comm_ring_1, 'g::ab_group_add) tributary \<Rightarrow> trib_network \<Rightarrow> ('t, 'g) Blockchain \<Rightarrow> 't Block option" where
  "build_block c N bc =
     Option.bind (mempool_block c (mempool bc)) (\<lambda>txs.
     Option.bind (Block_new c (tip bc) (concat (map snd (provided bc))) txs) (\<lambda>b.
     Option.bind (verify_block c N b False bc) (\<lambda>res. case res of Inl _ \<Rightarrow> None | Inr _ \<Rightarrow> Some b)))"

fun include_txs :: "('t, 'f, 'g) tributary \<Rightarrow> bytes \<Rightarrow> 't Transaction list \<Rightarrow> db \<Rightarrow> db \<Rightarrow> 't ProvidedTransactions \<Rightarrow> ('t, 'g) Mempool \<Rightarrow>
    (db \<times> db \<times> 't ProvidedTransactions \<times> ('t, 'g) Mempool) option" where
  "include_txs c blk [] d txn prov mp = Some (d, txn, prov, mp)"
| "include_txs c blk (tx # txs) d txn prov mp =
     (let h = hash_of c tx; gen = trib_genesis c in
      case kind_of c tx of
        Provided order \<Rightarrow>
          Option.bind (complete c order blk h d txn prov) (\<lambda>(txn, prov).
          include_txs c blk txs d (txn(provided_included_key gen h \<mapsto> [])) prov mp)
      | Unsigned \<Rightarrow>
          Option.bind (mempool_remove c h d mp) (\<lambda>(d, mp). include_txs c blk txs d (txn(unsigned_included_key gen h \<mapsto> [])) prov mp)
      | Signed order s \<Rightarrow>
          Option.bind (mempool_remove c h d mp) (\<lambda>(d, mp).
          include_txs c blk txs d (txn(next_nonce_key c (signer s) order \<mapsto> to_le_bytes (nonce s + 1))) prov mp))"

definition add_block :: "('t, 'f::comm_ring_1, 'g::ab_group_add) tributary \<Rightarrow> trib_network \<Rightarrow> 't Block \<Rightarrow> bytes \<Rightarrow> ('t, 'g) Blockchain \<Rightarrow>
    (('t, 'g) Blockchain \<times> (BlockError + unit)) option" where
  "add_block c N b commit bc =
     Option.bind (verify_block c N b True bc) (\<lambda>res. case res of
         Inl e \<Rightarrow> Some (bc, Inl e)
       | Inr _ \<Rightarrow>
           Option.bind (Block_serialize c b) (\<lambda>bs.
           let gen = trib_genesis c; h = block_hash c b; n = block_number bc + 1;
               txn = [tip_key gen \<mapsto> h, block_number_key gen \<mapsto> to_le_bytes n, block_hash_key gen n \<mapsto> h, block_key gen h \<mapsto> bs,
                 commit_key gen h \<mapsto> commit, block_after_key gen (parent (header b)) \<mapsto> h]
           in Option.bind (include_txs c h (block_txs b) (bc_db bc) txn (provided bc) (mempool bc)) (\<lambda>(d, txn, prov, mp).
             Some (bc\<lparr>bc_db := d ++ txn, tip := h, block_number := n, provided := prov, mempool := mp\<rparr>, Inr ()))))"

end
