(* ===== verification/Tributary_Blocks.thy ===== *)
theory Tributary_Blocks
  imports Tributary
begin

text \<open>
  Properties of a Tributary's blocks: the Merkle root in a header binds the list of transactions, and
  a new block is the longest prefix of what it was given that fits the size limit.
\<close>

section \<open>The Merkle root binds the list\<close>

text \<open>The inputs the digest is applied to, level by level.\<close>

fun level_inputs :: "bytes list \<Rightarrow> bytes list" where
  "level_inputs [] = []"
| "level_inputs [x] = [ascii ''branch_hash'' @ x @ replicate 32 0]"
| "level_inputs (x # y # hashes) = (ascii ''branch_hash'' @ x @ y) # level_inputs hashes"

lemma merkle_level_inputs: "merkle_level h xs = map h (level_inputs xs)"
  by (induction xs rule: level_inputs.induct) simp_all

lemma length_level_inputs: "length (level_inputs xs) = (length xs + 1) div 2"
  by (induction xs rule: level_inputs.induct) simp_all

function tree_inputs :: "(bytes \<Rightarrow> bytes) \<Rightarrow> bytes list \<Rightarrow> bytes list" where
  "tree_inputs h hashes = (if length hashes > 1 then level_inputs hashes @ tree_inputs h (merkle_level h hashes) else [])"
  by pat_completeness auto
termination
  by (relation "measure (\<lambda>(h, hashes). length hashes)") (auto simp: length_merkle_level)

declare tree_inputs.simps [simp del]

definition merkle_inputs :: "(bytes \<Rightarrow> bytes) \<Rightarrow> bytes list \<Rightarrow> bytes list" where
  "merkle_inputs h xs = (let leaves = map (\<lambda>x. ascii ''leaf_hash'' @ x) xs in leaves @ tree_inputs h (map h leaves))"

lemma length_merkle:
  assumes "\<And>x. length (h x) = 32"
  shows "length (merkle h xs) = 32"
proof -
  have "merkle_loop h (map h ys) = [] \<or> (\<exists>z zs. merkle_loop h (map h ys) = h z # zs)" for ys
  proof (induction "length ys" arbitrary: ys rule: less_induct)
    case less
    show ?case
    proof (cases "length ys > 1")
      case True
      then have "merkle_loop h (map h ys) = merkle_loop h (map h (level_inputs (map h ys)))"
        by (subst merkle_loop.simps) (simp add: merkle_level_inputs)
      moreover have "length (level_inputs (map h ys)) < length ys" using True by (simp add: length_level_inputs)
      ultimately show ?thesis using less.hyps by metis
    next
      case False
      then show ?thesis by (cases ys) (auto simp: merkle_loop.simps)
    qed
  qed
  from this [of "map (\<lambda>x. ascii ''leaf_hash'' @ x) xs"] show ?thesis
    using assms by (auto simp: merkle_def comp_def split: list.split)
qed

text \<open>The level of an input in a tree whose inputs are in \<open>S\<close>.\<close>

primrec at_level :: "(bytes \<Rightarrow> bytes) \<Rightarrow> bytes set \<Rightarrow> nat \<Rightarrow> bytes \<Rightarrow> bool" where
  "at_level h S 0 w = (\<exists>x. w = ascii ''leaf_hash'' @ x)"
| "at_level h S (Suc k) w = (\<exists>u\<in>S. \<exists>v. at_level h S k u \<and> w = ascii ''branch_hash'' @ h u @ v)"

lemma leaf_not_branch: "ascii ''leaf_hash'' @ x \<noteq> ascii ''branch_hash'' @ y"
  by (simp add: ascii_def)

lemma at_level_unique:
  assumes "\<And>x. length (h x) = 32" and inj: "inj_on h S"
  shows "at_level h S k w \<Longrightarrow> at_level h S j w \<Longrightarrow> k = j"
proof (induction k arbitrary: j w)
  case 0
  then show ?case by (cases j) (auto dest: leaf_not_branch [THEN notE])
next
  case (Suc k)
  from Suc.prems(1) obtain u v where u: "u \<in> S" "at_level h S k u" "w = ascii ''branch_hash'' @ h u @ v" by auto
  show ?case
  proof (cases j)
    case 0
    then show ?thesis using Suc.prems(2) u(3) by (metis at_level.simps(1) leaf_not_branch)
  next
    case (Suc i)
    with Suc.prems(2) obtain u' v' where u': "u' \<in> S" "at_level h S i u'" "w = ascii ''branch_hash'' @ h u' @ v'" by auto
    then have "h u = h u'" using u(3) by (simp add: assms(1))
    then have "u = u'" using inj u(1) u'(1) by (auto dest: inj_onD)
    then show ?thesis using Suc.IH u(2) u'(2) Suc by blast
  qed
qed

lemma level_inputs_level:
  assumes "set xs \<subseteq> S" and "\<forall>x\<in>set xs. at_level h S k x"
  shows "\<forall>w\<in>set (level_inputs (map h xs)). at_level h S (Suc k) w"
  using assms
proof (induction "map h xs" arbitrary: xs rule: level_inputs.induct)
  case 1
  then show ?case by simp
next
  case (2 y)
  then obtain x where "xs = [x]" by auto
  with 2 show ?case by auto
next
  case (3 y y' ys)
  then obtain x x' xs' where xs: "xs = x # x' # xs'" "ys = map h xs'" by (auto simp: Cons_eq_map_conv)
  with 3(1) [of xs'] 3(3,4) show ?case by auto
qed

lemma level_inputs_inject:
  assumes "\<forall>x\<in>set xs \<union> set ys. length x = 32 \<and> x \<noteq> replicate 32 0" and "level_inputs xs = level_inputs ys"
  shows "xs = ys"
  using assms
proof (induction xs arbitrary: ys rule: level_inputs.induct)
  case 1
  then show ?case by (cases ys rule: level_inputs.cases) auto
next
  case (2 x)
  then show ?case by (cases ys rule: level_inputs.cases) auto
next
  case (3 x y hashes)
  then show ?case by (cases ys rule: level_inputs.cases) auto
qed

lemma merkle_loop_root:
  assumes "A \<noteq> []" and "set A \<union> set (tree_inputs h (map h A)) \<subseteq> S" and "\<forall>a\<in>set A. at_level h S k a"
  shows "\<exists>z j. merkle_loop h (map h A) = [h z] \<and> z \<in> S \<and> at_level h S j z \<and> (if length A = 1 then j = k else j > k)"
  using assms
proof (induction "length A" arbitrary: A k rule: less_induct)
  case less
  show ?case
  proof (cases "length A = 1")
    case True
    then obtain a where "A = [a]" by (auto simp: length_Suc_conv)
    then show ?thesis using less.prems by (auto simp: merkle_loop.simps)
  next
    case False
    then have more: "length A > 1" using less.prems(1) by (cases A) auto
    define B where "B = level_inputs (map h A)"
    have tree: "tree_inputs h (map h A) = B @ tree_inputs h (map h B)"
      using more by (subst tree_inputs.simps) (simp add: B_def merkle_level_inputs)
    have len: "length B < length A" "B \<noteq> []" using more by (auto simp: B_def length_level_inputs simp flip: length_greater_0_conv)
    have "\<forall>b\<in>set B. at_level h S (Suc k) b" unfolding B_def by (rule level_inputs_level) (use less.prems in auto)
    then obtain z j where "merkle_loop h (map h B) = [h z]" "z \<in> S" "at_level h S j z" "if length B = 1 then j = Suc k else j > Suc k"
      using less.hyps [OF len] less.prems(2) unfolding tree by (metis Un_assoc set_append sup.boundedE)
    then have "merkle_loop h (map h B) = [h z] \<and> z \<in> S \<and> at_level h S j z \<and> j > k" by (simp split: if_splits)
    moreover have "merkle_loop h (map h A) = merkle_loop h (map h B)"
      using more by (subst merkle_loop.simps) (simp add: B_def merkle_level_inputs)
    ultimately show ?thesis using False by auto
  qed
qed

lemma merkle_loop_inject:
  assumes len: "\<And>x. length (h x) = 32" and inj: "inj_on h S" and zero: "\<forall>x\<in>S. h x \<noteq> replicate 32 0"
    and "A \<noteq> []" "B \<noteq> []" and "set A \<union> set (tree_inputs h (map h A)) \<subseteq> S" "set B \<union> set (tree_inputs h (map h B)) \<subseteq> S"
    and "\<forall>a\<in>set A \<union> set B. at_level h S k a" and "merkle_loop h (map h A) = merkle_loop h (map h B)"
  shows "A = B"
  using assms(4-)
proof (induction "length A" arbitrary: A B k rule: less_induct)
  case less
  obtain z j where z: "merkle_loop h (map h A) = [h z]" "z \<in> S" "at_level h S j z" "if length A = 1 then j = k else j > k"
    using merkle_loop_root [of A h S k] less.prems by auto
  obtain z' j' where z': "merkle_loop h (map h B) = [h z']" "z' \<in> S" "at_level h S j' z'" "if length B = 1 then j' = k else j' > k"
    using merkle_loop_root [of B h S k] less.prems by auto
  have "z = z'" using z z' less.prems(6) inj by (auto dest: inj_onD)
  then have j: "j = j'" using at_level_unique [OF len inj] z z' by blast
  show ?case
  proof (cases "length A = 1")
    case True
    then have "length B = 1" using j z(4) z'(4) by (auto split: if_splits)
    with True obtain a b where ab: "A = [a]" "B = [b]" by (auto simp: length_Suc_conv)
    then have "h a = h b" "a \<in> S" "b \<in> S" using less.prems(3,4,6) by (auto simp: merkle_loop.simps)
    then show ?thesis using inj_onD [OF inj] ab by auto
  next
    case False
    then have more: "length A > 1" "length B > 1" using j z(4) z'(4) less.prems(1,2)
      by (auto split: if_splits simp: Suc_lessI)
    define A' B' where "A' = level_inputs (map h A)" and "B' = level_inputs (map h B)"
    have "tree_inputs h (map h A) = A' @ tree_inputs h (map h A')" "tree_inputs h (map h B) = B' @ tree_inputs h (map h B')"
      using more by (subst tree_inputs.simps, simp add: A'_def B'_def merkle_level_inputs)+
    moreover have "merkle_loop h (map h A) = merkle_loop h (map h A')" "merkle_loop h (map h B) = merkle_loop h (map h B')"
      using more by (subst merkle_loop.simps, simp add: A'_def B'_def merkle_level_inputs)+
    moreover have "length A' < length A" "A' \<noteq> []" "B' \<noteq> []"
      using more by (auto simp: A'_def B'_def length_level_inputs simp flip: length_greater_0_conv)
    moreover have "\<forall>a\<in>set A' \<union> set B'. at_level h S (Suc k) a"
      using level_inputs_level [of A S h k] level_inputs_level [of B S h k] less.prems(3-5) unfolding A'_def B'_def by (simp add: ball_Un)
    ultimately have "A' = B'" using less.prems(3,4,6) by (intro less.hyps [of A' B' "Suc k"]) simp_all
    then have "map h A = map h B" unfolding A'_def B'_def
      by (rule level_inputs_inject [rotated]) (use less.prems(3,4) len zero in auto)
    then show ?thesis using inj less.prems(3,4) by (intro map_inj_on [of h A B]) (auto intro: inj_on_subset)
  qed
qed

text \<open>
  C21: the Merkle root of a block binds its transactions. When the digest has no collision among
  the inputs of the two trees and none of them is mapped to the zeros that pad an odd level, equal
  roots mean equal lists, whatever their lengths: leaves and branches are told apart.
\<close>

theorem merkle_binds:
  assumes len: "\<And>x. length (h x) = 32" and "inj_on h (set (merkle_inputs h xs) \<union> set (merkle_inputs h ys))"
    and zero: "replicate 32 0 \<notin> h ` (set (merkle_inputs h xs) \<union> set (merkle_inputs h ys))"
    and root: "merkle h xs = merkle h ys"
  shows "xs = ys"
proof -
  define S where "S = set (merkle_inputs h xs) \<union> set (merkle_inputs h ys)"
  define lf where "lf = map (\<lambda>x :: bytes. ascii ''leaf_hash'' @ x)"
  have merkle: "merkle h zs = (case merkle_loop h (map h (lf zs)) of [] \<Rightarrow> replicate 32 0 | r # _ \<Rightarrow> r)" for zs
    by (simp add: merkle_def lf_def comp_def)
  have sub: "set (lf zs) \<union> set (tree_inputs h (map h (lf zs))) \<subseteq> S" if "zs = xs \<or> zs = ys" for zs
    using that by (auto simp: S_def merkle_inputs_def lf_def Let_def)
  have lvl: "\<forall>a\<in>set (lf zs). at_level h S 0 a" for zs by (auto simp: lf_def)
  have top: "\<exists>z\<in>S. merkle_loop h (map h (lf zs)) = [h z]" if "zs = xs \<or> zs = ys" "zs \<noteq> []" for zs
    using merkle_loop_root [OF _ sub lvl, of zs] that by (auto simp: lf_def)
  have empty: "merkle_loop h (map h (lf [])) = []" by (simp add: lf_def merkle_loop.simps)
  have "lf xs = lf ys"
  proof (cases "xs = [] \<or> ys = []")
    case True
    have "merkle h [] = replicate 32 0" by (simp add: merkle empty)
    moreover have "merkle h zs \<noteq> replicate 32 0" if "zs = xs \<or> zs = ys" "zs \<noteq> []" for zs
      using top [OF that] zero by (auto simp: merkle S_def [symmetric] dest: sym)
    ultimately have "xs = [] \<and> ys = []" using root True by metis
    then show ?thesis by simp
  next
    case False
    then have loop: "merkle_loop h (map h (lf xs)) = merkle_loop h (map h (lf ys))" using root top [of xs] top [of ys] by (auto simp: merkle)
    have "\<forall>x\<in>S. h x \<noteq> replicate 32 0" using zero unfolding S_def [symmetric] by (metis imageI)
    moreover have "inj_on h S" using assms(2) by (simp add: S_def)
    moreover have "lf xs \<noteq> []" "lf ys \<noteq> []" using False by (simp_all add: lf_def)
    moreover have "\<forall>a\<in>set (lf xs) \<union> set (lf ys). at_level h S 0 a" using lvl by blast
    ultimately show ?thesis using merkle_loop_inject [OF len _ _ _ _ _ _ _ loop, where S = S and k = 0] sub by simp
  qed
  then show ?thesis unfolding lf_def by (rule map_injective) (simp add: inj_def)
qed

definition example_digest :: "bytes \<Rightarrow> bytes" where
  "example_digest bs = take 32 (1 # drop 9 bs @ replicate 32 1)"

text \<open>
  A digest that separates the inputs below, with two checksums and the length; it shows that
  repeating the last transaction of an odd list changes the root.
\<close>

definition example_checksum :: "bytes \<Rightarrow> bytes" where
  "example_checksum bs = [1, sum_list bs, fold (\<lambda>b a. 3 * a + b) bs 0, of_nat (length bs)] @ replicate 28 1"

theorem merkle_binds_witness:
  "(\<forall>x. length (example_checksum x) = 32) \<and>
   inj_on example_checksum (set (merkle_inputs example_checksum [[1], [2], [3]]) \<union> set (merkle_inputs example_checksum [[1], [2], [3], [3]])) \<and>
   replicate 32 0 \<notin> example_checksum ` (set (merkle_inputs example_checksum [[1], [2], [3]]) \<union> set (merkle_inputs example_checksum [[1], [2], [3], [3]])) \<and>
   merkle example_checksum [[1], [2], [3]] \<noteq> merkle example_checksum [[1], [2], [3], [3]] \<and>
   merkle example_checksum [[1], [2], [3]] = merkle example_checksum (rev [[3], [2], [1]]) \<and> [[1], [2], [3]] = rev [[3], [2], [1 :: u8]]"
proof -
  let ?X = "[[1], [2], [3]] :: bytes list" and ?Y = "[[1], [2], [3], [3]] :: bytes list"
  have len: "length (example_checksum x) = 32" for x by (simp add: example_checksum_def)
  have inj: "inj_on example_checksum (set (merkle_inputs example_checksum ?X) \<union> set (merkle_inputs example_checksum ?Y))" by code_simp
  have zero: "replicate 32 0 \<notin> example_checksum ` (set (merkle_inputs example_checksum ?X) \<union> set (merkle_inputs example_checksum ?Y))" by code_simp
  have "merkle example_checksum ?X \<noteq> merkle example_checksum ?Y" using merkle_binds [OF len inj zero] by auto
  moreover have "inj_on example_checksum (set (merkle_inputs example_checksum ?X) \<union> set (merkle_inputs example_checksum (rev [[3], [2], [1]])))"
    "replicate 32 0 \<notin> example_checksum ` (set (merkle_inputs example_checksum ?X) \<union> set (merkle_inputs example_checksum (rev [[3], [2], [1]])))"
    using inj zero by (auto intro: inj_on_subset)
  note merkle_binds [OF len this]
  ultimately show ?thesis using len inj zero by simp
qed

section \<open>A new block fits the limit\<close>

lemma trim_block_prefix:
  assumes "length (block_txs b) < 2 ^ 32" and "length (BlockHeader_serialize (header b)) = 64"
  shows "\<exists>k\<le>length (block_txs b). trim_block c b = Some (b\<lparr>block_txs := take k (block_txs b)\<rparr>) \<and>
    68 + length (concat (map (Transaction_serialize c) (take k (block_txs b)))) \<le> BLOCK_SIZE_LIMIT \<and>
    (k < length (block_txs b) \<longrightarrow> 68 + length (concat (map (Transaction_serialize c) (take (Suc k) (block_txs b)))) > BLOCK_SIZE_LIMIT)"
  using assms
proof (induction c b rule: trim_block.induct)
  case (1 c b)
  define size where "size k = 68 + length (concat (map (Transaction_serialize c) (take k (block_txs b))))" for k
  obtain bs where bs: "Block_serialize c b = Some bs" "length bs = size (length (block_txs b))"
    using 1(2,3) by (simp add: Block_serialize_def size_def)
  show ?case
  proof (cases "length bs > BLOCK_SIZE_LIMIT")
    case False
    then show ?thesis using bs by (intro exI [of _ "length (block_txs b)"]) (simp add: trim_block.simps [of c b] size_def)
  next
    case True
    then have ne: "block_txs b \<noteq> []" using bs by (auto simp: size_def BLOCK_SIZE_LIMIT_def)
    define b' where "b' = b\<lparr>block_txs := butlast (block_txs b)\<rparr>"
    have b': "length (block_txs b') < 2 ^ 32" "length (BlockHeader_serialize (header b')) = 64"
      using 1(2,3) by (auto simp: b'_def)
    have step: "trim_block c b = trim_block c b'" using True ne bs by (simp add: trim_block.simps [of c b] b'_def)
    obtain k where k: "k \<le> length (block_txs b')" "trim_block c b' = Some (b'\<lparr>block_txs := take k (block_txs b')\<rparr>)"
      "68 + length (concat (map (Transaction_serialize c) (take k (block_txs b')))) \<le> BLOCK_SIZE_LIMIT"
      "k < length (block_txs b') \<longrightarrow> 68 + length (concat (map (Transaction_serialize c) (take (Suc k) (block_txs b')))) > BLOCK_SIZE_LIMIT"
      using 1(1) [OF bs(1) True ne, folded b'_def, OF b'] by blast
    have take: "take i (block_txs b') = take i (block_txs b)" if "i \<le> length (block_txs b')" for i
      using that by (simp add: b'_def butlast_conv_take)
    have "k < length (block_txs b)" using k(1) ne by (simp add: b'_def) (metis Suc_pred length_greater_0_conv less_Suc_eq_le)
    moreover have "size (Suc k) > BLOCK_SIZE_LIMIT"
    proof (cases "k < length (block_txs b')")
      case True
      then show ?thesis using k(4) take [of "Suc k"] by (simp add: size_def)
    next
      case False
      then have "Suc k = length (block_txs b)" using k(1) ne by (simp add: b'_def)
      then show ?thesis using True bs by simp
    qed
    ultimately show ?thesis using k step take [of k]
      by (intro exI [of _ k]) (auto simp: size_def b'_def)
  qed
qed

text \<open>The order of a block: what was provided, then what is unsigned, then what is signed.\<close>

definition ordered_txs :: "('t, 'f, 'g) tributary \<Rightarrow> 't list \<Rightarrow> 't Transaction list \<Rightarrow> 't Transaction list" where
  "ordered_txs c prov mp = map Application prov @ filter (\<lambda>tx. \<not> is_signed (kind_of c tx)) mp @ filter (\<lambda>tx. is_signed (kind_of c tx)) mp"

text \<open>
  Creating a block ends and fits. Given provided and mempool transactions, none of the latter
  provided, with nonces in order, \<open>Block_new\<close> drops the last transactions until the block is within
  the limit and returns the longest prefix that is, its header naming the parent and the root of
  what is left; a block built so is at most \<open>BLOCK_SIZE_LIMIT\<close> bytes.
\<close>

theorem Block_new_fits:
  assumes "length (ordered_txs c prov mp) < 2 ^ 32" and "length par = 32" and "\<And>x. length (blake2s c x) = 32"
    and "list_all (\<lambda>tx. \<not> is_provided (kind_of c tx)) mp" and "sorted (map (\<lambda>tx. kind_nonce (kind_of c tx)) (ordered_txs c prov mp))"
  shows "\<exists>b k bs. Block_new c par prov mp = Some b \<and> block_txs b = take k (ordered_txs c prov mp) \<and>
    header b = \<lparr>parent = par, txs_root = merkle (blake2s c) (map (hash_of c) (block_txs b))\<rparr> \<and>
    Block_serialize c b = Some bs \<and> length bs \<le> BLOCK_SIZE_LIMIT \<and>
    (k = length (ordered_txs c prov mp) \<or>
      68 + length (concat (map (Transaction_serialize c) (take (Suc k) (ordered_txs c prov mp)))) > BLOCK_SIZE_LIMIT)"
proof -
  let ?h = "\<lparr>parent = par, txs_root = replicate 32 0\<rparr>"
  obtain k where k: "k \<le> length (ordered_txs c prov mp)"
    "trim_block c \<lparr>header = ?h, block_txs = ordered_txs c prov mp\<rparr> = Some \<lparr>header = ?h, block_txs = take k (ordered_txs c prov mp)\<rparr>"
    "68 + length (concat (map (Transaction_serialize c) (take k (ordered_txs c prov mp)))) \<le> BLOCK_SIZE_LIMIT"
    "k < length (ordered_txs c prov mp) \<longrightarrow> 68 + length (concat (map (Transaction_serialize c) (take (Suc k) (ordered_txs c prov mp)))) > BLOCK_SIZE_LIMIT"
    using trim_block_prefix [of "\<lparr>header = ?h, block_txs = ordered_txs c prov mp\<rparr>" c] assms(1,2) by (auto simp: BlockHeader_serialize_def)
  have root: "length (merkle (blake2s c) xs) = 32" for xs by (rule length_merkle) (rule assms(3))
  show ?thesis
    using k assms root by (auto simp: Block_new_def Let_def list_all_iff list_ex_iff ordered_txs_def Block_serialize_def BlockHeader_serialize_def)
qed

text \<open>An application of one-byte transactions: two signed ones of the same nonce, two provided ones, else unsigned ones.\<close>

definition example_signed :: "(u64, u64) Signed" where
  "example_signed = \<lparr>signer = 15, nonce = 0, signature = SchnorrSignature_sign example_suite 5 2 7\<rparr>"

definition example_tributary :: "(u8, u64, u64) tributary" where
  "example_tributary = \<lparr>suite = example_suite, trib_genesis = replicate 32 9, blake2s = example_digest, blake2b_to_F = \<lambda>_. 7,
     app_kind = \<lambda>t. if t < 2 then Signed [0] example_signed else if t < 4 then Provided [1] else Unsigned,
     app_hash = \<lambda>t. replicate 31 0 @ [t], app_verify = \<lambda>_. None, app_serialize = \<lambda>t. [t],
     app_read = \<lambda>bs. case bs of [] \<Rightarrow> None | t # rest \<Rightarrow> Some (t, rest), decode_evidence = \<lambda>_. None,
     clock_instant = 0, clock_sys = 0, decode_commit = \<lambda>_. None\<rparr>"

theorem Block_new_fits_witness:
  "\<exists>b k bs. Block_new example_tributary (replicate 32 9) [2, 3] [Application 0, Application 4] = Some b \<and>
    block_txs b = take k (ordered_txs example_tributary [2, 3] [Application 0, Application 4]) \<and>
    Block_serialize example_tributary b = Some bs \<and> length bs \<le> BLOCK_SIZE_LIMIT"
proof -
  have "length (ordered_txs example_tributary [2, 3] [Application 0, Application 4]) < 2 ^ 32"
    "sorted (map (\<lambda>tx. kind_nonce (kind_of example_tributary tx)) (ordered_txs example_tributary [2, 3] [Application 0, Application 4]))"
    "list_all (\<lambda>tx. \<not> is_provided (kind_of example_tributary tx)) [Application 0, Application 4]"
    "\<And>x. length (blake2s example_tributary x) = 32"
    by (simp_all add: example_tributary_def ordered_txs_def example_digest_def example_signed_def)
  then show ?thesis using Block_new_fits [of example_tributary "[2, 3]" "[Application 0, Application 4]" "replicate 32 9"]
    by (simp del: Transaction_serialize.simps) blast
qed

end
