(* ===== verification/Tributary_Props.thy ===== *)
theory Tributary_Props
  imports Tributary_Chain Tributary_Blocks
begin

text \<open>
  Properties of a Tributary's chain over every sequence of its operations: nonces, inclusion, the
  links between blocks and what a restart finds.
\<close>

section \<open>The keys of the database\<close>

lemma lit_key_inject:
  assumes "length a < 256" "length b < 256" "length a' < 256" "length b' < 256"
  shows "lit_key a b k = lit_key a' b' k' \<longleftrightarrow> a = a' \<and> b = b' \<and> k = k'"
proof -
  have "unat (of_nat m :: u8) = m" if "m < 256" for m :: nat using that by (simp add: unat_of_nat)
  then have len: "(of_nat m :: u8) = of_nat n \<longleftrightarrow> m = n" if "m < 256" "n < 256" for m n :: nat using that by metis
  show ?thesis using assms by (auto simp: lit_key_def len)
qed

lemma chain_key_inject:
  "length i < 256 \<Longrightarrow> length j < 256 \<Longrightarrow> chain_key i k = chain_key j k' \<longleftrightarrow> ascii i = ascii j \<and> k = k'"
  by (simp add: chain_key_def lit_key_inject ascii_def)

lemma provided_keys_neq [simp]:
  "chain_key i k \<noteq> provided_transaction_key g h" "chain_key i k \<noteq> current_provided_key g"
  "chain_key i k \<noteq> locally_provided_quantity_key g order" "chain_key i k \<noteq> on_chain_provided_quantity_key g order"
  "chain_key i k \<noteq> block_provided_quantity_key g blk order" "chain_key i k \<noteq> on_chain_provided_key g order n"
  by (simp_all add: chain_key_def lit_key_def ascii_def provided_transaction_key_def current_provided_key_def
      locally_provided_quantity_key_def on_chain_provided_quantity_key_def block_provided_quantity_key_def on_chain_provided_key_def)

lemma mempool_keys_neq [simp]:
  "chain_key i k \<noteq> mempool_transaction_key g h" "chain_key i k \<noteq> current_mempool_key g"
  by (simp_all add: chain_key_def lit_key_def ascii_def mempool_transaction_key_def current_mempool_key_def)

lemmas chain_keys = tip_key_def block_number_key_def block_key_def block_hash_key_def commit_key_def block_after_key_def
  unsigned_included_key_def provided_included_key_def next_nonce_key_def

lemma next_nonce_key_inject:
  assumes "encoding_laws (suite c)"
  shows "next_nonce_key c s order = next_nonce_key c s' order' \<longleftrightarrow> s = s' \<and> order = order'"
proof -
  have len: "length (point_to_bytes (suite c) x) = point_len (suite c)" and decode: "point_from_bytes (suite c) (point_to_bytes (suite c) x) = Some x" for x
    using assms by (auto simp: encoding_laws_def)
  have "point_to_bytes (suite c) s = point_to_bytes (suite c) s' \<longleftrightarrow> s = s'" using decode by (metis option.inject)
  then show ?thesis by (simp add: next_nonce_key_def chain_key_inject ascii_def len)
qed

lemma included_key_inject [simp]:
  "unsigned_included_key g h = unsigned_included_key g h' \<longleftrightarrow> h = h'" "provided_included_key g h = provided_included_key g h' \<longleftrightarrow> h = h'"
  by (simp_all add: chain_keys chain_key_inject)

lemma chain_keys_neq [simp]:
  "next_nonce_key c s order \<noteq> unsigned_included_key g h" "next_nonce_key c s order \<noteq> provided_included_key g h"
  "unsigned_included_key g h \<noteq> next_nonce_key c s order" "provided_included_key g h \<noteq> next_nonce_key c s order"
  "unsigned_included_key g h \<noteq> provided_included_key g h'" "provided_included_key g h \<noteq> unsigned_included_key g h'"
  by (simp_all add: chain_keys chain_key_inject ascii_def)

section \<open>What the operations leave of the chain's keys\<close>

lemma mempool_remove_chain: "mempool_remove c h d mp = Some (d', mp') \<Longrightarrow> d' (chain_key i k) = d (chain_key i k)"
  by (auto simp: mempool_remove_def Let_def split: Option.bind_splits option.splits TransactionKind.splits if_splits)

lemma mempool_add_chain: "mempool_add c N f internal tx u cm d mp = Some (d', mp', r) \<Longrightarrow> d' (chain_key i k) = d (chain_key i k)"
  by (auto simp: mempool_add_def Let_def save_tx_def
      split: Option.bind_splits option.splits TransactionKind.splits Transaction.splits if_splits sum.splits)

lemma provide_chain: "provide c tx d prov = Some (d', prov', r) \<Longrightarrow> d' (chain_key i k) = d (chain_key i k)"
  by (auto simp: provide_def Let_def map_add_def split: Option.bind_splits option.splits TransactionKind.splits if_splits sum.splits)

lemma complete_chain: "complete c order blk h d txn prov = Some (txn', prov') \<Longrightarrow> txn' (chain_key i k) = txn (chain_key i k)"
  by (auto simp: complete_def Let_def split: Option.bind_splits option.splits list.splits if_splits)

section \<open>The transactions of a chain\<close>

definition tx_nonce :: "('t, 'f, 'g) tributary \<Rightarrow> 'g \<Rightarrow> bytes \<Rightarrow> 't Transaction \<Rightarrow> u32 option" where
  "tx_nonce c s order tx = (case kind_of c tx of Signed o' sg \<Rightarrow> if o' = order \<and> signer sg = s then Some (nonce sg) else None | _ \<Rightarrow> None)"

definition nonces :: "('t, 'f, 'g) tributary \<Rightarrow> 'g \<Rightarrow> bytes \<Rightarrow> 't Transaction list \<Rightarrow> u32 list" where
  "nonces c s order txs = List.map_filter (tx_nonce c s order) txs"

definition unsigned_hashes :: "('t, 'f, 'g) tributary \<Rightarrow> 't Transaction list \<Rightarrow> bytes list" where
  "unsigned_hashes c txs = map (hash_of c) (filter (\<lambda>tx. order_index (kind_of c tx) = 1) txs)"

definition provided_hashes :: "('t, 'f, 'g) tributary \<Rightarrow> 't Transaction list \<Rightarrow> bytes list" where
  "provided_hashes c txs = map (hash_of c) (filter (\<lambda>tx. is_provided (kind_of c tx)) txs)"

definition signed_ok :: "('t, 'f::comm_ring_1, 'g::ab_group_add) tributary \<Rightarrow> 'g list \<Rightarrow> 't Transaction \<Rightarrow> bool" where
  "signed_ok c parts tx = (case tx of
       Tendermint _ \<Rightarrow> True
     | Application t \<Rightarrow> (case app_kind c t of
           Signed _ sg \<Rightarrow> signer sg \<in> set parts \<and> Option.bind (sig_hash c t) (SchnorrSignature_verify (suite c) (signature sg) (signer sg)) = Some True
         | _ \<Rightarrow> True))"

lemma nonces_simps [simp]:
  "nonces c s order [] = []"
  "nonces c s order (tx # txs) = (case tx_nonce c s order tx of None \<Rightarrow> nonces c s order txs | Some n \<Rightarrow> n # nonces c s order txs)"
  "nonces c s order (txs @ txs') = nonces c s order txs @ nonces c s order txs'"
  by (simp_all add: nonces_def List.map_filter_def split: option.split)

lemma hashes_simps [simp]:
  "unsigned_hashes c [] = []" "provided_hashes c [] = []"
  "unsigned_hashes c (tx # txs) = (if order_index (kind_of c tx) = 1 then hash_of c tx # unsigned_hashes c txs else unsigned_hashes c txs)"
  "provided_hashes c (tx # txs) = (if is_provided (kind_of c tx) then hash_of c tx # provided_hashes c txs else provided_hashes c txs)"
  "unsigned_hashes c (txs @ txs') = unsigned_hashes c txs @ unsigned_hashes c txs'"
  "provided_hashes c (txs @ txs') = provided_hashes c txs @ provided_hashes c txs'"
  by (simp_all add: unsigned_hashes_def provided_hashes_def)

lemma read_u32_put: "read_u32 (txn_get d (txn(k \<mapsto> to_le_bytes n)) k') = (if k' = k then Some n else read_u32 (txn_get d txn k'))"
  by (simp add: txn_get_def read_u32_def from_to_le_bytes)

lemma verify_transaction_ok:
  assumes "verify_transaction c t (take_nonce c bc) txn = Some (txn', Inr ())"
  shows "signed_ok c (participants bc) (Application t)"
    and "case app_kind c t of
        Signed order s \<Rightarrow> read_u32 (txn_get (bc_db bc) txn (next_nonce_key c (signer s) order)) = Some (nonce s) \<and>
          txn' = txn(next_nonce_key c (signer s) order \<mapsto> to_le_bytes (nonce s + 1))
      | _ \<Rightarrow> txn' = txn"
  using assms by (auto simp: verify_transaction_def take_nonce_def signed_ok_def
      split: Option.bind_splits if_splits option.splits TransactionKind.splits)

lemma count_up: "map (\<lambda>i. n + of_nat i) [0..<Suc k] = (n :: u32) # map (\<lambda>i. n + 1 + of_nat i) [0..<k]"
proof -
  have "[0..<Suc k] = 0 # map Suc [0..<k]" by (simp add: upt_conv_Cons map_Suc_upt del: upt_Suc)
  then show ?thesis by (simp add: add.assoc del: upt_Suc)
qed

lemma verify_txs_signed:
  assumes "encoding_laws (suite c)" and "verify_txs c N cm ic al (take_nonce c bc) txs lo inc loc txn = Some (Inr ())"
  shows "list_all (signed_ok c (participants bc)) txs"
    and "read_u32 (txn_get (bc_db bc) txn (next_nonce_key c s order)) = Some n \<Longrightarrow>
      nonces c s order txs = map (\<lambda>i. n + of_nat i) [0..<length (nonces c s order txs)]"
proof -
  have "list_all (signed_ok c (participants bc)) txs \<and> (\<forall>n. read_u32 (txn_get (bc_db bc) txn (next_nonce_key c s order)) = Some n \<longrightarrow>
      nonces c s order txs = map (\<lambda>i. n + of_nat i) [0..<length (nonces c s order txs)])"
    using assms(2)
  proof (induction txs arbitrary: lo inc loc txn)
    case (Cons tx txs)
    show ?case
    proof (cases tx)
      case (Tendermint t)
      with Cons.prems obtain lo' inc' where "verify_txs c N cm ic al (take_nonce c bc) txs lo' inc' loc txn = Some (Inr ())"
        by (auto split: Option.bind_splits sum.splits if_splits)
      from Cons.IH [OF this] Tendermint show ?thesis by (simp add: signed_ok_def [of c _ "Tendermint t"] tx_nonce_def)
    next
      case (Application t)
      with Cons.prems obtain txn' lo' inc' loc' where v: "verify_transaction c t (take_nonce c bc) txn = Some (txn', Inr ())"
        "verify_txs c N cm ic al (take_nonce c bc) txs lo' inc' loc' txn' = Some (Inr ())"
        by (auto split: Option.bind_splits sum.splits if_splits)
      note ih = Cons.IH [OF v(2)] and ok = verify_transaction_ok [OF v(1)]
      show ?thesis
      proof (cases "tx_nonce c s order tx")
        case None
        then have "read_u32 (txn_get (bc_db bc) txn' (next_nonce_key c s order)) = read_u32 (txn_get (bc_db bc) txn (next_nonce_key c s order))"
          using ok(2) Application by (auto simp: tx_nonce_def read_u32_put next_nonce_key_inject [OF assms(1)] split: Option.bind_splits TransactionKind.splits if_splits)
        with ih ok(1) None Application show ?thesis by simp
      next
        case (Some m)
        then have "read_u32 (txn_get (bc_db bc) txn (next_nonce_key c s order)) = Some m"
          "read_u32 (txn_get (bc_db bc) txn' (next_nonce_key c s order)) = Some (m + 1)"
          using ok(2) Application by (auto simp: tx_nonce_def read_u32_put split: Option.bind_splits TransactionKind.splits if_splits)
        moreover from this ih have "nonces c s order txs = map (\<lambda>i. m + 1 + of_nat i) [0..<length (nonces c s order txs)]" by blast
        ultimately show ?thesis using ih ok(1) Some Application count_up [of m "length (nonces c s order txs)"] by simp
      qed
    qed
  qed simp
  then show "list_all (signed_ok c (participants bc)) txs" and "read_u32 (txn_get (bc_db bc) txn (next_nonce_key c s order)) = Some n \<Longrightarrow>
      nonces c s order txs = map (\<lambda>i. n + of_nat i) [0..<length (nonces c s order txs)]" by auto
qed

lemma verify_txs_fresh:
  assumes "verify_txs c N cm ic al gain txs lo inc loc st = Some (Inr ())"
  shows "distinct (unsigned_hashes c txs) \<and> set (unsigned_hashes c txs) \<inter> set inc = {} \<and>
    (\<forall>h\<in>set (unsigned_hashes c txs) \<union> set (provided_hashes c txs). \<not> ic h)"
  using assms
proof (induction txs arbitrary: lo inc loc st)
  case (Cons tx txs)
  from Cons.prems obtain lo' inc' loc' st' where v: "verify_txs c N cm ic al gain txs lo' inc' loc' st' = Some (Inr ())"
    and k: "case kind_of c tx of Provided _ \<Rightarrow> \<not> ic (hash_of c tx) \<and> inc' = inc
      | Unsigned \<Rightarrow> \<not> ic (hash_of c tx) \<and> hash_of c tx \<notin> set inc \<and> set inc' = insert (hash_of c tx) (set inc)
      | Signed _ _ \<Rightarrow> inc' = inc"
    by (cases "kind_of c tx") (auto simp: check_provided_def split: Option.bind_splits sum.splits if_splits Transaction.splits option.splits list.splits)
  show ?case using Cons.IH [OF v] k by (cases "kind_of c tx") auto
qed simp

lemma include_txs_chain:
  assumes laws: "encoding_laws (suite c)" and "include_txs c blk txs d txn prov mp = Some (d', txn', prov', mp')"
  shows "d' (chain_key i k) = d (chain_key i k)"
    and "txn' (next_nonce_key c s order) =
      (if nonces c s order txs = [] then txn (next_nonce_key c s order) else Some (to_le_bytes (last (nonces c s order txs) + 1)))"
    and "txn' (unsigned_included_key (trib_genesis c) h) =
      (if h \<in> set (unsigned_hashes c txs) then Some [] else txn (unsigned_included_key (trib_genesis c) h))"
    and "txn' (provided_included_key (trib_genesis c) h) =
      (if h \<in> set (provided_hashes c txs) then Some [] else txn (provided_included_key (trib_genesis c) h))"
    and "length i < 256 \<Longrightarrow> ascii i \<notin> ascii ` {''next_nonce'', ''unsigned_included'', ''provided_included''} \<Longrightarrow> txn' (chain_key i k) = txn (chain_key i k)"
  using assms(2)
proof (induction txs arbitrary: d txn prov mp)
  case (Cons tx txs)
  {
    case 1
    then show ?case using Cons.IH(1) by (auto simp: Let_def dest!: mempool_remove_chain split: Option.bind_splits TransactionKind.splits)
  next
    case 2
    have f: "txn1 (next_nonce_key c s order) = txn (next_nonce_key c s order)" if "complete c o1 blk h1 d txn prov = Some (txn1, prov1)" for o1 h1 txn1 prov1
      using complete_chain [OF that] by (simp add: next_nonce_key_def)
    show ?case using 2 Cons.IH(2)
      by (auto simp: Let_def tx_nonce_def next_nonce_key_inject [OF laws] f split: Option.bind_splits TransactionKind.splits)
  next
    case 3
    have f: "txn1 (unsigned_included_key (trib_genesis c) h) = txn (unsigned_included_key (trib_genesis c) h)" if "complete c o1 blk h1 d txn prov = Some (txn1, prov1)" for o1 h1 txn1 prov1
      using complete_chain [OF that] by (simp add: unsigned_included_key_def)
    show ?case using 3 Cons.IH(3) by (auto simp: Let_def f split: Option.bind_splits TransactionKind.splits)
  next
    case 4
    have f: "txn1 (provided_included_key (trib_genesis c) h) = txn (provided_included_key (trib_genesis c) h)" if "complete c o1 blk h1 d txn prov = Some (txn1, prov1)" for o1 h1 txn1 prov1
      using complete_chain [OF that] by (simp add: provided_included_key_def)
    show ?case using 4 Cons.IH(4) by (auto simp: Let_def f split: Option.bind_splits TransactionKind.splits)
  next
    case 5
    have neq: "chain_key i k \<noteq> next_nonce_key c s o1" "chain_key i k \<noteq> unsigned_included_key g h1" "chain_key i k \<noteq> provided_included_key g h1" for s o1 g h1
      using 5(1,2) by (auto simp: chain_keys chain_key_inject)
    show ?case using 5 Cons.IH(5) by (auto simp: Let_def neq dest!: complete_chain split: Option.bind_splits TransactionKind.splits)
  }
qed simp_all

section \<open>Every history of a chain\<close>

text \<open>
  The states a chain reaches from an empty database, with the blocks it added: transactions and
  provided transactions arrive, blocks are added, refused, and the process restarts.
\<close>

inductive chain_reach :: "('t, 'f::comm_ring_1, 'g::ab_group_add) tributary \<Rightarrow> trib_network \<Rightarrow> 'g list \<Rightarrow> ('t, 'g) Blockchain \<Rightarrow> 't Block list \<Rightarrow> bool"
  for c :: "('t, 'f, 'g) tributary" and N :: trib_network and parts :: "'g list" where
  start: "blockchain_new c Map.empty parts = Some bc \<Longrightarrow> chain_reach c N parts bc []"
| transaction: "chain_reach c N parts bc bs \<Longrightarrow> add_transaction c N internal tx bc = Some (bc', r) \<Longrightarrow> chain_reach c N parts bc' bs"
| provide: "chain_reach c N parts bc bs \<Longrightarrow> provide_transaction c t bc = Some (bc', r') \<Longrightarrow> chain_reach c N parts bc' bs"
| block: "chain_reach c N parts bc bs \<Longrightarrow> add_block c N b commit bc = Some (bc', Inr ()) \<Longrightarrow> chain_reach c N parts bc' (bs @ [b])"
| refused: "chain_reach c N parts bc bs \<Longrightarrow> add_block c N b commit bc = Some (bc', Inl e) \<Longrightarrow> chain_reach c N parts bc' bs"
| restart: "chain_reach c N parts bc bs \<Longrightarrow> blockchain_new c (bc_db bc) parts = Some bc' \<Longrightarrow> chain_reach c N parts bc' bs"

definition chain_txs :: "'t Block list \<Rightarrow> 't Transaction list" where
  "chain_txs bs = concat (map block_txs bs)"

fun linked :: "('t, 'f, 'g) tributary \<Rightarrow> bytes \<Rightarrow> 't Block list \<Rightarrow> bool" where
  "linked c prior [] = True"
| "linked c prior (b # bs) = (parent (header b) = prior \<and> linked c (block_hash c b) bs)"

definition last_hash :: "('t, 'f, 'g) tributary \<Rightarrow> 't Block list \<Rightarrow> bytes" where
  "last_hash c bs = (if bs = [] then trib_genesis c else block_hash c (last bs))"

lemma linked_append: "linked c prior (bs @ [b]) \<longleftrightarrow> linked c prior bs \<and> parent (header b) = (if bs = [] then prior else block_hash c (last bs))"
  by (induction bs arbitrary: prior) auto

definition chain_inv :: "('t, 'f::comm_ring_1, 'g::ab_group_add) tributary \<Rightarrow> 'g list \<Rightarrow> ('t, 'g) Blockchain \<Rightarrow> 't Block list \<Rightarrow> bool" where
  "chain_inv c parts bc bs \<longleftrightarrow>
     set (participants bc) = set parts \<and> block_number bc = of_nat (length bs) \<and> tip bc = last_hash c bs \<and> linked c (trib_genesis c) bs \<and>
     (\<forall>s order. nonces c s order (chain_txs bs) = map of_nat [0..<length (nonces c s order (chain_txs bs))] \<and>
       read_u32 (bc_db bc (next_nonce_key c s order)) = Some (of_nat (length (nonces c s order (chain_txs bs))))) \<and>
     distinct (unsigned_hashes c (chain_txs bs)) \<and>
     (\<forall>h. bc_db bc (unsigned_included_key (trib_genesis c) h) \<noteq> None \<longleftrightarrow> h \<in> set (unsigned_hashes c (chain_txs bs))) \<and>
     (\<forall>h. bc_db bc (provided_included_key (trib_genesis c) h) \<noteq> None \<longleftrightarrow> h \<in> set (provided_hashes c (chain_txs bs))) \<and>
     sorted_wrt (\<lambda>a b. set (provided_hashes c (block_txs a)) \<inter> set (provided_hashes c (block_txs b)) = {}) bs \<and>
     list_all (signed_ok c parts) (chain_txs bs) \<and>
     bc_db bc (block_number_key (trib_genesis c)) = (if bs = [] then None else Some (to_le_bytes (of_nat (length bs) :: u64))) \<and>
     bc_db bc (tip_key (trib_genesis c)) = (if bs = [] then None else Some (last_hash c bs))"

lemma chain_inv_frame:
  assumes "chain_inv c parts bc bs" and "\<And>i k. d (chain_key i k) = bc_db bc (chain_key i k)"
  shows "chain_inv c parts (bc\<lparr>bc_db := d, provided := prov, mempool := mp\<rparr>) bs"
  using assms(1) unfolding chain_inv_def chain_keys by (simp add: assms(2))

lemma chain_inv_new:
  assumes "blockchain_new c d parts = Some bc'" and "chain_inv c parts (bc'\<lparr>bc_db := d, block_number := n, tip := t\<rparr>) bs"
  shows "chain_inv c parts bc' bs"
proof -
  have "block_number bc' = of_nat (length bs) \<and> tip bc' = last_hash c bs \<and> bc_db bc' = d"
    using assms by (auto simp: blockchain_new_def chain_inv_def Let_def last_hash_def from_to_le_bytes split: Option.bind_splits option.splits if_splits)
  then have "bc'\<lparr>bc_db := d, block_number := n, tip := t\<rparr> = bc'\<lparr>block_number := n, tip := t\<rparr>" by simp
  then show ?thesis using assms(2) \<open>block_number bc' = _ \<and> _\<close> by (simp add: chain_inv_def)
qed

lemma map_add_get: "read_u32 ((d ++ txn) k) = read_u32 (txn_get d txn k)"
  by (simp add: map_add_def txn_get_def)

lemma count_on: "map (\<lambda>i. of_nat l + of_nat i) [0..<m] = map (of_nat :: nat \<Rightarrow> u32) [l..<l + m]"
  by (simp add: list_eq_iff_nth_eq)

lemma next_nonces:
  assumes "nonces c s order txs = map of_nat [0..<length (nonces c s order txs)]" and "read_u32 (d k) = Some (of_nat (length (nonces c s order txs)))"
    and "nonces c s order txs' = map (\<lambda>i. of_nat (length (nonces c s order txs)) + of_nat i) [0..<length (nonces c s order txs')]"
    and "d' k = (if nonces c s order txs' = [] then d k else Some (to_le_bytes (last (nonces c s order txs') + 1)))" and "all = txs @ txs'"
  shows "nonces c s order all = map of_nat [0..<length (nonces c s order all)] \<and> read_u32 (d' k) = Some (of_nat (length (nonces c s order all)))"
proof -
  let ?l = "length (nonces c s order txs)" and ?m = "length (nonces c s order txs')"
  have new: "nonces c s order txs' = map of_nat [?l..<?l + ?m]" by (rule trans [OF assms(3) count_on])
  have "nonces c s order all = nonces c s order txs @ nonces c s order txs'" by (simp add: assms(5))
  also have "\<dots> = map of_nat [0..<?l] @ map of_nat [?l..<?l + ?m]" by (rule arg_cong2 [where f = "(@)", OF assms(1) new])
  finally have "nonces c s order all = map of_nat [0..<?l + ?m]" by (simp only: upt_add_eq_append [OF le0] map_append)
  moreover have "read_u32 (d' k) = Some (of_nat (?l + ?m))"
  proof (cases "nonces c s order txs'" rule: rev_cases)
    case (snoc xs x)
    then have "?m \<noteq> 0" by simp
    then have "last (map of_nat [?l..<?l + ?m] :: u32 list) = of_nat (?l + ?m - 1)" by (simp add: last_map)
    then have "last (nonces c s order txs') = of_nat (?l + ?m - 1)" using arg_cong [OF new, of last] by (rule trans [rotated])
    then show ?thesis using assms(4) snoc by (simp add: read_u32_def from_to_le_bytes)
  qed (use assms(2,4) in simp)
  ultimately show ?thesis using assms(5) by simp
qed

lemma signed_ok_cong: "set parts = set parts' \<Longrightarrow> signed_ok c parts tx = signed_ok c parts' tx"
  by (simp add: signed_ok_def cong: Transaction.case_cong TransactionKind.case_cong)

lemma chain_inv_block:
  assumes laws: "encoding_laws (suite c)" and inv: "chain_inv c parts bc bs" and add: "add_block c N b commit bc = Some (bc', Inr ())"
  shows "chain_inv c parts bc' (bs @ [b])"
proof -
  let ?gen = "trib_genesis c" and ?h = "block_hash c b" and ?n = "block_number bc + 1"
  define txn where "txn bs = [tip_key ?gen \<mapsto> ?h, block_number_key ?gen \<mapsto> to_le_bytes ?n, block_hash_key ?gen ?n \<mapsto> ?h, block_key ?gen ?h \<mapsto> bs,
                 commit_key ?gen ?h \<mapsto> commit, block_after_key ?gen (parent (header b)) \<mapsto> ?h]" for bs
  obtain ser d txn' prov mp where v: "verify_block c N b True bc = Some (Inr ())"
    and inc: "include_txs c ?h (block_txs b) (bc_db bc) (txn ser) (provided bc) (mempool bc) = Some (d, txn', prov, mp)"
    and bc': "bc' = bc\<lparr>bc_db := d ++ txn', tip := ?h, block_number := ?n, provided := prov, mempool := mp\<rparr>"
    using add by (auto simp: add_block_def Let_def txn_def split: Option.bind_splits sum.splits)
  note chain = include_txs_chain [OF laws inc]
  have txn: "txn ser (next_nonce_key c s order) = None" "txn ser (unsigned_included_key ?gen h) = None" "txn ser (provided_included_key ?gen h) = None" for s order h
    by (simp_all add: txn_def chain_keys chain_key_inject ascii_def)
  obtain loc where ver: "parent (header b) = tip bc"
    "verify_txs c N (chain_commits c (bc_db bc)) (\<lambda>h. bc_db bc (unsigned_included_key ?gen h) \<noteq> None \<or> bc_db bc (provided_included_key ?gen h) \<noteq> None) True
       (take_nonce c bc) (block_txs b) 0 [] loc Map.empty = Some (Inr ())"
    using v by (auto simp: verify_block_def Block_verify_def split: Option.bind_splits if_splits sum.splits)
  note fresh = verify_txs_fresh [OF ver(2)]
  have d: "(d ++ txn') (chain_key i k) = (case txn' (chain_key i k) of None \<Rightarrow> bc_db bc (chain_key i k) | Some v \<Rightarrow> Some v)" for i k
    using chain(1) by (simp add: map_add_def split: option.split)
  have old: "set (participants bc) = set parts" "\<And>h. bc_db bc (unsigned_included_key ?gen h) \<noteq> None \<longleftrightarrow> h \<in> set (unsigned_hashes c (chain_txs bs))"
    "\<And>h. bc_db bc (provided_included_key ?gen h) \<noteq> None \<longleftrightarrow> h \<in> set (provided_hashes c (chain_txs bs))"
    "block_number bc = of_nat (length bs)"
    using inv by (simp_all only: chain_inv_def simp_thms)
  have all: "chain_txs (bs @ [b]) = chain_txs bs @ block_txs b" by (simp add: chain_txs_def)
  have "nonces c s order (chain_txs (bs @ [b])) = map of_nat [0..<length (nonces c s order (chain_txs (bs @ [b])))] \<and>
      read_u32 ((d ++ txn') (next_nonce_key c s order)) = Some (of_nat (length (nonces c s order (chain_txs (bs @ [b])))))" for s order
  proof (rule next_nonces)
    show "nonces c s order (chain_txs bs) = map of_nat [0..<length (nonces c s order (chain_txs bs))]"
      "read_u32 (bc_db bc (next_nonce_key c s order)) = Some (of_nat (length (nonces c s order (chain_txs bs))))"
      using inv by (auto simp: chain_inv_def)
    then show "nonces c s order (block_txs b) = map (\<lambda>i. of_nat (length (nonces c s order (chain_txs bs))) + of_nat i) [0..<length (nonces c s order (block_txs b))]"
      by (intro verify_txs_signed(2) [OF laws ver(2)]) (simp add: txn_get_def)
    show "(d ++ txn') (next_nonce_key c s order) = (if nonces c s order (block_txs b) = [] then bc_db bc (next_nonce_key c s order)
        else Some (to_le_bytes (last (nonces c s order (block_txs b)) + 1)))"
      using d [of "''next_nonce''"] chain(2) txn(1) by (simp add: next_nonce_key_def)
  qed (simp add: all)
  moreover have "(d ++ txn') (unsigned_included_key ?gen h) = (if h \<in> set (unsigned_hashes c (block_txs b)) then Some [] else bc_db bc (unsigned_included_key ?gen h))" for h
    using d [of "''unsigned_included''"] chain(3) txn(2) by (simp add: unsigned_included_key_def)
  moreover have "(d ++ txn') (provided_included_key ?gen h) = (if h \<in> set (provided_hashes c (block_txs b)) then Some [] else bc_db bc (provided_included_key ?gen h))" for h
    using d [of "''provided_included''"] chain(4) txn(3) by (simp add: provided_included_key_def)
  moreover have "(d ++ txn') (tip_key ?gen) = Some ?h" "(d ++ txn') (block_number_key ?gen) = Some (to_le_bytes (1 + of_nat (length bs) :: u64))"
    using d chain(5) by (simp_all add: txn_def chain_keys chain_key_inject ascii_def old(4) add.commute [of "1 :: u64"])
  moreover have "list_all (signed_ok c parts) (block_txs b)"
    using verify_txs_signed(1) [OF laws ver(2)] signed_ok_cong [OF old(1), of c, abs_def] by simp
  moreover have "set (provided_hashes c (block_txs a)) \<inter> set (provided_hashes c (block_txs b)) = {}" if "a \<in> set bs" for a
  proof -
    have "set (provided_hashes c (block_txs a)) \<subseteq> set (provided_hashes c (chain_txs bs))" using that by (auto simp: provided_hashes_def chain_txs_def)
    then show ?thesis using fresh old(3) by blast
  qed
  moreover have "set (unsigned_hashes c (chain_txs bs)) \<inter> set (unsigned_hashes c (block_txs b)) = {}" using fresh old(2) by blast
  ultimately show ?thesis
    using inv fresh ver(1) by (simp add: chain_inv_def bc' all linked_append sorted_wrt_append last_hash_def)
qed

lemma chain_reach_inv:
  assumes "chain_reach c N parts bc bs" and laws: "encoding_laws (suite c)"
  shows "chain_inv c parts bc bs"
  using assms(1)
proof induction
  case (start bc)
  then have bc: "bc_db bc = Map.empty" "set (participants bc) = set parts" "block_number bc = 0" "tip bc = trib_genesis c"
    by (auto simp: blockchain_new_def Let_def split: Option.bind_splits)
  then show ?case by (simp add: chain_inv_def chain_txs_def last_hash_def read_u32_def)
next
  case (transaction bc bs internal tx bc' r)
  then obtain d mp where "bc' = bc\<lparr>bc_db := d, provided := provided bc, mempool := mp\<rparr>" "\<And>i k. d (chain_key i k) = bc_db bc (chain_key i k)"
    by (auto simp: add_transaction_def dest: mempool_add_chain split: Option.bind_splits)
  then show ?case by (simp only: chain_inv_frame [OF transaction.IH])
next
  case (provide bc bs t bc' r')
  then obtain d prov where "bc' = bc\<lparr>bc_db := d, provided := prov, mempool := mempool bc\<rparr>" "\<And>i k. d (chain_key i k) = bc_db bc (chain_key i k)"
    by (auto simp: provide_transaction_def dest: provide_chain split: Option.bind_splits)
  then show ?case by (simp only: chain_inv_frame [OF provide.IH])
next
  case (block bc bs b commit bc')
  then show ?case using chain_inv_block [OF laws] by blast
next
  case (refused bc bs b commit bc' e)
  then have "bc' = bc" by (auto simp: add_block_def Let_def split: Option.bind_splits sum.splits)
  with refused show ?case by simp
next
  case (restart bc bs bc')
  then have "set (participants bc') = set parts" by (auto simp: blockchain_new_def Let_def split: Option.bind_splits option.splits if_splits)
  then have "chain_inv c parts (bc'\<lparr>bc_db := bc_db bc, block_number := block_number bc, tip := tip bc\<rparr>) bs"
    using restart.IH by (simp add: chain_inv_def)
  then show ?case by (rule chain_inv_new [OF restart.hyps(2)])
qed

text \<open>
  C4: what a Tributary's chain holds, over every sequence of transactions, provided transactions,
  blocks and restarts from an empty database. The blocks are linked from the genesis to the tip and
  counted; for every signer and order the nonces of the signed transactions are \<open>0, 1, 2, \<dots>\<close>, and the
  next one is what the database holds; every signed transaction is by a participant and carries a
  signature that verifies; no unsigned transaction is included twice, and no provided one in two blocks.
\<close>

theorem tributary_chain:
  assumes "encoding_laws (suite c)" and "chain_reach c N parts bc bs"
  shows "linked c (trib_genesis c) bs \<and> tip bc = last_hash c bs \<and> block_number bc = of_nat (length bs) \<and>
    (\<forall>s order. nonces c s order (chain_txs bs) = map of_nat [0..<length (nonces c s order (chain_txs bs))] \<and>
       read_u32 (bc_db bc (next_nonce_key c s order)) = Some (of_nat (length (nonces c s order (chain_txs bs))))) \<and>
    list_all (signed_ok c parts) (chain_txs bs) \<and>
    distinct (unsigned_hashes c (chain_txs bs)) \<and>
    sorted_wrt (\<lambda>a b. set (provided_hashes c (block_txs a)) \<inter> set (provided_hashes c (block_txs b)) = {}) bs"
  using chain_reach_inv [OF assms(2,1)] by (simp add: chain_inv_def)

definition example_block :: "u8 list \<Rightarrow> u8 Block" where
  "example_block ts = \<lparr>header = \<lparr>parent = replicate 32 9, txs_root = merkle example_digest (map (\<lambda>t. replicate 31 0 @ [t]) ts)\<rparr>,
     block_txs = map Application ts\<rparr>"

definition example_chain :: "(u8, u64) Blockchain" where
  "example_chain = \<lparr>bc_db = Map.empty, block_number = 0, tip = replicate 32 9, participants = [15], provided = [],
     mempool = \<lparr>last_nonce_in_mempool = [], mempool_txs = [], txs_per_signer = []\<rparr>\<rparr>"

lemma example_new: "blockchain_new example_tributary Map.empty [15] = Some example_chain"
  by (simp add: blockchain_new_def example_chain_def provided_new_def load_provided.simps mempool_new_def load_mempool.simps
      current_mempool_def example_tributary_def)

lemma example_sig: "SchnorrSignature_verify example_suite (SchnorrSignature_sign example_suite 5 2 7) 15 7 = Some True"
proof -
  have "point_mul example_suite 5 (generator example_suite) = 15" by (simp add: example_suite_def)
  then show ?thesis using schnorr_sign_verifies [OF example_laws, of 5 2 7] by simp
qed

lemma example_encoding: "encoding_laws example_suite"
  by (simp add: encoding_laws_def example_suite_def from_to_le_bytes)

lemma example_root: "length (merkle example_digest xs) = 32"
  by (rule length_merkle) (simp add: example_digest_def)

lemma example_verified: "verify_block example_tributary N (example_block [2, 4, 0]) True example_chain = Some (Inr ())"
  by (simp add: verify_block_def Block_verify_def Block_serialize_def BlockHeader_serialize_def example_block_def example_chain_def
     example_tributary_def example_root BLOCK_SIZE_LIMIT_def TRANSACTION_SIZE_LIMIT_def check_provided_def verify_transaction_def
     take_nonce_def read_u32_def txn_get_def example_signed_def sig_hash_def example_sig)

lemma example_added: "\<exists>bc. add_block example_tributary N (example_block [2, 4, 0]) [] example_chain = Some (bc, Inr ())"
  by (simp add: add_block_def example_verified) (simp add: Let_def Block_serialize_def example_block_def example_chain_def complete_def read_u32_def
    mempool_remove_def drop_hash.simps example_tributary_def current_mempool_def)

theorem tributary_chain_witness:
  "\<forall>N. \<exists>bc. chain_reach example_tributary N [15] bc [example_block [2, 4, 0]] \<and> linked example_tributary (replicate 32 9) [example_block [2, 4, 0]] \<and> tip bc = block_hash example_tributary (example_block [2, 4, 0]) \<and>
    read_u32 (bc_db bc (next_nonce_key example_tributary 15 [0])) = Some 1"
proof
  fix N :: trib_network
  let ?c = example_tributary and ?bs = "[example_block [2, 4, 0]]"
  obtain bc where "add_block ?c N (example_block [2, 4, 0]) [] example_chain = Some (bc, Inr ())" using example_added by blast
  with example_new have reach: "chain_reach ?c N [15] bc ?bs" using chain_reach.start chain_reach.block by (metis append_Nil)
  have c: "encoding_laws (suite ?c)" "trib_genesis ?c = replicate 32 9" by (simp_all add: example_tributary_def example_encoding)
  have "nonces ?c 15 [0] (chain_txs ?bs) = [0]"
    by (simp add: chain_txs_def example_block_def tx_nonce_def example_tributary_def example_signed_def)
  moreover have "linked ?c (replicate 32 9) ?bs \<and> tip bc = last_hash ?c ?bs"
    "read_u32 (bc_db bc (next_nonce_key ?c 15 [0])) = Some (of_nat (length (nonces ?c 15 [0] (chain_txs ?bs))))"
    using tributary_chain [OF c(1) reach] unfolding c(2) by auto
  ultimately show "\<exists>bc. chain_reach ?c N [15] bc ?bs \<and> linked ?c (replicate 32 9) ?bs \<and> tip bc = block_hash ?c (example_block [2, 4, 0]) \<and> read_u32 (bc_db bc (next_nonce_key ?c 15 [0])) = Some 1"
    by - (rule exI [of _ bc], simp add: last_hash_def reach)
qed

end
