(* ===== verification/Tributary_Faults.thy ===== *)
theory Tributary_Faults
  imports Tributary_Props "HOL-Library.Multiset"
begin

text \<open>
  Two ways in which a Tributary does not do what it means to: two provided transactions of one order
  in one block are given the same number, and a signer who signs two transactions of one nonce stops
  the nodes that hold the one that was not included.
\<close>

section \<open>Two provided transactions of one order in a block\<close>

lemma provided_items_neq [simp]:
  "provided_transaction_key g h \<noteq> on_chain_provided_quantity_key g' o1" "provided_transaction_key g h \<noteq> on_chain_provided_key g' o1 n"
  "provided_transaction_key g h \<noteq> block_provided_quantity_key g' blk o1" "provided_transaction_key g h \<noteq> current_provided_key g'"
  "locally_provided_quantity_key g o1 \<noteq> on_chain_provided_quantity_key g' o2" "locally_provided_quantity_key g o1 \<noteq> on_chain_provided_key g' o2 n"
  "locally_provided_quantity_key g o1 \<noteq> block_provided_quantity_key g' blk o2"
  "on_chain_provided_key g o1 n \<noteq> on_chain_provided_quantity_key g' o2" "on_chain_provided_key g o1 n \<noteq> block_provided_quantity_key g' blk o2"
  "on_chain_provided_quantity_key g o1 \<noteq> block_provided_quantity_key g' blk o2"
  "on_chain_provided_key g o1 n \<noteq> provided_transaction_key g' h" "on_chain_provided_key g o1 n \<noteq> locally_provided_quantity_key g' o2"
  by (simp_all add: provided_transaction_key_def current_provided_key_def locally_provided_quantity_key_def on_chain_provided_quantity_key_def
      block_provided_quantity_key_def on_chain_provided_key_def lit_key_inject ascii_def)

lemma provided_chain_neq [simp]:
  "provided_transaction_key g h \<noteq> chain_key i k" "locally_provided_quantity_key g order \<noteq> chain_key i k"
  "on_chain_provided_quantity_key g order \<noteq> chain_key i k" "on_chain_provided_key g order n \<noteq> chain_key i k"
  using provided_keys_neq by metis+

text \<open>
  C37: a block with two provided transactions of one order loses the first. When a node that is caught
  up adds such a block before the two were provided to it, both are given the next number, as the
  number is read from the database and not from the pending transaction: the second replaces the
  first, the quantity grows by one instead of two, and providing the first then fails as a mismatch with the chain.
\<close>

theorem provided_overwritten:
  assumes add: "add_block c N b commit bc = Some (bc', Inr ())" and txs: "block_txs b = [Application t1, Application t2]"
    and kinds: "app_kind c t1 = Provided order" "app_kind c t2 = Provided order" "app_hash c t1 \<noteq> app_hash c t2"
    and absent: "map_of (provided bc) order = None" "bc_db bc (provided_transaction_key (trib_genesis c) (app_hash c t1)) = None"
    and caught_up: "read_u32 (bc_db bc (locally_provided_quantity_key (trib_genesis c) order)) = Some q"
      "read_u32 (bc_db bc (on_chain_provided_quantity_key (trib_genesis c) order)) = Some q" "q < q + 1"
  shows "read_u32 (bc_db bc' (on_chain_provided_quantity_key (trib_genesis c) order)) = Some (q + 1) \<and>
    bc_db bc' (on_chain_provided_key (trib_genesis c) order q) = Some (app_hash c t2) \<and>
    provide_transaction c t1 bc' = Some (bc', Inl LocalMismatchesOnChain)"
proof -
  let ?gen = "trib_genesis c"
  define d where "d = bc_db bc'"
  have v: "verify_block c N b True bc = Some (Inr ())" using add by (auto simp: add_block_def split: Option.bind_splits sum.splits)
  then have ok: "length (app_serialize c t1) \<le> TRANSACTION_SIZE_LIMIT" "app_verify c t1 = None"
    using txs kinds(1) by (auto simp: verify_block_def Block_verify_def verify_transaction_def
        split: Option.bind_splits sum.splits if_splits option.splits)
  have d: "d (on_chain_provided_quantity_key ?gen order) = Some (to_le_bytes (q + 1))" "d (on_chain_provided_key ?gen order q) = Some (app_hash c t2)"
    "d (provided_transaction_key ?gen (app_hash c t1)) = None" "d (locally_provided_quantity_key ?gen order) = bc_db bc (locally_provided_quantity_key ?gen order)"
    using add v txs kinds absent caught_up
    by (auto simp: d_def add_block_def Let_def complete_def chain_keys map_add_def split: Option.bind_splits)
  have "provide c t1 d (provided bc') = Some (d, provided bc', Inl LocalMismatchesOnChain)"
    using ok kinds d caught_up
    by (simp add: provide_def verify_transaction_def Let_def txn_get_def read_u32_def from_to_le_bytes)
  then show ?thesis using d by (simp add: d_def provide_transaction_def read_u32_def from_to_le_bytes)
qed

theorem provided_overwritten_witness:
  "\<forall>N. \<exists>bc. bc_db bc (on_chain_provided_key (replicate 32 9) [1] 0) = Some (replicate 31 0 @ [3]) \<and>
    provide_transaction example_tributary 2 bc = Some (bc, Inl LocalMismatchesOnChain)"
proof
  fix N :: trib_network
  let ?c = example_tributary
  have v: "verify_block ?c N (example_block [2, 3]) True example_chain = Some (Inr ())"
    by (simp add: verify_block_def Block_verify_def Block_serialize_def BlockHeader_serialize_def example_block_def example_chain_def
      example_tributary_def example_root BLOCK_SIZE_LIMIT_def TRANSACTION_SIZE_LIMIT_def check_provided_def verify_transaction_def)
  have "\<exists>bc. add_block ?c N (example_block [2, 3]) [] example_chain = Some (bc, Inr ())"
    by (simp add: add_block_def v) (simp add: Let_def Block_serialize_def example_block_def example_chain_def complete_def read_u32_def example_tributary_def)
  then obtain bc where "add_block ?c N (example_block [2, 3]) [] example_chain = Some (bc, Inr ())" ..
  from provided_overwritten [OF this, of 2 3 "[1]" 0]
  show "\<exists>bc. bc_db bc (on_chain_provided_key (replicate 32 9) [1] 0) = Some (replicate 31 0 @ [3]) \<and>
    provide_transaction example_tributary 2 bc = Some (bc, Inl LocalMismatchesOnChain)"
    by - (rule exI [of _ bc], simp add: example_block_def example_chain_def example_tributary_def read_u32_def)
qed

section \<open>Two transactions of one nonce\<close>

text \<open>What including a block leaves of a transaction in the mempool that is the only one of its signer, order and nonce.\<close>

lemma in_set_delete: "x \<in> set (AList.delete h xs) \<Longrightarrow> x \<in> set xs"
  by (simp add: AList.delete_eq)

lemma mempool_remove_keeps:
  assumes "mempool_remove c h d mp = Some (d', mp')" and "h \<noteq> k"
    and only: "\<forall>(h', tx) \<in> set (mempool_txs mp). tx_nonce c g order tx = Some n \<longrightarrow> h' = k"
  shows "map_of (mempool_txs mp') k = map_of (mempool_txs mp) k \<and> set (mempool_txs mp') \<subseteq> set (mempool_txs mp) \<and>
    (map_of (last_nonce_in_mempool mp) (g, order) = Some n \<longrightarrow> map_of (last_nonce_in_mempool mp') (g, order) = Some n)"
proof (cases "map_of (mempool_txs mp) h")
  case (Some tx)
  then have "tx_nonce c g order tx \<noteq> Some n" using only assms(2) by (auto dest: map_of_SomeD)
  then show ?thesis using Some assms(1,2)
    by (auto simp: mempool_remove_def Let_def tx_nonce_def delete_conv' dest: in_set_delete split: Option.bind_splits TransactionKind.splits if_splits)
qed (use assms(1) in \<open>auto simp: mempool_remove_def Let_def split: Option.bind_splits\<close>)

lemma include_txs_keeps:
  assumes "include_txs c blk txs d txn prov mp = Some (d', txn', prov', mp')" and "k \<notin> hash_of c ` set txs"
    and "\<forall>(h', tx) \<in> set (mempool_txs mp). tx_nonce c g order tx = Some n \<longrightarrow> h' = k"
  shows "map_of (mempool_txs mp') k = map_of (mempool_txs mp) k \<and>
    (map_of (last_nonce_in_mempool mp) (g, order) = Some n \<longrightarrow> map_of (last_nonce_in_mempool mp') (g, order) = Some n)"
  using assms
proof (induction txs arbitrary: d txn prov mp)
  case (Cons tx txs)
  obtain d1 txn1 prov1 mp1 where r: "include_txs c blk txs d1 txn1 prov1 mp1 = Some (d', txn', prov', mp')"
    and "mp1 = mp \<or> mempool_remove c (hash_of c tx) d mp = Some (d1, mp1)"
    using Cons.prems(1) by (auto simp: Let_def split: Option.bind_splits TransactionKind.splits)
  then have "map_of (mempool_txs mp1) k = map_of (mempool_txs mp) k \<and> set (mempool_txs mp1) \<subseteq> set (mempool_txs mp) \<and>
    (map_of (last_nonce_in_mempool mp) (g, order) = Some n \<longrightarrow> map_of (last_nonce_in_mempool mp1) (g, order) = Some n)"
    using mempool_remove_keeps [of c "hash_of c tx" d mp d1 mp1 k g order n] Cons.prems(2,3) by auto
  with Cons.IH [OF r] Cons.prems(2,3) show ?case by (auto simp: subset_eq)
qed simp

lemma nonces_mem: "tx \<in> set txs \<Longrightarrow> tx_nonce c g order tx = Some n \<Longrightarrow> n \<in> set (nonces c g order txs)"
  by (induction txs) (auto split: option.split)

lemma length_nonces: "length (nonces c g order txs) \<le> length txs"
  by (induction txs) (auto split: option.split)

text \<open>A transaction whose nonce is below the chain's next one verifies in no block.\<close>

lemma stale_refused:
  assumes laws: "encoding_laws (suite c)" and chain: "read_u32 (bc_db bc (next_nonce_key c g order)) = Some (of_nat n)"
    and tx: "tx \<in> set txs" "tx_nonce c g order tx = Some (of_nat i)" and "i < n" "n + length txs < 2 ^ 32"
  shows "verify_txs c N cm ic al (take_nonce c bc) txs lo inc loc Map.empty \<noteq> Some (Inr ())"
proof
  assume "verify_txs c N cm ic al (take_nonce c bc) txs lo inc loc Map.empty = Some (Inr ())"
  from verify_txs_signed(2) [OF laws this, of g order "of_nat n"] chain
  have "nonces c g order txs = map (\<lambda>j. of_nat n + of_nat j) [0..<length (nonces c g order txs)]" by (simp add: txn_get_def)
  moreover have "of_nat i \<in> set (nonces c g order txs)" by (rule nonces_mem [OF tx])
  ultimately have "(of_nat i :: u32) \<in> (\<lambda>j. of_nat n + of_nat j) ` {0..<length (nonces c g order txs)}"
    by (metis list.set_map set_upt)
  then obtain j where j: "(of_nat i :: u32) = of_nat (n + j)" "j < length (nonces c g order txs)" by auto
  then have "n + j < 2 ^ 32" "i < 2 ^ 32" using length_nonces [of c g order txs] assms(5,6) by auto
  then have "i = n + j" using arg_cong [OF j(1), of unat] by (simp only: unat_of_nat) simp
  then show False using assms(5) by simp
qed

text \<open>The transactions a new block is built from, and that all of them fit.\<close>

definition candidates :: "'t ProvidedTransactions \<Rightarrow> ('t, 'g) Mempool \<Rightarrow> 't Transaction list" where
  "candidates prov mp = map Application (concat (map snd prov)) @ map snd (mempool_txs mp)"

definition candidates_fit :: "('t, 'f, 'g) tributary \<Rightarrow> ('t, 'g) Blockchain \<Rightarrow> bool" where
  "candidates_fit c bc \<longleftrightarrow> 68 + (\<Sum>tx\<leftarrow>candidates (provided bc) (mempool bc). length (Transaction_serialize c tx)) \<le> BLOCK_SIZE_LIMIT"

lemma length_serialized: "length txs \<le> (\<Sum>tx\<leftarrow>txs. length (Transaction_serialize c tx))"
proof (induction txs)
  case (Cons tx txs)
  then show ?case by (cases tx) simp_all
qed simp

lemma build_candidates:
  assumes "build_block c N bc = Some b" and "candidates_fit c bc" and "length (tip bc) = 32"
  shows "mset (block_txs b) = mset (candidates (provided bc) (mempool bc))" and "verify_block c N b False bc = Some (Inr ())"
proof -
  let ?size = "\<lambda>txs. \<Sum>tx\<leftarrow>txs. length (Transaction_serialize c tx)"
  obtain mp txs r where m: "mempool_block c (mempool bc) = Some mp" and
    txs: "txs = map Application (concat (map snd (provided bc))) @ filter (\<lambda>tx. \<not> is_signed (kind_of c tx)) mp @ filter (\<lambda>tx. is_signed (kind_of c tx)) mp" and
    r: "trim_block c \<lparr>header = \<lparr>parent = tip bc, txs_root = replicate 32 0\<rparr>, block_txs = txs\<rparr> = Some r" "block_txs b = block_txs r"
    and v: "verify_block c N b False bc = Some (Inr ())"
    using assms(1) by (auto simp: build_block_def Block_new_def Let_def split: Option.bind_splits if_splits sum.splits)
  have "mset mp = mset (map snd (mempool_txs (mempool bc)))"
    using m by (auto simp: mempool_block_def Let_def split: if_splits)
  then have perm: "mset txs = mset (candidates (provided bc) (mempool bc))" by (simp add: txs candidates_def union_commute)
  then have "?size txs = ?size (candidates (provided bc) (mempool bc))"
    by (simp only: sum_mset_sum_list [symmetric] mset_map)
  then have size: "68 + ?size txs \<le> BLOCK_SIZE_LIMIT" using assms(2) by (simp add: candidates_fit_def)
  then have "length txs < 2 ^ 32" using length_serialized [of txs c] by (simp add: BLOCK_SIZE_LIMIT_def)
  then have "r = \<lparr>header = \<lparr>parent = tip bc, txs_root = replicate 32 0\<rparr>, block_txs = txs\<rparr>"
    using r(1) size assms(3) by (subst (asm) trim_block.simps)
      (auto simp: Block_serialize_def BlockHeader_serialize_def length_concat comp_def split: if_splits)
  then show "mset (block_txs b) = mset (candidates (provided bc) (mempool bc))" using r(2) perm by simp
  show "verify_block c N b False bc = Some (Inr ())" by (rule v)
qed

text \<open>
  C38: a signer who signs twice stops nodes. Let a node's mempool hold a signed transaction, the only one
  there of its signer, order and nonce, and let the chain, in any state it can reach, add a block that
  does not include it but another one of the same signer, order and nonce. Then it stays
  in the mempool although it can never be included. Building a block panics as long as all
  transactions at hand fit into one; and if it was the mempool's last of its signer and order, so does adding
  any transaction of that signer and order.
\<close>

theorem stale_nonce_panics:
  assumes laws: "encoding_laws (suite c)" "\<And>x. length (blake2s c x) = 32" and reach: "chain_reach c N parts bc bs"
    and pool: "map_of (mempool_txs (mempool bc)) (app_hash c t) = Some (Application t)" "app_kind c t = Signed order s"
      "\<forall>(h, tx) \<in> set (mempool_txs (mempool bc)). tx_nonce c (signer s) order tx = Some (nonce s) \<longrightarrow> h = app_hash c t"
    and blk: "add_block c N b commit bc = Some (bc', Inr ())" "app_hash c t \<notin> hash_of c ` set (block_txs b)"
    and other: "Application t' \<in> set (block_txs b)" "app_kind c t' = Signed order s'" "signer s' = signer s" "nonce s' = nonce s"
    and few: "length (nonces c (signer s) order (chain_txs (bs @ [b]))) + BLOCK_SIZE_LIMIT < 2 ^ 32"
  shows "map_of (mempool_txs (mempool bc')) (app_hash c t) = Some (Application t) \<and>
    (candidates_fit c bc' \<longrightarrow> build_block c N bc' = None) \<and>
    (map_of (last_nonce_in_mempool (mempool bc)) (signer s, order) = Some (nonce s) \<longrightarrow>
      (\<forall>internal t'' s''. app_kind c t'' = Signed order s'' \<and> signer s'' = signer s \<longrightarrow> add_transaction c N internal (Application t'') bc' = None))"
proof -
  define n where "n = length (nonces c (signer s) order (chain_txs (bs @ [b])))"
  have inv: "chain_inv c parts bc' (bs @ [b])" by (rule chain_reach_inv [OF chain_reach.block [OF reach blk(1)] laws(1)])
  then have chain: "read_u32 (bc_db bc' (next_nonce_key c (signer s) order)) = Some (of_nat n)"
    and used: "nonces c (signer s) order (chain_txs (bs @ [b])) = map of_nat [0..<n]" and ok: "list_all (signed_ok c parts) (chain_txs (bs @ [b]))"
    and parts: "set (participants bc') = set parts" and tip: "tip bc' = block_hash c b"
    unfolding chain_inv_def n_def by (auto simp: last_hash_def)
  have mem: "Application t' \<in> set (chain_txs (bs @ [b]))" using other(1) by (simp add: chain_txs_def)
  have "tx_nonce c (signer s) order (Application t') = Some (nonce s)" using other by (simp add: tx_nonce_def)
  from nonces_mem [OF mem this] used obtain i where i: "nonce s = of_nat i" "i < n" by auto
  have signer: "signer s \<in> set (participants bc')" using ok mem other(2,3) parts by (auto simp: list_all_iff signed_ok_def)
  obtain ser d txn d' txn' prov where "include_txs c (block_hash c b) (block_txs b) d txn (provided bc) (mempool bc) = Some (d', txn', prov, mempool bc')"
    using blk(1) by (auto simp: add_block_def Let_def split: Option.bind_splits sum.splits)
  from include_txs_keeps [OF this blk(2) pool(3)] pool(1)
  have kept: "map_of (mempool_txs (mempool bc')) (app_hash c t) = Some (Application t)"
    "map_of (last_nonce_in_mempool (mempool bc)) (signer s, order) = Some (nonce s) \<longrightarrow>
       map_of (last_nonce_in_mempool (mempool bc')) (signer s, order) = Some (nonce s)" by auto
  have "build_block c N bc' = None" if fit: "candidates_fit c bc'"
  proof (rule ccontr)
    assume "build_block c N bc' \<noteq> None"
    then obtain b' where b': "build_block c N bc' = Some b'" by blast
    have "length (tip bc') = 32" using laws(2) by (simp add: tip block_hash_def header_hash_def)
    note cand = build_candidates [OF b' fit this]
    have "Application t \<in> set (block_txs b')" using kept(1) cand(1) [THEN mset_eq_setD]
      by (auto simp: candidates_def image_iff dest!: map_of_SomeD) (metis snd_conv)
    moreover have "length (block_txs b') \<le> BLOCK_SIZE_LIMIT"
      using cand(1) [THEN mset_eq_length] length_serialized [of "candidates (provided bc') (mempool bc')" c] fit by (simp add: candidates_fit_def)
    ultimately show False
      using stale_refused [OF laws(1) chain _ _ i(2), of "Application t" "block_txs b'"] cand(2) few pool(2) i(1)
      by (auto simp: verify_block_def Block_verify_def tx_nonce_def n_def split: Option.bind_splits if_splits sum.splits)
  qed
  moreover have "nonce s < of_nat n" using i few by (simp add: n_def word_less_nat_alt unat_of_nat)
  then have "add_transaction c N internal (Application t'') bc' = None"
    if "map_of (last_nonce_in_mempool (mempool bc)) (signer s, order) = Some (nonce s)" "app_kind c t'' = Signed order s''" "signer s'' = signer s" for internal t'' s''
    using that kept(2) chain signer by (simp add: add_transaction_def mempool_add_def Let_def)
  ultimately show ?thesis using kept(1) by blast
qed

theorem stale_nonce_panics_witness:
  "\<forall>N. \<exists>bc bc'. chain_reach example_tributary N [15] bc [] \<and> add_block example_tributary N (example_block [1]) [] bc = Some (bc', Inr ()) \<and>
    map_of (mempool_txs (mempool bc')) (app_hash example_tributary 0) = Some (Application 0) \<and> build_block example_tributary N bc' = None \<and>
    add_transaction example_tributary N True (Application 0) bc' = None"
proof
  fix N :: trib_network
  let ?c = example_tributary
  define bc1 where "bc1 = example_chain\<lparr>bc_db := [mempool_transaction_key (trib_genesis ?c) (app_hash ?c 0) \<mapsto> [1, 0],
      current_mempool_key (trib_genesis ?c) \<mapsto> app_hash ?c 0],
    mempool := \<lparr>last_nonce_in_mempool = [((15, [0]), 0)], mempool_txs = [(app_hash ?c 0, Application 0)], txs_per_signer = [(15, 1)]\<rparr>\<rparr>"
  have add: "add_transaction ?c N True (Application 0) example_chain = Some (bc1, Inr True)"
    by (simp add: bc1_def add_transaction_def mempool_add_def example_chain_def example_tributary_def example_signed_def read_u32_def Let_def
        verify_transaction_def TRANSACTION_SIZE_LIMIT_def sig_hash_def example_sig save_tx_def signer_amount_def current_mempool_def)
  have v: "verify_block ?c N (example_block [1]) True bc1 = Some (Inr ())"
    by (simp add: verify_block_def Block_verify_def Block_serialize_def BlockHeader_serialize_def example_block_def example_chain_def bc1_def
      example_tributary_def example_root BLOCK_SIZE_LIMIT_def TRANSACTION_SIZE_LIMIT_def verify_transaction_def
      take_nonce_def read_u32_def txn_get_def example_signed_def sig_hash_def example_sig next_nonce_key_def)
  have "\<exists>bc. add_block ?c N (example_block [1]) [] bc1 = Some (bc, Inr ()) \<and> mempool bc = mempool bc1 \<and> provided bc = []"
    by (simp add: add_block_def v) (simp add: Let_def Block_serialize_def example_block_def bc1_def example_chain_def
      mempool_remove_def drop_hash.simps example_tributary_def current_mempool_def)
  then obtain bc where blk: "add_block ?c N (example_block [1]) [] bc1 = Some (bc, Inr ())" "mempool bc = mempool bc1" "provided bc = []" by blast
  have reach: "chain_reach ?c N [15] bc1 []" by (rule chain_reach.transaction [OF chain_reach.start [OF example_new] add])
  have laws: "encoding_laws (suite ?c)" "length (blake2s ?c x) = 32" for x by (simp_all add: example_tributary_def example_encoding example_digest_def)
  have kind: "app_kind ?c 0 = Signed [0] example_signed" "app_kind ?c 1 = Signed [0] example_signed" by (simp_all add: example_tributary_def)
  have fit: "candidates_fit ?c bc" by (simp add: candidates_fit_def candidates_def blk(2,3) bc1_def example_tributary_def BLOCK_SIZE_LIMIT_def)
  have "length (nonces ?c (signer example_signed) [0] (chain_txs ([] @ [example_block [1]]))) \<le> 1"
    using length_nonces [of ?c _ _ "chain_txs ([] @ [example_block [1]])"] by (simp add: chain_txs_def example_block_def)
  then have "length (nonces ?c (signer example_signed) [0] (chain_txs ([] @ [example_block [1]]))) + BLOCK_SIZE_LIMIT < 2 ^ 32" by (simp add: BLOCK_SIZE_LIMIT_def)
  moreover have "map_of (mempool_txs (mempool bc1)) (app_hash ?c 0) = Some (Application 0)"
    "\<forall>(h, tx) \<in> set (mempool_txs (mempool bc1)). tx_nonce ?c (signer example_signed) [0] tx = Some (nonce example_signed) \<longrightarrow> h = app_hash ?c 0"
    "map_of (last_nonce_in_mempool (mempool bc1)) (signer example_signed, [0]) = Some (nonce example_signed)"
    by (simp_all add: bc1_def example_signed_def)
  moreover have "app_hash ?c 0 \<notin> hash_of ?c ` set (block_txs (example_block [1]))" "Application 1 \<in> set (block_txs (example_block [1]))"
    by (simp_all add: example_block_def example_tributary_def)
  ultimately have "map_of (mempool_txs (mempool bc)) (app_hash ?c 0) = Some (Application 0) \<and> build_block ?c N bc = None \<and> add_transaction ?c N True (Application 0) bc = None"
    using stale_nonce_panics [OF laws reach _ kind(1) _ blk(1) _ _ kind(2)] fit kind(1) by blast
  then show "\<exists>bc bc'. chain_reach ?c N [15] bc [] \<and> add_block ?c N (example_block [1]) [] bc = Some (bc', Inr ()) \<and>
    map_of (mempool_txs (mempool bc')) (app_hash ?c 0) = Some (Application 0) \<and> build_block ?c N bc' = None \<and>
    add_transaction ?c N True (Application 0) bc' = None" using reach blk(1) by blast
qed

end
