(* ===== verification/Tributary_Network.thy ===== *)
theory Tributary_Network
  imports Tributary_Faults
begin

text \<open>
  The validators of a Tributary as Tendermint sees them (\<open>tendermint/mod.rs\<close>), and the node that
  joins the Tendermint machine, the chain and the peer-to-peer network (\<open>lib.rs\<close>). The digest of the
  \<open>RecommendedTranscript\<close>, which is not that of the ciphersuite, the reduction of 64 bytes to a scalar,
  the shuffle and the reading of commits are fields of a record. A panic is \<open>None\<close>.
\<close>

section \<open>Signatures (\<open>tendermint/mod.rs\<close>)\<close>

record 'f net_env =
  recommended_hash :: "bytes \<Rightarrow> bytes"
  wide :: "bytes \<Rightarrow> 'f"
  shuffle :: "bytes \<Rightarrow> bytes list \<Rightarrow> bytes list"
  read_commit :: "(bytes, bytes) Commit reader"

definition DST :: bytes where "DST = ascii ''Tributary Tendermint Commit Aggregator''"

definition tm_challenge :: "'f net_env \<Rightarrow> bytes \<Rightarrow> bytes \<Rightarrow> bytes \<Rightarrow> bytes \<Rightarrow> 'f" where
  "tm_challenge E gen key r m =
     (let t = transcript_new (ascii ''Tributary Chain Tendermint Message'');
          t = append_message (ascii ''genesis'') gen t;
          t = append_message (ascii ''key'') key t;
          t = append_message (ascii ''nonce'') r t;
          t = append_message (ascii ''message'') m t
      in wide E (fst (challenge (recommended_hash E) (ascii ''schnorr'') t)))"

definition signer_id :: "('f, 'g, 'x) ciphersuite_scheme \<Rightarrow> 'f \<Rightarrow> bytes" where
  "signer_id C key = point_to_bytes C (point_mul C key (generator C))"

definition signer_sign :: "'f net_env \<Rightarrow> ('f::comm_ring_1, 'g, 'x) ciphersuite_scheme \<Rightarrow> bytes \<Rightarrow> 'f \<Rightarrow> bytes \<Rightarrow> bytes option" where
  "signer_sign E C gen key m =
     (let t = transcript_new (ascii ''Tributary Chain Tendermint Nonce'');
          t = append_message (ascii ''genesis'') gen t;
          t = append_message (ascii ''key'') (scalar_to_repr C key) t;
          t = append_message (ascii ''message'') m t;
          nonce_arr = fst (challenge (recommended_hash E) (ascii ''nonce'') t);
          r = wide E nonce_arr
      in if length nonce_arr \<noteq> 64 \<or> r = 0 then None
         else let chal = tm_challenge E gen (signer_id C key) (point_to_bytes C (point_mul C r (generator C))) m;
                  sig = SchnorrSignature_serialize C (SchnorrSignature_sign C key r chal)
              in if length sig = 64 then Some sig else None)"

record Validators =
  vals_genesis :: bytes
  vals_total_weight :: u64
  vals_weights :: "(bytes \<times> u64) list"
  robin :: "bytes list"

fun validators_loop :: "('f, 'g, 'x) ciphersuite_scheme \<Rightarrow> ('g \<times> u64) list \<Rightarrow> u64 \<Rightarrow> (bytes \<times> u64) list \<Rightarrow> transcript \<Rightarrow> bytes list \<Rightarrow>
    (u64 \<times> (bytes \<times> u64) list \<times> transcript \<times> bytes list) option" where
  "validators_loop C [] tw weights t rob = Some (tw, weights, t, rob)"
| "validators_loop C ((v, w) # vs) tw weights t rob =
     (let validator = point_to_bytes C v in
      if w = 0 then None
      else validators_loop C vs (tw + w) (AList.update validator w weights)
        (append_message (ascii ''weight'') (to_le_bytes w) (append_message (ascii ''validator'') validator t))
        (rob @ replicate (unat w) validator))"

text \<open>\<open>None\<close> is the value the constructor returns for a weight of zero.\<close>

definition validators_new :: "'f net_env \<Rightarrow> ('f, 'g, 'x) ciphersuite_scheme \<Rightarrow> bytes \<Rightarrow> ('g \<times> u64) list \<Rightarrow> Validators option" where
  "validators_new E C gen vs =
     (case validators_loop C vs 0 [] (transcript_new (ascii ''Round Robin Randomization'')) [] of
        None \<Rightarrow> None
      | Some (tw, weights, t, rob) \<Rightarrow>
          Some \<lparr>vals_genesis = gen, vals_total_weight = tw, vals_weights = weights,
            robin = shuffle E (fst (rng_seed (recommended_hash E) (ascii ''robin'') t)) rob\<rparr>)"

definition validators_verify :: "'f net_env \<Rightarrow> ('f::comm_ring_1, 'g::ab_group_add, 'x) ciphersuite_scheme \<Rightarrow> Validators \<Rightarrow> bytes \<Rightarrow> bytes \<Rightarrow> bytes \<Rightarrow> bool option" where
  "validators_verify E C V validator m sig =
     (if map_of (vals_weights V) validator = None then Some False
      else case read_G C validator of
        None \<Rightarrow> Some False
      | Some (validator_point, _) \<Rightarrow>
          (case SchnorrSignature_read C sig of
             None \<Rightarrow> Some False
           | Some (actual_sig, _) \<Rightarrow>
               SchnorrSignature_verify C actual_sig validator_point (tm_challenge E (vals_genesis V) validator (take 32 sig) m)))"

fun aggregate_loop :: "'f net_env \<Rightarrow> ('f, 'g, 'x) ciphersuite_scheme \<Rightarrow> bytes \<Rightarrow> bytes \<Rightarrow> (bytes \<times> bytes) list \<Rightarrow> ('f, 'g) SchnorrAggregator \<Rightarrow> ('f, 'g) SchnorrAggregator option" where
  "aggregate_loop E C gen m [] aggr = Some aggr"
| "aggregate_loop E C gen m ((key, sig) # rest) aggr =
     Option.bind (SchnorrSignature_read C sig) (\<lambda>(actual_sig, _).
     aggregate_loop E C gen m rest (SchnorrAggregator_aggregate C (tm_challenge E gen key (point_to_bytes C (sig_R actual_sig)) m) actual_sig aggr))"

definition validators_aggregate :: "'f net_env \<Rightarrow> ('f::comm_ring_1, 'g, 'x) ciphersuite_scheme \<Rightarrow> Validators \<Rightarrow> bytes list \<Rightarrow> bytes \<Rightarrow> bytes list \<Rightarrow> bytes option" where
  "validators_aggregate E C V validators m sigs =
     (if length validators \<noteq> length sigs then None
      else Option.bind (aggregate_loop E C (vals_genesis V) m (zip validators sigs) (SchnorrAggregator_new DST)) (\<lambda>aggr.
        Option.bind (SchnorrAggregator_complete C aggr) (\<lambda>agg. Option.bind agg (SchnorrAggregate_serialize C))))"

definition validators_verify_aggregate :: "'f net_env \<Rightarrow> ('f::comm_ring_1, 'g::ab_group_add, 'x) ciphersuite_scheme \<Rightarrow> Validators \<Rightarrow> bytes list \<Rightarrow> bytes \<Rightarrow> bytes \<Rightarrow> bool option" where
  "validators_verify_aggregate E C V signers m sig =
     (case SchnorrAggregate_read C sig of
        None \<Rightarrow> Some False
      | Some (agg, _) \<Rightarrow>
          if length signers \<noteq> length (agg_Rs agg) then Some False
          else let challenges = map (\<lambda>(key, R). tm_challenge E (vals_genesis V) key (point_to_bytes C R) m) (zip signers (agg_Rs agg))
               in Option.bind (those (map (\<lambda>s. map_option fst (read_G C s)) signers)) (\<lambda>keys.
                 SchnorrAggregate_verify C agg DST (zip keys challenges)))"

definition validators_weight :: "Validators \<Rightarrow> bytes \<Rightarrow> u64 option" where
  "validators_weight V validator = map_of (vals_weights V) validator"

text \<open>The arithmetic of the proposer is on \<open>usize\<close>, of 64 bits; an empty robin panics.\<close>

definition validators_proposer :: "Validators \<Rightarrow> u64 \<Rightarrow> u32 \<Rightarrow> bytes option" where
  "validators_proposer V blk rnd =
     (let n = length (robin V);
          i = blk + (if rnd = 0 then 0 else ucast rnd + of_nat (n div 2))
      in if n = 0 then None else Some (robin V ! (unat i mod n)))"

definition tendermint_block_id :: "('t, 'f, 'g) tributary \<Rightarrow> bytes \<Rightarrow> bytes option" where
  "tendermint_block_id c blk = map_option (\<lambda>(h, _). header_hash c h) (BlockHeader_read blk)"

definition NET_BLOCK_PROCESSING_TIME :: u32 where "NET_BLOCK_PROCESSING_TIME = 999"
definition NET_LATENCY_TIME :: u32 where "NET_LATENCY_TIME = 1667"
definition TARGET_BLOCK_TIME :: u32 where "TARGET_BLOCK_TIME = NET_BLOCK_PROCESSING_TIME + 3 * NET_LATENCY_TIME"

section \<open>The network and the node (\<open>tendermint/mod.rs\<close>, \<open>lib.rs\<close>)\<close>

text \<open>
  A node: its chain, the messages it sends again, and what it sent: to its peers, and to the queues
  of the machine for messages and synced blocks.
\<close>

record SyncedBlock =
  synced_number :: u64
  synced_block :: bytes
  synced_commit :: "(bytes, bytes) Commit"

record ('t, 'g) trib_node =
  node_chain :: "('t, 'g) Blockchain"
  to_rebroadcast :: "bytes list"
  p2p_sent :: "bytes list"
  machine_messages :: "(bytes, bytes, bytes) SignedMessage list"
  machine_blocks :: "SyncedBlock list"

definition TENDERMINT_MESSAGE :: u8 where "TENDERMINT_MESSAGE = 0"
definition BLOCK_MESSAGE :: u8 where "BLOCK_MESSAGE = 1"
definition TRANSACTION_MESSAGE :: u8 where "TRANSACTION_MESSAGE = 2"

definition p2p_broadcast :: "bytes \<Rightarrow> ('t, 'g) trib_node \<Rightarrow> ('t, 'g) trib_node" where
  "p2p_broadcast m nd = nd\<lparr>p2p_sent := p2p_sent nd @ [m]\<rparr>"

text \<open>The loop that pops the front while there are more than six messages per validator.\<close>

fun trim_front :: "nat \<Rightarrow> 'a list \<Rightarrow> 'a list" where
  "trim_front limit [] = []"
| "trim_front limit (x # xs) = (if length (x # xs) > limit then trim_front limit xs else x # xs)"

definition net_broadcast :: "trib_network \<Rightarrow> Validators \<Rightarrow> (bytes, bytes, bytes) SignedMessage \<Rightarrow> ('t, 'g) trib_node \<Rightarrow> ('t, 'g) trib_node" where
  "net_broadcast N V sm nd =
     (let to_broadcast = TENDERMINT_MESSAGE # encode_SignedMessage N sm in
      p2p_broadcast to_broadcast (nd\<lparr>to_rebroadcast := trim_front (6 * length (vals_weights V)) (to_rebroadcast nd @ [to_broadcast])\<rparr>))"

definition net_slash :: "('t, 'f::comm_ring_1, 'g::ab_group_add) tributary \<Rightarrow> trib_network \<Rightarrow> SlashEvent \<Rightarrow> ('t, 'g) trib_node \<Rightarrow> ('t, 'g) trib_node option" where
  "net_slash c N ev nd = (case ev of
       Id _ _ _ \<Rightarrow> Some nd
     | WithEvidence evidence \<Rightarrow>
         let tx = SlashEvidence evidence; to_broadcast = TRANSACTION_MESSAGE # TendermintTx_serialize tx in
         Option.bind (add_transaction c N True (Tendermint tx) (node_chain nd)) (\<lambda>(bc, res).
         let nd = nd\<lparr>node_chain := bc\<rparr> in Some (if res = Inr True then p2p_broadcast to_broadcast nd else nd)))"

definition net_validate :: "('t, 'f::comm_ring_1, 'g::ab_group_add) tributary \<Rightarrow> trib_network \<Rightarrow> bytes \<Rightarrow> ('t, 'g) trib_node \<Rightarrow> (Tendermint.BlockError + unit) option" where
  "net_validate c N blk nd = (case Block_read c blk of
       None \<Rightarrow> Some (Inl Fatal)
     | Some (b, _) \<Rightarrow> map_option (\<lambda>res. case res of
           Inr _ \<Rightarrow> Inr ()
         | Inl (NonLocalProvided _) \<Rightarrow> Inl TemporalBlock
         | Inl _ \<Rightarrow> Inl Fatal) (verify_block c N b False (node_chain nd)))"

definition net_verify_commit :: "'f net_env \<Rightarrow> ('f::comm_ring_1, 'g::ab_group_add, 'x) ciphersuite_scheme \<Rightarrow> Validators \<Rightarrow> bytes \<Rightarrow> (bytes, bytes) Commit \<Rightarrow> bool option" where
  "net_verify_commit E C V i commit =
     (if \<not> distinct (commit_validators commit) then Some False
      else Option.bind (validators_verify_aggregate E C V (commit_validators commit) (commit_msg (commit_end_time commit) i) (commit_signature commit)) (\<lambda>ok.
        if \<not> ok then Some False
        else map_option (\<lambda>ws. sum_list ws \<ge> vals_total_weight V * 2 div 3 + 1) (those (map (validators_weight V) (commit_validators commit)))))"

definition encode_Commit :: "(bytes, bytes) Commit \<Rightarrow> bytes" where
  "encode_Commit commit = to_le_bytes (commit_end_time commit) @ encode_vec (\<lambda>v. v) (commit_validators commit) @ encode_bytes (commit_signature commit)"

text \<open>
  Adding a block the machine produced: \<open>Inr\<close> with the next proposal, or \<open>Inl\<close> when the block
  lacks a provided transaction and the loop tries again.
\<close>

definition net_add_block :: "'f net_env \<Rightarrow> ('t, 'f::comm_ring_1, 'g::ab_group_add) tributary \<Rightarrow> trib_network \<Rightarrow> Validators \<Rightarrow> bytes \<Rightarrow> (bytes, bytes) Commit \<Rightarrow>
    ('t, 'g) trib_node \<Rightarrow> (('t, 'g) trib_node + ('t, 'g) trib_node \<times> bytes) option" where
  "net_add_block E c N V serialized_block commit nd =
     Option.bind (tendermint_block_id c serialized_block) (\<lambda>i.
     Option.bind (net_verify_commit E (suite c) V i commit) (\<lambda>ok.
     if \<not> ok then None
     else Option.bind (Block_read c serialized_block) (\<lambda>(b, _).
       Option.bind (Tributary_Chain.add_block c N b (encode_Commit commit) (node_chain nd)) (\<lambda>(bc, res). case res of
           Inl (NonLocalProvided _) \<Rightarrow> Some (Inl (nd\<lparr>node_chain := bc\<rparr>))
         | Inl _ \<Rightarrow> None
         | Inr _ \<Rightarrow>
             let nd = (p2p_broadcast (BLOCK_MESSAGE # serialized_block @ encode_Commit commit) (nd\<lparr>node_chain := bc\<rparr>))\<lparr>to_rebroadcast := []\<rparr>
             in Option.bind (build_block c N bc) (\<lambda>proposal. Option.bind (Block_serialize c proposal) (\<lambda>bs. Some (Inr (nd, bs))))))))"

text \<open>The chain, the start time and the first proposal of a new node; \<open>Some None\<close> when a weight is zero.\<close>

definition tributary_new :: "'f net_env \<Rightarrow> ('t, 'f::comm_ring_1, 'g::ab_group_add) tributary \<Rightarrow> trib_network \<Rightarrow> db \<Rightarrow> u64 \<Rightarrow> ('g \<times> u64) list \<Rightarrow>
    (Validators \<times> ('t, 'g) trib_node \<times> u64 \<times> bytes) option option" where
  "tributary_new E c N d start_time validators =
     (case validators_new E (suite c) (trib_genesis c) validators of
        None \<Rightarrow> Some None
      | Some V \<Rightarrow>
          Option.bind (blockchain_new c d (map fst validators)) (\<lambda>bc.
          Option.bind (case commit_from_db c d (tip bc) of
              None \<Rightarrow> Some start_time
            | Some bs \<Rightarrow> map_option commit_end_time (decode_commit c bs)) (\<lambda>start_time.
          Option.bind (build_block c N bc) (\<lambda>proposal. Option.bind (Block_serialize c proposal) (\<lambda>proposal.
            Some (Some (V, \<lparr>node_chain = bc, to_rebroadcast = [], p2p_sent = [], machine_messages = [], machine_blocks = []\<rparr>, start_time, proposal)))))))"

definition tributary_add_transaction :: "('t, 'f::comm_ring_1, 'g::ab_group_add) tributary \<Rightarrow> trib_network \<Rightarrow> 't \<Rightarrow> ('t, 'g) trib_node \<Rightarrow>
    (('t, 'g) trib_node \<times> (TransactionError + bool)) option" where
  "tributary_add_transaction c N tx nd =
     Option.bind (add_transaction c N True (Application tx) (node_chain nd)) (\<lambda>(bc, res).
     let nd = nd\<lparr>node_chain := bc\<rparr> in
     Some (if res = Inr True then p2p_broadcast (TRANSACTION_MESSAGE # Transaction_serialize c (Application tx)) nd else nd, res))"

text \<open>Whether a block was handed to the machine; the machine answers with whether it took it.\<close>

definition sync_block_internal :: "'f net_env \<Rightarrow> ('t, 'f::comm_ring_1, 'g::ab_group_add) tributary \<Rightarrow> Validators \<Rightarrow> 't Block \<Rightarrow> bytes \<Rightarrow>
    ('t, 'g) trib_node \<Rightarrow> (('t, 'g) trib_node \<times> bool) option" where
  "sync_block_internal E c V b commit nd =
     (if parent (header b) \<noteq> tip (node_chain nd) then Some (nd, False)
      else Option.bind (Block_serialize c b) (\<lambda>blk.
        case read_commit E commit of
          None \<Rightarrow> Some (nd, False)
        | Some (commit, rest) \<Rightarrow>
            if rest \<noteq> [] then Some (nd, False)
            else Option.bind (tendermint_block_id c blk) (\<lambda>i. Option.bind (net_verify_commit E (suite c) V i commit) (\<lambda>ok.
              if \<not> ok then Some (nd, False)
              else Some (nd\<lparr>machine_blocks := machine_blocks nd @ [\<lparr>synced_number = block_number (node_chain nd) + 1, synced_block = blk, synced_commit = commit\<rparr>]\<rparr>, True)))))"

definition tributary_handle_message :: "'f net_env \<Rightarrow> ('t, 'f::comm_ring_1, 'g::ab_group_add) tributary \<Rightarrow> trib_network \<Rightarrow> Validators \<Rightarrow> bytes \<Rightarrow>
    ('t, 'g) trib_node \<Rightarrow> (('t, 'g) trib_node \<times> bool) option" where
  "tributary_handle_message E c N V m nd = (case m of
       [] \<Rightarrow> Some (nd, False)
     | kind # rest \<Rightarrow>
         if kind = TRANSACTION_MESSAGE then
           (case Transaction_read c rest of
              None \<Rightarrow> Some (nd, False)
            | Some (tx, _) \<Rightarrow> Option.bind (add_transaction c N False tx (node_chain nd)) (\<lambda>(bc, res).
                Some (nd\<lparr>node_chain := bc\<rparr>, res = Inr True)))
         else if kind = TENDERMINT_MESSAGE then
           (case decode_signed_message N rest of
              None \<Rightarrow> Some (nd, False)
            | Some sm \<Rightarrow> Some (nd\<lparr>machine_messages := machine_messages nd @ [sm]\<rparr>, False))
         else if kind = BLOCK_MESSAGE then
           (case Block_read c rest of
              None \<Rightarrow> Some (nd, False)
            | Some (b, commit) \<Rightarrow> Option.bind (sync_block_internal E c V b commit nd) (\<lambda>(nd, _). Some (nd, False)))
         else Some (nd, False))"

end
