(* ===== verification/Tributary_Network_Props.thy ===== *)
theory Tributary_Network_Props
  imports Tributary_Network "HOL-Library.Multiset"
begin

text \<open>
  Properties of a Tributary's validators and nodes: what a validator signs verifies, a commit
  aggregated from a supermajority verifies, validators propose in proportion to their weight, and
  what a node makes of the messages of its peers.
\<close>

section \<open>Signatures\<close>

lemma read_G_canonical: "read_G C bs = Some (P, rest) \<Longrightarrow> point_to_bytes C P = take (point_len C) bs"
  by (auto simp: read_G_def read_exact_def split: Option.bind_splits if_splits)

lemma signature_read_canonical:
  "SchnorrSignature_read C sig = Some (s, rest) \<Longrightarrow> point_to_bytes C (sig_R s) = take (point_len C) sig"
  by (auto simp: SchnorrSignature_read_def split: Option.bind_splits) (rule read_G_canonical, assumption)

lemma signer_sign_verifies:
  assumes "group_laws C" and "encoding_laws C" "point_len C = 32" and "signer_sign E C (vals_genesis V) key m = Some sig"
    and "map_of (vals_weights V) (signer_id C key) \<noteq> None"
  shows "validators_verify E C V (signer_id C key) m sig = Some True"
proof -
  obtain r where sig: "sig = SchnorrSignature_serialize C (SchnorrSignature_sign C key r
      (tm_challenge E (vals_genesis V) (signer_id C key) (point_to_bytes C (point_mul C r (generator C))) m))"
    using assms(4) by (auto simp: signer_sign_def Let_def split: if_splits)
  have len: "length (point_to_bytes C P) = 32" for P using assms(2,3) by (auto simp: encoding_laws_def)
  have "read_G C (signer_id C key) = Some (point_mul C key (generator C), [])"
    using read_point [OF assms(2), of _ "[]"] by (simp add: signer_id_def)
  moreover have "SchnorrSignature_read C (SchnorrSignature_serialize C s) = Some (s, [])" for s
    using schnorr_read_serialize [OF assms(2), of s "[]"] by simp
  moreover have "take 32 (SchnorrSignature_serialize C s) = point_to_bytes C (sig_R s)" for s
    by (simp add: SchnorrSignature_serialize_def len)
  ultimately show ?thesis
    using assms(5) schnorr_sign_verifies [OF assms(1)] by (auto simp: validators_verify_def sig SchnorrSignature_sign_def split: option.split)
qed

text \<open>What verified signatures are to the aggregator.\<close>

definition verified_item :: "'f net_env \<Rightarrow> ('f, 'g, 'x) ciphersuite_scheme \<Rightarrow> Validators \<Rightarrow> bytes \<Rightarrow> bytes \<times> bytes \<Rightarrow> 'g \<times> 'f \<times> ('f, 'g) SchnorrSignature" where
  "verified_item E C V m = (\<lambda>(v, sig). let s = fst (the (SchnorrSignature_read C sig)) in
     (fst (the (read_G C v)), tm_challenge E (vals_genesis V) v (point_to_bytes C (sig_R s)) m, s))"

lemma validators_verify_item:
  assumes "validators_verify E C V v m sig = Some True" and "point_len C = 32"
  shows "signed_by_key C (verified_item E C V m (v, sig))" and "\<exists>s rest. SchnorrSignature_read C sig = Some (s, rest)"
    and "\<exists>P rest. read_G C v = Some (P, rest)" and "map_of (vals_weights V) v \<noteq> None"
  using assms(1)
  by (auto simp: validators_verify_def signed_by_key_def verified_item_def Let_def assms(2) dest!: signature_read_canonical split: option.splits if_splits)

lemma aggregate_loop_fold:
  assumes "\<forall>(v, sig)\<in>set items. validators_verify E C V v m sig = Some True" and "point_len C = 32"
  shows "aggregate_loop E C (vals_genesis V) m items aggr =
    Some (fold (\<lambda>(_, chal, sig). SchnorrAggregator_aggregate C chal sig) (map (verified_item E C V m) items) aggr)"
  using assms(1)
proof (induction items arbitrary: aggr)
  case (Cons item items)
  then obtain v sig where item: "item = (v, sig)" "validators_verify E C V v m sig = Some True" by (cases item) auto
  from validators_verify_item(2) [OF this(2) assms(2)] Cons item(1) show ?case by (auto simp: verified_item_def Let_def)
qed simp

lemma weigh_sigs_Rs: "weigh_sigs C sigs digest agg = Some agg' \<Longrightarrow> agg_Rs agg' = agg_Rs agg @ map sig_R sigs"
  by (induction sigs arbitrary: digest agg) (auto split: Option.bind_splits)

lemma aggregate_Rs:
  "SchnorrAggregator_complete C (fold (\<lambda>(_, chal, sig). SchnorrAggregator_aggregate C chal sig) items (SchnorrAggregator_new dst)) = Some (Some agg) \<Longrightarrow>
    agg_Rs agg = map (\<lambda>(_, _, sig). sig_R sig) items"
  by (auto simp: SchnorrAggregator_complete_def aggregate_folds SchnorrAggregator_new_def dest!: weigh_sigs_Rs split: if_splits)

lemma those_map_Some: "(\<And>x. x \<in> set xs \<Longrightarrow> f x = Some (g x)) \<Longrightarrow> those (map f xs) = Some (map g xs)"
  by (induction xs) simp_all

lemma aggregate_items:
  assumes "group_laws C" and "encoding_laws C" and "weights_drawn C" and "point_len C = 32"
    and "items \<noteq> []" "length items < 2 ^ 32" and ver: "\<forall>(v, sig)\<in>set items. validators_verify E C V v m sig = Some True"
  shows "\<exists>agg. validators_aggregate E C V (map fst items) m (map snd items) = Some agg \<and>
    validators_verify_aggregate E C V (map fst items) m agg = Some True"
proof -
  let ?it = "map (verified_item E C V m) items"
  have "list_all (signed_by_key C) ?it" using ver validators_verify_item(1) [OF _ assms(4)] by (fastforce simp: list_all_iff)
  then obtain agg where agg: "SchnorrAggregator_complete C (fold (\<lambda>(_, chal, sig). SchnorrAggregator_aggregate C chal sig) ?it (SchnorrAggregator_new DST)) = Some (Some agg)"
    "SchnorrAggregate_verify C agg DST (map (\<lambda>(key, chal, _). (key, chal)) ?it) = Some True"
    using aggregate_verifies [OF assms(1,3), of ?it DST] assms(5) by auto
  have Rs: "agg_Rs agg = map (\<lambda>(_, _, sig). sig_R sig) ?it" using agg(1) by (rule aggregate_Rs)
  then obtain bs where bs: "SchnorrAggregate_serialize C agg = Some bs" using assms(6) by (simp add: SchnorrAggregate_serialize_def)
  have "validators_aggregate E C V (map fst items) m (map snd items) = Some bs"
    using agg(1) bs aggregate_loop_fold [OF ver assms(4)] by (simp add: validators_aggregate_def zip_map_fst_snd)
  moreover have "SchnorrAggregate_read C bs = Some (agg, [])" using aggregate_read_serialize [OF assms(2) bs, of "[]"] by simp
  moreover have "those (map (\<lambda>s. map_option fst (read_G C s)) (map fst items)) = Some (map (\<lambda>v. fst (the (read_G C v))) (map fst items))"
    using ver validators_verify_item(3) [OF _ assms(4)] by (intro those_map_Some) (fastforce simp: split_def)
  moreover have "zip (map (\<lambda>v. fst (the (read_G C v))) (map fst items))
      (map (\<lambda>(key, R). tm_challenge E (vals_genesis V) key (point_to_bytes C R) m) (zip (map fst items) (agg_Rs agg))) = map (\<lambda>(key, chal, _). (key, chal)) ?it"
    unfolding Rs by (induction items) (auto simp: verified_item_def Let_def split: prod.splits)
  ultimately show ?thesis using agg(2) Rs by (simp add: validators_verify_aggregate_def Let_def)
qed

text \<open>
  C18: a supermajority makes a commit. When validators of more than two thirds of the weight have signed
  the commit message of a block and each signature verifies, aggregating the signatures does not
  panic, and every node with the same validators accepts the commit with that aggregate: the
  aggregator, its encoding and the check of the signers' keys, challenges and weights fit together.
\<close>

theorem commit_verifies:
  assumes "group_laws C" and "encoding_laws C" and "weights_drawn C" and "point_len C = 32"
    and vs: "distinct vs" "length vs < 2 ^ 32" "length sigs = length vs"
    and ver: "\<forall>j<length vs. validators_verify E C V (vs ! j) (commit_msg end_t i) (sigs ! j) = Some True"
    and enough: "sum_list (map (\<lambda>v. the (validators_weight V v)) vs) \<ge> vals_total_weight V * 2 div 3 + 1"
  shows "\<exists>agg. validators_aggregate E C V vs (commit_msg end_t i) sigs = Some agg \<and>
    net_verify_commit E C V i \<lparr>commit_end_time = end_t, commit_validators = vs, commit_signature = agg\<rparr> = Some True"
proof -
  let ?m = "commit_msg end_t i"
  have items: "\<forall>(v, sig)\<in>set (zip vs sigs). validators_verify E C V v ?m sig = Some True"
    using ver vs(3) by (auto simp: set_zip)
  have "vals_total_weight V * 2 div 3 + 1 \<noteq> 0"
  proof -
    have "unat (vals_total_weight V * 2 div 3) < 2 ^ 63" using unat_less_2p [of "vals_total_weight V * 2"] by (simp add: unat_div)
    then have "unat (vals_total_weight V * 2 div 3 + 1) = Suc (unat (vals_total_weight V * 2 div 3))" by (simp add: unat_word_ariths)
    then show ?thesis by (metis nat.distinct(1) unsigned_0)
  qed
  then have "zip vs sigs \<noteq> []" using enough vs(3) by (cases vs) (auto simp: word_le_0_iff)
  then obtain agg where agg: "validators_aggregate E C V vs ?m sigs = Some agg" "validators_verify_aggregate E C V vs ?m agg = Some True"
    using aggregate_items [OF assms(1-4), of "zip vs sigs" E V ?m] items vs by auto
  have "validators_weight V v = Some (the (validators_weight V v))" if "v \<in> set vs" for v
    using that ver validators_verify_item(4) [OF _ assms(4)] by (fastforce simp: validators_weight_def in_set_conv_nth)
  then have "those (map (validators_weight V) vs) = Some (map (\<lambda>v. the (validators_weight V v)) vs)" by (rule those_map_Some)
  then show ?thesis using agg vs(1) enough by (intro exI [of _ agg]) (simp add: net_verify_commit_def)
qed

text \<open>The example suite with encodings of 32 bytes, and a set of one validator.\<close>

definition example_suite32 :: "(u64, u64) ciphersuite" where
  "example_suite32 = example_suite\<lparr>point_to_bytes := \<lambda>p. to_le_bytes p @ replicate 24 0, point_from_bytes := \<lambda>bs. Some (from_le_bytes (take 8 bs)), point_len := 32,
     scalar_to_repr := \<lambda>s. to_le_bytes s @ replicate 24 0, scalar_from_repr := \<lambda>bs. Some (from_le_bytes (take 8 bs)), scalar_len := 32\<rparr>"

definition example_env :: "u64 net_env" where
  "example_env = \<lparr>recommended_hash = (\<lambda>bs. replicate 64 (sum_list bs)), wide = \<lambda>_. 7, shuffle = \<lambda>_ xs. rev xs, read_commit = \<lambda>_. None\<rparr>"

definition example_validators :: Validators where
  "example_validators = the (validators_new example_env example_suite32 [] [(15, 2)])"

lemma example_suite32_laws: "group_laws example_suite32" "encoding_laws example_suite32" "weights_drawn example_suite32" "point_len example_suite32 = 32"
proof -
  show "group_laws example_suite32" using example_laws by (simp add: group_laws_def example_suite32_def)
  show "encoding_laws example_suite32" by (simp add: encoding_laws_def example_suite32_def from_to_le_bytes)
  show "weights_drawn example_suite32"
    unfolding weights_drawn_def by (rule conjI, rule exI [of _ 64]) (simp_all add: example_suite32_def example_suite_def)
qed (simp add: example_suite32_def)

theorem commit_verifies_witness:
  "\<exists>sig agg. signer_sign example_env example_suite32 [] 5 (commit_msg 9 []) = Some sig \<and>
    validators_aggregate example_env example_suite32 example_validators [signer_id example_suite32 5] (commit_msg 9 []) [sig] = Some agg \<and>
    net_verify_commit example_env example_suite32 example_validators [] \<lparr>commit_end_time = 9, commit_validators = [signer_id example_suite32 5], commit_signature = agg\<rparr> = Some True"
proof -
  let ?C = example_suite32 and ?E = example_env and ?V = example_validators and ?v = "signer_id example_suite32 5"
  have V: "vals_genesis ?V = []" "vals_weights ?V = [(?v, 2)]" "vals_total_weight ?V = 2"
    by (simp_all add: example_validators_def validators_new_def Let_def signer_id_def example_suite32_def example_suite_def)
  obtain sig where sig: "signer_sign ?E ?C [] 5 (commit_msg 9 []) = Some sig"
    by (simp add: signer_sign_def Let_def challenge_def example_env_def example_suite32_def example_suite_def SchnorrSignature_serialize_def)
  have "validators_verify ?E ?C ?V ?v (commit_msg 9 []) sig = Some True"
    using signer_sign_verifies [OF example_suite32_laws(1,2,4), of ?E ?V 5 "commit_msg 9 []" sig] sig V by simp
  then show ?thesis using commit_verifies [OF example_suite32_laws, of "[?v]" "[sig]" ?E ?V 9 "[]"] sig V by (auto simp: validators_weight_def)
qed

section \<open>Proposers\<close>

lemma validators_loop_spec:
  assumes "validators_loop C vs tw ws t rob = Some (tw', ws', t', rob')"
  shows "tw' = tw + sum_list (map snd vs)" and "rob' = rob @ concat (map (\<lambda>(v, w). replicate (unat w) (point_to_bytes C v)) vs)"
  using assms by (induction C vs tw ws t rob rule: validators_loop.induct) (auto simp: Let_def add.assoc split: if_splits)

lemma count_list_replicate: "count_list (replicate n x) y = (if x = y then n else 0)"
  by (induction n) auto

lemma count_nth: "length (filter (\<lambda>j. xs ! j = b) [0..<length xs]) = count_list xs b"
proof (induction xs rule: rev_induct)
  case (snoc x xs)
  have "filter (\<lambda>j. (xs @ [x]) ! j = b) [0..<length xs] = filter (\<lambda>j. xs ! j = b) [0..<length xs]"
    by (rule filter_cong) (auto simp: nth_append)
  with snoc show ?case by (simp add: count_list_append)
qed simp

lemma count_robin:
  assumes "inj f" and "distinct (map fst vs)" and "(v, w) \<in> set vs"
  shows "count_list (concat (map (\<lambda>(v, w). replicate (unat w) (f v)) vs)) (f v) = unat (w :: u64)"
proof -
  have other: "count_list (concat (map (\<lambda>(v, w). replicate (unat w) (f v)) us)) (f v) = 0" if "v \<notin> fst ` set us" for us :: "('a \<times> u64) list"
    using that assms(1) by (induction us) (auto simp: count_list_append count_list_replicate inj_eq split: prod.splits)
  show ?thesis using assms(2,3)
  proof (induction vs)
    case (Cons u us)
    then show ?case using other [of us] assms(1) by (cases u) (auto simp: count_list_append count_list_replicate inj_eq image_iff)
  qed simp
qed

text \<open>
  C19: validators propose in proportion to their weight. Among the blocks of as many consecutive numbers
  as there is weight, every validator is the proposer of the first round of exactly as many as its
  weight, for any shuffle that permutes.
\<close>

theorem proposers_by_weight:
  assumes new: "validators_new E C gen vs = Some V" and laws: "encoding_laws C" and perm: "\<And>seed xs. mset (shuffle E seed xs) = mset xs"
    and vs: "distinct (map fst vs)" "(v, w) \<in> set vs" and fits: "unat start + sum_list (map (unat \<circ> snd) vs) < 2 ^ 64"
  shows "length (filter (\<lambda>j. validators_proposer V (start + of_nat j) 0 = Some (point_to_bytes C v)) [0..<unat (vals_total_weight V)]) = unat w"
proof -
  define n where "n = sum_list (map (unat \<circ> snd) vs)"
  let ?b = "point_to_bytes C v"
  define rob where "rob = concat (map (\<lambda>(v, w). replicate (unat w) (point_to_bytes C v)) vs)"
  obtain tw ws t rob' where loop: "validators_loop C vs 0 [] (transcript_new (ascii ''Round Robin Randomization'')) [] = Some (tw, ws, t, rob')"
    "vals_total_weight V = tw" "robin V = shuffle E (fst (rng_seed (recommended_hash E) (ascii ''robin'') t)) rob'"
    using new by (auto simp: validators_new_def split: option.splits)
  then obtain seed where V: "vals_total_weight V = sum_list (map snd vs)" "robin V = shuffle E seed rob"
    using validators_loop_spec [OF loop(1)] by (simp add: rob_def)
  have total: "unat (vals_total_weight V) = n" using fits unat_sum_list [of "map snd vs"] by (simp add: V n_def comp_def)
  have len: "length (robin V) = n" using mset_eq_length [OF perm, of seed rob]
    by (simp add: V rob_def n_def length_concat comp_def split_def)
  have "inj (point_to_bytes C)" using laws by (metis encoding_laws_def injI option.inject)
  then have count: "count_list (robin V) ?b = unat w"
    using count_robin [OF _ vs] perm [of seed rob] by (metis V(2) count_mset rob_def)
  have "validators_proposer V (start + of_nat j) 0 = Some (rotate (unat start) (robin V) ! j)" if "j < n" for j
    using that fits by (simp add: validators_proposer_def len Let_def nth_rotate unat_word_ariths unat_of_nat flip: n_def)
  then have "filter (\<lambda>j. validators_proposer V (start + of_nat j) 0 = Some ?b) [0..<n] = filter (\<lambda>j. rotate (unat start) (robin V) ! j = ?b) [0..<n]"
    by (intro filter_cong) auto
  moreover have "count_list (rotate k xs) ?b = count_list xs ?b" for k and xs :: "bytes list"
    by (metis add.commute append_take_drop_id count_list_append rotate_drop_take)
  ultimately show ?thesis using count len total count_nth [of "rotate (unat start) (robin V)" ?b] by simp
qed

theorem proposers_by_weight_witness:
  "\<exists>V. validators_new example_env example_suite32 [] [(15, 2), (3, 1)] = Some V \<and>
    length (filter (\<lambda>j. validators_proposer V (5 + of_nat j) 0 = Some (point_to_bytes example_suite32 15)) [0..<unat (vals_total_weight V)]) = 2"
proof -
  obtain V where V: "validators_new example_env example_suite32 [] [(15, 2), (3, 1)] = Some V" by (auto simp: validators_new_def Let_def)
  then show ?thesis
    using proposers_by_weight [OF V example_suite32_laws(2), of 15 2 5] by (simp add: example_env_def)
qed

section \<open>What peers make of a node's messages\<close>

text \<open>A node never waits for a transaction that was not provided: the loop of \<open>net_add_block\<close> runs once.\<close>

lemma verify_txs_local:
  "verify_txs c N cm ic True gain txs lo inc loc st = Some (Inl e) \<Longrightarrow> \<forall>h. e \<noteq> NonLocalProvided h"
proof (induction txs arbitrary: lo inc loc st)
  case (Cons tx txs)
  then show ?case
    by (cases tx; cases "kind_of c tx")
      (auto simp: check_provided_def split: Option.bind_splits sum.splits if_splits option.splits list.splits)
qed simp

lemma net_add_block_once: "net_add_block E c N V blk commit nd \<noteq> Some (Inl nd')"
proof
  assume "net_add_block E c N V blk commit nd = Some (Inl nd')"
  then obtain b h bc where "Tributary_Chain.add_block c N b (encode_Commit commit) (node_chain nd) = Some (bc, Inl (NonLocalProvided h))"
    by (auto simp: net_add_block_def Let_def split: Option.bind_splits if_splits sum.splits Tributary.BlockError.splits)
  then have "verify_block c N b True (node_chain nd) = Some (Inl (NonLocalProvided h))"
    by (auto simp: Tributary_Chain.add_block_def Let_def split: Option.bind_splits sum.splits)
  then show False by (auto simp: verify_block_def Block_verify_def dest: verify_txs_local split: Option.bind_splits if_splits sum.splits)
qed

text \<open>A transaction a node publishes is read back by its peers, who add it as their own.\<close>

lemma transaction_message_read:
  assumes "\<And>tx rest. app_read c (app_serialize c tx @ rest) = Some (tx, rest)"
  shows "tributary_handle_message E c N V (TRANSACTION_MESSAGE # Transaction_serialize c (Application tx)) nd =
    Option.bind (add_transaction c N False (Application tx) (node_chain nd)) (\<lambda>(bc, res). Some (nd\<lparr>node_chain := bc\<rparr>, res = Inr True))"
  using assms [of tx "[]"] by (simp add: tributary_handle_message_def Transaction_read_def read_exact_def TRANSACTION_MESSAGE_def)

text \<open>
  Evidence is published without the byte that says it is a Tendermint transaction, so peers read the
  byte of the evidence in its place: evidence of a future valid round is refused by all of them, and
  evidence of an invalid precommit is taken for a transaction of the application.
\<close>

lemma evidence_message_misread:
  assumes "net_slash c N (WithEvidence ev) nd = Some nd'" and "p2p_sent nd' \<noteq> p2p_sent nd"
  obtains m where "p2p_sent nd' = p2p_sent nd @ [m]"
    and "\<And>a. ev = InvalidValidRound a \<Longrightarrow> tributary_handle_message E c N V m peer = Some (peer, False)"
    and "\<And>a. ev = InvalidPrecommit a \<Longrightarrow> app_read c (encode_bytes a) = None \<Longrightarrow> tributary_handle_message E c N V m peer = Some (peer, False)"
proof
  show "p2p_sent nd' = p2p_sent nd @ [TRANSACTION_MESSAGE # TendermintTx_serialize (SlashEvidence ev)]"
    using assms by (auto simp: net_slash_def p2p_broadcast_def Let_def split: Option.bind_splits if_splits)
qed (auto simp: tributary_handle_message_def Transaction_read_def read_exact_def TRANSACTION_MESSAGE_def)

text \<open>A commit that names someone who is not a validator, with an aggregate that verifies for it, stops the nodes it is sent to.\<close>

lemma unknown_signer_panics:
  assumes "distinct (commit_validators commit)" and "v \<in> set (commit_validators commit)" "validators_weight V v = None"
    and "validators_verify_aggregate E C V (commit_validators commit) (commit_msg (commit_end_time commit) i) (commit_signature commit) = Some True"
  shows "net_verify_commit E C V i commit = None"
proof -
  have "those (map f xs) = None" if "x \<in> set xs" "f x = None" for f :: "bytes \<Rightarrow> u64 option" and x xs
    using that by (induction xs) (auto split: option.splits)
  then show ?thesis using assms by (simp add: net_verify_commit_def)
qed

end
