(* ===== verification/Scheduler.thy ===== *)
theory Scheduler
  imports Tributary_Chain
begin

text \<open>
  How the processor spends the outputs of a multisig (\<open>processor/src\<close>): payments and plans
  (\<open>plan.rs\<close>), the scheduler (\<open>multisigs/scheduler.rs\<close>), and the preparation of a plan's
  transaction, which charges the fee to the payments (\<open>networks/mod.rs\<close>). The external network is a
  record of its constants and codecs. Sums of amounts wrap as Rust's do; a panic and a loop that does
  not end are \<open>None\<close>.
\<close>

section \<open>Outputs, payments and plans (\<open>networks/mod.rs\<close>, \<open>plan.rs\<close>)\<close>

datatype OutputType = External | Branch | Change | Forwarded

fun OutputType_write :: "OutputType \<Rightarrow> bytes" where
  "OutputType_write External = [0]"
| "OutputType_write Branch = [1]"
| "OutputType_write Change = [2]"
| "OutputType_write Forwarded = [3]"

definition OutputType_read :: "OutputType reader" where
  "OutputType_read bs = Option.bind (read_exact 1 bs) (\<lambda>(b, rest).
     if b = [0] then Some (External, rest) else if b = [1] then Some (Branch, rest)
     else if b = [2] then Some (Change, rest) else if b = [3] then Some (Forwarded, rest) else None)"

record ('a, 'g, 'o) proc_network =
  NETWORK_NAME :: bytes
  MAX_INPUTS :: nat
  MAX_OUTPUTS :: nat
  DUST :: u64
  branch_address :: "'g \<Rightarrow> 'a"
  change_address :: "'g \<Rightarrow> 'a"
  output_kind :: "'o \<Rightarrow> OutputType"
  output_id :: "'o \<Rightarrow> bytes"
  output_balance :: "'o \<Rightarrow> Balance"
  output_write :: "'o \<Rightarrow> bytes"
  output_read :: "'o reader"
  address_to_vec :: "'a \<Rightarrow> bytes option"
  address_from_vec :: "bytes \<Rightarrow> 'a option"
  address_to_string :: "'a \<Rightarrow> bytes"
  key_to_bytes :: "'g \<Rightarrow> bytes"
  key_read :: "'g reader"
  plan_digest :: "bytes \<Rightarrow> bytes"

record 'a Payment =
  pay_address :: 'a
  pay_data :: "bytes option"
  pay_balance :: Balance

record ('a, 'g, 'o) Plan =
  plan_key :: 'g
  plan_inputs :: "'o list"
  plan_payments :: "'a Payment list"
  plan_change :: "'a option"

abbreviation pay_amount :: "'a Payment \<Rightarrow> u64" where
  "pay_amount p \<equiv> bal_amount (pay_balance p)"

abbreviation out_amount :: "('a, 'g, 'o) proc_network \<Rightarrow> 'o \<Rightarrow> u64" where
  "out_amount N u \<equiv> bal_amount (output_balance N u)"

definition payment_amounts :: "'a Payment list \<Rightarrow> u64" where
  "payment_amounts ps = sum_list (map pay_amount ps)"

text \<open>A length as four bytes; more than that panics.\<close>

definition write_len :: "nat \<Rightarrow> bytes option" where
  "write_len n = (if n < 2 ^ 32 then Some (to_le_bytes (of_nat n :: u32)) else None)"

definition Payment_transcript :: "('a, 'g, 'o) proc_network \<Rightarrow> 'a Payment \<Rightarrow> transcript \<Rightarrow> transcript" where
  "Payment_transcript N p t =
     (let t = domain_separate (ascii ''payment'') t;
          t = append_message (ascii ''address'') (address_to_string N (pay_address p)) t;
          t = (case pay_data p of None \<Rightarrow> t | Some d \<Rightarrow> append_message (ascii ''data'') d t);
          t = append_message (ascii ''coin'') (encode_Coin (bal_coin (pay_balance p))) t
      in append_message (ascii ''amount'') (to_le_bytes (pay_amount p)) t)"

definition Payment_write :: "('a, 'g, 'o) proc_network \<Rightarrow> 'a Payment \<Rightarrow> bytes option" where
  "Payment_write N p =
     Option.bind (address_to_vec N (pay_address p)) (\<lambda>address. Option.bind (write_len (length address)) (\<lambda>len.
     Option.bind (case pay_data p of
         None \<Rightarrow> Some [0]
       | Some d \<Rightarrow> map_option (\<lambda>l. 1 # l @ d) (write_len (length d))) (\<lambda>data.
     Some (len @ address @ data @ encode_Balance (pay_balance p)))))"

definition read_vec :: "bytes reader" where
  "read_vec bs = Option.bind (read_u32_le bs) (\<lambda>(n, rest). read_exact (unat n) rest)"

definition Balance_decode :: "Balance reader" where
  "Balance_decode bs = Option.bind (read_exact 1 bs) (\<lambda>(tag, rest). Option.bind (read_u64_le rest) (\<lambda>(amount, rest).
     Option.bind (find (\<lambda>coin. encode_Coin coin = tag) [Coin.Serai, Coin.Bitcoin, Coin.Ether, Coin.Dai, Coin.Monero]) (\<lambda>coin.
     Some (\<lparr>bal_coin = coin, bal_amount = amount\<rparr>, rest))))"

definition Payment_read :: "('a, 'g, 'o) proc_network \<Rightarrow> 'a Payment reader" where
  "Payment_read N bs =
     Option.bind (read_vec bs) (\<lambda>(address, rest). Option.bind (address_from_vec N address) (\<lambda>address.
     Option.bind (read_exact 1 rest) (\<lambda>(some, rest).
     Option.bind (if some = [1] then map_option (\<lambda>(d, rest). (Some d, rest)) (read_vec rest) else Some (None, rest)) (\<lambda>(d, rest).
     Option.bind (Balance_decode rest) (\<lambda>(b, rest).
     Some (\<lparr>pay_address = address, pay_data = d, pay_balance = b\<rparr>, rest))))))"

definition Plan_transcript :: "('a, 'g, 'o) proc_network \<Rightarrow> ('a, 'g, 'o) Plan \<Rightarrow> transcript" where
  "Plan_transcript N plan =
     (let t = transcript_new (ascii ''Serai Processor Plan ID'');
          t = domain_separate (ascii ''meta'') t;
          t = append_message (ascii ''network'') (NETWORK_NAME N) t;
          t = append_message (ascii ''key'') (key_to_bytes N (plan_key plan)) t;
          t = domain_separate (ascii ''inputs'') t;
          t = fold (\<lambda>i. append_message (ascii ''input'') (output_id N i)) (plan_inputs plan) t;
          t = domain_separate (ascii ''payments'') t;
          t = fold (Payment_transcript N) (plan_payments plan) t
      in case plan_change plan of None \<Rightarrow> t | Some a \<Rightarrow> append_message (ascii ''change'') (address_to_string N a) t)"

definition Plan_id :: "('a, 'g, 'o) proc_network \<Rightarrow> ('a, 'g, 'o) Plan \<Rightarrow> bytes" where
  "Plan_id N plan = take 32 (fst (challenge (plan_digest N) (ascii ''id'') (Plan_transcript N plan)))"

fun write_all :: "('x \<Rightarrow> bytes option) \<Rightarrow> 'x list \<Rightarrow> bytes option" where
  "write_all w [] = Some []"
| "write_all w (x # xs) = Option.bind (w x) (\<lambda>b. map_option (\<lambda>bs. b @ bs) (write_all w xs))"

definition write_list :: "('x \<Rightarrow> bytes option) \<Rightarrow> 'x list \<Rightarrow> bytes option" where
  "write_list w xs = Option.bind (write_len (length xs)) (\<lambda>len. map_option (\<lambda>bs. len @ bs) (write_all w xs))"

fun read_times :: "'x reader \<Rightarrow> nat \<Rightarrow> 'x list reader" where
  "read_times r 0 bs = Some ([], bs)"
| "read_times r (Suc n) bs = Option.bind (r bs) (\<lambda>(x, rest). Option.bind (read_times r n rest) (\<lambda>(xs, rest). Some (x # xs, rest)))"

definition read_list :: "'x reader \<Rightarrow> 'x list reader" where
  "read_list r bs = Option.bind (read_u32_le bs) (\<lambda>(n, rest). read_times r (unat n) rest)"

definition Plan_write :: "('a, 'g, 'o) proc_network \<Rightarrow> ('a, 'g, 'o) Plan \<Rightarrow> bytes option" where
  "Plan_write N plan =
     Option.bind (write_list (\<lambda>o'. Some (output_write N o')) (plan_inputs plan)) (\<lambda>ins.
     Option.bind (write_list (Payment_write N) (plan_payments plan)) (\<lambda>pays.
     Option.bind (case plan_change plan of None \<Rightarrow> Some [] | Some a \<Rightarrow> address_to_vec N a) (\<lambda>ch.
     if length ch < 256 then Some (key_to_bytes N (plan_key plan) @ ins @ pays @ [of_nat (length ch)] @ ch) else None)))"

definition Plan_read :: "('a, 'g, 'o) proc_network \<Rightarrow> ('a, 'g, 'o) Plan reader" where
  "Plan_read N bs =
     Option.bind (key_read N bs) (\<lambda>(k, rest). Option.bind (read_list (output_read N) rest) (\<lambda>(ins, rest).
     Option.bind (read_list (Payment_read N) rest) (\<lambda>(pays, rest). Option.bind (read_exact 1 rest) (\<lambda>(len, rest).
     Option.bind (read_exact (unat (hd len)) rest) (\<lambda>(ch, rest).
     Option.bind (if ch = [] then Some None else map_option Some (address_from_vec N ch)) (\<lambda>ch.
     Some (\<lparr>plan_key = k, plan_inputs = ins, plan_payments = pays, plan_change = ch\<rparr>, rest)))))))"

section \<open>The scheduler (\<open>multisigs/scheduler.rs\<close>)\<close>

type_synonym 'a plan_queue = "(u64 \<times> 'a Payment list list) list"

record ('a, 'g, 'o) Scheduler =
  sch_key :: 'g
  sch_coin :: Coin
  queued_plans :: "'a plan_queue"
  plans :: "'a plan_queue"
  utxos :: "'o list"
  payments :: "'a Payment list"

definition scheduler_key :: "('a, 'g, 'o) proc_network \<Rightarrow> 'g \<Rightarrow> bytes" where
  "scheduler_key N k = lit_key (ascii ''SCHEDULER'') (ascii ''scheduler'') (key_to_bytes N k)"

definition scheduler_empty :: "('a, 'g, 'o) Scheduler \<Rightarrow> bool" where
  "scheduler_empty s \<longleftrightarrow> queued_plans s = [] \<and> plans s = [] \<and> utxos s = [] \<and> payments s = []"

definition read_plans :: "('a, 'g, 'o) proc_network \<Rightarrow> 'a plan_queue reader" where
  "read_plans N bs =
     map_option (\<lambda>(entries, rest). (fold (\<lambda>(amount, ps). AList.update amount ps) entries [], rest))
       (read_list (\<lambda>bs. Option.bind (read_u64_le bs) (\<lambda>(amount, rest).
          map_option (\<lambda>(ps, rest). ((amount, ps), rest)) (read_list (read_list (Payment_read N)) rest))) bs)"

definition scheduler_read :: "('a, 'g, 'o) proc_network \<Rightarrow> 'g \<Rightarrow> Coin \<Rightarrow> ('a, 'g, 'o) Scheduler reader" where
  "scheduler_read N k coin bs =
     Option.bind (read_plans N bs) (\<lambda>(queued, rest). Option.bind (read_plans N rest) (\<lambda>(pls, rest).
     Option.bind (read_list (output_read N) rest) (\<lambda>(outs, rest). Option.bind (read_list (Payment_read N) rest) (\<lambda>(pays, rest).
     Some (\<lparr>sch_key = k, sch_coin = coin, queued_plans = queued, plans = pls, utxos = outs, payments = pays\<rparr>, rest)))))"

definition write_plans :: "('a, 'g, 'o) proc_network \<Rightarrow> 'a plan_queue \<Rightarrow> bytes option" where
  "write_plans N q = write_list (\<lambda>(amount, ps). map_option (\<lambda>bs. to_le_bytes amount @ bs) (write_list (write_list (Payment_write N)) ps)) q"

definition scheduler_serialize :: "('a, 'g, 'o) proc_network \<Rightarrow> ('a, 'g, 'o) Scheduler \<Rightarrow> bytes option" where
  "scheduler_serialize N s =
     Option.bind (write_plans N (queued_plans s)) (\<lambda>queued. Option.bind (write_plans N (plans s)) (\<lambda>pls.
     Option.bind (write_list (\<lambda>o'. Some (output_write N o')) (utxos s)) (\<lambda>outs. Option.bind (write_list (Payment_write N) (payments s)) (\<lambda>pays.
     Some (queued @ pls @ outs @ pays)))))"

definition scheduler_save :: "('a, 'g, 'o) proc_network \<Rightarrow> ('a, 'g, 'o) Scheduler \<Rightarrow> db \<Rightarrow> db option" where
  "scheduler_save N s txn = map_option (\<lambda>bs. txn(scheduler_key N (sch_key s) \<mapsto> bs)) (scheduler_serialize N s)"

definition scheduler_new :: "('a, 'g, 'o) proc_network \<Rightarrow> 'g \<Rightarrow> Coin \<Rightarrow> db \<Rightarrow> (('a, 'g, 'o) Scheduler \<times> db) option" where
  "scheduler_new N k coin txn =
     (let s = \<lparr>sch_key = k, sch_coin = coin, queued_plans = [], plans = [], utxos = [], payments = []\<rparr>
      in map_option (\<lambda>txn. (s, txn)) (scheduler_save N s txn))"

text \<open>Loading panics when nothing was saved; \<open>Some None\<close> when what was saved cannot be read.\<close>

definition scheduler_from_db :: "('a, 'g, 'o) proc_network \<Rightarrow> db \<Rightarrow> 'g \<Rightarrow> Coin \<Rightarrow> ('a, 'g, 'o) Scheduler option option" where
  "scheduler_from_db N d k coin = map_option (\<lambda>bs. map_option fst (scheduler_read N k coin bs)) (d (scheduler_key N k))"

definition can_use_branch :: "('a, 'g, 'o) Scheduler \<Rightarrow> Balance \<Rightarrow> bool option" where
  "can_use_branch s b = (if bal_coin b \<noteq> sch_coin s then None else Some (map_of (plans s) (bal_amount b) \<noteq> None))"

definition push_plan :: "u64 \<Rightarrow> 'a Payment list \<Rightarrow> 'a plan_queue \<Rightarrow> 'a plan_queue" where
  "push_plan amount ps q = AList.update amount ((case map_of q amount of None \<Rightarrow> [] | Some qs \<Rightarrow> qs) @ [ps]) q"

text \<open>The loop that moves payments into branches, with at most \<open>mx\<close> payments in the plan.\<close>

partial_function (option) branch_loop :: "('a, 'g, 'o) proc_network \<Rightarrow> nat \<Rightarrow> 'a \<Rightarrow> Coin \<Rightarrow> 'a plan_queue \<Rightarrow> 'a Payment list \<Rightarrow>
    ('a plan_queue \<times> 'a Payment list) option" where
  "branch_loop N mx addr coin queued pays =
     (if length pays > mx then
        let to_remove = min (length pays + 1 - MAX_OUTPUTS N) (MAX_OUTPUTS N);
            removed = drop (length pays - to_remove) pays;
            amount = payment_amounts removed
        in branch_loop N mx addr coin (push_plan amount removed queued)
             (\<lparr>pay_address = addr, pay_data = None, pay_balance = \<lparr>bal_coin = coin, bal_amount = amount\<rparr>\<rparr> # take (length pays - to_remove) pays)
      else Some (queued, pays))"

declare branch_loop.simps [code]

definition execute :: "('a, 'g, 'o) proc_network \<Rightarrow> 'o list \<Rightarrow> 'a Payment list \<Rightarrow> 'g \<Rightarrow> ('a, 'g, 'o) Scheduler \<Rightarrow>
    (('a, 'g, 'o) Scheduler \<times> ('a, 'g, 'o) Plan) option" where
  "execute N ins pays key_for_any_change s =
     (let ch = (sum_list (map (out_amount N) ins) \<noteq> payment_amounts pays);
          mx = (if ch then MAX_OUTPUTS N - 1 else MAX_OUTPUTS N)
      in Option.bind (branch_loop N mx (branch_address N (sch_key s)) (sch_coin s) (queued_plans s) pays) (\<lambda>(queued, pays).
         Some (s\<lparr>queued_plans := queued\<rparr>,
           \<lparr>plan_key = sch_key s, plan_inputs = ins, plan_payments = pays,
            plan_change = (if ch then Some (change_address N key_for_any_change) else None)\<rparr>)))"

fun add_outputs :: "('a, 'g, 'o) proc_network \<Rightarrow> 'o list \<Rightarrow> 'g \<Rightarrow> ('a, 'g, 'o) Scheduler \<Rightarrow>
    (('a, 'g, 'o) Scheduler \<times> ('a, 'g, 'o) Plan list) option" where
  "add_outputs N [] k s = Some (s, [])"
| "add_outputs N (u # us) k s =
     (case (if output_kind N u = Branch then map_of (plans s) (out_amount N u) else None) of
        Some [] \<Rightarrow> None
      | Some (pays # rest) \<Rightarrow>
          if \<not> out_amount N u \<ge> payment_amounts pays then None
          else Option.bind (execute N [u] pays k (s\<lparr>plans := (if rest = [] then AList.delete (out_amount N u) (plans s)
              else AList.update (out_amount N u) rest (plans s))\<rparr>)) (\<lambda>(s, tx).
            map_option (\<lambda>(s, txs). (s, tx # txs)) (add_outputs N us k s))
      | None \<Rightarrow> add_outputs N us k (s\<lparr>utxos := utxos s @ [u]\<rparr>))"

function chunks :: "nat \<Rightarrow> 'x list \<Rightarrow> 'x list list" where
  "chunks n xs = (if n = 0 \<or> xs = [] then [] else take n xs # chunks n (drop n xs))"
  by pat_completeness auto
termination
  by (relation "measure (\<lambda>(n, xs). length xs)") auto

declare chunks.simps [simp del]

text \<open>The payments the balance covers, up to the first it does not.\<close>

fun take_payments :: "u64 \<Rightarrow> 'a Payment list \<Rightarrow> 'a Payment list \<times> 'a Payment list" where
  "take_payments bal [] = ([], [])"
| "take_payments bal (p # ps) = (if pay_amount p \<le> bal then map_prod ((#) p) id (take_payments (bal - pay_amount p) ps) else ([], p # ps))"

definition aggregate_plan :: "('a, 'g, 'o) proc_network \<Rightarrow> 'g \<Rightarrow> 'g \<Rightarrow> 'o list \<Rightarrow> ('a, 'g, 'o) Plan" where
  "aggregate_plan N k key_for_any_change ins =
     \<lparr>plan_key = k, plan_inputs = ins, plan_payments = [], plan_change = Some (change_address N key_for_any_change)\<rparr>"

text \<open>The last chunk is restored when it has a single output; the first is the one to spend.\<close>

definition split_chunks :: "'o list list \<Rightarrow> 'o list list \<times> 'o option" where
  "split_chunks cs = (if cs \<noteq> [] \<and> length (last cs) = 1 then (butlast cs, Some (hd (last cs))) else (cs, None))"

definition schedule :: "('a, 'g, 'o) proc_network \<Rightarrow> 'o list \<Rightarrow> 'a Payment list \<Rightarrow> 'g \<Rightarrow> bool \<Rightarrow> ('a, 'g, 'o) Scheduler \<Rightarrow> db \<Rightarrow>
    (('a, 'g, 'o) Scheduler \<times> db \<times> ('a, 'g, 'o) Plan list) option" where
  "schedule N new_utxos new_payments key_for_any_change force_spend s txn =
     (if \<not> list_all (\<lambda>u. bal_coin (output_balance N u) = sch_coin s) new_utxos \<or> \<not> list_all (\<lambda>p. bal_coin (pay_balance p) = sch_coin s) new_payments
      then None
      else let new_payments = filter (\<lambda>p. pay_address p \<noteq> branch_address N (sch_key s)) new_payments in
        Option.bind (add_outputs N new_utxos key_for_any_change s) (\<lambda>(s, pls).
        let s = s\<lparr>payments := payments s @ new_payments\<rparr> in
        if utxos s = [] then Some (s, txn, pls)
        else if MAX_INPUTS N = 0 then None
        else
          let cs = chunks (MAX_INPUTS N) (sort_key (\<lambda>u. - uint (out_amount N u)) (utxos s));
              s = s\<lparr>utxos := []\<rparr>;
              (aggs, to_restore) = split_chunks (tl cs);
              pls = pls @ map (aggregate_plan N (sch_key s) key_for_any_change) aggs;
              (executing, waiting) = take_payments (sum_list (map (out_amount N) (hd cs))) (payments s);
              s = s\<lparr>payments := waiting\<rparr>
          in Option.bind (if executing \<noteq> []
               then map_option (\<lambda>(s, plan). (s, pls @ [plan])) (execute N (hd cs) executing key_for_any_change s)
               else Some (s\<lparr>utxos := hd cs\<rparr>, pls)) (\<lambda>(s, pls).
             if force_spend \<and> utxos s \<noteq> [] \<and> \<not> length (utxos s) \<le> MAX_INPUTS N then None
             else
               let (s, pls) = (if force_spend \<and> utxos s \<noteq> []
                     then (s\<lparr>utxos := []\<rparr>, pls @ [aggregate_plan N (sch_key s) key_for_any_change (utxos s)]) else (s, pls));
                   s = (case to_restore of None \<Rightarrow> s | Some u \<Rightarrow> s\<lparr>utxos := utxos s @ [u]\<rparr>)
               in map_option (\<lambda>txn. (s, txn, pls)) (scheduler_save N s txn))))"

definition consume_payments :: "('a, 'g, 'o) proc_network \<Rightarrow> ('a, 'g, 'o) Scheduler \<Rightarrow> db \<Rightarrow> (('a, 'g, 'o) Scheduler \<times> db \<times> 'a Payment list) option" where
  "consume_payments N s txn =
     (let res = payments s; s = s\<lparr>payments := []\<rparr>
      in if res = [] then Some (s, txn, res) else map_option (\<lambda>txn. (s, txn, res)) (scheduler_save N s txn))"

text \<open>Charging an amount to payments: a pass over all of them, repeated until all of it is charged.\<close>

fun amortize_round :: "u64 \<Rightarrow> u64 \<Rightarrow> 'a Payment list \<Rightarrow> u64 \<Rightarrow> 'a Payment list \<times> u64" where
  "amortize_round per overage [] left = ([], left)"
| "amortize_round per overage (p # ps) left =
     (let subtractable = min (pay_amount p) (per + overage)
      in map_prod ((#) (p\<lparr>pay_balance := (pay_balance p)\<lparr>bal_amount := pay_amount p - subtractable\<rparr>\<rparr>)) id
           (amortize_round per 0 ps (left - subtractable)))"

partial_function (option) amortize :: "'a Payment list \<Rightarrow> u64 \<Rightarrow> 'a Payment list option" where
  "amortize pays left =
     (if left = 0 then Some pays
      else if pays = [] then None
      else let n = of_nat (length pays); (pays', left') = amortize_round (left div n) (left mod n) pays left in amortize pays' left')"

declare amortize.simps [code]

definition created_output :: "('a, 'g, 'o) proc_network \<Rightarrow> u64 \<Rightarrow> u64 option \<Rightarrow> ('a, 'g, 'o) Scheduler \<Rightarrow> db \<Rightarrow> (('a, 'g, 'o) Scheduler \<times> db) option" where
  "created_output N expected actual s txn = (case map_of (queued_plans s) expected of
       Some (pays # rest) \<Rightarrow>
         if expected \<noteq> payment_amounts pays then None
         else
           let s = s\<lparr>queued_plans := (if rest = [] then AList.delete expected (queued_plans s) else AList.update expected rest (queued_plans s))\<rparr> in
           (case actual of
              None \<Rightarrow> Some (s, txn)
            | Some actual \<Rightarrow>
                let to_amortize = actual - expected in
                if payment_amounts pays < to_amortize then Some (s, txn)
                else Option.bind (amortize pays to_amortize) (\<lambda>pays.
                  let pays = filter (\<lambda>p. pay_amount p \<ge> DUST N) pays in
                  if \<not> actual \<ge> payment_amounts pays then None
                  else if pays = [] then Some (s, txn)
                  else let s = s\<lparr>plans := push_plan actual pays (plans s)\<rparr> in map_option (\<lambda>txn. (s, txn)) (scheduler_save N s txn)))
     | _ \<Rightarrow> None)"

section \<open>Preparing a transaction (\<open>networks/mod.rs\<close>)\<close>

record PostFeeBranch =
  pfb_expected :: u64
  pfb_actual :: "u64 option"

definition drop_branches :: "('a, 'g, 'o) proc_network \<Rightarrow> 'g \<Rightarrow> 'a Payment list \<Rightarrow> PostFeeBranch list" where
  "drop_branches N k pays = map (\<lambda>p. \<lparr>pfb_expected = pay_amount p, pfb_actual = None\<rparr>) (filter (\<lambda>p. pay_address p = branch_address N k) pays)"

record 'tx PreparedSend =
  ps_tx :: "'tx option"
  post_fee_branches :: "PostFeeBranch list"
  ps_operating_costs :: u64

definition set_amount :: "u64 \<Rightarrow> 'a Payment \<Rightarrow> 'a Payment" where
  "set_amount a p = p\<lparr>pay_balance := (pay_balance p)\<lparr>bal_amount := a\<rparr>\<rparr>"

text \<open>The fee charged to the payments: the payments left, the branches and the operating costs.\<close>

definition amortize_fee :: "('a, 'g, 'o) proc_network \<Rightarrow> 'g \<Rightarrow> 'a Payment list \<Rightarrow> bool \<Rightarrow> u64 \<Rightarrow> u64 \<Rightarrow> ('a Payment list \<times> PostFeeBranch list \<times> u64) option" where
  "amortize_fee N k pays has_change tx_fee operating_costs =
     (let total_fee = tx_fee + (if has_change then operating_costs else 0);
          original_outputs = payment_amounts pays
      in if original_outputs < total_fee
         then Some (pays, drop_branches N k pays,
           if has_change then saturating_sub (operating_costs + tx_fee) original_outputs else operating_costs)
         else Option.bind (amortize pays total_fee) (\<lambda>charged.
           let dusted = map (\<lambda>p. if pay_amount p < DUST N then set_amount 0 p else p) charged;
               branches = map (\<lambda>(a, p). \<lparr>pfb_expected = a, pfb_actual = (if pay_amount p = 0 then None else Some (pay_amount p))\<rparr>)
                 (filter (\<lambda>(_, p). pay_address p = branch_address N k) (zip (map pay_amount pays) dusted));
               left = filter (\<lambda>p. pay_amount p \<noteq> 0) dusted
           in if \<not> payment_amounts left + total_fee \<le> original_outputs then None
              else Some (left, branches, if has_change then 0 else operating_costs)))"

text \<open>
  The answers of the external network are arguments: the fee that is needed, and the transaction for
  the payments left, which the code expects to exist. \<open>Inl\<close> is the error of the connection.
\<close>

definition prepare_send :: "('a, 'g, 'o) proc_network \<Rightarrow> (bytes \<Rightarrow> 'e + u64 option) \<Rightarrow> (bytes \<Rightarrow> 'a Payment list \<Rightarrow> 'e + 'tx option) \<Rightarrow>
    ('a, 'g, 'o) Plan \<Rightarrow> u64 \<Rightarrow> ('e + 'tx PreparedSend) option" where
  "prepare_send N needed_fee signable_transaction plan operating_costs =
     (if plan_payments plan = [] \<and> plan_change plan = None then None
      else
        let i = Plan_id N plan; pays = plan_payments plan; has_change = (plan_change plan \<noteq> None);
            ins = sum_list (map (out_amount N) (plan_inputs plan));
            theoretical_change_amount = ins - payment_amounts pays
        in case needed_fee i of
             Inl e \<Rightarrow> Some (Inl e)
           | Inr None \<Rightarrow> Some (Inr \<lparr>ps_tx = None, post_fee_branches = drop_branches N (plan_key plan) pays,
               ps_operating_costs = operating_costs + (if has_change then theoretical_change_amount else 0)\<rparr>)
           | Inr (Some tx_fee) \<Rightarrow>
               Option.bind (amortize_fee N (plan_key plan) pays has_change tx_fee operating_costs) (\<lambda>(pays, branches, costs).
               case signable_transaction i pays of
                 Inl e \<Rightarrow> Some (Inl e)
               | Inr None \<Rightarrow> None
               | Inr (Some tx) \<Rightarrow>
                   Some (Inr \<lparr>ps_tx = Some tx, post_fee_branches = branches,
                     ps_operating_costs = (if has_change \<and> ins - payment_amounts pays - tx_fee < DUST N then costs + theoretical_change_amount else costs)\<rparr>)))"

text \<open>The eventualities that say a plan was completed.\<close>

record 'e EventualitiesTracker =
  ev_map :: "(bytes \<times> bytes \<times> 'e) list"
  ev_block_number :: u64

definition eventualities_new :: "'e EventualitiesTracker" where
  "eventualities_new = \<lparr>ev_map = [], ev_block_number = - 1\<rparr>"

definition eventualities_register :: "('e \<Rightarrow> bytes) \<Rightarrow> u64 \<Rightarrow> bytes \<Rightarrow> 'e \<Rightarrow> 'e EventualitiesTracker \<Rightarrow> 'e EventualitiesTracker option" where
  "eventualities_register lookup block_num i e t =
     (if map_of (ev_map t) (lookup e) \<noteq> None then None
      else Some (t\<lparr>ev_map := AList.update (lookup e) (i, e) (ev_map t), ev_block_number := min (ev_block_number t) block_num\<rparr>))"

definition eventualities_drop :: "bytes \<Rightarrow> 'e EventualitiesTracker \<Rightarrow> 'e EventualitiesTracker" where
  "eventualities_drop i t = (case find (\<lambda>(_, j, _). j = i) (ev_map t) of
     None \<Rightarrow> t | Some (k, _) \<Rightarrow> t\<lparr>ev_map := AList.delete k (ev_map t)\<rparr>)"

end
