(* ===== verification/Scheduler_Props.thy ===== *)
theory Scheduler_Props
  imports Scheduler "HOL-Library.Multiset"
begin

text \<open>
  Properties of the scheduler: what it spends and pays is conserved and within the limits of a
  transaction, when planning ends, what becomes of payments under a branch once fees are paid, and
  when charging a fee does not end.
\<close>

section \<open>Branches\<close>

text \<open>The payments that leave the multisig, and all payments of a queue.\<close>

definition leaves :: "'a \<Rightarrow> 'a Payment list \<Rightarrow> 'a Payment list" where
  "leaves addr ps = filter (\<lambda>p. pay_address p \<noteq> addr) ps"

definition all_plans :: "'a plan_queue \<Rightarrow> 'a Payment list" where
  "all_plans q = concat (concat (map snd q))"

lemma leaves_simps [simp]: "leaves addr [] = []" "leaves addr (ps @ qs) = leaves addr ps @ leaves addr qs"
  "leaves addr (p # ps) = (if pay_address p = addr then leaves addr ps else p # leaves addr ps)"
  by (simp_all add: leaves_def)

lemma all_plans_Cons [simp]: "all_plans [] = []" "all_plans ((a, ps) # q) = concat ps @ all_plans q"
  by (simp_all add: all_plans_def)

lemma mset_push_plan: "mset (leaves addr (all_plans (push_plan a ps q))) = mset (leaves addr (all_plans q)) + mset (leaves addr ps)"
proof (induction q)
  case (Cons e q)
  then show ?case by (cases e) (auto simp: push_plan_def split: option.splits)
qed (simp add: push_plan_def)

lemma mset_leaves_split: "mset (leaves addr (take n ps)) + mset (leaves addr (drop n ps)) = mset (leaves addr ps)"
  by (metis append_take_drop_id leaves_simps(2) mset_append)

lemma payment_amounts_simps [simp]: "payment_amounts [] = 0" "payment_amounts (p # ps) = pay_amount p + payment_amounts ps"
  "payment_amounts (ps @ qs) = payment_amounts ps + payment_amounts qs"
  by (simp_all add: payment_amounts_def)

lemma payment_amounts_split: "payment_amounts (drop n ps) + payment_amounts (take n ps) = payment_amounts ps"
  by (metis add.commute append_take_drop_id payment_amounts_simps(3))

lemma branch_loop_spec:
  assumes "branch_loop N mx addr coin queued pays = Some (queued', pays')"
  shows "length pays' \<le> mx \<and> payment_amounts pays' = payment_amounts pays \<and>
    mset (leaves addr pays') + mset (leaves addr (all_plans queued')) = mset (leaves addr pays) + mset (leaves addr (all_plans queued))"
proof -
  define P where "P = (\<lambda>mx addr queued pays (r :: 'a plan_queue \<times> 'a Payment list). length (snd r) \<le> mx \<and> payment_amounts (snd r) = payment_amounts pays \<and>
    mset (leaves addr (snd r)) + mset (leaves addr (all_plans (fst r))) = mset (leaves addr pays) + mset (leaves addr (all_plans queued)))"
  have "P mx addr queued pays (queued', pays')"
  proof (rule branch_loop.raw_induct [where P = "\<lambda>N mx addr coin queued pays r. P mx addr queued pays r", OF _ assms], goal_cases)
    case (1 loop N mx addr coin queued pays r)
    show ?case
    proof (cases "length pays > mx")
      case True
      let ?n = "length pays - min (length pays + 1 - MAX_OUTPUTS N) (MAX_OUTPUTS N)"
      from 1(2) True have "P mx addr (push_plan (payment_amounts (drop ?n pays)) (drop ?n pays) queued)
          (\<lparr>pay_address = addr, pay_data = None, pay_balance = \<lparr>bal_coin = coin, bal_amount = payment_amounts (drop ?n pays)\<rparr>\<rparr> # take ?n pays) r"
        by (intro 1(1)) (simp add: Let_def)
      then show ?thesis using mset_leaves_split [of addr ?n pays] payment_amounts_split [of ?n pays]
        by (simp add: P_def mset_push_plan)
    next
      case False
      with 1(2) show ?thesis by (auto simp: P_def)
    qed
  qed
  then show ?thesis by (simp add: P_def)
qed

lemma branch_loop_ends:
  assumes "2 \<le> MAX_OUTPUTS N"
  shows "\<exists>r. branch_loop N (MAX_OUTPUTS N) addr coin queued pays = Some r"
proof (induction "length pays" arbitrary: queued pays rule: less_induct)
  case less
  show ?case
  proof (cases "length pays > MAX_OUTPUTS N")
    case True
    then show ?thesis using assms less.hyps by (subst branch_loop.simps) (simp add: Let_def)
  qed (subst branch_loop.simps, simp)
qed

lemma branch_loop_never_ends:
  assumes "Suc mx = MAX_OUTPUTS N" and "MAX_OUTPUTS N \<le> length pays"
  shows "branch_loop N mx addr coin queued pays = None"
proof (rule ccontr)
  assume "branch_loop N mx addr coin queued pays \<noteq> None"
  then obtain r where r: "branch_loop N mx addr coin queued pays = Some r" by blast
  have "\<not> (Suc mx = MAX_OUTPUTS N \<and> MAX_OUTPUTS N \<le> length pays)"
  proof (rule branch_loop.raw_induct [where P = "\<lambda>N mx addr coin queued pays r. \<not> (Suc mx = MAX_OUTPUTS N \<and> MAX_OUTPUTS N \<le> length pays)", OF _ r], goal_cases)
    case (1 loop N mx addr coin queued pays r)
    show ?case
    proof
      assume bad: "Suc mx = MAX_OUTPUTS N \<and> MAX_OUTPUTS N \<le> length pays"
      define rm where "rm = min (length pays + 1 - MAX_OUTPUTS N) (MAX_OUTPUTS N)"
      have "rm + MAX_OUTPUTS N \<le> length pays + 1" using bad by (auto simp: rm_def min_def)
      then have len: "MAX_OUTPUTS N \<le> Suc (length pays - rm)" by simp
      have more: "length pays > mx" using bad by simp
      from 1(2) [unfolded if_P [OF more] Let_def, folded rm_def] show False by (rule 1(1) [THEN notE]) (use bad len in simp)
    qed
  qed
  with assms show False by blast
qed

text \<open>
  C39: when planning a transaction ends. A transaction with change has room for one output less, yet
  the payments moved into a branch are counted for one without: planning ends exactly when no
  change is due or there are fewer payments than outputs. With change and as many payments as
  outputs, it moves a payment into a branch and adds a payment for the branch forever.
\<close>

theorem execute_returns_iff:
  assumes "2 \<le> MAX_OUTPUTS N"
  shows "execute N ins pays k s \<noteq> None \<longleftrightarrow> sum_list (map (out_amount N) ins) = payment_amounts pays \<or> length pays < MAX_OUTPUTS N"
proof (cases "sum_list (map (out_amount N) ins) = payment_amounts pays")
  case True
  obtain q ps where "branch_loop N (MAX_OUTPUTS N) (branch_address N (sch_key s)) (sch_coin s) (queued_plans s) pays = Some (q, ps)"
    using branch_loop_ends [OF assms] by (metis surj_pair)
  then show ?thesis using True by (simp add: execute_def)
next
  case False
  show ?thesis
  proof (cases "length pays < MAX_OUTPUTS N")
    case True
    then have "\<not> length pays > MAX_OUTPUTS N - 1" by linarith
    then have "branch_loop N (MAX_OUTPUTS N - 1) addr coin q pays = Some (q, pays)" for addr coin q by - (rule trans [OF branch_loop.simps], simp only: if_False)
    then show ?thesis using True False by (simp add: execute_def Let_def)
  next
    case long: False
    then have "branch_loop N (MAX_OUTPUTS N - 1) addr coin q pays = None" for addr coin q
      using assms by (intro branch_loop_never_ends) auto
    then show ?thesis using False long by (simp add: execute_def Let_def)
  qed
qed

definition example_proc :: "(nat, nat, u64) proc_network" where
  "example_proc = \<lparr>NETWORK_NAME = [], MAX_INPUTS = 2, MAX_OUTPUTS = 3, DUST = 2, branch_address = \<lambda>k. 0, change_address = \<lambda>k. 1,
     output_kind = \<lambda>u. Branch, output_id = to_le_bytes, output_balance = \<lambda>u. \<lparr>bal_coin = Coin.Bitcoin, bal_amount = u\<rparr>,
     output_write = to_le_bytes, output_read = read_u64_le, address_to_vec = \<lambda>a. Some [of_nat a], address_from_vec = \<lambda>bs. Some (unat (hd bs)),
     address_to_string = \<lambda>a. [of_nat a], key_to_bytes = \<lambda>k. [of_nat k], key_read = \<lambda>bs. None, plan_digest = \<lambda>bs. bs\<rparr>"

definition example_pay :: "u64 \<Rightarrow> nat Payment" where
  "example_pay a = \<lparr>pay_address = 5, pay_data = None, pay_balance = \<lparr>bal_coin = Coin.Bitcoin, bal_amount = a\<rparr>\<rparr>"

definition example_scheduler :: "(nat, nat, u64) Scheduler" where
  "example_scheduler = \<lparr>sch_key = 7, sch_coin = Coin.Bitcoin, queued_plans = [], plans = [], utxos = [], payments = []\<rparr>"

theorem execute_returns_iff_witness:
  "execute example_proc [100] [example_pay 10, example_pay 10, example_pay 10] 7 example_scheduler = None \<and>
    execute example_proc [40] [example_pay 10, example_pay 10, example_pay 10, example_pay 10] 7 example_scheduler \<noteq> None"
proof -
  have two: "2 \<le> MAX_OUTPUTS example_proc" by (simp add: example_proc_def)
  have "\<not> execute example_proc [100] [example_pay 10, example_pay 10, example_pay 10] 7 example_scheduler \<noteq> None"
    unfolding execute_returns_iff [OF two] by (simp add: example_proc_def example_pay_def)
  moreover have "execute example_proc [40] [example_pay 10, example_pay 10, example_pay 10, example_pay 10] 7 example_scheduler \<noteq> None"
    unfolding execute_returns_iff [OF two] by (simp add: example_proc_def example_pay_def)
  ultimately show ?thesis by blast
qed

section \<open>Charging fees\<close>

text \<open>
  C40: the payments under a branch are lost to its fee. A branch is created with less than was expected,
  by the fee; what is left to charge is computed as the actual amount minus the expected one, which
  wraps around. It then exceeds the payments, and all of them are dropped, though the branch holds
  nearly all of their value; the change is not saved either.
\<close>

theorem branch_payments_dropped:
  assumes "map_of (queued_plans s) expected = Some (pays # rest)" and "payment_amounts pays = expected"
    and "actual < expected" and "unat expected + (unat expected - unat actual) < 2 ^ 64"
  shows "\<exists>s'. created_output N expected (Some actual) s txn = Some (s', txn) \<and> plans s' = plans s \<and> payments s' = payments s \<and>
    queued_plans s' = (if rest = [] then AList.delete expected (queued_plans s) else AList.update expected rest (queued_plans s))"
proof -
  have "expected < actual - expected" using assms(3,4) by (simp add: word_less_nat_alt unat_sub_if_size word_size)
  then show ?thesis using assms(1,2) by (simp add: created_output_def Let_def)
qed

theorem branch_payments_dropped_witness:
  "\<exists>s'. created_output example_proc 1000 (Some 990) (example_scheduler\<lparr>queued_plans := [(1000, [[example_pay 400, example_pay 600]])]\<rparr>) Map.empty = Some (s', Map.empty) \<and>
    plans s' = [] \<and> queued_plans s' = []"
  using branch_payments_dropped [of "example_scheduler\<lparr>queued_plans := [(1000, [[example_pay 400, example_pay 600]])]\<rparr>" 1000
      "[example_pay 400, example_pay 600]" "[]" 990 example_proc Map.empty]
  by (auto simp: example_pay_def example_scheduler_def)

abbreviation nat_amounts :: "'a Payment list \<Rightarrow> nat" where
  "nat_amounts ps \<equiv> \<Sum>p\<leftarrow>ps. unat (pay_amount p)"

lemma charge_nat: "a \<le> l \<Longrightarrow> a \<le> p \<Longrightarrow> q + (l - a) = r \<Longrightarrow> p - a + q + l = p + r" for a l p q r :: nat
  by simp

lemma amortize_round_spec:
  assumes "amortize_round per over ps left = (ps', left')" and "unat per * length ps + unat over \<le> unat left" "length ps \<noteq> 0 \<or> over = 0"
  shows "nat_amounts ps' + unat left = nat_amounts ps + unat left' \<and> length ps' = length ps \<and>
    list_all2 (\<lambda>p p'. pay_address p' = pay_address p \<and> pay_data p' = pay_data p \<and> pay_amount p' \<le> pay_amount p) ps ps'"
  using assms
proof (induction ps arbitrary: over left ps' left')
  case (Cons p ps)
  let ?c = "min (pay_amount p) (per + over)"
  obtain qs where qs: "amortize_round per 0 ps (left - ?c) = (qs, left')"
    "ps' = p\<lparr>pay_balance := (pay_balance p)\<lparr>bal_amount := pay_amount p - ?c\<rparr>\<rparr> # qs"
    using Cons.prems(1) by (cases "amortize_round per 0 ps (left - ?c)") (auto simp: Let_def)
  have "unat per + unat over \<le> unat left" using Cons.prems(2) by simp
  then have sum: "unat (per + over) = unat per + unat over" using unat_less_2p [of left] by (simp add: unat_word_ariths)
  then have c: "unat ?c \<le> unat per + unat over" "unat ?c \<le> unat (pay_amount p)" by (simp_all add: min_def word_le_nat_alt)
  then have "?c \<le> left" using Cons.prems(2) by (simp add: word_le_nat_alt del: min_le_iff_disj)
  then have left: "unat (left - ?c) = unat left - unat ?c" by (rule unat_sub)
  have "unat per * length ps + unat (0 :: u64) \<le> unat (left - ?c)" using left c Cons.prems(2) by simp
  from Cons.IH [OF qs(1) this] have ih: "nat_amounts qs + unat (left - ?c) = nat_amounts ps + unat left'" "length qs = length ps"
    "list_all2 (\<lambda>p p'. pay_address p' = pay_address p \<and> pay_data p' = pay_data p \<and> pay_amount p' \<le> pay_amount p) ps qs" by auto
  have "unat (pay_amount p - ?c) = unat (pay_amount p) - unat ?c" by (rule unat_sub) simp
  moreover have "pay_amount p - ?c \<le> pay_amount p" by (rule word_sub_le) simp
  moreover have "unat (pay_amount p) - unat ?c + nat_amounts qs + unat left = unat (pay_amount p) + (nat_amounts ps + unat left')"
    by (rule charge_nat [OF _ c(2)]) (use ih(1) left \<open>?c \<le> left\<close> in \<open>simp_all add: word_le_nat_alt del: min_le_iff_disj\<close>)
  ultimately show ?case using ih(2,3) by (simp add: qs(2) del: min_le_iff_disj)
qed simp

lemma amortize_spec:
  assumes "amortize ps left = Some ps'" and "length ps < 2 ^ 64"
  shows "nat_amounts ps' + unat left = nat_amounts ps \<and>
    list_all2 (\<lambda>p p'. pay_address p' = pay_address p \<and> pay_data p' = pay_data p \<and> pay_amount p' \<le> pay_amount p) ps ps'"
proof -
  define R where "R = (\<lambda>p p' :: 'a Payment. pay_address p' = pay_address p \<and> pay_data p' = pay_data p \<and> pay_amount p' \<le> pay_amount p)"
  have trans: "list_all2 R ps qs \<Longrightarrow> list_all2 R qs rs \<Longrightarrow> list_all2 R ps rs" for ps qs rs
    by (rule list_all2_trans [of R R R]) (auto simp: R_def)
  have "length ps < 2 ^ 64 \<longrightarrow> nat_amounts ps' + unat left = nat_amounts ps \<and> list_all2 R ps ps'"
  proof (rule amortize.raw_induct [where P = "\<lambda>ps left ps'. length ps < 2 ^ 64 \<longrightarrow> nat_amounts ps' + unat left = nat_amounts ps \<and> list_all2 R ps ps'", OF _ assms(1)], goal_cases)
    case (1 loop ps left ps')
    show ?case
    proof (cases "left = 0 \<or> ps = []")
      case True
      with 1(2) show ?thesis by (auto simp: R_def list_all2_refl split: if_splits)
    next
      case False
      define n where "n = (of_nat (length ps) :: u64)"
      obtain qs left' where r: "amortize_round (left div n) (left mod n) ps left = (qs, left')" by fastforce
      with 1(2) False have "loop qs left' = Some ps'" by (simp add: Let_def n_def)
      note ih = 1(1) [OF this]
      show ?thesis
      proof
        assume len: "length ps < 2 ^ 64"
        then have "unat n = length ps" by (simp add: n_def unat_of_nat)
        then have "unat (left div n) * length ps + unat (left mod n) = unat left" by (simp add: unat_div unat_mod flip: \<open>unat n = length ps\<close>)
        with amortize_round_spec [OF r] False have "nat_amounts qs + unat left = nat_amounts ps + unat left'" "length qs = length ps" "list_all2 R ps qs"
          by (auto simp: R_def)
        then show "nat_amounts ps' + unat left = nat_amounts ps \<and> list_all2 R ps ps'" using ih len trans by auto
      qed
    qed
  qed
  then show ?thesis using assms(2) by (simp add: R_def)
qed

lemma amortize_stuck:
  assumes "ps \<noteq> []" and "pay_amount (hd ps) = 0" and "left \<noteq> 0" and "unat left < length ps" and "length ps < 2 ^ 64"
  shows "amortize ps left = None"
proof (rule ccontr)
  assume "amortize ps left \<noteq> None"
  then obtain r where r: "amortize ps left = Some r" by blast
  define stuck where "stuck = (\<lambda>ps (left :: u64). ps \<noteq> [] \<and> pay_amount (hd ps :: 'a Payment) = 0 \<and> left \<noteq> 0 \<and> unat left < length ps \<and> length ps < 2 ^ 64)"
  have same: "amortize_round 0 0 ps left = (ps, left)" for ps :: "'a Payment list" and left by (induction ps) auto
  have "\<not> stuck ps left"
  proof (rule amortize.raw_induct [where P = "\<lambda>ps left r. \<not> stuck ps left", OF _ r], goal_cases)
    case (1 loop ps left r)
    show ?case
    proof
      assume s: "stuck ps left"
      then obtain p qs where ps: "ps = p # qs" "pay_amount p = 0" by (cases ps) (auto simp: stuck_def)
      define n where "n = (of_nat (length ps) :: u64)"
      have "unat n = length ps" using s by (simp add: n_def stuck_def unat_of_nat)
      then have "left < n" using s by (simp add: stuck_def word_less_nat_alt)
      then have "left div n = 0" "left mod n = left" by (simp_all add: word_unat_eq_iff unat_div unat_mod word_less_nat_alt)
      then have "amortize_round (left div n) (left mod n) ps left = (ps, left)" using ps same by simp
      then have "loop ps left = Some r" using 1(2) s by (simp add: stuck_def n_def Let_def)
      from 1(1) [OF this] s show False by simp
    qed
  qed
  then show False using assms by (simp add: stuck_def)
qed

section \<open>What is planned\<close>

text \<open>The payments to others that the scheduler still has to make, and what a plan has to satisfy.\<close>

definition pending :: "('a, 'g, 'o) proc_network \<Rightarrow> ('a, 'g, 'o) Scheduler \<Rightarrow> 'a Payment multiset" where
  "pending N s = mset (leaves (branch_address N (sch_key s)) (payments s @ all_plans (queued_plans s) @ all_plans (plans s)))"

definition planned :: "('a, 'g, 'o) proc_network \<Rightarrow> 'g \<Rightarrow> ('a, 'g, 'o) Plan list \<Rightarrow> 'a Payment multiset" where
  "planned N k pls = mset (leaves (branch_address N k) (concat (map plan_payments pls)))"

definition plan_fits :: "('a, 'g, 'o) proc_network \<Rightarrow> ('a, 'g, 'o) Plan \<Rightarrow> bool" where
  "plan_fits N p \<longleftrightarrow> length (plan_inputs p) \<le> MAX_INPUTS N \<and>
     length (plan_payments p) + (if plan_change p = None then 0 else 1) \<le> MAX_OUTPUTS N \<and>
     payment_amounts (plan_payments p) \<le> sum_list (map (out_amount N) (plan_inputs p))"

lemma planned_simps [simp]: "planned N k [] = {#}" "planned N k (p # pls) = mset (leaves (branch_address N k) (plan_payments p)) + planned N k pls"
  "planned N k (pls @ pls') = planned N k pls + planned N k pls'"
  by (simp_all add: planned_def)

lemma pending_payments_simps [simp]: "pending N (s\<lparr>utxos := us\<rparr>) = pending N s"
  "pending N (s\<lparr>payments := ps @ qs\<rparr>) = mset (leaves (branch_address N (sch_key s)) ps) + pending N (s\<lparr>payments := qs\<rparr>)"
  by (simp_all add: pending_def)

lemma pop_plan:
  assumes "distinct (map fst q)" and "map_of q a = Some (ps # rest)"
  shows "mset (leaves addr (all_plans q)) =
    mset (leaves addr ps) + mset (leaves addr (all_plans (if rest = [] then AList.delete a q else AList.update a rest q)))"
  using assms
proof (induction q)
  case (Cons e q)
  obtain b qs where e: "e = (b, qs)" by fastforce
  show ?case
  proof (cases "b = a")
    case True
    then have "AList.delete a q = q" using Cons.prems(1) by (simp add: e AList.delete_eq filter_id_conv image_iff split_beta)
    then show ?thesis using True Cons.prems(2) by (simp add: e)
  qed (use Cons in \<open>simp add: e\<close>)
qed simp

lemma execute_spec:
  assumes "execute N ins pays k s = Some (s', tx)" and "0 < MAX_OUTPUTS N"
    and "length ins \<le> MAX_INPUTS N" and "payment_amounts pays \<le> sum_list (map (out_amount N) ins)"
  shows "\<exists>queued. s' = s\<lparr>queued_plans := queued\<rparr> \<and> plan_inputs tx = ins \<and> plan_fits N tx \<and>
    planned N (sch_key s) [tx] + pending N s' = mset (leaves (branch_address N (sch_key s)) pays) + pending N s"
proof -
  obtain queued pays' where
    r: "branch_loop N (if sum_list (map (out_amount N) ins) \<noteq> payment_amounts pays then MAX_OUTPUTS N - 1 else MAX_OUTPUTS N)
      (branch_address N (sch_key s)) (sch_coin s) (queued_plans s) pays = Some (queued, pays')"
    and s': "s' = s\<lparr>queued_plans := queued\<rparr>" and tx: "plan_inputs tx = ins" "plan_payments tx = pays'"
      "plan_change tx = None \<longleftrightarrow> sum_list (map (out_amount N) ins) = payment_amounts pays"
    using assms(1) by (auto simp: execute_def Let_def split: Option.bind_splits)
  note b = branch_loop_spec [OF r]
  then have "plan_fits N tx" using assms(2-4) tx by (auto simp: plan_fits_def split: if_splits)
  moreover have "planned N (sch_key s) [tx] + pending N s' = mset (leaves (branch_address N (sch_key s)) pays) + pending N s"
    using b by (simp add: s' tx pending_def ac_simps)
  ultimately show ?thesis using s' tx by blast
qed

lemma add_outputs_spec:
  assumes "add_outputs N us k s = Some (s', pls)" and "distinct (map fst (plans s))" and "0 < MAX_OUTPUTS N" and "0 < MAX_INPUTS N"
  shows "list_all (plan_fits N) pls \<and> distinct (map fst (plans s')) \<and> sch_key s' = sch_key s \<and> payments s' = payments s \<and>
    mset (utxos s') + mset (concat (map plan_inputs pls)) = mset (utxos s) + mset us \<and>
    planned N (sch_key s) pls + pending N s' = pending N s"
  using assms
proof (induction us arbitrary: s pls)
  case (Cons u us)
  show ?case
  proof (cases "if output_kind N u = Branch then map_of (plans s) (out_amount N u) else None")
    case None
    with Cons.prems(1) have "add_outputs N us k (s\<lparr>utxos := utxos s @ [u]\<rparr>) = Some (s', pls)" by simp
    from Cons.IH [OF this] Cons.prems(2-4) show ?thesis by simp
  next
    case (Some qs)
    then have m: "map_of (plans s) (out_amount N u) = Some qs" by (simp split: if_splits)
    from Some Cons.prems(1) obtain pays rest where qs: "qs = pays # rest" by (cases qs) auto
    let ?s = "s\<lparr>plans := (if rest = [] then AList.delete (out_amount N u) (plans s) else AList.update (out_amount N u) rest (plans s))\<rparr>"
    from Some qs Cons.prems(1) obtain s1 tx txs where le: "payment_amounts pays \<le> out_amount N u" and
      e: "execute N [u] pays k ?s = Some (s1, tx)" and a: "add_outputs N us k s1 = Some (s', txs)" and pls: "pls = tx # txs"
      by (auto split: if_splits Option.bind_splits)
    have "payment_amounts pays \<le> sum_list (map (out_amount N) [u])" using le by simp
    from execute_spec [OF e Cons.prems(3) _ this] Cons.prems(4) obtain queued where s1: "s1 = ?s\<lparr>queued_plans := queued\<rparr>" and
      tx: "plan_inputs tx = [u]" "plan_fits N tx" "planned N (sch_key s) [tx] + pending N s1 = mset (leaves (branch_address N (sch_key s)) pays) + pending N ?s"
      by auto
    have d: "distinct (map fst (plans s1))" using Cons.prems(2) by (simp add: s1 distinct_update distinct_delete)
    have "pending N s = mset (leaves (branch_address N (sch_key s)) pays) + pending N ?s"
      using pop_plan [OF Cons.prems(2) m [unfolded qs]] by (simp add: pending_def)
    moreover have key: "sch_key s1 = sch_key s" by (simp add: s1)
    moreover note ih = Cons.IH [OF a d Cons.prems(3,4)]
    ultimately have "planned N (sch_key s) pls + pending N s' = pending N s" using tx(3) by (simp add: pls add.assoc)
    moreover have "utxos s1 = utxos s" "payments s1 = payments s" by (simp_all add: s1)
    ultimately show ?thesis using ih tx key by (simp add: pls)
  qed
qed simp

lemma concat_chunks: "0 < n \<Longrightarrow> concat (chunks n xs) = xs"
proof (induction n xs rule: chunks.induct)
  case (1 n xs)
  then show ?case by (cases "xs = []") (simp_all add: chunks.simps [of n xs] chunks.simps [of n "[]"])
qed

lemma length_chunk: "c \<in> set (chunks n xs) \<Longrightarrow> length c \<le> n"
proof (induction n xs rule: chunks.induct)
  case (1 n xs)
  then show ?case by (cases "n = 0 \<or> xs = []") (auto simp: chunks.simps [of n xs])
qed

lemma split_chunks_spec:
  assumes "split_chunks cs = (aggs, r)"
  shows "concat aggs @ (case r of None \<Rightarrow> [] | Some u \<Rightarrow> [u]) = concat cs" and "set aggs \<subseteq> set cs"
proof -
  show "set aggs \<subseteq> set cs" using assms by (auto simp: split_chunks_def dest: in_set_butlastD split: if_splits)
  show "concat aggs @ (case r of None \<Rightarrow> [] | Some u \<Rightarrow> [u]) = concat cs"
  proof (cases "cs \<noteq> [] \<and> length (last cs) = 1")
    case True
    then have "last cs = [hd (last cs)]" by (cases "last cs") auto
    then have "concat cs = concat (butlast cs) @ [hd (last cs)]" using True by (metis append_butlast_last_id concat.simps concat_append append_Nil2)
    then show ?thesis using True assms by (auto simp: split_chunks_def)
  qed (use assms in \<open>auto simp: split_chunks_def\<close>)
qed

lemma take_payments_spec:
  "take_payments bal ps = (ex, wait) \<Longrightarrow> ex @ wait = ps \<and> payment_amounts ex \<le> bal \<and> nat_amounts ex \<le> unat bal"
proof (induction ps arbitrary: bal ex wait)
  case (Cons p ps)
  show ?case
  proof (cases "pay_amount p \<le> bal")
    case True
    obtain ex' where e: "take_payments (bal - pay_amount p) ps = (ex', wait)" "ex = p # ex'"
      using Cons.prems True by (cases "take_payments (bal - pay_amount p) ps") auto
    from Cons.IH [OF e(1)] have ih: "ex' @ wait = ps" "payment_amounts ex' \<le> bal - pay_amount p" "nat_amounts ex' \<le> unat (bal - pay_amount p)" by auto
    have u: "unat (bal - pay_amount p) = unat bal - unat (pay_amount p)" using True by (rule unat_sub)
    have "pay_amount p + payment_amounts ex' \<le> bal"
      using ih(2) u True unat_less_2p [of bal] by (simp add: word_le_nat_alt unat_word_ariths)
    with ih u True show ?thesis by (simp add: e(2) word_le_nat_alt)
  qed (use Cons.prems in auto)
qed simp

lemma spend_spec:
  assumes "(if ex \<noteq> [] then map_option (\<lambda>(s, plan). (s, pls @ [plan])) (execute N c ex k s) else Some (s\<lparr>utxos := c\<rparr>, pls)) = Some (s', pls')"
    and "utxos s = []" and "0 < MAX_OUTPUTS N" and "length c \<le> MAX_INPUTS N" and "payment_amounts ex \<le> sum_list (map (out_amount N) c)"
  shows "\<exists>new. pls' = pls @ new \<and> list_all (plan_fits N) new \<and> plans s' = plans s \<and> sch_key s' = sch_key s \<and> payments s' = payments s \<and>
    mset (utxos s') + mset (concat (map plan_inputs new)) = mset c \<and> length (utxos s') \<le> MAX_INPUTS N \<and>
    planned N (sch_key s) new + pending N s' = mset (leaves (branch_address N (sch_key s)) ex) + pending N s"
proof (cases "ex = []")
  case False
  with assms(1) obtain tx where e: "execute N c ex k s = Some (s', tx)" "pls' = pls @ [tx]" by auto
  from execute_spec [OF this(1) assms(3-5)] obtain queued where
    "s' = s\<lparr>queued_plans := queued\<rparr>" "plan_inputs tx = c" "plan_fits N tx"
    "planned N (sch_key s) [tx] + pending N s' = mset (leaves (branch_address N (sch_key s)) ex) + pending N s" by blast
  with e(2) assms(2) show ?thesis by (intro exI [of _ "[tx]"]) simp
qed (use assms in auto)

lemma aggregate_plan_simps [simp]: "plan_inputs (aggregate_plan N k k' ins) = ins" "plan_payments (aggregate_plan N k k' ins) = []"
  "plan_fits N (aggregate_plan N k k' ins) \<longleftrightarrow> length ins \<le> MAX_INPUTS N \<and> 0 < MAX_OUTPUTS N"
  by (auto simp: aggregate_plan_def plan_fits_def)

lemma aggregates_spec:
  assumes "\<forall>c \<in> set cs. length c \<le> MAX_INPUTS N" and "0 < MAX_OUTPUTS N"
  shows "list_all (plan_fits N) (map (aggregate_plan N k k') cs)" and "concat (map plan_inputs (map (aggregate_plan N k k') cs)) = concat cs"
  using assms by (induction cs) auto

lemma planned_aggregates [simp]: "planned N k'' (map (aggregate_plan N k k') cs) = {#}"
  by (induction cs) auto

text \<open>
  C10: scheduling neither loses nor duplicates anything. Every output is kept or is the input of exactly
  one plan, and every payment to others is planned, queued under a branch or kept, exactly once; the
  payments to the scheduler's own branch address are not taken. Every plan is within the
  limits on inputs and outputs, its change included, and pays no more than its inputs.
\<close>

theorem schedule_conserves:
  assumes "schedule N new_utxos new_payments k force s txn = Some (s', txn', pls)"
    and "distinct (map fst (plans s))" and "0 < MAX_OUTPUTS N" and "0 < MAX_INPUTS N"
  shows "mset (utxos s') + mset (concat (map plan_inputs pls)) = mset (utxos s) + mset new_utxos \<and>
    planned N (sch_key s) pls + pending N s' = pending N s + mset (leaves (branch_address N (sch_key s)) new_payments) \<and>
    list_all (plan_fits N) pls \<and> distinct (map fst (plans s'))"
proof -
  let ?new = "leaves (branch_address N (sch_key s)) new_payments"
  from assms(1) obtain s1 pls1 where a: "add_outputs N new_utxos k s = Some (s1, pls1)"
    by (auto simp: schedule_def Let_def split: if_splits Option.bind_splits)
  note r1 = add_outputs_spec [OF a assms(2-4)]
  show ?thesis
  proof (cases "utxos s1 = []")
    case True
    with assms(1) a have "s' = s1\<lparr>payments := payments s1 @ ?new\<rparr>" "pls = pls1"
      by (auto simp: schedule_def Let_def leaves_def split: if_splits)
    with r1 True show ?thesis by (auto simp: pending_def leaves_def ac_simps)
  next
    case False
    let ?cs = "chunks (MAX_INPUTS N) (sort_key (\<lambda>u. - uint (out_amount N u)) (utxos s1))"
    have "sort_key (\<lambda>u. - uint (out_amount N u)) (utxos s1) \<noteq> []" using False by (metis set_empty set_sort)
    then obtain c ct where cs: "?cs = c # ct" using assms(4) by (subst (asm) chunks.simps) auto
    obtain aggs restore where sp: "split_chunks ct = (aggs, restore)" by fastforce
    obtain ex wait where tp: "take_payments (sum_list (map (out_amount N) c)) (payments s1 @ ?new) = (ex, wait)" by fastforce
    let ?s2 = "s1\<lparr>utxos := [], payments := wait\<rparr>"
    let ?pls2 = "pls1 @ map (aggregate_plan N (sch_key s1) k) aggs"
    obtain s3 pls3 where
      ex: "(if ex \<noteq> [] then map_option (\<lambda>(s, plan). (s, ?pls2 @ [plan])) (execute N c ex k ?s2) else Some (?s2\<lparr>utxos := c\<rparr>, ?pls2)) = Some (s3, pls3)" and
      s': "s' = s3\<lparr>utxos := (if force then [] else utxos s3) @ (case restore of None \<Rightarrow> [] | Some u \<Rightarrow> [u])\<rparr>" and
      pls: "pls = pls3 @ (if force \<and> utxos s3 \<noteq> [] then [aggregate_plan N (sch_key s3) k (utxos s3)] else [])"
      using assms(1) False tp
      by (auto simp: schedule_def Let_def a cs sp leaves_def split: if_splits Option.bind_splits option.splits)
    have len: "length d \<le> MAX_INPUTS N" if "d \<in> set (c # ct)" for d using that length_chunk [of d "MAX_INPUTS N"] by (metis cs)
    have outs: "mset c + mset (concat ct) = mset (utxos s1)" using concat_chunks [OF assms(4), of "sort_key (\<lambda>u. - uint (out_amount N u)) (utxos s1)"]
      by (simp add: cs flip: mset_append)
    note pay = take_payments_spec [OF tp]
    from spend_spec [OF ex _ assms(3)] len pay obtain new where n: "pls3 = ?pls2 @ new" "list_all (plan_fits N) new" "plans s3 = plans s1" "sch_key s3 = sch_key s1"
      "mset (utxos s3) + mset (concat (map plan_inputs new)) = mset c" "length (utxos s3) \<le> MAX_INPUTS N"
      "planned N (sch_key s1) new + pending N s3 = mset (leaves (branch_address N (sch_key s1)) ex) + pending N ?s2" by auto
    have "leaves (branch_address N (sch_key s)) (ex @ wait) = leaves (branch_address N (sch_key s)) (payments s1) @ ?new"
      using pay by (simp add: leaves_def)
    from arg_cong [OF this, of mset] have "mset (leaves (branch_address N (sch_key s)) ex) + mset (leaves (branch_address N (sch_key s)) wait) =
      mset (leaves (branch_address N (sch_key s)) (payments s1)) + mset ?new" by simp
    moreover have key: "sch_key s1 = sch_key s" using r1 by simp
    ultimately have p2: "mset (leaves (branch_address N (sch_key s)) ex) + pending N ?s2 = pending N s1 + mset ?new"
      by (simp add: pending_def)
    have "mset (concat aggs) + mset (case restore of None \<Rightarrow> [] | Some u \<Rightarrow> [u]) = mset (concat ct)"
      using split_chunks_spec(1) [OF sp] by (metis mset_append)
    then have "mset (utxos s') + mset (concat (map plan_inputs pls)) = mset (utxos s1) + mset (concat (map plan_inputs pls1))"
      by (simp add: s' pls n(1) comp_def flip: outs n(5)) (auto simp: ac_simps)
    moreover have "planned N (sch_key s) pls + pending N s' = planned N (sch_key s) pls1 + (pending N s1 + mset ?new)"
      using n(7) p2 r1 by (simp add: s' pls n(1) add.assoc)
    moreover have short: "\<forall>d \<in> set aggs. length d \<le> MAX_INPUTS N" using split_chunks_spec(2) [OF sp] len by auto
    moreover have "list_all (plan_fits N) pls" using r1 n(2,6) aggregates_spec(1) [OF short assms(3)] assms(3) by (simp add: pls n(1))
    ultimately show ?thesis using r1 n(3) by (simp add: s' add.assoc [symmetric])
  qed
qed

theorem schedule_conserves_witness:
  "\<exists>s' txn' pls. schedule example_proc [20, 100, 30] [example_pay 10, example_pay 15] 7 False example_scheduler Map.empty = Some (s', txn', pls) \<and>
    utxos s' = [20] \<and> length pls = 1 \<and> mset (utxos s') + mset (concat (map plan_inputs pls)) = {#20, 100, 30#} \<and>
    planned example_proc 7 pls + pending example_proc s' = {#example_pay 10, example_pay 15#}"
proof -
  have "map_option (\<lambda>(s', _, pls). (utxos s', length pls)) (schedule example_proc [20, 100, 30] [example_pay 10, example_pay 15] 7 False example_scheduler Map.empty) = Some ([20], 1)"
    by (simp add: schedule_def Let_def execute_def branch_loop.simps chunks.simps split_chunks_def scheduler_save_def scheduler_serialize_def
        write_plans_def write_list_def write_len_def example_proc_def example_scheduler_def example_pay_def)
  then obtain s' txn' pls where r: "schedule example_proc [20, 100, 30] [example_pay 10, example_pay 15] 7 False example_scheduler Map.empty = Some (s', txn', pls)"
    "utxos s' = [20]" "length pls = 1" by auto
  from schedule_conserves [OF r(1)] r show ?thesis
    by - (rule exI [of _ s'], rule exI [of _ txn'], rule exI [of _ pls], simp add: example_proc_def example_scheduler_def example_pay_def pending_def)
qed

end
