(* ===== verification/Spec2Isabelle.thy ===== *)
theory Spec2Isabelle
  imports Dex_Quotes Messages Validator_Sets_Stake In_Instructions_Props Signals_Props Message_Queue Tendermint_Faults Tributary_Network_Props Scheduler_Props
begin

text \<open>
  A verification library for Serai, a decentralized exchange over a validator-run custody of external
  coins. All paths below are under \<open>src/\<close>.

  \<^bold>\<open>The system.\<close> A Substrate chain (\<open>substrate\<close>) keeps the ledger, the exchange, the validators'
  stake and the batches of coins that arrive. Validators of an external network form a set, which
  generates a key and custodies that network's coins. For each set its validators run a chain of their
  own, a Tributary (\<open>coordinator/tributary\<close>), under Tendermint consensus, on which they agree on the
  data of key generation and signing. A processor (\<open>processor\<close>) per network plans and signs the
  transactions that spend the coins. Coordinator and processors talk through a message queue
  (\<open>message-queue\<close>). The off-chain services keep their state in a key-value database (\<open>common/db\<close>),
  and their cryptography is in \<open>crypto\<close>.

  \<^bold>\<open>How the code is modelled.\<close> Rust's integers are words of their width, and a bare operator wraps as
  in the release profile; checked and saturating operations are written out. A \<open>Result\<close> is a sum with
  the error on the left, composed by \<open>tri\<close> and \<open>ensure\<close>; a panic of an unwrap, index, assertion or
  division is \<open>None\<close>. A storage item of a pallet is a field of the runtime's record; a map whose order
  matters is a sorted list of raw keys. A hash map of the services is an association list. What is
  not in the repository (hashes, signature schemes, the clock, an external network, the Tributary's
  application) is a field of a configuration record, and theorems name what they need of it.

  \<^bold>\<open>Shared theories.\<close>
  \<^item> \<open>Prelude\<close>: integers, results, lists and the collections of rewrite rules.
  \<^item> \<open>Primitives\<close> (\<open>substrate/primitives\<close>): networks, coins, amounts, balances, bounded data, system
    addresses and the key order of the oracle.
  \<^item> \<open>Scale\<close>: SCALE encodings with readers, which show them prefix-free; \<open>Messages\<close>: the messages
    validators sign cannot be mistaken for one another.

  \<^bold>\<open>The pallets.\<close> Each has its state, its operations with every branch, and a step relation over all
  of them for the invariants.
  \<^item> \<open>Coins\<close> (\<open>substrate/coins\<close>): the supply is the sum of balances in every reachable state; a transfer
    refines one of an abstract ledger. The locale \<open>ledger\<close> is its contract with the Dex.
  \<^item> \<open>Dex_Oracle\<close>, \<open>Dex\<close>, \<open>Dex_Pricing\<close>, \<open>Dex_Swaps\<close>, \<open>Dex_Hooks\<close>, \<open>Dex_Quotes\<close>, \<open>Dex_Shares\<close>,
    \<open>Dex_Example\<close> (\<open>substrate/dex/pallet\<close>): pricing, pools, swaps along paths, liquidity, the price window
    and the hooks. Both ways of pricing are instances of the locale \<open>constant_product\<close>. No sequence
    of operations lowers the value of a pool's share; swaps move what was quoted; the block-end hook
    keeps the oracle equal to the window of prices.
  \<^item> \<open>Validator_Sets\<close>, \<open>Validator_Sets_Alloc\<close>, \<open>_Shares\<close>, \<open>_Calls\<close>, \<open>_Props\<close>, \<open>_Invariant\<close>, \<open>_Safety\<close>, \<open>_Stake\<close>,
    \<open>_Example\<close> (\<open>substrate/validator-sets\<close>): allocations and their sorted iteration, selection of sets,
    the reduction of key shares, handover and rotation, slashing, every extrinsic and the validation
    of unsigned ones. Reachable sets are well-formed, the rotation never panics, stake is conserved,
    and deallocations are paid after the handover.
  \<^item> \<open>In_Instructions\<close>, \<open>_Frames\<close>, \<open>_Props\<close> (\<open>substrate/in-instructions\<close>): batches are authorised, in order
    and executed once, and mint within what the stake secures.
  \<^item> \<open>Signals\<close>, \<open>Signals_Props\<close> (\<open>substrate/signals\<close>): what it takes to lock in a retirement, and that it stands.

  \<^bold>\<open>The services.\<close>
  \<^item> \<open>Database\<close> (\<open>common/db\<close>, and the cosign channel of \<open>coordinator/src/substrate/cosign.rs\<close>): keys, both
    transaction backends as interpretations of one locale, and channels, which refine a list.
  \<^item> \<open>Message_Queue\<close> (\<open>message-queue/src\<close>): messages are delivered in order, each intent once.
  \<^item> \<open>Transcript\<close>, \<open>Multiexp\<close>, \<open>Multiexp_Props\<close>, \<open>Schnorr\<close> (\<open>crypto/transcript\<close>, \<open>crypto/multiexp\<close>,
    \<open>crypto/ciphersuite\<close>, \<open>crypto/schnorr\<close>): transcripts bind what was appended, the windowed algorithms
    compute the sum of multiples over any group, the batch verifier blames an invalid statement, and
    aggregated signatures verify.
  \<^item> \<open>Tendermint\<close>, \<open>Tendermint_Votes\<close>, \<open>_Invariant\<close>, \<open>_Agreement\<close>, \<open>_Faults\<close>
    (\<open>coordinator/tributary/tendermint/src\<close>): the machine of \<open>lib.rs\<close> with its handler \<open>message\<close> and loop
    \<open>run_event\<close>. Agreement for any delivery of messages with less than a third of the weight
    dishonest, for machines that keep their state; two messages that are mishandled, one in a run
    that is reached with an honest majority.
  \<^item> \<open>Tributary\<close>, \<open>Tributary_Chain\<close>, \<open>_Blocks\<close>, \<open>_Props\<close>, \<open>_Faults\<close> (\<open>coordinator/tributary/src\<close>):
    transactions, blocks, Merkle roots, provided transactions, mempool and blockchain in one database.
    An invariant over all operations and restarts; two ways in which it goes wrong.
  \<^item> \<open>Tributary_Network\<close>, \<open>Tributary_Network_Props\<close> (\<open>tendermint/mod.rs\<close> and \<open>lib.rs\<close> there): the validators,
    commits and proposers, and a node's handlers.
  \<^item> \<open>Scheduler\<close>, \<open>Scheduler_Props\<close> (\<open>plan.rs\<close>, \<open>multisigs/scheduler.rs\<close> and \<open>networks/mod.rs\<close> of
    \<open>processor/src\<close>): scheduling conserves outputs and payments and keeps to the limits; when planning
    and charging a fee end, and how a branch's payments are lost.

  \<^bold>\<open>Termination.\<close> No definition has fuel. Loops are structural or have a termination proof, except four
  that are partial functions with \<open>None\<close> for not returning: \<open>weight_loop\<close> (drawing the weight of a
  signature from a digest), \<open>later_commit_round\<close> (the search for the round of a commit), and
  \<open>branch_loop\<close> and \<open>amortize\<close> of the scheduler. \<open>weight_loop\<close> is shown to return for digests and
  weights of whole 64-bit words; \<open>branch_loop\<close> exactly
  when no change is due or the payments are few; \<open>amortize\<close> not to return in one case.

  \<^bold>\<open>Hypotheses.\<close> Digests are taken to have no collision among the inputs at hand where binding is shown;
  signatures are taken unforgeable for honest validators in the agreement of Tendermint, as a property
  of what is sent. Each numbered theorem with a hypothesis is followed by a concrete instance of it.

  \<^bold>\<open>Not modelled.\<close> The runtime's wiring, the node and the clients (configuration, RPC and generated code);
  the coordinator's tasks around the Tributary and the processor's signing, scanning and
  multisig rotation (networking, RPC and protocol machines of \<open>dkg\<close> and \<open>frost\<close>); the distributed key
  generation, FROST and discrete log equality proofs, whose security is computational; curve
  arithmetic, which is a parameter; the bitcoin, ethereum and monero libraries; deployment, shims,
  patches and tests. Concurrency between tasks is not modelled: a handler runs to its end.
\<close>

end
